(* ===== verification/Prelude.thy ===== *)
theory Prelude
  imports Main "HOL-Library.Word"
begin

text \<open>
  What every component of the development shares: the names of the machine integers, the
  saturating operations of Rust's integers, decimal rendering (what \<open>format!("{}")\<close> prints for an
  unsigned integer), a few list scans that Rust writes with iterators, and lemmas about them.
  The collections \<open>render_simps\<close> and \<open>govern_simps\<close> are filled by the components with the
  unfoldings their proofs use.
\<close>

named_theorems render_simps \<open>unfoldings of the planner's small operations\<close>
named_theorems govern_simps \<open>unfoldings of the governor's small operations\<close>

subsection \<open>Machine integers\<close>

type_synonym u8 = "8 word"
type_synonym u32 = "32 word"
type_synonym u64 = "64 word"

definition saturating_sub :: "'a::len word \<Rightarrow> 'a word \<Rightarrow> 'a word" where
  "saturating_sub a b = (if b \<le> a then a - b else 0)"

definition saturating_add :: "'a::len word \<Rightarrow> 'a word \<Rightarrow> 'a word" where
  "saturating_add a b = (if uint a + uint b < 2 ^ LENGTH('a) then a + b else - 1)"

lemma unat_saturating_sub [simp]: "unat (saturating_sub a b) = unat a - unat b"
proof (cases "b \<le> a")
  case True
  then show ?thesis by (simp add: saturating_sub_def unat_sub)
next
  case False
  then show ?thesis by (simp add: saturating_sub_def word_le_nat_alt)
qed

lemma sum_fits:
  fixes a b :: "'a::len word"
  shows "uint a + uint b < 2 ^ LENGTH('a) \<longleftrightarrow> unat a + unat b < 2 ^ LENGTH('a)"
proof -
  have "uint a + uint b = int (unat a + unat b)" by simp
  moreover have "(2 :: int) ^ LENGTH('a) = int (2 ^ LENGTH('a))" by simp
  ultimately show ?thesis by (simp only: of_nat_less_iff)
qed

lemma unat_saturating_add:
  fixes a b :: "'a::len word"
  shows "unat (saturating_add a b) = min (unat a + unat b) (2 ^ LENGTH('a) - 1)"
proof (cases "unat a + unat b < 2 ^ LENGTH('a)")
  case True
  then show ?thesis by (simp add: saturating_add_def sum_fits unat_word_ariths)
next
  case False
  have "unat (- 1 :: 'a word) = 2 ^ LENGTH('a) - 1" by (simp add: unsigned_minus_1_eq_mask mask_eq_exp_minus_1)
  with False show ?thesis by (simp add: saturating_add_def sum_fits)
qed

lemma saturating_sub_le: "saturating_sub a b \<le> a"
  by (simp add: word_le_nat_alt)

lemma unat_add_no_wrap:
  fixes a b :: "'a::len word"
  assumes "unat a + unat b < 2 ^ LENGTH('a)"
  shows "unat (a + b) = unat a + unat b"
  using assms
  by (simp add: unat_word_ariths)

subsection \<open>Results\<close>

text \<open>Rust's \<open>?\<close> on a \<open>Result\<close>: an error leaves at once, a value goes on.\<close>

abbreviation and_then :: "'e + 'a \<Rightarrow> ('a \<Rightarrow> 'e + 'b) \<Rightarrow> 'e + 'b" where
  "and_then r f \<equiv> (case r of Inl e \<Rightarrow> Inl e | Inr x \<Rightarrow> f x)"

lemma and_then_Inr_iff: "and_then r f = Inr y \<longleftrightarrow> (\<exists>x. r = Inr x \<and> f x = Inr y)"
  by (cases r) auto

lemma and_then_Inl_iff: "and_then r f = Inl e \<longleftrightarrow> r = Inl e \<or> (\<exists>x. r = Inr x \<and> f x = Inl e)"
  by (cases r) auto

lemma and_then_InrE [elim]:
  assumes "and_then r f = Inr y"
  obtains x where "r = Inr x" "f x = Inr y"
  using assms by (cases r) auto

fun try_map :: "('a \<Rightarrow> 'e + 'b) \<Rightarrow> 'a list \<Rightarrow> 'e + 'b list" where
  "try_map f [] = Inr []"
| "try_map f (x # xs) = and_then (f x) (\<lambda>y. and_then (try_map f xs) (\<lambda>ys. Inr (y # ys)))"

lemma try_map_Inr: "try_map f xs = Inr ys \<Longrightarrow> list_all2 (\<lambda>x y. f x = Inr y) xs ys"
  by (induction xs arbitrary: ys) (auto simp: and_then_Inr_iff)

lemma try_map_Inl: "try_map f xs = Inl e \<Longrightarrow> \<exists>x \<in> set xs. f x = Inl e"
  by (induction xs) (auto simp: and_then_Inl_iff)

subsection \<open>Text\<close>

definition digit_char :: "int \<Rightarrow> char" where
  "digit_char n = char_of (48 + n)"

fun show_int :: "int \<Rightarrow> string" where
  "show_int n = (if n < 10 then [digit_char n] else show_int (n div 10) @ [digit_char (n mod 10)])"

declare show_int.simps [simp del]

definition show_word :: "'a::len word \<Rightarrow> string" where
  "show_word w = show_int (uint w)"

definition digits :: "char set" where
  "digits = digit_char ` {0..<10}"

text \<open>\<open>[a, b, c].join(sep)\<close>.\<close>

fun join :: "string \<Rightarrow> string list \<Rightarrow> string" where
  "join sep [] = []"
| "join sep [s] = s"
| "join sep (s # ss) = s @ sep @ join sep ss"

definition starts_with :: "string \<Rightarrow> string \<Rightarrow> bool" where
  "starts_with p s \<longleftrightarrow> take (length p) s = p"

lemma digit_char_inj: "0 \<le> m \<Longrightarrow> m < 10 \<Longrightarrow> 0 \<le> n \<Longrightarrow> n < 10 \<Longrightarrow> digit_char m = digit_char n \<Longrightarrow> m = n"
  by (auto simp: digit_char_def dest!: arg_cong [where f = "of_char :: char \<Rightarrow> int"])

lemma show_int_digits: "0 \<le> n \<Longrightarrow> set (show_int n) \<subseteq> digits"
proof (induction n rule: show_int.induct)
  case (1 n)
  then show ?case
    by (subst show_int.simps) (auto simp: digits_def)
qed

lemma show_int_nonempty [simp]: "show_int n \<noteq> []" "[] \<noteq> show_int n"
  by (subst show_int.simps, simp)+

lemma show_int_small_iff: "(\<exists>c. show_int n = [c]) \<longleftrightarrow> n < 10"
  by (subst show_int.simps) auto

lemma show_int_inj: "show_int m = show_int n \<Longrightarrow> 0 \<le> m \<Longrightarrow> 0 \<le> n \<Longrightarrow> m = n"
proof (induction m arbitrary: n rule: show_int.induct)
  case (1 m)
  have both: "m < 10 \<longleftrightarrow> n < 10"
    using show_int_small_iff [of m] show_int_small_iff [of n] "1.prems"(1) by simp
  show ?case
  proof (cases "m < 10")
    case True
    with both "1.prems" show ?thesis
      by (auto simp: show_int.simps [of n] show_int.simps [of m] dest: digit_char_inj [rotated 4])
  next
    case False
    with both "1.prems"(1) have "show_int (m div 10) = show_int (n div 10)"
      and "digit_char (m mod 10) = digit_char (n mod 10)"
      by (simp_all add: show_int.simps [of n] show_int.simps [of m])
    then have "m div 10 = n div 10" and "m mod 10 = n mod 10"
      using "1.IH" [OF False] "1.prems" by (auto dest: digit_char_inj [rotated 4])
    then show ?thesis by (metis div_mult_mod_eq)
  qed
qed

lemma show_word_inj: "show_word a = show_word b \<longleftrightarrow> a = b"
  by (auto simp: show_word_def dest!: show_int_inj intro: unsigned_word_eqI)

lemma show_word_digits: "set (show_word w) \<subseteq> digits"
  by (simp add: show_word_def show_int_digits)

lemma show_word_nonempty [simp]: "show_word w \<noteq> []"
  by (simp add: show_word_def)

text \<open>A separator that neither text uses splits a concatenation in one way only.\<close>

lemma sep_split:
  assumes "c \<notin> set xs" "c \<notin> set ys" "xs @ c # us = ys @ c # vs"
  shows "xs = ys \<and> us = vs"
  using assms
proof (induction xs arbitrary: ys)
  case Nil
  then show ?case by (cases ys) auto
next
  case (Cons x xs)
  then show ?case by (cases ys) auto
qed

lemma sep_split_iff:
  "c \<notin> set xs \<Longrightarrow> c \<notin> set ys \<Longrightarrow> xs @ c # us = ys @ c # vs \<longleftrightarrow> xs = ys \<and> us = vs"
  by (metis sep_split)

text \<open>The same where what follows the text is empty or starts with the separator.\<close>

lemma sep_split_end:
  assumes "c \<notin> set xs" "c \<notin> set ys" "us = [] \<or> hd us = c" "vs = [] \<or> hd vs = c" "xs @ us = ys @ vs"
  shows "xs = ys \<and> us = vs"
proof -
  have "takeWhile (\<lambda>a. a \<noteq> c) (zs @ ws) = zs" if "c \<notin> set zs" "ws = [] \<or> hd ws = c" for zs ws
    using that by (cases ws) (auto simp: takeWhile_append)
  then have "xs = ys" using assms by metis
  with assms(5) show ?thesis by simp
qed

subsection \<open>Lists\<close>

text \<open>\<open>Vec::dedup\<close>: of each run of equal neighbours, the first.\<close>

fun dedup :: "'a list \<Rightarrow> 'a list" where
  "dedup (x # y # zs) = (if x = y then dedup (x # zs) else x # dedup (y # zs))"
| "dedup xs = xs"

lemma set_dedup [simp]: "set (dedup xs) = set xs"
  by (induction xs rule: dedup.induct) auto

lemma find_Some_iff_first:
  "List.find P xs = Some x \<Longrightarrow> x \<in> set xs \<and> P x"
  by (auto simp: find_Some_iff)

text \<open>\<open>iter().find_map(f)\<close>.\<close>

fun find_map :: "('a \<Rightarrow> 'b option) \<Rightarrow> 'a list \<Rightarrow> 'b option" where
  "find_map f [] = None"
| "find_map f (x # xs) = (case f x of Some y \<Rightarrow> Some y | None \<Rightarrow> find_map f xs)"

lemma find_map_Some: "find_map f xs = Some y \<Longrightarrow> \<exists>x \<in> set xs. f x = Some y"
  by (induction xs) (auto split: option.splits)

lemma find_map_None: "find_map f xs = None \<longleftrightarrow> (\<forall>x \<in> set xs. f x = None)"
  by (induction xs) (auto split: option.splits)

text \<open>\<open>sort_by_key\<close> is the stable \<open>sort_key\<close> of the library; sorting keeps the members.\<close>

lemma set_sort_key_filter: "set (sort_key f (filter P xs)) = {x \<in> set xs. P x}"
  by auto

lemma find_sorted_key:
  assumes "List.find P (sort_key f xs) = Some x" "y \<in> set xs" "P y"
  shows "f x \<le> f y"
proof -
  from assms(1) obtain i where i: "i < length (sort_key f xs)" "sort_key f xs ! i = x"
    "P (sort_key f xs ! i)" "\<forall>j<i. \<not> P (sort_key f xs ! j)"
    by (auto simp: find_Some_iff)
  from assms(2) obtain j where j: "j < length (sort_key f xs)" "sort_key f xs ! j = y"
    by (metis in_set_conv_nth set_sort)
  with i assms(3) have "i \<le> j" by (metis not_le)
  with i j have "map f (sort_key f xs) ! i \<le> map f (sort_key f xs) ! j"
    by (intro sorted_nth_mono) (auto simp: sorted_sort_key)
  with i j show ?thesis by simp
qed

end
