(* ===== verification/Store.thy ===== *)
theory Store
  imports Prelude
begin

text \<open>
  The contracts of the two stores of the program. A keyed map adds an entry under a key it does not
  hold: keys stay distinct and an entry once added stays under its key. A keyed map that forgets
  also takes entries out (the governor's book of tickets by number). A keyed store only ever adds,
  and what was there before keeps its place (the planner's builder: a vector of nodes with an index
  by id); it is a keyed map.
\<close>

locale keyed_map =
  fixes inv :: "'s \<Rightarrow> bool"
    and keys :: "'s \<Rightarrow> 'k list"
    and get :: "'s \<Rightarrow> 'k \<Rightarrow> 'v option"
    and put :: "'k \<Rightarrow> 'v \<Rightarrow> 's \<Rightarrow> 's"
  assumes inv_distinct: "inv s \<Longrightarrow> distinct (keys s)"
    and get_iff: "inv s \<Longrightarrow> get s k \<noteq> None \<longleftrightarrow> k \<in> set (keys s)"
    and inv_put: "inv s \<Longrightarrow> get s k = None \<Longrightarrow> inv (put k v s)"
    and get_put: "inv s \<Longrightarrow> get s k = None \<Longrightarrow> get (put k v s) = (get s)(k \<mapsto> v)"
begin

lemma get_put_same: "inv s \<Longrightarrow> get s k = None \<Longrightarrow> get (put k v s) k = Some v"
  by (simp add: get_put)

lemma get_put_kept: "inv s \<Longrightarrow> get s k = None \<Longrightarrow> get s j = Some w \<Longrightarrow> get (put k v s) j = Some w"
  by (auto simp: get_put)

lemma set_keys_put:
  assumes "inv s" "get s k = None"
  shows "set (keys (put k v s)) = insert k (set (keys s))"
  by (rule set_eqI) (simp add: get_iff [OF inv_put [OF assms], symmetric] get_iff [OF assms(1), symmetric] get_put [OF assms])

lemma no_key_twice: "inv s \<Longrightarrow> i < length (keys s) \<Longrightarrow> j < length (keys s) \<Longrightarrow> keys s ! i = keys s ! j \<Longrightarrow> i = j"
  using inv_distinct by (metis nth_eq_iff_index_eq)

end

locale keyed_map_del = keyed_map +
  fixes del :: "'k \<Rightarrow> 's \<Rightarrow> 's"
  assumes inv_del: "inv s \<Longrightarrow> inv (del k s)"
    and get_del: "inv s \<Longrightarrow> get (del k s) = (get s)(k := None)"
begin

text \<open>What is put in and taken out leaves everything else as it was.\<close>

lemma get_del_put: "inv s \<Longrightarrow> get s k = None \<Longrightarrow> get (del k (put k v s)) = get s"
  by (auto simp: get_del get_put inv_put fun_eq_iff)

lemma set_keys_del:
  assumes "inv s"
  shows "set (keys (del k s)) = set (keys s) - {k}"
  by (rule set_eqI) (simp add: get_iff [OF inv_del [OF assms], symmetric] get_iff [OF assms, symmetric] get_del [OF assms])

end

locale keyed_store = keyed_map +
  assumes keys_put: "inv s \<Longrightarrow> get s k = None \<Longrightarrow> keys (put k v s) = keys s @ [k]"
begin

lemma keys_kept: "inv s \<Longrightarrow> get s k = None \<Longrightarrow> i < length (keys s) \<Longrightarrow> keys (put k v s) ! i = keys s ! i"
  by (simp add: keys_put nth_append)

end

end
