(* ===== verification/Float64.thy ===== *)
theory Float64
  imports Prelude Complex_Main
begin

text \<open>
  IEEE 754 binary64 arithmetic as the code uses it (Rust's \<open>f64\<close>): a finite value is the rational
  it stands for, and every operation is the exact rational result rounded to 53 significant bits,
  ties to even (\<open>rnd\<close>). Neither overflow to infinity nor subnormals are represented: every value
  the modelled code computes is zero or lies between \<open>2 powi (-100)\<close> and \<open>2 powi 200\<close>, since all its
  inputs are 32 bit integers and small constants. NaN does not arise, because every divisor is kept
  away from zero by a \<open>max(1)\<close> or a guard. \<open>f64::round\<close> (half away from zero), \<open>ceil\<close> and the
  saturating cast \<open>as u32\<close> are here too.
\<close>

type_synonym f64 = rat

subsection \<open>Rounding to 53 bits\<close>

fun nbits :: "int \<Rightarrow> nat" where
  "nbits n = (if n \<le> 0 then 0 else Suc (nbits (n div 2)))"

declare nbits.simps [simp del]

text \<open>\<open>expo x\<close> is the binary exponent of a positive \<open>x\<close>: the \<open>e\<close> with \<open>2 powi e \<le> x < 2 powi (e + 1)\<close>.\<close>

definition expo :: "rat \<Rightarrow> int" where
  "expo x = (case quotient_of x of (n, d) \<Rightarrow>
     let e = int (nbits n) - int (nbits d) in if 2 powi e \<le> x then e else e - 1)"

definition half_even :: "rat \<Rightarrow> int" where
  "half_even x =
     (let q = \<lfloor>x\<rfloor>; r = x - of_int q
      in if r < 1 / 2 \<or> (r = 1 / 2 \<and> even q) then q else q + 1)"

definition rnd_pos :: "rat \<Rightarrow> f64" where
  "rnd_pos x = (let u = 2 powi (expo x - 52) in of_int (half_even (x / u)) * u)"

definition rnd :: "rat \<Rightarrow> f64" where
  "rnd x = (if x = 0 then 0 else if x < 0 then - rnd_pos (- x) else rnd_pos x)"

definition f_add :: "f64 \<Rightarrow> f64 \<Rightarrow> f64" where "f_add a b = rnd (a + b)"
definition f_sub :: "f64 \<Rightarrow> f64 \<Rightarrow> f64" where "f_sub a b = rnd (a - b)"
definition f_mul :: "f64 \<Rightarrow> f64 \<Rightarrow> f64" where "f_mul a b = rnd (a * b)"
definition f_div :: "f64 \<Rightarrow> f64 \<Rightarrow> f64" where "f_div a b = rnd (a / b)"

text \<open>\<open>f64::from\<close> of an unsigned integer of at most 32 bits is exact.\<close>

definition f_of :: "'a::len word \<Rightarrow> f64" where
  "f_of w = of_int (uint w)"

declare of_int_uint [simp del]

text \<open>\<open>f64::round\<close>: to the nearest integer, a half away from zero.\<close>

definition f_round :: "f64 \<Rightarrow> int" where
  "f_round x = (if 0 \<le> x then \<lfloor>x + 1 / 2\<rfloor> else - \<lfloor>- x + 1 / 2\<rfloor>)"

text \<open>\<open>x as u32\<close>: towards zero, saturating at both ends.\<close>

definition as_u32 :: "int \<Rightarrow> u32" where
  "as_u32 i = (if i \<le> 0 then 0 else if 2 ^ 32 - 1 \<le> i then - 1 else of_int i)"

definition f_as_u32 :: "f64 \<Rightarrow> u32" where
  "f_as_u32 x = as_u32 \<lfloor>x\<rfloor>"

subsection \<open>The exponent\<close>

lemma nbits_bounds: "0 < n \<Longrightarrow> 2 ^ (nbits n - 1) \<le> n \<and> n < 2 ^ nbits n"
proof (induction n rule: nbits.induct)
  case (1 n)
  show ?case
  proof (cases "n div 2 = 0")
    case True
    with "1.prems" have "n = 1" by auto
    then show ?thesis by (simp add: nbits.simps)
  next
    case False
    with "1.prems" have pos: "0 < n div 2" by auto
    with "1" have IH: "2 ^ (nbits (n div 2) - 1) \<le> n div 2 \<and> n div 2 < 2 ^ nbits (n div 2)" by simp
    have s: "nbits n = Suc (nbits (n div 2))" using "1.prems" by (subst nbits.simps) simp
    have "0 < nbits (n div 2)" using pos by (simp add: nbits.simps [of "n div 2"])
    then have "nbits (n div 2) = Suc (nbits (n div 2) - 1)" by simp
    then have "(2::int) ^ nbits (n div 2) = 2 * 2 ^ (nbits (n div 2) - 1)"
      by (metis power_Suc)
    then have two: "(2::int) ^ (nbits n - 1) = 2 * 2 ^ (nbits (n div 2) - 1)" "(2::int) ^ nbits n = 2 * 2 ^ nbits (n div 2)"
      using s by simp_all
    show ?thesis unfolding two using IH by linarith
  qed
qed

lemma expo_bounds:
  assumes "0 < x"
  shows "2 powi expo x \<le> x" and "x < 2 powi (expo x + 1)"
proof -
  obtain n d where q: "quotient_of x = (n, d)" by (cases "quotient_of x")
  then have x: "x = of_int n / of_int d" and d: "0 < d"
    using quotient_of_div quotient_of_denom_pos by blast+
  from assms x d have n: "0 < n" by (auto simp: zero_less_divide_iff)
  let ?a = "nbits n" and ?b = "nbits d"
  let ?e = "int ?a - int ?b"
  have pos: "0 < ?a" "0 < ?b" using n d by (simp_all add: nbits.simps [of n] nbits.simps [of d])
  have n1: "(2::rat) ^ (?a - 1) \<le> of_int n" and n2: "of_int n < (2::rat) ^ ?a"
    using nbits_bounds [OF n] by (metis of_int_le_iff of_int_less_iff of_int_numeral of_int_power)+
  have d1: "(2::rat) ^ (?b - 1) \<le> of_int d" and d2: "of_int d < (2::rat) ^ ?b"
    using nbits_bounds [OF d] by (metis of_int_le_iff of_int_less_iff of_int_numeral of_int_power)+
  have dpos: "(0::rat) < of_int d" using d by simp
  have pe: "(2::rat) powi (int i - int j) = 2 ^ i / 2 ^ j" for i j
    by (simp add: power_int_diff)
  have low: "2 powi (?e - 1) \<le> x"
  proof -
    have "?e - 1 = int (?a - 1) - int ?b" using pos by simp
    then have "(2::rat) powi (?e - 1) = 2 ^ (?a - 1) / 2 ^ ?b" by (simp only: pe)
    also have "\<dots> \<le> of_int n / of_int d"
      using n n1 d2 dpos by (intro frac_le) auto
    finally show ?thesis by (simp add: x)
  qed
  have high: "x < 2 powi (?e + 1)"
  proof -
    have "?e + 1 = int ?a - int (?b - 1)" using pos by simp
    then have "(2::rat) powi (?e + 1) = 2 ^ ?a / 2 ^ (?b - 1)" by (simp only: pe)
    moreover have "of_int n / of_int d < (2::rat) ^ ?a / 2 ^ (?b - 1)"
      using n n2 d1 dpos by (intro frac_less) auto
    ultimately show ?thesis by (simp add: x)
  qed
  show "2 powi expo x \<le> x" "x < 2 powi (expo x + 1)"
    using low high by (auto simp: expo_def q Let_def)
qed

subsection \<open>Values that need no rounding\<close>

lemma half_even_of_int [simp]: "half_even (of_int i) = i"
  by (simp add: half_even_def)

lemma half_even_nonneg: "0 \<le> x \<Longrightarrow> 0 \<le> half_even x"
  by (auto simp: half_even_def Let_def intro: add_nonneg_nonneg)

lemma rnd_pos_dyadic:
  assumes m: "0 < m" "m \<le> 2 ^ 53"
  shows "rnd_pos (of_int m * 2 powi k) = of_int m * 2 powi k"
proof -
  define x :: rat where "x = of_int m * 2 powi k"
  define e where "e = expo x - 52"
  have x0: "0 < x" using m by (simp add: x_def)
  have lo: "2 powi (e + 52) \<le> x" using expo_bounds(1) [OF x0] by (simp add: e_def)
  have "\<exists>i. x / 2 powi e = of_int i"
  proof (cases "e \<le> k")
    case True
    then have "x / 2 powi e = of_int m * 2 powi (k - e)"
      by (simp add: x_def power_int_diff)
    also have "\<dots> = of_int (m * 2 ^ nat (k - e))"
      using True by (simp add: power_int_def)
    finally show ?thesis by blast
  next
    case False
    define j where "j = nat (e - k)"
    have j: "e = k + int j" "0 < j" using False by (simp_all add: j_def)
    have "2 powi (k + int j + 52) \<le> (of_int m :: rat) * 2 powi k" using lo j by (simp add: x_def)
    also have "(2::rat) powi (k + int j + 52) = 2 powi k * 2 ^ (j + 52)"
      by (simp add: power_int_add power_add)
    finally have "(2::rat) ^ (j + 52) \<le> of_int m"
      by (simp add: mult.commute)
    then have mj: "2 ^ (j + 52) \<le> m"
      by (metis (no_types) of_int_le_iff of_int_numeral of_int_power)
    have "j + 52 \<le> 53"
    proof (rule ccontr)
      assume "\<not> j + 52 \<le> 53"
      then have "(2::int) ^ 54 \<le> 2 ^ (j + 52)" by (intro power_increasing) auto
      with mj m show False by simp
    qed
    with j have j1: "j = 1" by simp
    with mj m have "m = 2 ^ 53" by simp
    then have "x / 2 powi e = of_int (2 ^ 52)"
      using j j1 by (simp add: x_def power_int_add)
    then show ?thesis by blast
  qed
  then obtain i where i: "x / 2 powi e = of_int i" ..
  then have "rnd_pos x = of_int i * 2 powi e"
    by (simp add: rnd_pos_def Let_def e_def [symmetric])
  also have "\<dots> = x" by (simp flip: i)
  finally show ?thesis by (simp add: x_def)
qed

lemma rnd_0 [simp]: "rnd 0 = 0"
  by (simp add: rnd_def)

lemma rnd_dyadic:
  assumes "\<bar>m\<bar> \<le> 2 ^ 53"
  shows "rnd (of_int m * 2 powi k) = of_int m * 2 powi k"
proof -
  consider "m = 0" | "0 < m" | "m < 0" by linarith
  then show ?thesis
  proof cases
    case 3
    then have "0 < - m" "- m \<le> 2 ^ 53" using assms by auto
    from rnd_pos_dyadic [OF this, of k] 3 show ?thesis
      by (simp add: rnd_def mult_neg_pos)
  next
    case 2
    then have "0 < of_int m * (2::rat) powi k" by (simp add: zero_less_power_int)
    then have "rnd (of_int m * 2 powi k) = rnd_pos (of_int m * 2 powi k)"
      by (auto simp only: rnd_def split: if_splits)
    with 2 assms rnd_pos_dyadic [of m k] show ?thesis by simp
  qed simp
qed

lemma rnd_of_int: "\<bar>i\<bar> \<le> 2 ^ 53 \<Longrightarrow> rnd (of_int i) = of_int i"
  using rnd_dyadic [of i 0] by simp

lemma rnd_of_nat: "n \<le> 2 ^ 53 \<Longrightarrow> rnd (of_nat n) = of_nat n"
  using rnd_of_int [of "int n"] by simp

lemma rnd_numeral: "numeral n \<le> (2 ^ 53 :: int) \<Longrightarrow> rnd (numeral n) = numeral n"
  using rnd_of_int [of "numeral n"] by simp

lemma rnd_1 [simp]: "rnd 1 = 1"
  using rnd_of_int [of 1] by simp

lemma rnd_nonneg: "0 \<le> x \<Longrightarrow> 0 \<le> rnd x"
  by (auto simp: rnd_def rnd_pos_def Let_def intro!: mult_nonneg_nonneg half_even_nonneg)

lemma rnd_minus: "rnd (- x) = - rnd x"
  by (auto simp: rnd_def)

lemma f_of_bounds: "0 \<le> f_of w" "f_of (w :: u32) < 2 ^ 32"
proof -
  show "0 \<le> f_of w" by (simp add: f_of_def)
  have "uint (w :: u32) < 2 ^ 32" using uint_bounded [of w] by simp
  then have "(of_int (uint w) :: rat) < of_int (2 ^ 32)" by (rule of_int_less_iff [THEN iffD2])
  then show "f_of w < 2 ^ 32" by (simp add: f_of_def)
qed

lemma rnd_f_of [simp]: "rnd (f_of (w :: u32)) = f_of w"
proof -
  have "uint w < 2 ^ 32" using uint_bounded [of w] by simp
  then show ?thesis by (simp add: f_of_def rnd_of_int)
qed

lemma f_of_eq_iff [simp]: "f_of a = f_of b \<longleftrightarrow> a = b"
  by (auto simp: f_of_def intro: word_eq_iff_unsigned [THEN iffD2])

lemma f_of_le_iff [simp]: "f_of a \<le> f_of b \<longleftrightarrow> a \<le> b"
  by (simp add: f_of_def word_le_def)

lemma f_of_less_iff [simp]: "f_of a < f_of b \<longleftrightarrow> a < b"
  by (simp add: f_of_def word_less_def)

subsection \<open>How far rounding goes\<close>

text \<open>Rounding to nearest moves a positive value by at most \<open>1 / 2 ^ 53\<close> of it.\<close>

lemma half_even_near: "\<bar>of_int (half_even y) - y\<bar> \<le> 1 / 2"
proof -
  define q where "q = \<lfloor>y\<rfloor>"
  have q: "of_int q \<le> y" "y < of_int q + 1" using floor_correct [of y] by (simp_all add: q_def)
  show ?thesis
    using q by (auto simp: half_even_def Let_def q_def [symmetric] abs_le_iff)
qed

lemma rnd_near:
  assumes "0 \<le> x"
  shows "\<bar>rnd x - x\<bar> \<le> x / 2 ^ 53"
proof (cases "x = 0")
  case False
  with assms have x0: "0 < x" by simp
  define u :: rat where "u = 2 powi (expo x - 52)"
  have u: "0 < u" by (simp add: u_def)
  have "rnd x = of_int (half_even (x / u)) * u" using x0 by (simp add: rnd_def rnd_pos_def Let_def u_def)
  then have "rnd x - x = (of_int (half_even (x / u)) - x / u) * u" using u by (simp add: algebra_simps)
  then have "\<bar>rnd x - x\<bar> = \<bar>of_int (half_even (x / u)) - x / u\<bar> * u" using u by (simp add: abs_mult)
  also have "\<dots> \<le> 1 / 2 * u" using half_even_near u by (intro mult_right_mono) auto
  also have "\<dots> = 2 powi expo x / 2 ^ 53"
    by (simp add: u_def power_int_diff)
  also have "\<dots> \<le> x / 2 ^ 53" using expo_bounds(1) [OF x0] by (simp add: divide_right_mono)
  finally show ?thesis .
qed simp

subsection \<open>Rounding keeps the order\<close>

lemma f_round_mono: "0 \<le> a \<Longrightarrow> a \<le> b \<Longrightarrow> f_round a \<le> f_round b"
  by (simp add: f_round_def floor_mono)

lemma half_even_mono: "x \<le> y \<Longrightarrow> half_even x \<le> half_even y"
proof -
  assume "x \<le> y"
  define p q where "p = \<lfloor>x\<rfloor>" and "q = \<lfloor>y\<rfloor>"
  have pq: "p \<le> q" using \<open>x \<le> y\<close> by (simp add: p_def q_def floor_mono)
  have le: "half_even x \<le> p + 1" "q \<le> half_even y" by (simp_all add: half_even_def Let_def p_def q_def)
  show ?thesis
  proof (cases "p = q")
    case True
    then have "x - of_int p \<le> y - of_int q" using \<open>x \<le> y\<close> by simp
    with True show ?thesis by (auto simp: half_even_def Let_def p_def [symmetric] q_def [symmetric])
  next
    case False
    with pq le show ?thesis by linarith
  qed
qed

lemma expo_mono: "0 < x \<Longrightarrow> x \<le> y \<Longrightarrow> expo x \<le> expo y"
proof (rule ccontr)
  assume x: "0 < x" "x \<le> y" and "\<not> expo x \<le> expo y"
  then have "expo y + 1 \<le> expo x" by simp
  then have "(2 :: rat) powi (expo y + 1) \<le> 2 powi expo x" by (intro power_int_increasing) auto
  with expo_bounds(1) [of x] expo_bounds(2) [of y] x show False by linarith
qed

lemma rnd_pos_between:
  assumes "0 < x"
  shows "2 powi expo x \<le> rnd_pos x" and "rnd_pos x \<le> 2 powi (expo x + 1)"
proof -
  define u :: rat where "u = 2 powi (expo x - 52)"
  have u: "0 < u" by (simp add: u_def)
  have e: "2 powi expo x = of_int (2 ^ 52) * u" "2 powi (expo x + 1) = of_int (2 ^ 53) * u"
    by (simp_all add: u_def power_int_diff power_int_add)
  have r: "rnd_pos x = of_int (half_even (x / u)) * u" by (simp add: rnd_pos_def Let_def u_def)
  have "of_int (2 ^ 52) \<le> x / u" "x / u \<le> of_int (2 ^ 53)"
    using expo_bounds [OF assms] u unfolding e by (simp_all add: field_simps)
  then have "2 ^ 52 \<le> half_even (x / u)" "half_even (x / u) \<le> 2 ^ 53"
    by (metis half_even_mono half_even_of_int)+
  then have b: "(of_int (2 ^ 52) :: rat) \<le> of_int (half_even (x / u))" "of_int (half_even (x / u)) \<le> (of_int (2 ^ 53) :: rat)"
    by (simp_all only: of_int_le_iff)
  show "2 powi expo x \<le> rnd_pos x" unfolding e r using b(1) u by (intro mult_right_mono) auto
  show "rnd_pos x \<le> 2 powi (expo x + 1)" unfolding e r using b(2) u by (intro mult_right_mono) auto
qed

lemma rnd_pos_mono:
  assumes "0 < x" "x \<le> y"
  shows "rnd_pos x \<le> rnd_pos y"
proof (cases "expo x = expo y")
  case True
  define u :: rat where "u = 2 powi (expo y - 52)"
  have u: "0 < u" by (simp add: u_def)
  have "half_even (x / u) \<le> half_even (y / u)" using assms u by (intro half_even_mono divide_right_mono) auto
  then have "(of_int (half_even (x / u)) :: rat) * u \<le> of_int (half_even (y / u)) * u" using u by simp
  then show ?thesis by (simp add: rnd_pos_def Let_def True u_def)
next
  case False
  with expo_mono [OF assms] have "expo x + 1 \<le> expo y" by simp
  then have "(2 :: rat) powi (expo x + 1) \<le> 2 powi expo y" by (intro power_int_increasing) auto
  with rnd_pos_between [of x] rnd_pos_between [of y] assms show ?thesis by fastforce
qed

lemma rnd_mono: "x \<le> y \<Longrightarrow> rnd x \<le> rnd y"
proof -
  assume le: "x \<le> y"
  have n: "rnd z \<le> 0" if "z \<le> 0" for z using rnd_nonneg [of "- z"] that by (simp add: rnd_minus)
  consider "0 < x" | "x \<le> 0" "0 \<le> y" | "y < 0" using le by linarith
  then show ?thesis
  proof cases
    case 1
    with le show ?thesis by (simp add: rnd_def rnd_pos_mono)
  next
    case 2
    then show ?thesis using n [of x] rnd_nonneg [of y] by linarith
  next
    case 3
    with le show ?thesis using rnd_pos_mono [of "- y" "- x"] by (simp add: rnd_def)
  qed
qed

subsection \<open>Fixed decimals and single precision\<close>

text \<open>
  \<open>format!("{:.n}")\<close> of a value that is not negative: the exact value to \<open>n\<close> decimals, a tie to the
  even digit, with as many leading zeros as the decimals need.
\<close>

definition zero_pad :: "nat \<Rightarrow> string \<Rightarrow> string" where
  "zero_pad n s = replicate (n - length s) (CHR ''0'') @ s"

definition show_fixed :: "nat \<Rightarrow> f64 \<Rightarrow> string" where
  "show_fixed n x = (let k = half_even (x * 10 ^ n) in show_int (k div 10 ^ n) @ ''.'' @ zero_pad n (show_int (k mod 10 ^ n)))"

text \<open>
  A finite \<open>f32\<close> is a rational of 24 significant bits; a product of two is rounded to 24 bits.
\<close>

datatype f32 = Finite rat | Not_finite

definition rnd32_pos :: "rat \<Rightarrow> rat" where
  "rnd32_pos x = (if x = 0 then 0 else let u = 2 powi (expo x - 23) in of_int (half_even (x / u)) * u)"

end
