(* ===== verification/Rendition.thy ===== *)
theory Rendition
  imports Prelude Float64
begin

text \<open>
  The words every part speaks (\<open>crates/godwinmix-protocol/src/rendition/\<close>): codecs, containers,
  picture and sound shapes, what an output asks for, what a source carries, the encoder slots of a
  machine and the cost of a piece of work. Enums are datatypes with the source's constructors
  (\<open>Other\<close> of the two codec enums is told apart by a suffix, \<open>Auto\<close> of \<open>SourceAspect\<close> is
  \<open>AspectAuto\<close>), structs are records whose fields carry a short prefix, since HOL has one name
  space for them all.
\<close>

subsection \<open>Codecs, containers and the other enums (\<open>shape.rs\<close>)\<close>

datatype video_codec = H264 | H265 | Av1 | Vp8 | Vp9 | Mpeg2 | Prores | OtherVideo

datatype audio_codec = Aac | Opus | Mp3 | Ac3 | Pcm | OtherAudio

datatype container = Flv | MpegTs | Mp4Fragmented | Mkv | Hls | LlHls | Dash | Rtp | Webrtc

datatype fit = Pad | Crop | Stretch

datatype deinterlace = Off | On | Auto

datatype deinterlace_method = Yadif | Greedyh | Linear

datatype source_aspect = AspectAuto | Wide | Standard

fun ratio :: "source_aspect \<Rightarrow> (u32 \<times> u32) option" where
  "ratio AspectAuto = None"
| "ratio Wide = Some (16, 9)"
| "ratio Standard = Some (4, 3)"

record match_source =
  ms_max_height :: u32
  ms_bitrate_kbps :: "u32 option"

datatype encoder_pick = Gpu | Cpu

datatype gpu_pick = GpuIndex u32 | GpuAuto

fun gpu_index :: "gpu_pick \<Rightarrow> u32 option" where
  "gpu_index (GpuIndex i) = Some i"
| "gpu_index GpuAuto = None"

datatype tracks = First | All

record fps =
  fps_num :: u32
  fps_den :: u32

definition fps_whole :: "u32 \<Rightarrow> fps" where
  "fps_whole n = \<lparr>fps_num = n, fps_den = 1\<rparr>"

definition as_f64 :: "fps \<Rightarrow> f64" where
  "as_f64 f = f_div (f_of (fps_num f)) (f_of (max (fps_den f) 1))"

record video_shape =
  vs_codec :: video_codec
  vs_width :: u32
  vs_height :: u32
  vs_fps :: fps
  vs_bitrate_kbps :: u32
  vs_keyframe_ms :: u32

record audio_shape =
  as_codec :: audio_codec
  as_channels :: u8
  as_sample_rate :: u32
  as_bitrate_kbps :: u32

subsection \<open>What an output wants and what a source has (\<open>mod.rs\<close>)\<close>

text \<open>\<open>bitrate_tolerance\<close> is an \<open>f32\<close>; every \<open>f32\<close> is a binary64 value, so it is one here too.\<close>

record video_want =
  vw_codec :: "video_codec option"
  vw_width :: "u32 option"
  vw_height :: "u32 option"
  vw_fps :: "fps option"
  vw_bitrate_kbps :: "u32 option"
  vw_bitrate_tolerance :: "f64 option"
  vw_keyframe_ms :: "u32 option"
  vw_keyframe_frames :: "u32 option"
  vw_fit :: "fit option"
  vw_pad_color :: "string option"
  vw_aspect :: "source_aspect option"
  vw_deinterlace :: "deinterlace option"
  vw_deinterlace_method :: "deinterlace_method option"
  vw_match_source :: "match_source option"
  vw_preset :: "string option"
  vw_bframes :: "u8 option"
  vw_encoder :: "encoder_pick option"
  vw_gpu :: "gpu_pick option"

definition video_want_default :: video_want where
  "video_want_default =
    \<lparr>vw_codec = None, vw_width = None, vw_height = None, vw_fps = None, vw_bitrate_kbps = None,
     vw_bitrate_tolerance = None, vw_keyframe_ms = None, vw_keyframe_frames = None, vw_fit = None,
     vw_pad_color = None, vw_aspect = None, vw_deinterlace = None, vw_deinterlace_method = None,
     vw_match_source = None, vw_preset = None, vw_bframes = None, vw_encoder = None, vw_gpu = None\<rparr>"

text \<open>
  \<open>VideoWant::over\<close> extends the base's JSON object with the want's own. A field is written to the
  object exactly when it is set, so the merge takes each field from the want where it is set and
  from the base where it is not.
\<close>

definition or_base :: "'a option \<Rightarrow> 'a option \<Rightarrow> 'a option" where
  "or_base mine base = (case mine of Some x \<Rightarrow> Some x | None \<Rightarrow> base)"

definition want_over :: "video_want \<Rightarrow> video_want \<Rightarrow> video_want" where
  "want_over w b =
    \<lparr>vw_codec = or_base (vw_codec w) (vw_codec b),
     vw_width = or_base (vw_width w) (vw_width b),
     vw_height = or_base (vw_height w) (vw_height b),
     vw_fps = or_base (vw_fps w) (vw_fps b),
     vw_bitrate_kbps = or_base (vw_bitrate_kbps w) (vw_bitrate_kbps b),
     vw_bitrate_tolerance = or_base (vw_bitrate_tolerance w) (vw_bitrate_tolerance b),
     vw_keyframe_ms = or_base (vw_keyframe_ms w) (vw_keyframe_ms b),
     vw_keyframe_frames = or_base (vw_keyframe_frames w) (vw_keyframe_frames b),
     vw_fit = or_base (vw_fit w) (vw_fit b),
     vw_pad_color = or_base (vw_pad_color w) (vw_pad_color b),
     vw_aspect = or_base (vw_aspect w) (vw_aspect b),
     vw_deinterlace = or_base (vw_deinterlace w) (vw_deinterlace b),
     vw_deinterlace_method = or_base (vw_deinterlace_method w) (vw_deinterlace_method b),
     vw_match_source = or_base (vw_match_source w) (vw_match_source b),
     vw_preset = or_base (vw_preset w) (vw_preset b),
     vw_bframes = or_base (vw_bframes w) (vw_bframes b),
     vw_encoder = or_base (vw_encoder w) (vw_encoder b),
     vw_gpu = or_base (vw_gpu w) (vw_gpu b)\<rparr>"

record audio_want =
  aw_codec :: "audio_codec option"
  aw_channels :: "u8 option"
  aw_sample_rate :: "u32 option"
  aw_bitrate_kbps :: "u32 option"
  aw_tracks :: "tracks option"

definition audio_want_default :: audio_want where
  "audio_want_default =
    \<lparr>aw_codec = None, aw_channels = None, aw_sample_rate = None, aw_bitrate_kbps = None,
     aw_tracks = None\<rparr>"

record rendition_request =
  rq_id :: string
  rq_container :: container
  rq_video :: "video_want option"
  rq_audio :: "audio_want option"
  rq_no_video :: bool
  rq_no_audio :: bool

definition rendition_request_default :: rendition_request where
  "rendition_request_default =
    \<lparr>rq_id = [], rq_container = Flv, rq_video = None, rq_audio = None,
     rq_no_video = False, rq_no_audio = False\<rparr>"

record sound_track =
  st_track :: u8
  st_shape :: audio_shape
  st_lang :: "string option"

record stream_info =
  si_video :: "video_shape option"
  si_audio :: "audio_shape option"
  si_encoded :: bool
  si_tracks :: "sound_track list"
  si_interlaced :: bool

definition stream_info_default :: stream_info where
  "stream_info_default =
    \<lparr>si_video = None, si_audio = None, si_encoded = False, si_tracks = [], si_interlaced = False\<rparr>"

record encoder_slot =
  es_id :: string
  es_codec :: video_codec
  es_hardware :: bool
  es_device :: "string option"

subsection \<open>Costs\<close>

record cost =
  cpu_millicores :: u32
  device_millis :: u32
  device_sessions :: u32
  memory_mib :: u32
  egress_kbps :: u32

definition cost_default :: cost where
  "cost_default =
    \<lparr>cpu_millicores = 0, device_millis = 0, device_sessions = 0, memory_mib = 0, egress_kbps = 0\<rparr>"

text \<open>The fields add as \<open>u32\<close>, which wraps in the release build.\<close>

definition cost_plus :: "cost \<Rightarrow> cost \<Rightarrow> cost" where
  "cost_plus a b =
    \<lparr>cpu_millicores = cpu_millicores a + cpu_millicores b,
     device_millis = device_millis a + device_millis b,
     device_sessions = device_sessions a + device_sessions b,
     memory_mib = memory_mib a + memory_mib b,
     egress_kbps = egress_kbps a + egress_kbps b\<rparr>"

lemma cost_plus_sel [simp]:
  "cpu_millicores (cost_plus a b) = cpu_millicores a + cpu_millicores b"
  "device_millis (cost_plus a b) = device_millis a + device_millis b"
  "device_sessions (cost_plus a b) = device_sessions a + device_sessions b"
  "memory_mib (cost_plus a b) = memory_mib a + memory_mib b"
  "egress_kbps (cost_plus a b) = egress_kbps a + egress_kbps b"
  by (simp_all add: cost_plus_def)

lemma cost_default_sel [simp]:
  "cpu_millicores cost_default = 0" "device_millis cost_default = 0"
  "device_sessions cost_default = 0" "memory_mib cost_default = 0" "egress_kbps cost_default = 0"
  by (simp_all add: cost_default_def)

text \<open>Costs are a commutative monoid, so a list of them has one sum whatever the order.\<close>

interpretation cost_add: comm_monoid cost_plus cost_default
  by unfold_locales (simp_all add: cost_plus_def cost_default_def add.assoc add.commute)

fun cost_sum :: "cost list \<Rightarrow> cost" where
  "cost_sum [] = cost_default"
| "cost_sum (c # cs) = cost_plus c (cost_sum cs)"

lemma cost_sum_append: "cost_sum (cs @ ds) = cost_plus (cost_sum cs) (cost_sum ds)"
  by (induction cs) (simp_all add: cost_add.assoc)

lemma foldl_cost_plus: "foldl cost_plus a cs = cost_plus a (cost_sum cs)"
  by (induction cs arbitrary: a) (simp_all add: cost_add.assoc)

subsection \<open>Frame rates as numbers\<close>

lemma as_f64_whole: "as_f64 (fps_whole n) = f_of n"
  by (simp add: as_f64_def fps_whole_def f_div_def f_of_def [of "1 :: u32"])

lemma max_den_pos: "0 < f_of (max d (1 :: u32))"
proof -
  have "(0 :: u32) < max d 1" by (simp add: less_max_iff_disj)
  then have "f_of (0 :: u32) < f_of (max d 1)" by (simp only: f_of_less_iff)
  then show ?thesis by (simp add: f_of_def)
qed

lemma as_f64_nonneg: "0 \<le> as_f64 f"
  using max_den_pos [of "fps_den f"] by (simp add: as_f64_def f_div_def rnd_nonneg f_of_bounds)

end
