(* ===== verification/Sizing.thy ===== *)
theory Sizing
  imports Rendition
begin

unbundle bit_operations_syntax

text \<open>
  Filling in a size or a bitrate a request left out (\<open>crates/godwinmix-render/src/sizing.rs\<close>).
  Products of two \<open>u32\<close> are taken in \<open>u64\<close>, where they cannot overflow, so they are integers here.
\<close>

text \<open>\<open>u32::try_from(n).unwrap_or(u32::MAX - 1)\<close>, then up to the next even number, 2 at least.\<close>

definition even_up :: "int \<Rightarrow> u32" where
  "even_up n = (let m = (if n < 4294967296 then of_int n else - 2) in max (m + (m AND 1)) 2)"

definition scale_side :: "u32 \<Rightarrow> u32 \<Rightarrow> u32 \<Rightarrow> u32" where
  "scale_side n num den = even_up (uint n * uint num div uint (max den 1))"

fun size_for :: "u32 option \<Rightarrow> u32 option \<Rightarrow> video_shape \<Rightarrow> u32 \<times> u32" where
  "size_for (Some w) (Some h) src = (w, h)"
| "size_for (Some w) None src = (w, scale_side w (vs_height src) (vs_width src))"
| "size_for None (Some h) src = (scale_side h (vs_width src) (vs_height src), h)"
| "size_for None None src = (vs_width src, vs_height src)"

definition area :: "u32 \<Rightarrow> u32 \<Rightarrow> f64" where
  "area w h = f_mul (f_of w) (f_of h)"

text \<open>
  A width of zero divides the last rate by zero: \<open>as u32\<close> then makes the largest number of an infinity, and
  zero of the NaN a rate of zero gives. The other divisor is at least two by two.
\<close>

definition matched :: "video_want \<Rightarrow> u32 \<Rightarrow> u32 \<Rightarrow> u32 \<Rightarrow> u32 \<times> u32 \<times> u32 option" where
  "matched want width height source_height =
    (let asked = vw_bitrate_kbps want in
     case vw_match_source want of
       None \<Rightarrow> (width, height, asked)
     | Some m \<Rightarrow>
        if \<not> (height < source_height \<and> height < ms_max_height m \<and> 0 < height) then (width, height, asked)
        else
          let to = min source_height (ms_max_height m) AND NOT 1;
              wide = even_up (uint width * uint to div uint height);
              kbps =
                (case (ms_bitrate_kbps m, asked) of
                   (Some peak, _) \<Rightarrow>
                     if to = ms_max_height m then Some peak
                     else
                       let full = area (even_up (uint width * uint (ms_max_height m) div uint height)) (ms_max_height m)
                       in Some (as_u32 (f_round (f_div (f_mul (f_of peak) (area wide to)) full)))
                 | (None, Some k) \<Rightarrow>
                     if width = 0 then Some (if k = 0 then 0 else - 1)
                     else Some (as_u32 (f_round (f_div (f_mul (f_of k) (area wide to)) (area width height))))
                 | (None, None) \<Rightarrow> None)
          in (wide, to, kbps))"

text \<open>The literals \<open>0.1\<close>, \<open>0.2\<close>, \<open>0.11\<close> and \<open>0.06\<close> are the binary64 values nearest to them.\<close>

definition bits_per_pixel :: "video_codec \<Rightarrow> f64" where
  "bits_per_pixel c = (case c of H264 \<Rightarrow> rnd (1 / 10) | Mpeg2 \<Rightarrow> rnd (2 / 10)
     | Vp8 \<Rightarrow> rnd (11 / 100) | _ \<Rightarrow> rnd (6 / 100))"

definition default_kbps :: "video_shape \<Rightarrow> u32" where
  "default_kbps s =
    (let px = f_mul (f_mul (f_of (vs_width s)) (f_of (vs_height s))) (as_f64 (vs_fps s));
         kbps = f_mul (of_int (f_round (f_div (f_div (f_mul px (bits_per_pixel (vs_codec s))) 1000) 100))) 100
     in max (f_as_u32 kbps) 100)"

subsection \<open>Properties\<close>

lemma even_up_ge_2: "2 \<le> even_up n"
  unfolding even_up_def Let_def by (rule max.cobounded2)

lemma even_plus_low_bit: "even (w + (w AND 1))" for w :: u32
  by (simp only: even_add even_and_iff) simp

lemma even_up_even: "even (even_up n)"
proof -
  have "even (max (w + (w AND 1)) 2)" for w :: u32
    by (cases "w + (w AND 1) \<le> 2") (simp_all only: max_def if_True if_False even_plus_low_bit, simp)
  then show ?thesis unfolding even_up_def Let_def by blast
qed

lemma even_up_exact:
  assumes n: "even n" "2 \<le> n" "n < 4294967296"
  shows "uint (even_up n) = n"
proof -
  have u: "uint (of_int n :: u32) = n" using n by (subst uint_word_of_int_eq) (simp add: take_bit_int_eq_self)
  obtain k where "n = 2 * k" using n(1) by (rule evenE)
  then have "even (of_int n :: u32)" by simp
  then have "(of_int n :: u32) AND 1 = 0" by (simp only: and_one_eq even_iff_mod_2_eq_zero)
  moreover have "(2 :: u32) \<le> of_int n" using n u by (simp only: word_le_def) simp
  ultimately show ?thesis using n u by (simp only: even_up_def Let_def if_True add_0_right max_absorb1)
qed

lemma default_kbps_ge: "100 \<le> default_kbps s"
  unfolding default_kbps_def Let_def by (rule max.cobounded2)

lemma size_for_given:
  "size_for (Some w) (Some h) src = (w, h)"
  "fst (size_for (Some w) h' src) = w"
  "snd (size_for w' (Some h) src) = h"
  by (cases h'; cases w'; simp)+

end
