(* ===== verification/Containers.thy ===== *)
theory Containers
  imports Rendition
begin

text \<open>
  Which codecs each container carries, and the names and slugs the planner writes
  (\<open>crates/godwinmix-render/src/container.rs\<close>). The video and the audio table promise the same
  things to whoever picks a codec from them, so the promise is the locale \<open>codec_table\<close> and both
  tables interpret it.
\<close>

subsection \<open>The tables\<close>

fun video_codecs :: "container \<Rightarrow> video_codec list" where
  "video_codecs Flv = [H264, H265]"
| "video_codecs Webrtc = [H264, Vp8, Vp9, Av1]"
| "video_codecs MpegTs = [H264, H265, Av1, Mpeg2]"
| "video_codecs Mp4Fragmented = [H264, H265, Av1, Vp9]"
| "video_codecs Mkv = [H264, H265, Av1, Vp8, Vp9, Mpeg2, Prores]"
| "video_codecs Hls = [H264, H265, Av1]"
| "video_codecs LlHls = [H264, H265, Av1]"
| "video_codecs Dash = [H264, H265, Av1, Vp9]"
| "video_codecs Rtp = [H264, H265, Av1, Vp8, Vp9, Mpeg2]"

fun audio_codecs :: "container \<Rightarrow> audio_codec list" where
  "audio_codecs Flv = [Aac, Mp3]"
| "audio_codecs Webrtc = [Opus]"
| "audio_codecs MpegTs = [Aac, Mp3, Ac3, Opus]"
| "audio_codecs Mp4Fragmented = [Aac, Opus, Mp3, Ac3]"
| "audio_codecs Mkv = [Aac, Opus, Mp3, Ac3, Pcm]"
| "audio_codecs Hls = [Aac, Mp3, Ac3]"
| "audio_codecs LlHls = [Aac, Mp3, Ac3]"
| "audio_codecs Dash = [Aac, Opus, Ac3]"
| "audio_codecs Rtp = [Opus, Aac, Mp3, Ac3, Pcm]"

definition carries_video :: "container \<Rightarrow> video_codec \<Rightarrow> bool" where
  "carries_video c v \<longleftrightarrow> v \<in> set (video_codecs c)"

definition carries_audio :: "container \<Rightarrow> audio_codec \<Rightarrow> bool" where
  "carries_audio c a \<longleftrightarrow> a \<in> set (audio_codecs c)"

subsection \<open>Names and slugs\<close>

fun video_name :: "video_codec \<Rightarrow> string" where
  "video_name H264 = ''H.264''"
| "video_name H265 = ''H.265''"
| "video_name Av1 = ''AV1''"
| "video_name Vp8 = ''VP8''"
| "video_name Vp9 = ''VP9''"
| "video_name Mpeg2 = ''MPEG-2''"
| "video_name Prores = ''ProRes''"
| "video_name OtherVideo = ''an unnamed codec''"

fun audio_name :: "audio_codec \<Rightarrow> string" where
  "audio_name Aac = ''AAC''"
| "audio_name Opus = ''Opus''"
| "audio_name Mp3 = ''MP3''"
| "audio_name Ac3 = ''AC-3''"
| "audio_name Pcm = ''PCM''"
| "audio_name OtherAudio = ''an unnamed codec''"

fun video_slug :: "video_codec \<Rightarrow> string" where
  "video_slug H264 = ''h264''"
| "video_slug H265 = ''h265''"
| "video_slug Av1 = ''av1''"
| "video_slug Vp8 = ''vp8''"
| "video_slug Vp9 = ''vp9''"
| "video_slug Mpeg2 = ''mpeg2''"
| "video_slug Prores = ''prores''"
| "video_slug OtherVideo = ''other''"

fun audio_slug :: "audio_codec \<Rightarrow> string" where
  "audio_slug Aac = ''aac''"
| "audio_slug Opus = ''opus''"
| "audio_slug Mp3 = ''mp3''"
| "audio_slug Ac3 = ''ac3''"
| "audio_slug Pcm = ''pcm''"
| "audio_slug OtherAudio = ''other''"

fun container_slug :: "container \<Rightarrow> string" where
  "container_slug Flv = ''flv''"
| "container_slug MpegTs = ''mpeg-ts''"
| "container_slug Mp4Fragmented = ''mp4-fragmented''"
| "container_slug Mkv = ''mkv''"
| "container_slug Hls = ''hls''"
| "container_slug LlHls = ''ll-hls''"
| "container_slug Dash = ''dash''"
| "container_slug Rtp = ''rtp''"
| "container_slug Webrtc = ''webrtc''"

text \<open>
  \<open>format!("{}", (v * 100.0).round() / 100.0)\<close>: Rust prints the shortest decimal that reads back
  as the value, which for the binary64 nearest to \<open>k / 100\<close> (here \<open>k < 2 ^ 39\<close>) is \<open>k / 100\<close> without
  trailing zeros.
\<close>

definition show_hundredths :: "int \<Rightarrow> string" where
  "show_hundredths k =
    (let whole = show_int (k div 100); r = k mod 100 in
     if r = 0 then whole
     else if r mod 10 = 0 then whole @ ''.'' @ show_int (r div 10)
     else whole @ ''.'' @ show_int (r div 10) @ show_int (r mod 10))"

definition fps_text :: "fps \<Rightarrow> string" where
  "fps_text f =
    (if fps_den f \<le> 1 then show_word (fps_num f)
     else show_hundredths (f_round (f_mul (as_f64 f) 100)))"

definition shape_text :: "video_shape \<Rightarrow> string" where
  "shape_text s = show_word (vs_width s) @ ''x'' @ show_word (vs_height s) @ '' at '' @
     fps_text (vs_fps s) @ '' fps''"

subsection \<open>Picking from a table\<close>

text \<open>
  \<open>allowed.iter().copied().find(|c| available.contains(c)).unwrap_or(allowed[0])\<close>, which the video
  and the audio side both write out: the first codec of the container that the machine encodes, and
  the container's first when there is none. Indexing \<open>allowed[0]\<close> cannot fail, since no table row
  is empty (\<open>codecs_ne\<close>).
\<close>

definition first_available :: "'c list \<Rightarrow> 'c list \<Rightarrow> 'c" where
  "first_available allowed available =
    (case List.find (\<lambda>c. c \<in> set available) allowed of Some c \<Rightarrow> c | None \<Rightarrow> allowed ! 0)"

locale codec_table =
  fixes codecs :: "container \<Rightarrow> 'c list"
    and carries :: "container \<Rightarrow> 'c \<Rightarrow> bool"
    and slug :: "'c \<Rightarrow> string"
  assumes codecs_ne: "codecs k \<noteq> []"
    and codecs_distinct: "distinct (codecs k)"
    and carries_iff: "carries k c \<longleftrightarrow> c \<in> set (codecs k)"
    and slug_inj: "slug c = slug d \<longleftrightarrow> c = d"
    and slug_no_colon: "CHR '':'' \<notin> set (slug c)"
begin

lemma first_available_carried: "carries k (first_available (codecs k) available)"
  using codecs_ne [of k]
  by (auto simp: first_available_def carries_iff split: option.splits dest: find_Some_iff_first)

lemma first_available_encodable:
  assumes "\<exists>c. carries k c \<and> c \<in> set available"
  shows "first_available (codecs k) available \<in> set available"
proof (cases "List.find (\<lambda>c. c \<in> set available) (codecs k)")
  case None
  with assms show ?thesis by (auto simp: find_None_iff carries_iff)
next
  case (Some c)
  then show ?thesis by (auto simp: first_available_def dest: find_Some_iff_first)
qed

lemma first_available_first:
  assumes "carries k c" "c \<in> set available"
  shows "\<exists>pre post. codecs k = pre @ first_available (codecs k) available # post \<and> set pre \<inter> set available = {}"
proof -
  from assms obtain d where d: "List.find (\<lambda>c. c \<in> set available) (codecs k) = Some d"
    by (cases "List.find (\<lambda>c. c \<in> set available) (codecs k)") (auto simp: find_None_iff carries_iff)
  then obtain i where i: "i < length (codecs k)" "codecs k ! i = d"
    "\<forall>j<i. codecs k ! j \<notin> set available"
    by (auto simp: find_Some_iff)
  then have "codecs k = take i (codecs k) @ d # drop (Suc i) (codecs k)"
    using id_take_nth_drop [of i "codecs k"] by simp
  moreover have "set (take i (codecs k)) \<inter> set available = {}"
    using i by (auto simp: in_set_conv_nth)
  ultimately show ?thesis using d by (auto simp: first_available_def)
qed

end

lemma video_codecs_ne: "video_codecs k \<noteq> []" by (cases k) simp_all
lemma audio_codecs_ne: "audio_codecs k \<noteq> []" by (cases k) simp_all

lemma video_slug_inj: "video_slug c = video_slug d \<longleftrightarrow> c = d"
  by (cases c; cases d) simp_all

lemma audio_slug_inj: "audio_slug c = audio_slug d \<longleftrightarrow> c = d"
  by (cases c; cases d) simp_all

interpretation vtab: codec_table video_codecs carries_video video_slug
proof unfold_locales
  show "distinct (video_codecs k)" for k by (cases k) simp_all
  show "CHR '':'' \<notin> set (video_slug c)" for c by (cases c) simp_all
qed (simp_all add: video_codecs_ne carries_video_def video_slug_inj)

interpretation atab: codec_table audio_codecs carries_audio audio_slug
proof unfold_locales
  show "distinct (audio_codecs k)" for k by (cases k) simp_all
  show "CHR '':'' \<notin> set (audio_slug c)" for c by (cases c) simp_all
qed (simp_all add: audio_codecs_ne carries_audio_def audio_slug_inj)

end
