(* ===== verification/PlanErrors.thy ===== *)
theory PlanErrors
  imports Containers
begin

text \<open>
  Why a set of requests cannot be planned (\<open>crates/godwinmix-render/src/error.rs\<close>): the error
  values, the slug a client matches on and the sentence a person reads. The JSON of \<open>data()\<close> is
  serde's and is not modelled.
\<close>

record suggestion =
  sg_codec :: string
  sg_width :: u32
  sg_height :: u32
  sg_fps :: fps
  sg_encoder :: string
  sg_text :: string

record skip =
  sk_encoder :: string
  sk_why :: string

record no_encoder =
  ne_request :: string
  ne_codec :: string
  ne_shape :: video_shape
  ne_tried :: "skip list"
  ne_nearest :: "suggestion option"

text \<open>Fields in the source's order; the variant \<open>NoEncoder\<close> boxes the record of its facts.\<close>

datatype plan_error =
    UnknownSource string string "string list"
  | DuplicateRequest string
  | ContainerCodec string string string "string list"
  | MissingTrack string string string
  | NothingAsked string
  | NoEncoder no_encoder
  | NoAudioEncoder string string "string option"

fun error_code :: "plan_error \<Rightarrow> string" where
  "error_code (UnknownSource _ _ _) = ''unknown-source''"
| "error_code (DuplicateRequest _) = ''duplicate-request''"
| "error_code (ContainerCodec _ _ _ _) = ''container-codec''"
| "error_code (MissingTrack _ _ _) = ''missing-track''"
| "error_code (NothingAsked _) = ''nothing-asked''"
| "error_code (NoEncoder _) = ''no-encoder''"
| "error_code (NoAudioEncoder _ _ _) = ''no-audio-encoder''"

text \<open>The request an error names, whichever it is.\<close>

fun error_request :: "plan_error \<Rightarrow> string" where
  "error_request (UnknownSource r _ _) = r"
| "error_request (DuplicateRequest r) = r"
| "error_request (ContainerCodec r _ _ _) = r"
| "error_request (MissingTrack r _ _) = r"
| "error_request (NothingAsked r) = r"
| "error_request (NoEncoder e) = ne_request e"
| "error_request (NoAudioEncoder r _ _) = r"

definition list_text :: "string list \<Rightarrow> string" where
  "list_text items = (if items = [] then ''(none)'' else join '', '' items)"

fun error_text :: "plan_error \<Rightarrow> string" where
  "error_text (UnknownSource request source known) =
     ''Output `'' @ request @ ''` reads source `'' @ source @
     ''`, which is not running. Pick one of: '' @ list_text known @ ''.''"
| "error_text (DuplicateRequest request) =
     ''Two outputs are called `'' @ request @ ''`. Rename one of them.''"
| "error_text (ContainerCodec request cont codec allowed) =
     ''Output `'' @ request @ ''` asks for '' @ codec @ '' in '' @ cont @
     '', which cannot carry it. Pick one of '' @ list_text allowed @ '' or another container.''"
| "error_text (MissingTrack request source track) =
     ''Output `'' @ request @ ''` asks for '' @ track @ '' but source `'' @ source @
     ''` has none. Turn '' @ track @ '' off for this output, or pick a source that has it.''"
| "error_text (NothingAsked request) =
     ''Output `'' @ request @
     ''` drops both video and audio, so there is nothing to send. Keep one of them.''"
| "error_text (NoEncoder e) =
     ''No encoder on this machine can make '' @ video_name (vs_codec (ne_shape e)) @ '' '' @
     shape_text (ne_shape e) @ '' for `'' @ ne_request e @ ''`'' @
     (if ne_tried e = [] then [] else '' ('' @ join ''; '' (map sk_why (ne_tried e)) @ '')'') @
     (case ne_nearest e of
        Some s \<Rightarrow> ''. '' @ sg_text s @ '' is possible; ask for that instead.''
      | None \<Rightarrow> ''. Ask for a smaller picture or another codec.'')"
| "error_text (NoAudioEncoder request codec near) =
     ''This machine has no '' @ codec @ '' encoder for `'' @ request @ ''`'' @
     (case near of
        Some alt \<Rightarrow> ''. '' @ alt @ '' is possible in this container; ask for that instead.''
      | None \<Rightarrow> '', and none for any codec this container carries. Turn audio off for this output.'')"

end
