(* ===== verification/Resolve.thy ===== *)
theory Resolve
  imports Sizing PlanErrors
begin

text \<open>
  One request against one source (\<open>crates/godwinmix-render/src/resolve.rs\<close> and \<open>audio.rs\<close>): fill in
  what the request left out, then decide copy or encode, for the video and for one sound track.
\<close>

subsection \<open>Bitrates close enough to copy\<close>

definition DEFAULT_TOLERANCE :: f64 where
  "DEFAULT_TOLERANCE = 1 / 4"

text \<open>The \<open>f32\<close> nearest to \<open>0.05\<close>.\<close>

definition OVER_TOLERANCE :: f64 where
  "OVER_TOLERANCE = 13421773 / 268435456"

definition bitrate_fits :: "u32 \<Rightarrow> u32 \<Rightarrow> f64 \<Rightarrow> bool" where
  "bitrate_fits src want tol \<longleftrightarrow>
     f_of src \<le> f_mul (f_of want) (f_add 1 (min OVER_TOLERANCE tol)) \<and>
     f_mul (f_of want) (f_sub 1 tol) \<le> f_of src"

subsection \<open>Video\<close>

datatype video_decision = VNone | VCopy | VEncode video_shape string

definition fallback :: "rendition_request \<Rightarrow> video_codec list \<Rightarrow> video_codec" where
  "fallback req available = first_available (video_codecs (rq_container req)) available"

definition codec_for :: "rendition_request \<Rightarrow> stream_info \<Rightarrow> video_codec list
    \<Rightarrow> plan_error + (video_codec \<times> bool)" where
  "codec_for req info available =
    (let k = rq_container req in
     case Option.bind (rq_video req) vw_codec of
       Some codec \<Rightarrow>
         if \<not> carries_video k codec
         then Inl (ContainerCodec (rq_id req) (container_slug k) (video_slug codec) (map video_slug (video_codecs k)))
         else Inr (codec, True)
     | None \<Rightarrow>
        (case (si_encoded info, si_video info) of
           (True, Some v) \<Rightarrow>
             if carries_video k (vs_codec v) then Inr (vs_codec v, False)
             else Inr (fallback req available, False)
         | _ \<Rightarrow> Inr (fallback req available, False)))"

text \<open>\<open>(f64::from(frames) * 1000.0 / fps.as_f64().max(1.0)).round() as u32\<close>.\<close>

definition frames_ms :: "u32 \<Rightarrow> fps \<Rightarrow> u32" where
  "frames_ms frames f = as_u32 (f_round (f_div (f_mul (f_of frames) 1000) (max (as_f64 f) 1)))"

definition missing :: "rendition_request \<Rightarrow> string \<Rightarrow> string \<Rightarrow> plan_error" where
  "missing req source track = MissingTrack (rq_id req) source track"

definition video_mismatch :: "rendition_request \<Rightarrow> stream_info \<Rightarrow> video_shape \<Rightarrow> video_shape \<Rightarrow> u32 option
    \<Rightarrow> f64 \<Rightarrow> string option" where
  "video_mismatch req info src t kbps tol =
    (if \<not> si_encoded info then Some ''the source is raw frames, which every output must encode''
     else if \<not> carries_video (rq_container req) (vs_codec src)
     then Some (container_slug (rq_container req) @ '' cannot carry the source's '' @ video_name (vs_codec src))
     else if vs_codec src \<noteq> vs_codec t
     then Some (''the source is '' @ video_name (vs_codec src) @ '' and this output wants '' @ video_name (vs_codec t))
     else if (vs_width src, vs_height src) \<noteq> (vs_width t, vs_height t)
     then Some (''the source is '' @ show_word (vs_width src) @ ''x'' @ show_word (vs_height src) @
                '' and this output wants '' @ show_word (vs_width t) @ ''x'' @ show_word (vs_height t))
     else if as_f64 (vs_fps src) \<noteq> as_f64 (vs_fps t)
     then Some (''the source runs at '' @ fps_text (vs_fps src) @ '' fps and this output wants '' @ fps_text (vs_fps t))
     else
       case (case kbps of
               Some want \<Rightarrow>
                 if 0 < vs_bitrate_kbps src \<and> \<not> bitrate_fits (vs_bitrate_kbps src) want tol
                 then Some (''the source runs at '' @ show_word (vs_bitrate_kbps src) @
                            '' kbit/s and this output wants '' @ show_word want)
                 else None
             | None \<Rightarrow> None) of
         Some why \<Rightarrow> Some why
       | None \<Rightarrow>
           if 0 < vs_keyframe_ms t \<and> 0 < vs_keyframe_ms src \<and> vs_keyframe_ms t \<noteq> vs_keyframe_ms src
           then Some (''the source has a keyframe every '' @ show_word (vs_keyframe_ms src) @
                      '' ms and this output wants one every '' @ show_word (vs_keyframe_ms t) @ '' ms'')
           else None)"

definition wanted_keyframe_ms :: "video_want \<Rightarrow> fps \<Rightarrow> u32" where
  "wanted_keyframe_ms want f =
    (case vw_keyframe_frames want of
       Some n \<Rightarrow> frames_ms n f
     | None \<Rightarrow> (case vw_keyframe_ms want of Some ms \<Rightarrow> ms | None \<Rightarrow> 0))"

definition or_default :: "'a \<Rightarrow> 'a option \<Rightarrow> 'a" where
  "or_default d x = (case x of Some y \<Rightarrow> y | None \<Rightarrow> d)"

definition resolve_video :: "rendition_request \<Rightarrow> string \<Rightarrow> stream_info \<Rightarrow> video_codec list
    \<Rightarrow> plan_error + video_decision" where
  "resolve_video req source info available =
    (if rq_no_video req then Inr VNone
     else case si_video info of
       None \<Rightarrow> if rq_video req \<noteq> None then Inl (missing req source ''video'') else Inr VNone
     | Some src \<Rightarrow>
       let want = or_default video_want_default (rq_video req) in
       and_then (codec_for req info available) (\<lambda>(codec, explicit).
         let (w0, h0) = size_for (vw_width want) (vw_height want) src;
             (w, h, kbps) = matched want w0 h0 (vs_height src);
             f = or_default (vs_fps src) (vw_fps want);
             tol = or_default DEFAULT_TOLERANCE (vw_bitrate_tolerance want);
             target = \<lparr>vs_codec = codec, vs_width = w, vs_height = h, vs_fps = f,
                       vs_bitrate_kbps = 0, vs_keyframe_ms = wanted_keyframe_ms want f\<rparr>;
             progressive = (vw_deinterlace want = Some On \<and> si_interlaced info);
             why = (if progressive
                    then Some ''the source is interlaced and this output wants it progressive''
                    else video_mismatch req info src target kbps tol)
         in case why of
              None \<Rightarrow> Inr VCopy
            | Some why \<Rightarrow>
                let target = (if \<not> explicit \<and> vs_codec target \<notin> set available
                              then target\<lparr>vs_codec := fallback req available\<rparr> else target);
                    target = target\<lparr>vs_bitrate_kbps := (case kbps of Some k \<Rightarrow> k | None \<Rightarrow> default_kbps target)\<rparr>
                in Inr (VEncode target why)))"

subsection \<open>Audio\<close>

datatype audio_decision = ANone | ACopy | AEncode audio_shape string

definition audio_codec_for :: "rendition_request \<Rightarrow> stream_info \<Rightarrow> audio_codec list \<Rightarrow> audio_codec option
    \<Rightarrow> plan_error + audio_codec" where
  "audio_codec_for req info available asked =
    (let k = rq_container req in
     case asked of
       Some codec \<Rightarrow>
         if \<not> carries_audio k codec
         then Inl (ContainerCodec (rq_id req) (container_slug k) (audio_slug codec) (map audio_slug (audio_codecs k)))
         else Inr codec
     | None \<Rightarrow>
        (case (si_encoded info, si_audio info) of
           (True, Some a) \<Rightarrow>
             if carries_audio k (as_codec a) then Inr (as_codec a)
             else Inr (first_available (audio_codecs k) available)
         | _ \<Rightarrow> Inr (first_available (audio_codecs k) available)))"

definition audio_mismatch :: "rendition_request \<Rightarrow> stream_info \<Rightarrow> audio_shape \<Rightarrow> audio_shape \<Rightarrow> u32 option
    \<Rightarrow> string option" where
  "audio_mismatch req info src t kbps =
    (if \<not> si_encoded info then Some ''the source's sound is raw samples''
     else if \<not> carries_audio (rq_container req) (as_codec src)
     then Some (container_slug (rq_container req) @ '' cannot carry the source's '' @ audio_name (as_codec src))
     else if as_codec src \<noteq> as_codec t
     then Some (''the source is '' @ audio_name (as_codec src) @ '' and this output wants '' @ audio_name (as_codec t))
     else if (as_channels src, as_sample_rate src) \<noteq> (as_channels t, as_sample_rate t)
     then Some (''the source is '' @ show_word (as_channels src) @ '' channels at '' @ show_word (as_sample_rate src) @
                '' Hz and this output wants '' @ show_word (as_channels t) @ '' at '' @ show_word (as_sample_rate t) @ '' Hz'')
     else case kbps of
       None \<Rightarrow> None
     | Some want \<Rightarrow>
         if 0 < as_bitrate_kbps src \<and> \<not> bitrate_fits (as_bitrate_kbps src) want DEFAULT_TOLERANCE
         then Some (''the source's sound is '' @ show_word (as_bitrate_kbps src) @
                    '' kbit/s and this output wants '' @ show_word want)
         else None)"

text \<open>The arithmetic is \<open>u32\<close>: \<open>ch * sample_rate * 16\<close> wraps in a release build.\<close>

definition audio_default_kbps :: "audio_shape \<Rightarrow> u32" where
  "audio_default_kbps s =
    (let ch = ucast (max (as_channels s) 1) :: u32 in
     case as_codec s of
       Opus \<Rightarrow> 48 * ch
     | Ac3 \<Rightarrow> 96 * ch
     | Pcm \<Rightarrow> ch * as_sample_rate s * 16 div 1000
     | _ \<Rightarrow> 64 * ch)"

definition resolve_audio :: "rendition_request \<Rightarrow> string \<Rightarrow> stream_info \<Rightarrow> audio_codec list
    \<Rightarrow> plan_error + audio_decision" where
  "resolve_audio req source info available =
    (if rq_no_audio req then Inr ANone
     else case si_audio info of
       None \<Rightarrow> if rq_audio req \<noteq> None then Inl (missing req source ''audio'') else Inr ANone
     | Some src \<Rightarrow>
       let want = or_default audio_want_default (rq_audio req) in
       and_then (audio_codec_for req info available (aw_codec want)) (\<lambda>codec.
         let target = \<lparr>as_codec = codec, as_channels = or_default (as_channels src) (aw_channels want),
                       as_sample_rate = or_default (as_sample_rate src) (aw_sample_rate want),
                       as_bitrate_kbps = 0\<rparr>
         in case audio_mismatch req info src target (aw_bitrate_kbps want) of
              None \<Rightarrow> Inr ACopy
            | Some why \<Rightarrow>
                let target = (if aw_codec want = None \<and> as_codec target \<notin> set available
                              then target\<lparr>as_codec := first_available (audio_codecs (rq_container req)) available\<rparr>
                              else target);
                    target = target\<lparr>as_bitrate_kbps :=
                               (case aw_bitrate_kbps want of Some k \<Rightarrow> k | None \<Rightarrow> audio_default_kbps target)\<rparr>
                in Inr (AEncode target why)))"

end
