(* ===== verification/Machine.thy ===== *)
theory Machine
  imports Rendition
begin

text \<open>
  What the planner asks of the machine (\<open>crates/godwinmix-render/src/model.rs\<close>). The trait object
  \<open>&dyn CostModel\<close> is the record of its methods; the two methods with a default body have it as
  \<open>default_mux_cost\<close> and \<open>default_room\<close>.
\<close>

definition CPU :: string where "CPU = ''cpu''"
definition GPU :: string where "GPU = ''gpu''"

definition device_of :: "encoder_slot \<Rightarrow> string" where
  "device_of e = (if \<not> es_hardware e then CPU else case es_device e of Some d \<Rightarrow> d | None \<Rightarrow> GPU)"

record room =
  rm_sessions :: "u32 option"
  rm_device_millis :: "u32 option"

definition room_open :: room where
  "room_open = \<lparr>rm_sessions = None, rm_device_millis = None\<rparr>"

text \<open>\<open>is_none_or\<close>.\<close>

definition under_cap :: "u32 option \<Rightarrow> u32 \<Rightarrow> bool" where
  "under_cap cap n = (case cap of None \<Rightarrow> True | Some c \<Rightarrow> n \<le> c)"

text \<open>The two sums are \<open>u32\<close> and wrap in a release build.\<close>

definition room_fits :: "room \<Rightarrow> cost \<Rightarrow> cost \<Rightarrow> bool" where
  "room_fits r used extra \<longleftrightarrow>
     under_cap (rm_sessions r) (device_sessions used + device_sessions extra) \<and>
     under_cap (rm_device_millis r) (device_millis used + device_millis extra)"

datatype audio_work = WDecode | WConvert | WEncode

record cost_model =
  cm_encoders :: "encoder_slot list"
  cm_encode_cost :: "video_shape \<Rightarrow> encoder_slot \<Rightarrow> cost option"
  cm_scale_cost :: "video_shape \<Rightarrow> video_shape \<Rightarrow> cost"
  cm_decode_cost :: "video_shape \<Rightarrow> cost"
  cm_audio_cost :: "audio_shape \<Rightarrow> audio_work \<Rightarrow> cost option"
  cm_mux_cost :: "container \<Rightarrow> u32 \<Rightarrow> cost"
  cm_room :: "string \<Rightarrow> room"

definition default_mux_cost :: "container \<Rightarrow> u32 \<Rightarrow> cost" where
  "default_mux_cost k kbps = cost_default\<lparr>cpu_millicores := 5, memory_mib := 2, egress_kbps := kbps\<rparr>"

definition default_room :: "string \<Rightarrow> room" where
  "default_room d = room_open"

lemma room_open_fits: "room_fits room_open used extra"
  by (simp add: room_fits_def room_open_def under_cap_def)

lemma device_of_software: "\<not> es_hardware e \<Longrightarrow> device_of e = CPU"
  by (simp add: device_of_def)

subsection \<open>Fixed costs for a machine with no calibration (\<open>static_model.rs\<close>)\<close>

record static_model =
  sm_encoders :: "encoder_slot list"
  sm_audio :: "audio_codec list"
  sm_rooms :: "string \<rightharpoonup> room"

definition software_slot :: "string \<Rightarrow> video_codec \<Rightarrow> encoder_slot" where
  "software_slot i c = \<lparr>es_id = i, es_codec = c, es_hardware = False, es_device = None\<rparr>"

definition software_model :: static_model where
  "software_model =
    \<lparr>sm_encoders = [software_slot ''h264-software-x264'' H264, software_slot ''h265-software'' H265,
                    software_slot ''av1-software'' Av1, software_slot ''vp8-software'' Vp8,
                    software_slot ''vp9-software'' Vp9],
     sm_audio = [Aac, Opus], sm_rooms = Map.empty\<rparr>"

definition with_hardware :: "string \<Rightarrow> video_codec \<Rightarrow> string \<Rightarrow> static_model \<Rightarrow> static_model" where
  "with_hardware i c d m = m\<lparr>sm_encoders :=
     \<lparr>es_id = i, es_codec = c, es_hardware = True, es_device = Some d\<rparr> # sm_encoders m\<rparr>"

definition with_room :: "string \<Rightarrow> room \<Rightarrow> static_model \<Rightarrow> static_model" where
  "with_room d r m = m\<lparr>sm_rooms := (sm_rooms m)(d \<mapsto> r)\<rparr>"

definition without_codec :: "video_codec \<Rightarrow> static_model \<Rightarrow> static_model" where
  "without_codec c m = m\<lparr>sm_encoders := filter (\<lambda>e. es_codec e \<noteq> c) (sm_encoders m)\<rparr>"

text \<open>\<open>1920.0 * 1080.0 * 30.0\<close> is exact.\<close>

definition REF_PIXEL_RATE :: f64 where
  "REF_PIXEL_RATE = 62208000"

definition HW_MAX_SIDE :: u32 where
  "HW_MAX_SIDE = 4096"

definition shape_load :: "video_shape \<Rightarrow> f64" where
  "shape_load s = f_div (f_mul (f_mul (f_of (vs_width s)) (f_of (vs_height s))) (as_f64 (vs_fps s))) REF_PIXEL_RATE"

definition millicores :: "f64 \<Rightarrow> video_shape \<Rightarrow> u32" where
  "millicores per_ref s = as_u32 \<lceil>f_mul per_ref (shape_load s)\<rceil>"

definition software_ref :: "video_codec \<Rightarrow> f64 option" where
  "software_ref c = (case c of H264 \<Rightarrow> Some 1500 | H265 \<Rightarrow> Some 6000 | Av1 \<Rightarrow> Some 4500
     | Vp8 \<Rightarrow> Some 2200 | Vp9 \<Rightarrow> Some 4500 | _ \<Rightarrow> None)"

definition static_encode_cost :: "video_shape \<Rightarrow> encoder_slot \<Rightarrow> cost option" where
  "static_encode_cost s e =
    (let mem = 32 + as_u32 \<lceil>f_mul 96 (shape_load s)\<rceil> in
     if es_hardware e then
       if HW_MAX_SIDE < vs_width s \<or> HW_MAX_SIDE < vs_height s then None
       else Some \<lparr>cpu_millicores = millicores 100 s, device_millis = max (millicores 34 s) 1,
                  device_sessions = 1, memory_mib = mem, egress_kbps = 0\<rparr>
     else case software_ref (es_codec e) of
       None \<Rightarrow> None
     | Some per_ref \<Rightarrow> Some (cost_default\<lparr>cpu_millicores := millicores per_ref s, memory_mib := mem * 2\<rparr>))"

definition static_scale_cost :: "video_shape \<Rightarrow> video_shape \<Rightarrow> cost" where
  "static_scale_cost from to =
     cost_default\<lparr>cpu_millicores := millicores 60 from + millicores 60 to,
                  memory_mib := 8 + as_u32 \<lceil>f_mul 24 (shape_load to)\<rceil>\<rparr>"

definition static_decode_cost :: "video_shape \<Rightarrow> cost" where
  "static_decode_cost s =
    (let per_ref = (case vs_codec s of H264 \<Rightarrow> 250 | Mpeg2 \<Rightarrow> 250 | H265 \<Rightarrow> 400 | Vp9 \<Rightarrow> 400
                      | Av1 \<Rightarrow> 500 | _ \<Rightarrow> 300)
     in cost_default\<lparr>cpu_millicores := millicores per_ref s, memory_mib := 48\<rparr>)"

definition static_audio_cost :: "audio_codec list \<Rightarrow> audio_shape \<Rightarrow> audio_work \<Rightarrow> cost option" where
  "static_audio_cost audio s w =
    (let priced = (\<lambda>cpu. Some (cost_default\<lparr>cpu_millicores := cpu, memory_mib := 2\<rparr>)) in
     case w of
       WDecode \<Rightarrow> priced 5
     | WConvert \<Rightarrow> priced 5
     | WEncode \<Rightarrow> if as_codec s \<in> set audio then priced (15 + 2 * ucast (as_channels s)) else None)"

definition static_cost_model :: "static_model \<Rightarrow> cost_model" where
  "static_cost_model m =
    \<lparr>cm_encoders = sm_encoders m,
     cm_encode_cost = static_encode_cost,
     cm_scale_cost = static_scale_cost,
     cm_decode_cost = static_decode_cost,
     cm_audio_cost = static_audio_cost (sm_audio m),
     cm_mux_cost = default_mux_cost,
     cm_room = (\<lambda>d. case sm_rooms m d of Some r \<Rightarrow> r | None \<Rightarrow> room_open)\<rparr>"

end
