(* ===== verification/Plan_Graph.thy ===== *)
theory Plan_Graph
  imports Machine
begin

text \<open>
  The plan as a graph of nodes (\<open>crates/godwinmix-render/src/graph.rs\<close>): what a node does, why the
  planner decided it, the plan and the queries on it.
\<close>

datatype track = Video | Audio

text \<open>The fields of each variant are in the source's order.\<close>

datatype node_kind =
    Source (kind_source: string)
  | Copy (kind_source: string) track u8
  | Decode (kind_source: string) track u8
  | Scale (kind_source: string) u32 u32 fps fit "string option" deinterlace deinterlace_method source_aspect bool
  | Encode (kind_source: string) video_shape encoder_slot "string option" "u8 option"
  | AudioConvert (kind_source: string) u8 u32 u8
  | AudioEncode (kind_source: string) audio_shape u8
  | Mux string container

datatype reason_code = Hardware | SoftwareOnly | DeviceFull | ShapeUnsupported | Copied | Transcoded

record reason =
  rs_code :: reason_code
  rs_text :: string

record node =
  nd_id :: string
  nd_kind :: node_kind
  nd_inputs :: "string list"
  nd_serves :: "string list"
  nd_device :: string
  nd_cost :: cost
  nd_reason :: "reason option"

record plan =
  pl_nodes :: "node list"
  pl_keyframe_ms :: "string \<rightharpoonup> u32"
  pl_cost :: "string \<rightharpoonup> cost"
  pl_total :: cost

definition plan_default :: plan where
  "plan_default = \<lparr>pl_nodes = [], pl_keyframe_ms = Map.empty, pl_cost = Map.empty, pl_total = cost_default\<rparr>"

definition plan_node :: "plan \<Rightarrow> string \<Rightarrow> node option" where
  "plan_node p i = List.find (\<lambda>n. nd_id n = i) (pl_nodes p)"

definition mux_id :: "string \<Rightarrow> string" where
  "mux_id request = ''mux:'' @ request"

definition plan_output :: "plan \<Rightarrow> string \<Rightarrow> node option" where
  "plan_output p request = plan_node p (mux_id request)"

fun is_encode :: "node_kind \<Rightarrow> bool" where
  "is_encode (Encode _ _ _ _ _) = True"
| "is_encode _ = False"

definition plan_encodes :: "plan \<Rightarrow> node list" where
  "plan_encodes p = filter (\<lambda>n. is_encode (nd_kind n)) (pl_nodes p)"

definition plan_count :: "plan \<Rightarrow> (node_kind \<Rightarrow> bool) \<Rightarrow> nat" where
  "plan_count p pred = length (filter (\<lambda>n. pred (nd_kind n)) (pl_nodes p))"

subsection \<open>The nodes that feed a request's output\<close>

text \<open>
  \<open>Plan::chain\<close> walks back from a request's Mux with a work list used as a stack. Each round either
  drops an id or moves a node of the plan to the result, which never holds an id twice, so the loop
  ends: what shrinks is first the number of plan nodes not yet in the result, then the work list.
\<close>

definition fresh_nodes :: "node list \<Rightarrow> node list \<Rightarrow> node list" where
  "fresh_nodes nodes out = filter (\<lambda>n. nd_id n \<notin> nd_id ` set out) nodes"

lemma find_fresh_shrinks:
  assumes "List.find (\<lambda>n. nd_id n = i) nodes = Some n" "nd_id n \<notin> nd_id ` set out"
  shows "length (fresh_nodes nodes (out @ [n])) < length (fresh_nodes nodes out)"
proof -
  have n: "n \<in> set (fresh_nodes nodes out)"
    using assms by (auto simp: fresh_nodes_def dest: find_Some_iff_first)
  have "fresh_nodes nodes (out @ [n]) = filter (\<lambda>m. nd_id m \<noteq> nd_id n) (fresh_nodes nodes out)"
    by (auto simp: fresh_nodes_def intro: filter_cong)
  then show ?thesis
    using length_filter_less [of n "fresh_nodes nodes out" "\<lambda>m. nd_id m \<noteq> nd_id n"] n by simp
qed

function chain_walk :: "node list \<Rightarrow> string list \<Rightarrow> node list \<Rightarrow> node list" where
  "chain_walk nodes todo out =
    (if todo = [] then out
     else case List.find (\<lambda>n. nd_id n = last todo) nodes of
       None \<Rightarrow> chain_walk nodes (butlast todo) out
     | Some n \<Rightarrow>
         if nd_id n \<in> nd_id ` set out then chain_walk nodes (butlast todo) out
         else chain_walk nodes (butlast todo @ nd_inputs n) (out @ [n]))"
  by pat_completeness auto
termination
  by (relation "measures [\<lambda>(nodes, todo, out). length (fresh_nodes nodes out), \<lambda>(nodes, todo, out). length todo]")
     (auto dest: find_fresh_shrinks)

declare chain_walk.simps [simp del]

definition plan_chain :: "plan \<Rightarrow> string \<Rightarrow> node list" where
  "plan_chain p request = chain_walk (pl_nodes p) [mux_id request] []"

text \<open>What it should return: the nodes reachable from the Mux along inputs that name a node.\<close>

inductive feeds :: "node list \<Rightarrow> string \<Rightarrow> node \<Rightarrow> bool" for nodes where
  feeds_here: "List.find (\<lambda>n. nd_id n = i) nodes = Some n \<Longrightarrow> feeds nodes i n"
| feeds_back: "List.find (\<lambda>n. nd_id n = i) nodes = Some m \<Longrightarrow> j \<in> set (nd_inputs m) \<Longrightarrow> feeds nodes j n
    \<Longrightarrow> feeds nodes i n"

inductive_cases feedsE: "feeds nodes i n"

lemma chain_walk_sound:
  assumes "n \<in> set (chain_walk nodes todo out)"
  shows "n \<in> set out \<or> (\<exists>i \<in> set todo. feeds nodes i n)"
  using assms
proof (induction nodes todo out rule: chain_walk.induct)
  case (1 nodes todo out)
  show ?case
  proof (cases "todo = []")
    case True
    with "1.prems" show ?thesis by (simp add: chain_walk.simps)
  next
    case ne: False
    then have last: "last todo \<in> set todo" and but: "set (butlast todo) \<subseteq> set todo"
      by (auto dest: in_set_butlastD)
    show ?thesis
    proof (cases "List.find (\<lambda>n. nd_id n = last todo) nodes")
      case None
      with ne "1.prems" have "n \<in> set (chain_walk nodes (butlast todo) out)"
        by (subst (asm) chain_walk.simps) simp
      with "1.IH"(1) [OF ne None] but show ?thesis by blast
    next
      case (Some m)
      show ?thesis
      proof (cases "nd_id m \<in> nd_id ` set out")
        case True
        with ne Some "1.prems" have "n \<in> set (chain_walk nodes (butlast todo) out)"
          by (subst (asm) chain_walk.simps) simp
        with "1.IH"(2) [OF ne Some True] but show ?thesis by blast
      next
        case False
        with ne Some "1.prems" have "n \<in> set (chain_walk nodes (butlast todo @ nd_inputs m) (out @ [m]))"
          by (subst (asm) chain_walk.simps) simp
        from "1.IH"(3) [OF ne Some False this]
        consider "n \<in> set out" | "n = m" | i where "i \<in> set (butlast todo)" "feeds nodes i n"
          | j where "j \<in> set (nd_inputs m)" "feeds nodes j n" by auto
        then show ?thesis
          using last but Some by cases (blast intro: feeds.intros)+
      qed
    qed
  qed
qed

text \<open>
  Completeness by an invariant: every node already in the result has each of its inputs either in
  the result or still on the work list.
\<close>

definition closed_walk :: "node list \<Rightarrow> string list \<Rightarrow> node list \<Rightarrow> bool" where
  "closed_walk nodes todo out \<longleftrightarrow>
     (\<forall>m \<in> set out. List.find (\<lambda>n. nd_id n = nd_id m) nodes = Some m \<and>
        (\<forall>j \<in> set (nd_inputs m). j \<in> set todo \<or> (\<forall>n. List.find (\<lambda>n. nd_id n = j) nodes = Some n \<longrightarrow> n \<in> set out)))"

lemma closed_walk_step:
  assumes "closed_walk nodes todo out" "todo \<noteq> []"
    "\<forall>n. List.find (\<lambda>n. nd_id n = last todo) nodes = Some n \<longrightarrow> n \<in> set out"
  shows "closed_walk nodes (butlast todo) out"
proof -
  have "j \<in> set todo \<Longrightarrow> j = last todo \<or> j \<in> set (butlast todo)" for j
    using assms(2) by (cases todo rule: rev_cases) auto
  then show ?thesis using assms(1,3) unfolding closed_walk_def by metis
qed

lemma closed_walk_push:
  assumes "closed_walk nodes todo out" "todo \<noteq> []"
    "List.find (\<lambda>n. nd_id n = last todo) nodes = Some m"
  shows "closed_walk nodes (butlast todo @ nd_inputs m) (out @ [m])"
proof -
  have "j \<in> set todo \<Longrightarrow> j = last todo \<or> j \<in> set (butlast todo)" for j
    using assms(2) by (cases todo rule: rev_cases) auto
  moreover have "nd_id m = last todo" using assms(3) by (auto dest: find_Some_iff_first)
  ultimately show ?thesis using assms(1,3) unfolding closed_walk_def by (auto; metis option.inject)
qed

lemma chain_walk_complete:
  assumes "closed_walk nodes todo out"
  shows "closed_walk nodes [] (chain_walk nodes todo out)
    \<and> set out \<subseteq> set (chain_walk nodes todo out)
    \<and> (\<forall>i \<in> set todo. \<forall>n. List.find (\<lambda>n. nd_id n = i) nodes = Some n \<longrightarrow> n \<in> set (chain_walk nodes todo out))"
  using assms
proof (induction nodes todo out rule: chain_walk.induct)
  case (1 nodes todo out)
  show ?case
  proof (cases "todo = []")
    case True
    with "1.prems" show ?thesis by (simp add: chain_walk.simps)
  next
    case ne: False
    then have split: "set todo = insert (last todo) (set (butlast todo))"
      by (cases todo rule: rev_cases) auto
    show ?thesis
    proof (cases "List.find (\<lambda>n. nd_id n = last todo) nodes")
      case None
      with ne have r: "chain_walk nodes todo out = chain_walk nodes (butlast todo) out"
        by (subst chain_walk.simps) simp
      have "closed_walk nodes (butlast todo) out"
        using closed_walk_step [OF "1.prems" ne] None by simp
      from "1.IH"(1) [OF ne None this] None show ?thesis unfolding r split by simp
    next
      case (Some m)
      then have m: "nd_id m = last todo" by (auto dest: find_Some_iff_first)
      show ?thesis
      proof (cases "nd_id m \<in> nd_id ` set out")
        case True
        with ne Some have r: "chain_walk nodes todo out = chain_walk nodes (butlast todo) out"
          by (subst chain_walk.simps) simp
        from True obtain m' where m': "m' \<in> set out" "nd_id m' = nd_id m" by auto
        then have "List.find (\<lambda>n. nd_id n = nd_id m') nodes = Some m'"
          using "1.prems" unfolding closed_walk_def by blast
        with m m' Some have mo: "m \<in> set out" by simp
        have "closed_walk nodes (butlast todo) out"
          using closed_walk_step [OF "1.prems" ne] Some mo by simp
        from "1.IH"(2) [OF ne Some True this] Some mo show ?thesis unfolding r split by auto
      next
        case False
        with ne Some have r: "chain_walk nodes todo out = chain_walk nodes (butlast todo @ nd_inputs m) (out @ [m])"
          by (subst chain_walk.simps) simp
        from "1.IH"(3) [OF ne Some False closed_walk_push [OF "1.prems" ne Some]] Some
        show ?thesis unfolding r split by auto
      qed
    qed
  qed
qed

lemma feeds_in_closed:
  assumes "feeds nodes i n" "closed_walk nodes [] out"
    "\<And>n. List.find (\<lambda>n. nd_id n = i) nodes = Some n \<Longrightarrow> n \<in> set out"
  shows "n \<in> set out"
  using assms
proof (induction rule: feeds.induct)
  case (feeds_back i m j n)
  then have "m \<in> set out" by blast
  with feeds_back.prems feeds_back.hyps have "\<And>n. List.find (\<lambda>n. nd_id n = j) nodes = Some n \<Longrightarrow> n \<in> set out"
    by (auto simp: closed_walk_def)
  then show ?case using feeds_back by blast
qed

lemma chain_walk_distinct:
  "distinct (map nd_id out) \<Longrightarrow> distinct (map nd_id (chain_walk nodes todo out))"
proof (induction nodes todo out rule: chain_walk.induct)
  case (1 nodes todo out)
  then show ?case
    by (subst chain_walk.simps) (auto split: option.split)
qed

lemma set_plan_chain: "set (plan_chain p request) = {n. feeds (pl_nodes p) (mux_id request) n}"
proof -
  have c: "closed_walk (pl_nodes p) [mux_id request] []" by (simp add: closed_walk_def)
  show ?thesis
    using chain_walk_sound [of _ "pl_nodes p" "[mux_id request]" "[]"] chain_walk_complete [OF c] feeds_in_closed
    unfolding plan_chain_def by fastforce
qed

lemma plan_node_distinct:
  assumes "distinct (map nd_id (pl_nodes p))" "n \<in> set (pl_nodes p)"
  shows "plan_node p (nd_id n) = Some n"
proof -
  obtain m where m: "plan_node p (nd_id n) = Some m"
    using assms(2) by (cases "plan_node p (nd_id n)") (auto simp: plan_node_def find_None_iff)
  then have "m \<in> set (pl_nodes p)" "nd_id m = nd_id n"
    by (auto simp: plan_node_def dest: find_Some_iff_first)
  then show ?thesis using assms m by (metis distinct_map inj_onD)
qed

end
