(* ===== verification/Ids.thy ===== *)
theory Ids
  imports Containers Plan_Graph
begin

text \<open>
  Node ids (\<open>crates/godwinmix-render/src/ids.rs\<close> and the formats of \<open>build.rs\<close> and \<open>chain.rs\<close>). Each
  is the text the code builds, so that sharing and \<open>diff\<close>, which compare ids, compare what the code
  compares. The lemmas say when two ids can be equal.
\<close>

fun track_slug :: "track \<Rightarrow> string" where
  "track_slug Video = ''video''"
| "track_slug Audio = ''audio''"

definition fps_id :: "fps \<Rightarrow> string" where
  "fps_id f = (if fps_den f \<le> 1 then show_word (fps_num f)
               else show_word (fps_num f) @ ''/'' @ show_word (fps_den f))"

record look =
  lk_fit :: fit
  lk_pad_color :: "string option"
  lk_deinterlace :: deinterlace
  lk_method :: deinterlace_method
  lk_aspect :: source_aspect

definition to_ascii_lower :: "char \<Rightarrow> char" where
  "to_ascii_lower c =
    (let n = (of_char c :: nat) in if 65 \<le> n \<and> n \<le> 90 then char_of (n + 32) else c)"

definition size_text :: "video_shape \<Rightarrow> string" where
  "size_text s = show_word (vs_width s) @ ''x'' @ show_word (vs_height s) @ ''p'' @ fps_id (vs_fps s)"

fun fit_suffix :: "fit \<Rightarrow> string option \<Rightarrow> string" where
  "fit_suffix Crop _ = '':crop''"
| "fit_suffix Stretch _ = '':stretch''"
| "fit_suffix Pad (Some c) = '':pad-'' @ map to_ascii_lower (dropWhile (\<lambda>x. x = CHR ''#'') c)"
| "fit_suffix Pad None = []"

fun deinterlace_suffix :: "deinterlace \<Rightarrow> string" where
  "deinterlace_suffix On = '':di''"
| "deinterlace_suffix Auto = '':da''"
| "deinterlace_suffix Off = []"

fun method_suffix :: "deinterlace \<Rightarrow> deinterlace_method \<Rightarrow> string" where
  "method_suffix Off _ = []"
| "method_suffix _ Yadif = []"
| "method_suffix _ Greedyh = ''-greedyh''"
| "method_suffix _ Linear = ''-linear''"

fun aspect_suffix :: "source_aspect \<Rightarrow> string" where
  "aspect_suffix Wide = '':a16x9''"
| "aspect_suffix Standard = '':a4x3''"
| "aspect_suffix AspectAuto = []"

definition scale_id :: "string \<Rightarrow> video_shape \<Rightarrow> look \<Rightarrow> string" where
  "scale_id source s l =
     ''scale:'' @ source @ '':'' @ size_text s @ fit_suffix (lk_fit l) (lk_pad_color l) @
     deinterlace_suffix (lk_deinterlace l) @ method_suffix (lk_deinterlace l) (lk_method l) @
     aspect_suffix (lk_aspect l)"

definition deinterlace_id :: "string \<Rightarrow> look \<Rightarrow> string" where
  "deinterlace_id source l =
     ''deinterlace:'' @ source @ '':'' @ (if lk_deinterlace l = On then ''di'' else ''da'') @
     (case lk_method l of Yadif \<Rightarrow> [] | Greedyh \<Rightarrow> ''-greedyh'' | Linear \<Rightarrow> ''-linear'')"

definition encode_id :: "string \<Rightarrow> video_shape \<Rightarrow> string option \<Rightarrow> u8 option \<Rightarrow> string" where
  "encode_id source s preset bframes =
     ''encode:'' @ source @ '':'' @ video_slug (vs_codec s) @ '':'' @ size_text s @ '':'' @
     show_word (vs_bitrate_kbps s) @ ''k:g'' @ show_word (vs_keyframe_ms s) @
     (case preset of Some p \<Rightarrow> '':p'' @ p | None \<Rightarrow> []) @
     (case bframes of Some b \<Rightarrow> '':b'' @ show_word b | None \<Rightarrow> [])"

text \<open>What \<open>Builder::encoded\<close> adds for a request that picks where it is encoded.\<close>

fun pick_suffix :: "encoder_pick option \<Rightarrow> string" where
  "pick_suffix None = []"
| "pick_suffix (Some Gpu) = '':gpu''"
| "pick_suffix (Some Cpu) = '':cpu''"

definition track_source :: "string \<Rightarrow> u8 \<Rightarrow> string" where
  "track_source source index = (if index = 0 then source else source @ '':a'' @ show_word index)"

definition aconvert_id :: "string \<Rightarrow> audio_shape \<Rightarrow> string" where
  "aconvert_id source s =
     ''aconvert:'' @ source @ '':'' @ show_word (as_channels s) @ ''ch'' @ show_word (as_sample_rate s)"

definition aencode_id :: "string \<Rightarrow> audio_shape \<Rightarrow> string" where
  "aencode_id source s =
     ''aencode:'' @ source @ '':'' @ audio_slug (as_codec s) @ '':'' @ show_word (as_channels s) @ ''ch'' @
     show_word (as_sample_rate s) @ '':'' @ show_word (as_bitrate_kbps s) @ ''k''"

definition source_id :: "string \<Rightarrow> string" where
  "source_id source = ''source:'' @ source"

text \<open>\<open>nth\<close> of \<open>build.rs\<close>: nothing for the first sound track, its number for the others.\<close>

definition nth_text :: "u8 \<Rightarrow> string" where
  "nth_text index = (if index = 0 then [] else show_word index)"

definition copy_id :: "string \<Rightarrow> track \<Rightarrow> u8 \<Rightarrow> string" where
  "copy_id source t index = ''copy:'' @ source @ '':'' @ track_slug t @ nth_text index"

definition decode_id :: "string \<Rightarrow> track \<Rightarrow> u8 \<Rightarrow> string" where
  "decode_id source t index = ''decode:'' @ source @ '':'' @ track_slug t @ nth_text index"

end
