(* ===== verification/Choose.thy ===== *)
theory Choose
  imports PlanErrors Plan_Graph Sizing
begin

text \<open>
  Which encoder makes a shape (\<open>crates/godwinmix-render/src/choose.rs\<close>) and, when none can, the
  nearest shape one can make (\<open>nearest.rs\<close>).
\<close>

type_synonym used = "string \<rightharpoonup> cost"

definition used_on :: "used \<Rightarrow> string \<Rightarrow> cost" where
  "used_on u d = (case u d of Some c \<Rightarrow> c | None \<Rightarrow> cost_default)"

record choice =
  ch_encoder :: encoder_slot
  ch_cost :: cost
  ch_reason :: reason

text \<open>\<open>sort_by_key(|e| !e.hardware)\<close> is stable and \<open>false < true\<close>: hardware first.\<close>

definition candidates :: "encoder_slot list \<Rightarrow> video_shape \<Rightarrow> encoder_slot list" where
  "candidates encoders s = sort_key (\<lambda>e. \<not> es_hardware e) (filter (\<lambda>e. es_codec e = vs_codec s) encoders)"

definition reason_for :: "encoder_slot \<Rightarrow> video_shape \<Rightarrow> (skip \<times> reason_code) option \<Rightarrow> reason" where
  "reason_for e s first_skip =
    (case first_skip of
       Some (sk, code) \<Rightarrow> \<lparr>rs_code = code, rs_text = ''using '' @ es_id e @ '' because '' @ sk_why sk\<rparr>
     | None \<Rightarrow>
        if es_hardware e
        then \<lparr>rs_code = Hardware, rs_text = es_id e @ '' is a hardware '' @ video_name (vs_codec s) @
                '' encoder on '' @ device_of e\<rparr>
        else \<lparr>rs_code = SoftwareOnly, rs_text = ''using '' @ es_id e @
                '' because this machine has no hardware '' @ video_name (vs_codec s) @ '' encoder''\<rparr>)"

text \<open>What passes an encoder over: the shape is beyond it, or its device has no room.\<close>

definition pass_over :: "cost_model \<Rightarrow> video_shape \<Rightarrow> used \<Rightarrow> encoder_slot \<Rightarrow> (skip \<times> reason_code) + cost" where
  "pass_over m s u e =
    (case cm_encode_cost m s e of
       None \<Rightarrow> Inl (\<lparr>sk_encoder = es_id e, sk_why = es_id e @ '' cannot make '' @ shape_text s\<rparr>, ShapeUnsupported)
     | Some c \<Rightarrow>
        if es_hardware e \<and> \<not> room_fits (cm_room m (device_of e)) (used_on u (device_of e)) c
        then Inl (\<lparr>sk_encoder = es_id e, sk_why = ''the GPU '' @ device_of e @ '' is full''\<rparr>, DeviceFull)
        else Inr c)"

fun choose_from :: "cost_model \<Rightarrow> video_shape \<Rightarrow> used \<Rightarrow> encoder_slot list \<Rightarrow> (skip \<times> reason_code) list
    \<Rightarrow> skip list + choice" where
  "choose_from m s u [] skips = Inl (map fst skips)"
| "choose_from m s u (e # es) skips =
    (case pass_over m s u e of
       Inl sk \<Rightarrow> choose_from m s u es (skips @ [sk])
     | Inr c \<Rightarrow> Inr \<lparr>ch_encoder = e, ch_cost = c,
                     ch_reason = reason_for e s (case skips of [] \<Rightarrow> None | sk # _ \<Rightarrow> Some sk)\<rparr>)"

definition choose_encoder :: "cost_model \<Rightarrow> encoder_slot list \<Rightarrow> video_shape \<Rightarrow> used \<Rightarrow> skip list + choice" where
  "choose_encoder m encoders s u = choose_from m s u (candidates encoders s) []"

definition hold :: "used \<Rightarrow> encoder_slot \<Rightarrow> cost \<Rightarrow> used" where
  "hold u e c = (if es_hardware e then u(device_of e \<mapsto> cost_plus (used_on u (device_of e)) c) else u)"

subsection \<open>The nearest shape\<close>

definition HEIGHTS :: "u32 list" where
  "HEIGHTS = [2160, 1440, 1080, 720, 540, 480, 360]"

definition rates :: "fps \<Rightarrow> fps list" where
  "rates f = (if 61 / 2 < as_f64 f then [f, \<lparr>fps_num = fps_num f, fps_den = max (fps_den f) 1 * 2\<rparr>] else [f])"

definition steps :: "video_shape \<Rightarrow> video_shape list" where
  "steps want =
     map (\<lambda>f. want\<lparr>vs_fps := f\<rparr>) (rates (vs_fps want)) @
     concat (map (\<lambda>h. let (w, h') = size_for None (Some h) want in
                      map (\<lambda>f. want\<lparr>vs_width := w, vs_height := h', vs_fps := f\<rparr>) (rates (vs_fps want)))
             (filter (\<lambda>h. h < vs_height want) HEIGHTS))"

definition suggest :: "video_shape \<Rightarrow> string \<Rightarrow> suggestion" where
  "suggest s e =
    \<lparr>sg_codec = video_slug (vs_codec s), sg_width = vs_width s, sg_height = vs_height s, sg_fps = vs_fps s,
     sg_encoder = e, sg_text = video_name (vs_codec s) @ '' '' @ shape_text s @ '' with '' @ e\<rparr>"

definition nearest_codecs :: "video_codec \<Rightarrow> container \<Rightarrow> video_codec list" where
  "nearest_codecs c k = c # filter (\<lambda>d. d \<noteq> c) (video_codecs k)"

definition nearest :: "cost_model \<Rightarrow> encoder_slot list \<Rightarrow> video_shape \<Rightarrow> container \<Rightarrow> used \<Rightarrow> suggestion option" where
  "nearest m encoders want k u =
    find_map (\<lambda>c. find_map (\<lambda>s. case choose_encoder m encoders s u of
                                    Inr ch \<Rightarrow> Some (suggest s (es_id (ch_encoder ch)))
                                  | Inl _ \<Rightarrow> None)
                     (steps (want\<lparr>vs_codec := c\<rparr>)))
      (nearest_codecs (vs_codec want) k)"

subsection \<open>What a choice guarantees\<close>

lemma set_candidates: "set (candidates encoders s) = {e \<in> set encoders. es_codec e = vs_codec s}"
  by (simp add: candidates_def)

lemma sorted_candidates: "sorted (map (\<lambda>e. \<not> es_hardware e) (candidates encoders s))"
  by (simp add: candidates_def sorted_sort_key)

lemma choose_from_Inr:
  assumes "choose_from m s u es skips = Inr ch"
  shows "\<exists>pre post. es = pre @ ch_encoder ch # post \<and> pass_over m s u (ch_encoder ch) = Inr (ch_cost ch)
    \<and> (\<forall>e \<in> set pre. \<exists>sk. pass_over m s u e = Inl sk)"
  using assms
proof (induction m s u es skips rule: choose_from.induct)
  case (2 m s u e es skips)
  show ?case
  proof (cases "pass_over m s u e")
    case (Inl sk)
    with 2 obtain pre post where "es = pre @ ch_encoder ch # post"
      "pass_over m s u (ch_encoder ch) = Inr (ch_cost ch)" "\<forall>e \<in> set pre. \<exists>sk. pass_over m s u e = Inl sk"
      by auto
    with Inl show ?thesis by (intro exI [of _ "e # pre"] exI [of _ post]) auto
  next
    case (Inr c)
    with 2 show ?thesis by (intro exI [of _ "[]"] exI [of _ es]) auto
  qed
qed simp

lemma choose_from_Inl_iff:
  "(\<exists>t. choose_from m s u es skips = Inl t) \<longleftrightarrow> (\<forall>e \<in> set es. \<exists>sk. pass_over m s u e = Inl sk)"
  by (induction m s u es skips rule: choose_from.induct) (auto split: sum.splits)

lemma choose_from_tried:
  "choose_from m s u es skips = Inl t \<Longrightarrow> map sk_encoder t = map (sk_encoder \<circ> fst) skips @ map es_id es"
  by (induction m s u es skips arbitrary: t rule: choose_from.induct)
     (auto simp: pass_over_def split: sum.splits option.splits if_splits)

lemma choose_Inr:
  assumes "choose_encoder m encoders s u = Inr ch"
  shows "ch_encoder ch \<in> set encoders" "es_codec (ch_encoder ch) = vs_codec s"
    "cm_encode_cost m s (ch_encoder ch) = Some (ch_cost ch)"
    "es_hardware (ch_encoder ch) \<Longrightarrow>
       room_fits (cm_room m (device_of (ch_encoder ch))) (used_on u (device_of (ch_encoder ch))) (ch_cost ch)"
proof -
  obtain pre post where l: "candidates encoders s = pre @ ch_encoder ch # post"
    and p: "pass_over m s u (ch_encoder ch) = Inr (ch_cost ch)"
    using choose_from_Inr [OF assms [unfolded choose_encoder_def]] by blast
  from l have "ch_encoder ch \<in> set (candidates encoders s)" by simp
  then show "ch_encoder ch \<in> set encoders" "es_codec (ch_encoder ch) = vs_codec s"
    by (simp_all add: set_candidates)
  show "cm_encode_cost m s (ch_encoder ch) = Some (ch_cost ch)"
    "es_hardware (ch_encoder ch) \<Longrightarrow>
       room_fits (cm_room m (device_of (ch_encoder ch))) (used_on u (device_of (ch_encoder ch))) (ch_cost ch)"
    using p by (auto simp: pass_over_def split: option.splits if_splits)
qed

text \<open>Software is chosen only when every hardware encoder of the codec was passed over.\<close>

lemma choose_software:
  assumes "choose_encoder m encoders s u = Inr ch" "\<not> es_hardware (ch_encoder ch)"
    "e \<in> set encoders" "es_codec e = vs_codec s" "es_hardware e"
  shows "\<exists>sk. pass_over m s u e = Inl sk"
proof -
  obtain pre post where l: "candidates encoders s = pre @ ch_encoder ch # post"
    and skipped: "\<forall>e \<in> set pre. \<exists>sk. pass_over m s u e = Inl sk"
    using choose_from_Inr [OF assms(1) [unfolded choose_encoder_def]] by blast
  have "e \<in> set (candidates encoders s)" using assms(3,4) by (simp add: set_candidates)
  moreover have "e \<notin> set (ch_encoder ch # post)"
    using sorted_candidates [of encoders s] assms(2,5) unfolding l by (auto simp: sorted_append)
  ultimately show ?thesis using l skipped by auto
qed

lemma choose_Inl_iff:
  "(\<exists>t. choose_encoder m encoders s u = Inl t) \<longleftrightarrow>
     (\<forall>e \<in> set encoders. es_codec e = vs_codec s \<longrightarrow> (\<exists>sk. pass_over m s u e = Inl sk))"
  by (auto simp: choose_encoder_def choose_from_Inl_iff set_candidates)

lemma choose_tried: "choose_encoder m encoders s u = Inl t \<Longrightarrow> map sk_encoder t = map es_id (candidates encoders s)"
  by (auto simp: choose_encoder_def dest: choose_from_tried)

lemma nearest_Some:
  assumes "nearest m encoders want k u = Some sg"
  shows "\<exists>s ch. (vs_codec s = vs_codec want \<or> carries_video k (vs_codec s))
    \<and> choose_encoder m encoders s u = Inr ch \<and> sg = suggest s (es_id (ch_encoder ch))"
proof -
  from find_map_Some [OF assms [unfolded nearest_def]] obtain c where
    c: "c \<in> set (nearest_codecs (vs_codec want) k)" and
    f: "find_map (\<lambda>s. case choose_encoder m encoders s u of
          Inr ch \<Rightarrow> Some (suggest s (es_id (ch_encoder ch))) | Inl _ \<Rightarrow> None)
        (steps (want\<lparr>vs_codec := c\<rparr>)) = Some sg"
    by blast
  from find_map_Some [OF f] obtain s where
    s: "s \<in> set (steps (want\<lparr>vs_codec := c\<rparr>))" and
    ch: "(case choose_encoder m encoders s u of
          Inr ch \<Rightarrow> Some (suggest s (es_id (ch_encoder ch))) | Inl _ \<Rightarrow> None) = Some sg"
    by blast
  have "vs_codec s = c" using s by (auto simp: steps_def Let_def)
  with c ch show ?thesis
    by (auto simp: nearest_codecs_def carries_video_def split: sum.splits)
qed

lemma used_on_hold:
  "used_on (hold u e c) d = (if es_hardware e \<and> device_of e = d then cost_plus (used_on u d) c else used_on u d)"
  by (simp add: hold_def used_on_def)

end
