(* ===== verification/Builder.thy ===== *)
theory Builder
  imports Store Resolve Ids Choose
begin

text \<open>
  Adding nodes to a plan, sharing any node that already exists
  (\<open>crates/godwinmix-render/src/build.rs\<close>). The \<open>Builder\<close> is a record; a method that mutates it
  returns the new one. \<open>nodes[i]\<close> is \<open>nodes ! i\<close>: the index never points past the vector
  (\<open>pool_inv\<close>), so the panic of an out of range read cannot happen.
\<close>

subsection \<open>State\<close>

text \<open>\<open>Resolved\<close> of \<open>plan.rs\<close>: one request with its source found and its copy or encode decided.\<close>

record resolved =
  rv_request :: rendition_request
  rv_source :: string
  rv_info :: stream_info
  rv_video :: video_decision
  rv_audio :: audio_decision
  rv_tracks :: "(u8 \<times> audio_shape \<times> audio_decision) list"

definition rv_id :: "resolved \<Rightarrow> string" where
  "rv_id r = rq_id (rv_request r)"

record builder =
  bd_model :: cost_model
  bd_encoders :: "encoder_slot list"
  bd_nodes :: "node list"
  bd_index :: "string \<rightharpoonup> nat"
  bd_used :: used

definition builder_new :: "cost_model \<Rightarrow> encoder_slot list \<Rightarrow> builder" where
  "builder_new m encoders =
    \<lparr>bd_model = m, bd_encoders = encoders, bd_nodes = [], bd_index = Map.empty, bd_used = Map.empty\<rparr>"

subsection \<open>Sharing and adding\<close>

definition add_serve :: "string \<Rightarrow> node \<Rightarrow> node" where
  "add_serve request n = (if request \<in> set (nd_serves n) then n else n\<lparr>nd_serves := nd_serves n @ [request]\<rparr>)"

definition serve_at :: "builder \<Rightarrow> nat \<Rightarrow> string \<Rightarrow> builder" where
  "serve_at b i request = b\<lparr>bd_nodes := (bd_nodes b)[i := add_serve request (bd_nodes b ! i)]\<rparr>"

definition share :: "builder \<Rightarrow> string \<Rightarrow> string \<Rightarrow> builder \<times> bool" where
  "share b i request = (case bd_index b i of None \<Rightarrow> (b, False) | Some k \<Rightarrow> (serve_at b k request, True))"

definition push :: "builder \<Rightarrow> node \<Rightarrow> builder" where
  "push b n = b\<lparr>bd_index := (bd_index b)(nd_id n \<mapsto> length (bd_nodes b)), bd_nodes := bd_nodes b @ [n]\<rparr>"

text \<open>\<open>work\<close> is a closure the code runs only for a new node; it is pure, so its value is passed.\<close>

definition cpu :: "builder \<Rightarrow> string \<Rightarrow> string \<Rightarrow> string list \<Rightarrow> node_kind \<times> cost \<Rightarrow> builder" where
  "cpu b i request inputs work =
    (case share b i request of
       (b', True) \<Rightarrow> b'
     | (b', False) \<Rightarrow> push b' \<lparr>nd_id = i, nd_kind = fst work, nd_inputs = inputs, nd_serves = [request],
                             nd_device = CPU, nd_cost = snd work, nd_reason = None\<rparr>)"

subsection \<open>The stages\<close>

definition sourced :: "builder \<Rightarrow> resolved \<Rightarrow> string \<times> builder" where
  "sourced b r =
    (let i = source_id (rv_source r) in (i, cpu b i (rv_id r) [] (Source (rv_source r), cost_default)))"

definition decode_price :: "cost_model \<Rightarrow> stream_info \<Rightarrow> track \<Rightarrow> cost" where
  "decode_price m info t =
    (case (t, si_video info, si_audio info) of
       (Video, Some v, _) \<Rightarrow> cm_decode_cost m v
     | (Audio, _, Some a) \<Rightarrow> or_default cost_default (cm_audio_cost m a WDecode)
     | _ \<Rightarrow> cost_default)"

definition decoded :: "builder \<Rightarrow> resolved \<Rightarrow> track \<Rightarrow> string \<times> builder" where
  "decoded b r t =
    (let (src, b) = sourced b r in
     if \<not> si_encoded (rv_info r) then (src, b)
     else let i = decode_id (rv_source r) t 0 in
          (i, cpu b i (rv_id r) [src] (Decode (rv_source r) t 0, decode_price (bd_model b) (rv_info r) t)))"

definition copied_track :: "builder \<Rightarrow> resolved \<Rightarrow> track \<Rightarrow> u8 \<Rightarrow> string \<times> builder" where
  "copied_track b r t index =
    (let (src, b) = sourced b r; i = copy_id (rv_source r) t index in
     (i, cpu b i (rv_id r) [src] (Copy (rv_source r) t index, cost_default)))"

definition copied :: "builder \<Rightarrow> resolved \<Rightarrow> track \<Rightarrow> string \<times> builder" where
  "copied b r t = copied_track b r t 0"

definition decoded_track :: "builder \<Rightarrow> resolved \<Rightarrow> u8 \<Rightarrow> audio_shape \<Rightarrow> string \<times> builder" where
  "decoded_track b r index s =
    (if index = 0 then decoded b r Audio
     else let (src, b) = sourced b r in
       if \<not> si_encoded (rv_info r) then (src, b)
       else let i = decode_id (rv_source r) Audio index in
            (i, cpu b i (rv_id r) [src]
                  (Decode (rv_source r) Audio index, or_default cost_default (cm_audio_cost (bd_model b) s WDecode))))"

definition deinterlaced :: "builder \<Rightarrow> resolved \<Rightarrow> string \<Rightarrow> video_shape \<Rightarrow> look \<Rightarrow> string \<times> builder" where
  "deinterlaced b r dec src l =
    (let i = deinterlace_id (rv_source r) l in
     (i, cpu b i (rv_id r) [dec]
           (Scale (rv_source r) (vs_width src) (vs_height src) (vs_fps src) Pad None
                  (lk_deinterlace l) (lk_method l) AspectAuto True,
            cm_scale_cost (bd_model b) src src)))"

text \<open>\<open>color.trim_start_matches('#').trim_start_matches("0x")\<close> takes every leading match off.\<close>

fun trim_0x :: "string \<Rightarrow> string" where
  "trim_0x (a # b # cs) = (if a = CHR ''0'' \<and> b = CHR ''x'' then trim_0x cs else a # b # cs)"
| "trim_0x cs = cs"

definition is_black :: "string \<Rightarrow> bool" where
  "is_black color =
    (let hex = trim_0x (dropWhile (\<lambda>c. c = CHR ''#'') color) in hex \<noteq> [] \<and> list_all (\<lambda>c. c = CHR ''0'') hex)"

definition look_of :: "video_want \<Rightarrow> look" where
  "look_of want =
    \<lparr>lk_fit = or_default Pad (vw_fit want),
     lk_pad_color = (case vw_pad_color want of Some c \<Rightarrow> if is_black c then None else Some c | None \<Rightarrow> None),
     lk_deinterlace = or_default Off (vw_deinterlace want),
     lk_method = or_default Yadif (vw_deinterlace_method want),
     lk_aspect = or_default AspectAuto (vw_aspect want)\<rparr>"

text \<open>Comparing \<open>fps\<close> compares the fractions, \<open>30/1\<close> and \<open>60/2\<close> being two.\<close>

definition resized :: "video_shape \<Rightarrow> video_shape \<Rightarrow> bool" where
  "resized target src \<longleftrightarrow>
     (vs_width target, vs_height target, vs_fps target) \<noteq> (vs_width src, vs_height src, vs_fps src)"

text \<open>What the video reads before it is encoded: the decode, deinterlaced and scaled where asked.\<close>

definition upstream :: "builder \<Rightarrow> resolved \<Rightarrow> video_shape \<Rightarrow> video_shape \<Rightarrow> look \<Rightarrow> string \<times> builder" where
  "upstream b r target src l =
    (let (up, b) = decoded b r Video;
         (up, b) = (if lk_deinterlace l \<noteq> Off then deinterlaced b r up src l else (up, b))
     in if resized target src \<or> lk_aspect l \<noteq> AspectAuto
        then let i = scale_id (rv_source r) target l in
             (i, cpu b i (rv_id r) [up]
                   (Scale (rv_source r) (vs_width target) (vs_height target) (vs_fps target) (lk_fit l)
                          (lk_pad_color l) Off Yadif (lk_aspect l) False,
                    cm_scale_cost (bd_model b) src target))
        else (up, b))"

definition no_encoder_error :: "builder \<Rightarrow> resolved \<Rightarrow> video_shape \<Rightarrow> skip list \<Rightarrow> plan_error" where
  "no_encoder_error b r target tried =
     NoEncoder \<lparr>ne_request = rv_id r, ne_codec = video_slug (vs_codec target), ne_shape = target, ne_tried = tried,
       ne_nearest = nearest (bd_model b) (bd_encoders b) target (rq_container (rv_request r)) (bd_used b)\<rparr>"

definition picked :: "encoder_pick option \<Rightarrow> encoder_slot list \<Rightarrow> encoder_slot list" where
  "picked pick encoders =
    (case pick of None \<Rightarrow> encoders | Some p \<Rightarrow> filter (\<lambda>e. es_hardware e = (p = Gpu)) encoders)"

definition encoded :: "builder \<Rightarrow> resolved \<Rightarrow> video_shape \<Rightarrow> video_shape \<Rightarrow> plan_error + (string \<times> builder)" where
  "encoded b r target src =
    (let want = or_default video_want_default (rq_video (rv_request r));
         (up, b) = upstream b r target src (look_of want);
         i = encode_id (rv_source r) target (vw_preset want) (vw_bframes want) @ pick_suffix (vw_encoder want)
     in case share b i (rv_id r) of
          (b', True) \<Rightarrow> Inr (i, b')
        | (b', False) \<Rightarrow>
           (case choose_encoder (bd_model b') (picked (vw_encoder want) (bd_encoders b')) target (bd_used b') of
              Inl tried \<Rightarrow> Inl (no_encoder_error b' r target tried)
            | Inr ch \<Rightarrow>
                Inr (i, push (b'\<lparr>bd_used := hold (bd_used b') (ch_encoder ch) (ch_cost ch)\<rparr>)
                  \<lparr>nd_id = i,
                   nd_kind = Encode (rv_source r) target (ch_encoder ch) (vw_preset want) (vw_bframes want),
                   nd_inputs = [up], nd_serves = [rv_id r], nd_device = device_of (ch_encoder ch),
                   nd_cost = ch_cost ch, nd_reason = Some (ch_reason ch)\<rparr>)))"

end
