(* ===== verification/Pool.thy ===== *)
theory Pool
  imports Builder
begin

text \<open>
  What the builder keeps while a plan grows. Every method of \<open>Builder\<close> is a run of three kinds of
  step: a request is added to a node that exists, a CPU node is added, or an encode is chosen, booked
  on its device and added. \<open>bstep\<close> is that step relation; the invariants (the index matches the
  vector, inputs come first, a device is booked for exactly its encodes, no room is overrun, each
  node is named after its work) are proved once per step and reach every method through \<open>grows\<close>.
\<close>

subsection \<open>The index and the vector\<close>

definition pool_ids :: "builder \<Rightarrow> string list" where
  "pool_ids b = map nd_id (bd_nodes b)"

definition pool_inv :: "builder \<Rightarrow> bool" where
  "pool_inv b \<longleftrightarrow>
     (\<forall>i k. bd_index b i = Some k \<longleftrightarrow> k < length (bd_nodes b) \<and> nd_id (bd_nodes b ! k) = i)"

lemma pool_inv_new: "pool_inv (builder_new m es)"
  by (simp add: pool_inv_def builder_new_def)

lemma pool_inv_nth: "pool_inv b \<Longrightarrow> k < length (bd_nodes b) \<Longrightarrow> bd_index b (nd_id (bd_nodes b ! k)) = Some k"
  by (simp add: pool_inv_def)

lemma pool_inv_Some: "pool_inv b \<Longrightarrow> bd_index b i = Some k \<Longrightarrow> k < length (bd_nodes b) \<and> nd_id (bd_nodes b ! k) = i"
  by (simp add: pool_inv_def)

lemma pool_inv_distinct: "pool_inv b \<Longrightarrow> distinct (pool_ids b)"
  unfolding distinct_conv_nth pool_ids_def
  by (metis length_map nth_map option.inject pool_inv_nth)

lemma pool_inv_dom: "pool_inv b \<Longrightarrow> bd_index b i \<noteq> None \<longleftrightarrow> i \<in> set (pool_ids b)"
proof -
  assume inv: "pool_inv b"
  have "bd_index b i \<noteq> None \<longleftrightarrow> (\<exists>k < length (bd_nodes b). nd_id (bd_nodes b ! k) = i)"
    using inv unfolding pool_inv_def by (metis not_None_eq)
  then show ?thesis unfolding pool_ids_def in_set_conv_nth by (metis length_map nth_map)
qed

lemma dom_index: "pool_inv b \<Longrightarrow> dom (bd_index b) = set (pool_ids b)"
  using pool_inv_dom by (auto simp: dom_def)

lemma push_sel [simp]:
  "bd_nodes (push b n) = bd_nodes b @ [n]" "bd_model (push b n) = bd_model b"
  "bd_encoders (push b n) = bd_encoders b" "bd_used (push b n) = bd_used b"
  "bd_index (push b n) = (bd_index b)(nd_id n \<mapsto> length (bd_nodes b))"
  by (simp_all add: push_def)

lemma add_serve_sel [simp]:
  "nd_id (add_serve r n) = nd_id n" "nd_kind (add_serve r n) = nd_kind n"
  "nd_inputs (add_serve r n) = nd_inputs n" "nd_device (add_serve r n) = nd_device n"
  "nd_cost (add_serve r n) = nd_cost n" "nd_reason (add_serve r n) = nd_reason n"
  "set (nd_serves (add_serve r n)) = insert r (set (nd_serves n))"
  by (auto simp: add_serve_def)

lemma serve_at_sel [simp]:
  "bd_nodes (serve_at b k r) = (bd_nodes b)[k := add_serve r (bd_nodes b ! k)]"
  "bd_model (serve_at b k r) = bd_model b" "bd_encoders (serve_at b k r) = bd_encoders b"
  "bd_used (serve_at b k r) = bd_used b" "bd_index (serve_at b k r) = bd_index b"
  by (simp_all add: serve_at_def)

text \<open>Nothing but the list of requests of a node changes when it is shared.\<close>

lemma map_update_same: "f (g x) = f x \<Longrightarrow> k < length xs \<Longrightarrow> xs ! k = x \<Longrightarrow> map f (xs[k := g x]) = map f xs"
  by (metis list_update_id map_update)

lemma map_serve:
  assumes "\<And>n. f (add_serve r n) = f n"
  shows "map f ((bd_nodes b)[k := add_serve r (bd_nodes b ! k)]) = map f (bd_nodes b)"
  by (cases "k < length (bd_nodes b)") (simp_all add: map_update_same [where f = f] assms list_update_beyond)

lemma pool_inv_push: "pool_inv b \<Longrightarrow> bd_index b (nd_id n) = None \<Longrightarrow> pool_inv (push b n)"
  unfolding pool_inv_def by (auto simp: nth_append less_Suc_eq) (metis not_None_eq)

lemma pool_inv_serve: "pool_inv b \<Longrightarrow> pool_inv (serve_at b k r)"
proof -
  have "nd_id ((bd_nodes b)[k := add_serve r (bd_nodes b ! k)] ! j) = nd_id (bd_nodes b ! j)" for j
    by (cases "j = k"; cases "k < length (bd_nodes b)") (simp_all add: list_update_beyond)
  then show "pool_inv b \<Longrightarrow> ?thesis" by (simp add: pool_inv_def)
qed

text \<open>The builder keeps a keyed store: the nodes by id.\<close>

definition pool_get :: "builder \<Rightarrow> string \<Rightarrow> node option" where
  "pool_get b i = map_option ((!) (bd_nodes b)) (bd_index b i)"

definition pool_entry :: "builder \<Rightarrow> string \<Rightarrow> (node_kind \<times> string list \<times> string \<times> cost) option" where
  "pool_entry b i = map_option (\<lambda>n. (nd_kind n, nd_inputs n, nd_device n, nd_cost n)) (pool_get b i)"

definition entry_node :: "string \<Rightarrow> node_kind \<times> string list \<times> string \<times> cost \<Rightarrow> node" where
  "entry_node i e = (case e of (k, ins, d, c) \<Rightarrow>
     \<lparr>nd_id = i, nd_kind = k, nd_inputs = ins, nd_serves = [], nd_device = d, nd_cost = c, nd_reason = None\<rparr>)"

interpretation pool: keyed_store pool_inv pool_ids pool_entry "\<lambda>i e b. push b (entry_node i e)"
proof unfold_locales
  fix b i
  assume inv: "pool_inv b"
  show "distinct (pool_ids b)" using inv by (rule pool_inv_distinct)
  show "(pool_entry b i \<noteq> None) = (i \<in> set (pool_ids b))"
    using pool_inv_dom [OF inv, of i] by (simp add: pool_entry_def pool_get_def)
next
  fix b i and e :: "node_kind \<times> string list \<times> string \<times> cost"
  assume inv: "pool_inv b" and new: "pool_entry b i = None"
  have [simp]: "nd_id (entry_node i e) = i" by (cases e) (simp add: entry_node_def)
  have fresh: "bd_index b i = None" using new by (simp add: pool_entry_def pool_get_def)
  then show "pool_inv (push b (entry_node i e))" using inv by (simp add: pool_inv_push)
  show "pool_ids (push b (entry_node i e)) = pool_ids b @ [i]" by (simp add: pool_ids_def)
  show "pool_entry (push b (entry_node i e)) = (pool_entry b)(i \<mapsto> e)"
    by (auto simp: fun_eq_iff pool_entry_def pool_get_def entry_node_def nth_append option.map_comp comp_def
        dest: pool_inv_Some [OF inv] split: prod.split intro!: map_option_cong)
qed

subsection \<open>Steps\<close>

text \<open>\<open>P\<close> is what is known of every node a run adds, \<open>req\<close> the request it is for.\<close>

inductive bstep :: "(node \<Rightarrow> bool) \<Rightarrow> string \<Rightarrow> builder \<Rightarrow> builder \<Rightarrow> bool" for P req where
  bstep_share: "bd_index b i = Some k \<Longrightarrow> bstep P req b (serve_at b k req)"
| bstep_stage: "bd_index b (nd_id n) = None \<Longrightarrow> set (nd_inputs n) \<subseteq> dom (bd_index b) \<Longrightarrow> nd_serves n = [req]
    \<Longrightarrow> nd_device n = CPU \<Longrightarrow> \<not> is_encode (nd_kind n) \<Longrightarrow> P n \<Longrightarrow> bstep P req b (push b n)"
| bstep_encode: "bd_index b (nd_id n) = None \<Longrightarrow> set (nd_inputs n) \<subseteq> dom (bd_index b) \<Longrightarrow> nd_serves n = [req]
    \<Longrightarrow> choose_encoder (bd_model b) only target (bd_used b) = Inr ch \<Longrightarrow> set only \<subseteq> set (bd_encoders b)
    \<Longrightarrow> nd_kind n = Encode src target (ch_encoder ch) pre bf \<Longrightarrow> nd_device n = device_of (ch_encoder ch)
    \<Longrightarrow> nd_cost n = ch_cost ch \<Longrightarrow> P n
    \<Longrightarrow> bstep P req b (push (b\<lparr>bd_used := hold (bd_used b) (ch_encoder ch) (ch_cost ch)\<rparr>) n)"

inductive grows :: "(node \<Rightarrow> bool) \<Rightarrow> string \<Rightarrow> builder \<Rightarrow> builder \<Rightarrow> bool" for P req where
  grows_refl: "grows P req b b"
| grows_step: "grows P req b b' \<Longrightarrow> bstep P req b' b'' \<Longrightarrow> grows P req b b''"

lemma grows_trans: "grows P req b' b'' \<Longrightarrow> grows P req b b' \<Longrightarrow> grows P req b b''"
  by (induction rule: grows.induct) (auto intro: grows.intros)

lemma grows_one: "bstep P req b b' \<Longrightarrow> grows P req b b'"
  by (blast intro: grows.intros)

lemma bstep_mono: "bstep P req b b' \<Longrightarrow> (\<And>n. P n \<Longrightarrow> Q n) \<Longrightarrow> bstep Q req b b'"
  by (induction rule: bstep.induct) (auto intro: bstep.intros)

lemma grows_mono: "grows P req b b' \<Longrightarrow> (\<And>n. P n \<Longrightarrow> Q n) \<Longrightarrow> grows Q req b b'"
  by (induction rule: grows.induct) (auto intro: grows.intros bstep_mono)

text \<open>An invariant of the steps is one of the runs.\<close>

lemma grows_inv:
  assumes "grows P req b b'" "I b" "\<And>b b'. bstep P req b b' \<Longrightarrow> I b \<Longrightarrow> I b'"
  shows "I b'"
  using assms by (induction rule: grows.induct) auto

lemma bstep_env: "bstep P req b b' \<Longrightarrow> bd_model b' = bd_model b \<and> bd_encoders b' = bd_encoders b"
  by (induction rule: bstep.induct) auto

lemma bstep_pool_inv: "bstep P req b b' \<Longrightarrow> pool_inv b \<Longrightarrow> pool_inv b'"
proof (induction rule: bstep.induct)
  case (bstep_encode b n only target ch src pre bf)
  then have "pool_inv (b\<lparr>bd_used := hold (bd_used b) (ch_encoder ch) (ch_cost ch)\<rparr>)"
    by (simp add: pool_inv_def)
  with bstep_encode show ?case by (intro pool_inv_push) simp_all
qed (simp_all add: pool_inv_push pool_inv_serve)

lemma bstep_dom: "bstep P req b b' \<Longrightarrow> bd_index b i = Some k \<Longrightarrow> bd_index b' i = Some k"
  by (induction rule: bstep.induct) auto

lemma grows_env: "grows P req b b' \<Longrightarrow> bd_model b' = bd_model b \<and> bd_encoders b' = bd_encoders b"
  by (induction rule: grows.induct) (auto dest: bstep_env)

lemma grows_pool_inv: "grows P req b b' \<Longrightarrow> pool_inv b \<Longrightarrow> pool_inv b'"
  by (erule grows_inv) (auto dest: bstep_pool_inv)

lemma grows_index: "grows P req b b' \<Longrightarrow> bd_index b i = Some k \<Longrightarrow> bd_index b' i = Some k"
  by (induction rule: grows.induct) (auto dest: bstep_dom)

text \<open>A node, once there, keeps its place and everything but its requests, to which some are added.\<close>

definition kept :: "node \<Rightarrow> node \<Rightarrow> bool" where
  "kept n n' \<longleftrightarrow> n' = n\<lparr>nd_serves := nd_serves n'\<rparr> \<and> set (nd_serves n) \<subseteq> set (nd_serves n')"

lemma kept_refl [simp]: "kept n n"
  by (simp add: kept_def)

lemma kept_trans: "kept a b \<Longrightarrow> kept b c \<Longrightarrow> kept a c"
  by (cases a; cases b; cases c) (auto simp: kept_def)

lemma kept_add_serve [simp]: "kept n (add_serve r n)"
  by (cases n) (auto simp: kept_def add_serve_def)

lemma bstep_kept:
  "bstep P req b b' \<Longrightarrow> k < length (bd_nodes b) \<Longrightarrow> k < length (bd_nodes b') \<and> kept (bd_nodes b ! k) (bd_nodes b' ! k)"
proof (induction rule: bstep.induct)
  case (bstep_share b i j)
  then show ?case by (cases "j = k") auto
qed (simp_all add: nth_append)

lemma grows_kept:
  "grows P req b b' \<Longrightarrow> k < length (bd_nodes b) \<Longrightarrow> k < length (bd_nodes b') \<and> kept (bd_nodes b ! k) (bd_nodes b' ! k)"
  by (induction rule: grows.induct) (auto dest: bstep_kept intro: kept_trans)

subsection \<open>Invariants\<close>

definition inputs_first :: "node list \<Rightarrow> bool" where
  "inputs_first nodes \<longleftrightarrow> (\<forall>k < length nodes. set (nd_inputs (nodes ! k)) \<subseteq> nd_id ` set (take k nodes))"

lemma inputs_first_Nil [simp]: "inputs_first []"
  by (simp add: inputs_first_def)

lemma inputs_first_snoc: "inputs_first ns \<Longrightarrow> set (nd_inputs n) \<subseteq> nd_id ` set ns \<Longrightarrow> inputs_first (ns @ [n])"
  by (auto simp: inputs_first_def nth_append less_Suc_eq subset_iff)

lemma inputs_first_cong:
  assumes "map nd_id ns = map nd_id ms" "map nd_inputs ns = map nd_inputs ms"
  shows "inputs_first ns = inputs_first ms"
proof -
  have len: "length ns = length ms" using assms(1) map_eq_imp_length_eq by blast
  have "nd_id ` set (take k ns) = nd_id ` set (take k ms)" for k
    by (metis assms(1) set_map take_map)
  moreover have "nd_inputs (ns ! k) = nd_inputs (ms ! k)" if "k < length ms" for k
    using assms(2) len that by (metis nth_map)
  ultimately show ?thesis by (simp add: inputs_first_def len)
qed

lemma bstep_inputs_first: "bstep P req b b' \<Longrightarrow> pool_inv b \<Longrightarrow> inputs_first (bd_nodes b) \<Longrightarrow> inputs_first (bd_nodes b')"
proof (induction rule: bstep.induct)
  case (bstep_share b i k)
  then show ?case
    using inputs_first_cong [of "(bd_nodes b)[k := add_serve req (bd_nodes b ! k)]" "bd_nodes b"]
    by (simp add: map_serve)
qed (auto intro!: inputs_first_snoc simp: dom_index pool_ids_def)

lemma grows_inputs_first:
  "grows P req b b' \<Longrightarrow> pool_inv b \<Longrightarrow> inputs_first (bd_nodes b) \<Longrightarrow> inputs_first (bd_nodes b')"
  by (induction rule: grows.induct) (auto dest: bstep_inputs_first grows_pool_inv)

text \<open>What is known of each new node is known of every node, if requests do not matter to it.\<close>

lemma bstep_all:
  assumes "bstep P req b b'" "\<forall>n \<in> set (bd_nodes b). Q n" "\<And>n r. Q n \<Longrightarrow> Q (add_serve r n)" "\<And>n. P n \<Longrightarrow> Q n"
  shows "\<forall>n \<in> set (bd_nodes b'). Q n"
  using assms(1,2)
proof (induction rule: bstep.induct)
  case (bstep_share b i k)
  then show ?case
    by (cases "k < length (bd_nodes b)") (auto simp: list_update_beyond dest!: set_update_subset_insert [THEN subsetD] intro!: assms(3))
qed (auto simp: assms(4))

lemma grows_all:
  assumes "grows P req b b'" "\<forall>n \<in> set (bd_nodes b). Q n" "\<And>n r. Q n \<Longrightarrow> Q (add_serve r n)" "\<And>n. P n \<Longrightarrow> Q n"
  shows "\<forall>n \<in> set (bd_nodes b'). Q n"
  using assms(1,2)
proof (induction rule: grows.induct)
  case (grows_step b b' b'')
  from bstep_all [where P = P and Q = Q, OF grows_step.hyps(2) grows_step.IH] grows_step.prems assms(3,4)
  show ?case by blast
qed simp

text \<open>What a device is booked for is what its nodes cost together.\<close>

definition device_nodes :: "node list \<Rightarrow> string \<Rightarrow> node list" where
  "device_nodes ns d = filter (\<lambda>n. nd_device n = d) ns"

definition device_cost :: "node list \<Rightarrow> string \<Rightarrow> cost" where
  "device_cost ns d = cost_sum (map nd_cost (device_nodes ns d))"

lemma device_cost_snoc:
  "device_cost (ns @ [n]) d = (if nd_device n = d then cost_plus (device_cost ns d) (nd_cost n) else device_cost ns d)"
  by (simp add: device_cost_def device_nodes_def cost_sum_append)

lemma device_cost_cong:
  assumes "map nd_device ns = map nd_device ms" "map nd_cost ns = map nd_cost ms"
  shows "device_cost ns d = device_cost ms d"
  using map_eq_imp_length_eq [OF assms(1)] assms unfolding device_cost_def device_nodes_def
  by (induction ns ms rule: list_induct2) auto

definition booked :: "builder \<Rightarrow> bool" where
  "booked b \<longleftrightarrow> (\<forall>d. d \<noteq> CPU \<longrightarrow> used_on (bd_used b) d = device_cost (bd_nodes b) d)"

lemma bstep_booked: "bstep P req b b' \<Longrightarrow> booked b \<Longrightarrow> booked b'"
proof (induction rule: bstep.induct)
  case (bstep_share b i k)
  then show ?case
    using device_cost_cong [of "(bd_nodes b)[k := add_serve req (bd_nodes b ! k)]" "bd_nodes b"]
    by (simp add: booked_def map_serve)
next
  case (bstep_encode b n only target ch src pre bf)
  then show ?case
    by (auto simp: booked_def device_cost_snoc used_on_hold device_of_software)
qed (simp add: booked_def device_cost_snoc)

text \<open>No device is booked beyond its room.\<close>

definition within_room :: "builder \<Rightarrow> bool" where
  "within_room b \<longleftrightarrow> (\<forall>d. room_fits (cm_room (bd_model b) d) (used_on (bd_used b) d) cost_default)"

lemma bstep_within_room: "bstep P req b b' \<Longrightarrow> within_room b \<Longrightarrow> within_room b'"
proof (induction rule: bstep.induct)
  case (bstep_encode b n only target ch src pre bf)
  then show ?case
    using choose_Inr(4) [OF bstep_encode.hyps(4)]
    by (simp add: within_room_def used_on_hold room_fits_def)
qed (simp_all add: within_room_def)

text \<open>Every encode is by an encoder of this machine that makes its codec, priced by the model.\<close>

fun encode_ok :: "cost_model \<Rightarrow> encoder_slot list \<Rightarrow> node_kind \<Rightarrow> string \<Rightarrow> cost \<Rightarrow> bool" where
  "encode_ok m es (Encode src s e pre bf) d c \<longleftrightarrow>
     e \<in> set es \<and> es_codec e = vs_codec s \<and> cm_encode_cost m s e = Some c \<and> d = device_of e"
| "encode_ok m es _ d c \<longleftrightarrow> d = CPU"

definition encodes_ok :: "builder \<Rightarrow> bool" where
  "encodes_ok b \<longleftrightarrow>
     (\<forall>n \<in> set (bd_nodes b). encode_ok (bd_model b) (bd_encoders b) (nd_kind n) (nd_device n) (nd_cost n))"

lemma encode_ok_cpu: "\<not> is_encode k \<Longrightarrow> encode_ok m es k CPU c"
  by (cases k) auto

lemma bstep_encodes_ok: "bstep P req b b' \<Longrightarrow> encodes_ok b \<Longrightarrow> encodes_ok b'"
proof (induction rule: bstep.induct)
  case (bstep_share b i k)
  then show ?case
    by (cases "k < length (bd_nodes b)") (auto simp: encodes_ok_def list_update_beyond dest!: set_update_subset_insert [THEN subsetD])
next
  case (bstep_encode b n only target ch src pre bf)
  then show ?case using choose_Inr [OF bstep_encode.hyps(4)] by (auto simp: encodes_ok_def)
qed (auto simp: encodes_ok_def encode_ok_cpu)

definition builder_inv :: "builder \<Rightarrow> bool" where
  "builder_inv b \<longleftrightarrow> pool_inv b \<and> inputs_first (bd_nodes b) \<and> booked b \<and> within_room b \<and> encodes_ok b"

lemma bstep_builder_inv: "bstep P req b b' \<Longrightarrow> builder_inv b \<Longrightarrow> builder_inv b'"
  by (simp add: builder_inv_def bstep_pool_inv bstep_inputs_first bstep_booked bstep_within_room bstep_encodes_ok)

lemma grows_builder_inv: "grows P req b b' \<Longrightarrow> builder_inv b \<Longrightarrow> builder_inv b'"
  by (erule grows_inv) (auto dest: bstep_builder_inv)

lemma builder_inv_new: "builder_inv (builder_new m es)"
  by (simp add: builder_inv_def pool_inv_new)
     (simp add: builder_new_def booked_def within_room_def encodes_ok_def device_cost_def device_nodes_def
       used_on_def room_fits_def under_cap_def split: option.split)

end
