(* ===== verification/Planner.thy ===== *)
theory Planner
  imports Pool
begin

text \<open>
  One request's chain (\<open>crates/godwinmix-render/src/chain.rs\<close>) and the planner that resolves every
  request, settles one keyframe interval per source and builds each chain on shared nodes
  (\<open>plan.rs\<close>).
\<close>

subsection \<open>One chain\<close>

text \<open>What \<open>video\<close> and \<open>audio\<close> return: the node a Mux reads and its bitrate, if there is one.\<close>

type_synonym fed = "(string \<times> u32) option"

definition at_keyframe :: "video_shape \<Rightarrow> u32 \<Rightarrow> video_shape" where
  "at_keyframe target ms = target\<lparr>vs_keyframe_ms := ms\<rparr>"

definition chain_video :: "builder \<Rightarrow> resolved \<Rightarrow> u32 \<Rightarrow> plan_error + (fed \<times> builder)" where
  "chain_video b r keyframe_ms =
    (case si_video (rv_info r) of
       None \<Rightarrow> Inr (None, b)
     | Some src \<Rightarrow>
        (case rv_video r of
           VNone \<Rightarrow> Inr (None, b)
         | VCopy \<Rightarrow> (let (i, b) = copied b r Video in Inr (Some (i, vs_bitrate_kbps src), b))
         | VEncode target why \<Rightarrow>
             let target = at_keyframe target keyframe_ms in
             and_then (encoded b r target src) (\<lambda>(i, b). Inr (Some (i, vs_bitrate_kbps target), b))))"

definition no_audio_encoder :: "builder \<Rightarrow> resolved \<Rightarrow> audio_shape \<Rightarrow> plan_error" where
  "no_audio_encoder b r target =
     NoAudioEncoder (rv_id r) (audio_name (as_codec target))
       (map_option audio_name
         (List.find (\<lambda>c. cm_audio_cost (bd_model b) (target\<lparr>as_codec := c\<rparr>) WEncode \<noteq> None)
            (audio_codecs (rq_container (rv_request r)))))"

definition converted :: "builder \<Rightarrow> resolved \<Rightarrow> u8 \<Rightarrow> audio_shape \<Rightarrow> audio_shape \<Rightarrow> string \<times> builder" where
  "converted b r index src target =
    (let (up, b) = decoded_track b r index src in
     if (as_channels target, as_sample_rate target) \<noteq> (as_channels src, as_sample_rate src)
     then let i = aconvert_id (track_source (rv_source r) index) target in
          (i, cpu b i (rv_id r) [up]
                (AudioConvert (rv_source r) (as_channels target) (as_sample_rate target) index,
                 or_default cost_default (cm_audio_cost (bd_model b) target WConvert)))
     else (up, b))"

definition chain_audio :: "builder \<Rightarrow> resolved \<Rightarrow> u8 \<Rightarrow> audio_shape \<Rightarrow> audio_decision \<Rightarrow> plan_error + (fed \<times> builder)" where
  "chain_audio b r index src decision =
    (case decision of
       ANone \<Rightarrow> Inr (None, b)
     | ACopy \<Rightarrow> (let (i, b) = copied_track b r Audio index in Inr (Some (i, as_bitrate_kbps src), b))
     | AEncode target why \<Rightarrow>
        (case cm_audio_cost (bd_model b) target WEncode of
           None \<Rightarrow> Inl (no_audio_encoder b r target)
         | Some c \<Rightarrow>
            let (up, b) = converted b r index src target;
                i = aencode_id (track_source (rv_source r) index) target
            in Inr (Some (i, as_bitrate_kbps target),
                    cpu b i (rv_id r) [up] (AudioEncode (rv_source r) target index, c))))"

definition mux_reason :: "resolved \<Rightarrow> reason" where
  "mux_reason r =
    (let (as_is, why) =
       (case (rv_video r, rv_audio r) of
          (VEncode _ why, _) \<Rightarrow> (False, why)
        | (VCopy, _) \<Rightarrow> (True, ''the source's video goes out as it is'')
        | (VNone, AEncode _ why) \<Rightarrow> (False, why)
        | (VNone, _) \<Rightarrow> (True, ''the source's sound goes out as it is''))
     in if as_is then \<lparr>rs_code = Copied, rs_text = ''copied: '' @ why\<rparr>
        else \<lparr>rs_code = Transcoded, rs_text = ''encoded because '' @ why\<rparr>)"

text \<open>The inputs so far and their egress; \<open>egress += kbps\<close> wraps in a release build.\<close>

type_synonym feed = "string list \<times> u32"

definition fed_more :: "feed \<Rightarrow> fed \<Rightarrow> feed" where
  "fed_more a f = (case f of None \<Rightarrow> a | Some (i, kbps) \<Rightarrow> (fst a @ [i], snd a + kbps))"

fun chain_tracks :: "builder \<Rightarrow> resolved \<Rightarrow> (u8 \<times> audio_shape \<times> audio_decision) list \<Rightarrow> feed
    \<Rightarrow> plan_error + (feed \<times> builder)" where
  "chain_tracks b r [] a = Inr (a, b)"
| "chain_tracks b r ((index, src, decision) # ts) a =
     and_then (chain_audio b r index src decision) (\<lambda>(f, b). chain_tracks b r ts (fed_more a f))"

definition mux_node :: "builder \<Rightarrow> resolved \<Rightarrow> feed \<Rightarrow> node" where
  "mux_node b r a =
     \<lparr>nd_id = mux_id (rv_id r), nd_kind = Mux (rv_id r) (rq_container (rv_request r)), nd_inputs = fst a,
      nd_serves = [rv_id r], nd_device = CPU,
      nd_cost = cm_mux_cost (bd_model b) (rq_container (rv_request r)) (snd a),
      nd_reason = Some (mux_reason r)\<rparr>"

text \<open>The first sound track is walked like the further ones, with index 0, when the source has it.\<close>

definition first_track :: "resolved \<Rightarrow> (u8 \<times> audio_shape \<times> audio_decision) list" where
  "first_track r = (case si_audio (rv_info r) of None \<Rightarrow> [] | Some src \<Rightarrow> [(0, src, rv_audio r)])"

definition build_chain :: "builder \<Rightarrow> resolved \<Rightarrow> u32 \<Rightarrow> plan_error + builder" where
  "build_chain b r keyframe_ms =
     and_then (chain_video b r keyframe_ms) (\<lambda>(f, b).
       and_then (chain_tracks b r (first_track r @ rv_tracks r) (fed_more ([], 0) f)) (\<lambda>(a, b).
         Inr (push b (mux_node b r a))))"

subsection \<open>The planner\<close>

definition DEFAULT_KEYFRAME_MS :: u32 where
  "DEFAULT_KEYFRAME_MS = 2000"

type_synonym source_list = "(string \<times> stream_info) list"
type_synonym request_list = "(string \<times> rendition_request) list"

definition audio_available :: "cost_model \<Rightarrow> audio_codec list" where
  "audio_available m =
     filter (\<lambda>c. cm_audio_cost m \<lparr>as_codec = c, as_channels = 2, as_sample_rate = 48000, as_bitrate_kbps = 0\<rparr>
                   WEncode \<noteq> None)
       [Aac, Opus, Mp3, Ac3, Pcm]"

definition more_tracks :: "rendition_request \<Rightarrow> string \<Rightarrow> stream_info \<Rightarrow> audio_codec list
    \<Rightarrow> plan_error + (u8 \<times> audio_shape \<times> audio_decision) list" where
  "more_tracks req source info acodecs =
    (if Option.bind (rq_audio req) aw_tracks \<noteq> Some All \<or> rq_no_audio req then Inr []
     else try_map (\<lambda>t.
       let one = stream_info_default\<lparr>si_audio := Some (st_shape t), si_encoded := si_encoded info\<rparr> in
       and_then (resolve_audio req source one acodecs) (\<lambda>d. Inr (st_track t, st_shape t, d)))
       (si_tracks info))"

definition resolve_request :: "source_list \<Rightarrow> string \<Rightarrow> rendition_request \<Rightarrow> video_codec list \<Rightarrow> audio_codec list
    \<Rightarrow> plan_error + resolved" where
  "resolve_request sources source req vcodecs acodecs =
    (case List.find (\<lambda>s. fst s = source) sources of
       None \<Rightarrow> Inl (UnknownSource (rq_id req) source (map fst sources))
     | Some (_, info) \<Rightarrow>
        and_then (resolve_video req source info vcodecs) (\<lambda>v.
        and_then (resolve_audio req source info acodecs) (\<lambda>a.
          if v = VNone \<and> a = ANone then Inl (NothingAsked (rq_id req))
          else and_then (more_tracks req source info acodecs) (\<lambda>ts.
            Inr \<lparr>rv_request = req, rv_source = source, rv_info = info, rv_video = v, rv_audio = a,
                 rv_tracks = ts\<rparr>))))"

fun resolve_all :: "source_list \<Rightarrow> video_codec list \<Rightarrow> audio_codec list \<Rightarrow> string list \<Rightarrow> request_list
    \<Rightarrow> plan_error + resolved list" where
  "resolve_all sources vcodecs acodecs seen [] = Inr []"
| "resolve_all sources vcodecs acodecs seen ((source, req) # rest) =
    (if rq_id req \<in> set seen then Inl (DuplicateRequest (rq_id req))
     else and_then (resolve_request sources source req vcodecs acodecs) (\<lambda>r.
          and_then (resolve_all sources vcodecs acodecs (rq_id req # seen) rest) (\<lambda>rs. Inr (r # rs))))"

text \<open>The smaller of two intervals, where 0 means no view.\<close>

definition shortest :: "u32 \<Rightarrow> u32 \<Rightarrow> u32" where
  "shortest a b = (if a = 0 then b else if b = 0 then a else min a b)"

text \<open>\<open>let entry = map.entry(s).or_insert(0); *entry = shortest(*entry, ms)\<close>.\<close>

definition note_interval :: "string \<Rightarrow> u32 \<Rightarrow> (string \<rightharpoonup> u32) \<Rightarrow> (string \<rightharpoonup> u32)" where
  "note_interval s ms m = m(s \<mapsto> shortest (or_default 0 (m s)) ms)"

definition ladder_step :: "resolved \<Rightarrow> (string \<rightharpoonup> u32) \<times> (string \<rightharpoonup> u32) \<Rightarrow> (string \<rightharpoonup> u32) \<times> (string \<rightharpoonup> u32)" where
  "ladder_step r mm =
    (case (mm, rv_video r) of
       ((asks, copies), VEncode target _) \<Rightarrow> (note_interval (rv_source r) (vs_keyframe_ms target) asks, copies)
     | ((asks, copies), VCopy) \<Rightarrow>
         (asks, note_interval (rv_source r) (case si_video (rv_info r) of None \<Rightarrow> 0 | Some v \<Rightarrow> vs_keyframe_ms v) copies)
     | (mm, VNone) \<Rightarrow> mm)"

definition ladder :: "resolved list \<Rightarrow> (string \<rightharpoonup> u32)" where
  "ladder rs =
    (let (asks, copies) = fold ladder_step rs (Map.empty, Map.empty) in
     (\<lambda>s. map_option (\<lambda>ms. shortest (if ms = 0 then DEFAULT_KEYFRAME_MS else ms) (or_default 0 (copies s))) (asks s)))"

fun build_all :: "(string \<rightharpoonup> u32) \<Rightarrow> builder \<Rightarrow> resolved list \<Rightarrow> plan_error + builder" where
  "build_all rungs b [] = Inr b"
| "build_all rungs b (r # rs) =
     and_then (build_chain b r (or_default DEFAULT_KEYFRAME_MS (rungs (rv_source r)))) (\<lambda>b. build_all rungs b rs)"

text \<open>One pass over the nodes adds each to its device and to the total.\<close>

definition tally_node :: "node \<Rightarrow> (string \<rightharpoonup> cost) \<times> cost \<Rightarrow> (string \<rightharpoonup> cost) \<times> cost" where
  "tally_node n ct =
    ((fst ct)(nd_device n \<mapsto> cost_plus (or_default cost_default (fst ct (nd_device n))) (nd_cost n)),
     cost_plus (snd ct) (nd_cost n))"

definition finish :: "builder \<Rightarrow> (string \<rightharpoonup> u32) \<Rightarrow> plan" where
  "finish b keyframe_ms =
    (let (c, t) = fold tally_node (bd_nodes b) (Map.empty, cost_default) in
     \<lparr>pl_nodes = bd_nodes b, pl_keyframe_ms = keyframe_ms, pl_cost = c, pl_total = t\<rparr>)"

definition make_plan :: "source_list \<Rightarrow> request_list \<Rightarrow> cost_model \<Rightarrow> plan_error + plan" where
  "make_plan sources requests m =
    (let encoders = cm_encoders m; vcodecs = dedup (map es_codec encoders); acodecs = audio_available m in
     and_then (resolve_all sources vcodecs acodecs [] requests) (\<lambda>rs.
     and_then (build_all (ladder rs) (builder_new m encoders) rs) (\<lambda>b.
       Inr (finish b (ladder rs)))))"

end
