(* ===== verification/Growth.thy ===== *)
theory Growth
  imports Planner
begin

text \<open>
  Every method of the builder and every part of a chain is a run of steps (\<open>Pool\<close>), and what it
  returns is a node of the pool that serves the request. With that, the invariants of \<open>Pool\<close> hold
  of every plan.
\<close>

subsection \<open>Ids name work\<close>

text \<open>
  The id of a node is the text of its work. A scale is named by its whole look, of which the node
  carries the deinterlace only when that is all it does; an encode by what it makes and where.
\<close>

fun named_as :: "node_kind \<Rightarrow> string \<Rightarrow> bool" where
  "named_as (Source s) i \<longleftrightarrow> i = source_id s"
| "named_as (Copy s t x) i \<longleftrightarrow> i = copy_id s t x"
| "named_as (Decode s t x) i \<longleftrightarrow> i = decode_id s t x"
| "named_as (Scale s w h f fit pad di me asp only) i \<longleftrightarrow>
     (\<exists>l v. vs_width v = w \<and> vs_height v = h \<and> vs_fps v = f \<and>
        (if only then lk_deinterlace l = di \<and> lk_method l = me \<and> i = deinterlace_id s l
         else lk_fit l = fit \<and> lk_pad_color l = pad \<and> lk_aspect l = asp \<and> i = scale_id s v l))"
| "named_as (Encode s v e p bf) i \<longleftrightarrow> (\<exists>pick. i = encode_id s v p bf @ pick_suffix pick)"
| "named_as (AudioConvert s ch sr x) i \<longleftrightarrow>
     (\<exists>v. as_channels v = ch \<and> as_sample_rate v = sr \<and> i = aconvert_id (track_source s x) v)"
| "named_as (AudioEncode s v x) i \<longleftrightarrow> i = aencode_id (track_source s x) v"
| "named_as (Mux r k) i \<longleftrightarrow> i = mux_id r"

fun is_mux :: "node_kind \<Rightarrow> bool" where
  "is_mux (Mux _ _) = True"
| "is_mux _ = False"

fun is_source :: "node_kind \<Rightarrow> bool" where
  "is_source (Source _) = True"
| "is_source _ = False"

text \<open>Every node but a source and a Mux reads something.\<close>

definition named :: "node \<Rightarrow> bool" where
  "named n \<longleftrightarrow> named_as (nd_kind n) (nd_id n) \<and> (is_source (nd_kind n) \<or> is_mux (nd_kind n) \<or> nd_inputs n \<noteq> [])"

fun keyframe_is :: "u32 option \<Rightarrow> node_kind \<Rightarrow> bool" where
  "keyframe_is m (Encode s v e p bf) \<longleftrightarrow> m = Some (vs_keyframe_ms v)"
| "keyframe_is m _ \<longleftrightarrow> True"

text \<open>A node of a chain that reads source \<open>s\<close>, whose encodes have the keyframe interval \<open>m\<close>.\<close>

definition stage_node :: "string \<Rightarrow> u32 option \<Rightarrow> node \<Rightarrow> bool" where
  "stage_node s m n \<longleftrightarrow> named n \<and> \<not> is_mux (nd_kind n) \<and> kind_source (nd_kind n) = s \<and> keyframe_is m (nd_kind n)"

lemma keyframe_is_other: "\<not> is_encode k \<Longrightarrow> keyframe_is m k"
  by (cases k) auto

lemma named_add_serve: "named n \<Longrightarrow> named (add_serve r n)"
  by (simp add: named_def)

lemmas id_defs = source_id_def copy_id_def decode_id_def scale_id_def deinterlace_id_def encode_id_def
  aconvert_id_def aencode_id_def mux_id_def

text \<open>Only a Mux has an id that starts with \<open>mux:\<close>.\<close>

lemma named_mux: "named_as k (mux_id r) \<Longrightarrow> \<exists>c. k = Mux r c"
  by (cases k) (auto simp: id_defs split: if_splits)

subsection \<open>Runs\<close>

definition served_by :: "builder \<Rightarrow> string \<Rightarrow> string \<Rightarrow> bool" where
  "served_by b req i \<longleftrightarrow> (\<exists>k. bd_index b i = Some k \<and> req \<in> set (nd_serves (bd_nodes b ! k)))"

definition ran :: "(node \<Rightarrow> bool) \<Rightarrow> string \<Rightarrow> builder \<Rightarrow> string \<times> builder \<Rightarrow> bool" where
  "ran P req b ib \<longleftrightarrow> grows P req b (snd ib) \<and> served_by (snd ib) req (fst ib)"

lemma served_by_grows:
  assumes "served_by b req i" "grows P q b b'" "pool_inv b"
  shows "served_by b' req i"
proof -
  obtain k where k: "bd_index b i = Some k" "req \<in> set (nd_serves (bd_nodes b ! k))"
    using assms(1) by (auto simp: served_by_def)
  then have "k < length (bd_nodes b)" using assms(3) by (simp add: pool_inv_Some)
  then have "kept (bd_nodes b ! k) (bd_nodes b' ! k)" using grows_kept [OF assms(2)] by blast
  with k assms(2) show ?thesis by (auto simp: served_by_def kept_def dest: grows_index)
qed

lemma served_by_dom: "served_by b req i \<Longrightarrow> i \<in> dom (bd_index b)"
  by (auto simp: served_by_def)

lemma ran_here: "served_by b req i \<Longrightarrow> ran P req b (i, b)"
  by (simp add: ran_def grows_refl)

lemma ran_trans: "ran P req b' ib \<Longrightarrow> grows P req b b' \<Longrightarrow> ran P req b ib"
  by (auto simp: ran_def intro: grows_trans)

lemma ran_inv: "ran P req b (i, b') \<Longrightarrow> pool_inv b \<Longrightarrow> pool_inv b'"
  by (auto simp: ran_def dest: grows_pool_inv)

lemma ranD: "ran P req b (i, b') \<Longrightarrow> grows P req b b'" "ran P req b (i, b') \<Longrightarrow> i \<in> dom (bd_index b')"
  by (auto simp: ran_def dest: served_by_dom)

lemma share_True: "share b i req = (b', True) \<Longrightarrow> pool_inv b \<Longrightarrow> ran P req b (i, b')"
  by (auto simp: share_def ran_def served_by_def split: option.splits
      dest: pool_inv_Some intro!: grows_one bstep_share)

lemma share_False: "share b i req = (b', False) \<Longrightarrow> b' = b \<and> bd_index b i = None"
  by (auto simp: share_def split: option.splits)

lemma served_push: "served_by (push b n) req (nd_id n) \<longleftrightarrow> req \<in> set (nd_serves n)"
  by (auto simp: served_by_def)

lemma cpu_ran:
  assumes "pool_inv b" "set inputs \<subseteq> dom (bd_index b)" "named_as (fst work) i"
    "\<not> is_encode (fst work)" "\<not> is_mux (fst work)" "kind_source (fst work) = s" "is_source (fst work) \<or> inputs \<noteq> []"
  shows "ran (stage_node s m) req b (i, cpu b i req inputs work)"
proof (cases "share b i req")
  case (Pair b' found)
  show ?thesis
  proof (cases found)
    case True
    with Pair assms(1) show ?thesis by (simp add: cpu_def share_True)
  next
    case False
    define n where "n = \<lparr>nd_id = i, nd_kind = fst work, nd_inputs = inputs, nd_serves = [req],
                         nd_device = CPU, nd_cost = snd work, nd_reason = None\<rparr>"
    have b: "b' = b" "bd_index b i = None" using Pair False share_False by simp_all
    have "bstep (stage_node s m) req b (push b n)"
      using assms b by (intro bstep_stage) (simp_all add: n_def stage_node_def named_def keyframe_is_other)
    then show ?thesis
      using Pair False b served_push [of b n req] by (simp add: ran_def cpu_def n_def [symmetric] grows_one) (simp add: n_def)
  qed
qed

lemma sourced_ran: "pool_inv b \<Longrightarrow> ran (stage_node (rv_source r) m) (rv_id r) b (sourced b r)"
  by (simp add: sourced_def Let_def cpu_ran)

text \<open>A stage that reads one node the run has just made or shared.\<close>

lemma cpu_after:
  assumes "ran (stage_node s m) req b (up, b')" "pool_inv b" "named_as (fst work) i"
    "\<not> is_encode (fst work)" "\<not> is_mux (fst work)" "kind_source (fst work) = s"
  shows "ran (stage_node s m) req b (i, cpu b' i req [up] work)"
  using cpu_ran [of b' "[up]" work i s m req] assms ranD [OF assms(1)] ran_inv [OF assms(1)]
  by (auto intro: ran_trans)

lemma decoded_ran: "pool_inv b \<Longrightarrow> ran (stage_node (rv_source r) m) (rv_id r) b (decoded b r t)"
  using sourced_ran [of b r m]
  by (cases "sourced b r") (auto simp: decoded_def Let_def intro!: cpu_after)

lemma copied_track_ran: "pool_inv b \<Longrightarrow> ran (stage_node (rv_source r) m) (rv_id r) b (copied_track b r t x)"
  using sourced_ran [of b r m]
  by (cases "sourced b r") (auto simp: copied_track_def Let_def intro!: cpu_after)

lemma decoded_track_ran: "pool_inv b \<Longrightarrow> ran (stage_node (rv_source r) m) (rv_id r) b (decoded_track b r x s)"
  using sourced_ran [of b r m] decoded_ran [of b r m Audio]
  by (cases "sourced b r") (auto simp: decoded_track_def Let_def intro!: cpu_after)

lemma deinterlaced_ran:
  assumes "ran (stage_node (rv_source r) m) (rv_id r) b (up, b')" "pool_inv b"
  shows "ran (stage_node (rv_source r) m) (rv_id r) b (deinterlaced b' r up src l)"
  unfolding deinterlaced_def Let_def using assms by (rule cpu_after) auto

lemma upstream_ran:
  assumes "pool_inv b"
  shows "ran (stage_node (rv_source r) m) (rv_id r) b (upstream b r target src l)"
proof -
  obtain up b1 where d: "decoded b r Video = (up, b1)" by fastforce
  define s2 where "s2 = (if lk_deinterlace l \<noteq> Off then deinterlaced b1 r up src l else (up, b1))"
  obtain up2 b2 where s2: "s2 = (up2, b2)" by fastforce
  have "ran (stage_node (rv_source r) m) (rv_id r) b (up, b1)" using decoded_ran [OF assms, of r m Video] d by simp
  then have r2: "ran (stage_node (rv_source r) m) (rv_id r) b (up2, b2)"
    using s2 deinterlaced_ran [OF _ assms, of r m up b1 src l] by (auto simp: s2_def split: if_splits)
  have "ran (stage_node (rv_source r) m) (rv_id r) b (scale_id (rv_source r) target l,
          cpu b2 (scale_id (rv_source r) target l) (rv_id r) [up2]
            (Scale (rv_source r) (vs_width target) (vs_height target) (vs_fps target) (lk_fit l)
               (lk_pad_color l) Off Yadif (lk_aspect l) False, c))" for c
    using r2 assms by (intro cpu_after) auto
  then show ?thesis using r2 unfolding upstream_def Let_def d prod.case s2_def [symmetric] s2 by simp
qed

lemma picked_subset: "set (picked p es) \<subseteq> set es"
  by (auto simp: picked_def split: option.splits)

lemma encoded_ran:
  assumes "pool_inv b" "encoded b r target src = Inr ib" "m = Some (vs_keyframe_ms target)"
  shows "ran (stage_node (rv_source r) m) (rv_id r) b ib"
proof -
  define want where "want = or_default video_want_default (rq_video (rv_request r))"
  obtain up b1 where u: "upstream b r target src (look_of want) = (up, b1)" by fastforce
  define i where "i = encode_id (rv_source r) target (vw_preset want) (vw_bframes want) @ pick_suffix (vw_encoder want)"
  have r1: "ran (stage_node (rv_source r) m) (rv_id r) b (up, b1)" using upstream_ran [OF assms(1)] u by metis
  then have inv1: "pool_inv b1" using assms(1) by (rule ran_inv)
  obtain b2 found where s: "share b1 i (rv_id r) = (b2, found)" by fastforce
  note enc = assms(2) [unfolded encoded_def want_def [symmetric] Let_def u prod.case i_def [symmetric] s]
  show ?thesis
  proof (cases found)
    case True
    with s inv1 have "ran (stage_node (rv_source r) m) (rv_id r) b1 (i, b2)" by (simp add: share_True)
    with r1 enc True show ?thesis by (auto intro: ran_trans dest: ranD(1))
  next
    case False
    with s have b: "b2 = b1" "bd_index b1 i = None" using share_False by simp_all
    obtain ch where ch: "choose_encoder (bd_model b1) (picked (vw_encoder want) (bd_encoders b1)) target (bd_used b1) = Inr ch"
      using enc False b by (cases "choose_encoder (bd_model b1) (picked (vw_encoder want) (bd_encoders b1)) target (bd_used b1)") auto
    define n where "n = \<lparr>nd_id = i, nd_kind = Encode (rv_source r) target (ch_encoder ch) (vw_preset want) (vw_bframes want),
       nd_inputs = [up], nd_serves = [rv_id r], nd_device = device_of (ch_encoder ch),
       nd_cost = ch_cost ch, nd_reason = Some (ch_reason ch)\<rparr>"
    define b3 where "b3 = push (b1\<lparr>bd_used := hold (bd_used b1) (ch_encoder ch) (ch_cost ch)\<rparr>) n"
    have ib: "ib = (i, b3)" using enc False b ch by (simp add: b3_def n_def)
    have "stage_node (rv_source r) m n" using assms(3) by (auto simp: stage_node_def named_def n_def i_def)
    then have "bstep (stage_node (rv_source r) m) (rv_id r) b1 b3"
      unfolding b3_def using b ch ranD(2) [OF r1] picked_subset
      by (intro bstep_encode) (auto simp: n_def)
    moreover have "served_by b3 (rv_id r) i" by (simp add: b3_def served_by_def n_def)
    ultimately show ?thesis using r1 by (auto simp: ib ran_def intro: grows_trans grows_one)
  qed
qed

subsection \<open>Chains\<close>

text \<open>The nodes a feed names are in the pool and serve the request.\<close>

definition feed_ok :: "builder \<Rightarrow> string \<Rightarrow> feed \<Rightarrow> bool" where
  "feed_ok b req a \<longleftrightarrow> (\<forall>i \<in> set (fst a). served_by b req i)"

definition fed_ok :: "builder \<Rightarrow> string \<Rightarrow> fed \<Rightarrow> bool" where
  "fed_ok b req f \<longleftrightarrow> (case f of None \<Rightarrow> True | Some (i, _) \<Rightarrow> served_by b req i)"

lemma fed_more_ok: "feed_ok b req a \<Longrightarrow> fed_ok b req f \<Longrightarrow> feed_ok b req (fed_more a f)"
  by (auto simp: feed_ok_def fed_ok_def fed_more_def split: option.splits prod.splits)

lemma feed_ok_grows: "feed_ok b req a \<Longrightarrow> grows P q b b' \<Longrightarrow> pool_inv b \<Longrightarrow> feed_ok b' req a"
  by (auto simp: feed_ok_def intro: served_by_grows)

lemma chain_video_grows:
  assumes "pool_inv b" "chain_video b r ms = Inr (f, b')" "\<And>t why. rv_video r = VEncode t why \<Longrightarrow> m = Some ms"
  shows "grows (stage_node (rv_source r) m) (rv_id r) b b' \<and> fed_ok b' (rv_id r) f"
proof (cases "si_video (rv_info r)")
  case None
  with assms(2) show ?thesis by (simp add: chain_video_def fed_ok_def grows_refl)
next
  case (Some src)
  show ?thesis
  proof (cases "rv_video r")
    case (VEncode t why)
    define target where "target = at_keyframe t ms"
    obtain i b1 where e: "encoded b r target src = Inr (i, b1)" "f = Some (i, vs_bitrate_kbps target)" "b1 = b'"
      using assms(2) Some VEncode by (auto simp: chain_video_def target_def [symmetric] and_then_Inr_iff Let_def)
    have "ran (stage_node (rv_source r) m) (rv_id r) b (i, b1)"
      using encoded_ran [OF assms(1) e(1), of m] assms(3) [OF VEncode] by (simp add: target_def at_keyframe_def)
    with e show ?thesis by (simp add: fed_ok_def ran_def)
  qed (use assms(2) Some copied_track_ran [OF assms(1), of r m Video 0] in
      \<open>auto simp: chain_video_def copied_def fed_ok_def ran_def grows_refl case_prod_beta Let_def\<close>)
qed

lemma converted_ran: "pool_inv b \<Longrightarrow> ran (stage_node (rv_source r) m) (rv_id r) b (converted b r x src target)"
  using decoded_track_ran [of b r m x src]
  by (cases "decoded_track b r x src") (auto simp: converted_def Let_def intro!: cpu_after)

lemma chain_audio_grows:
  assumes "pool_inv b" "chain_audio b r x src d = Inr (f, b')"
  shows "grows (stage_node (rv_source r) m) (rv_id r) b b' \<and> fed_ok b' (rv_id r) f"
proof (cases d)
  case (AEncode target why)
  with assms(2) obtain c where c: "cm_audio_cost (bd_model b) target WEncode = Some c"
    by (auto simp: chain_audio_def split: option.splits)
  obtain up b1 where u: "converted b r x src target = (up, b1)" by fastforce
  have "ran (stage_node (rv_source r) m) (rv_id r) b (up, b1)" using converted_ran [OF assms(1), of r m x src target] u by simp
  then have "ran (stage_node (rv_source r) m) (rv_id r) b (aencode_id (track_source (rv_source r) x) target,
      cpu b1 (aencode_id (track_source (rv_source r) x) target) (rv_id r) [up] (AudioEncode (rv_source r) target x, c))"
    using assms(1) by (intro cpu_after) auto
  then show ?thesis
    using assms(2) AEncode c u by (auto simp: chain_audio_def Let_def ran_def fed_ok_def)
qed (use assms copied_track_ran [OF assms(1), of r m Audio x] in
    \<open>auto simp: chain_audio_def fed_ok_def ran_def grows_refl case_prod_beta Let_def\<close>)

lemma chain_tracks_grows:
  "pool_inv b \<Longrightarrow> feed_ok b (rv_id r) a \<Longrightarrow> chain_tracks b r ts a = Inr (a', b')
   \<Longrightarrow> grows (stage_node (rv_source r) m) (rv_id r) b b' \<and> feed_ok b' (rv_id r) a'"
proof (induction b r ts a rule: chain_tracks.induct)
  case (1 b r a)
  then show ?case by (simp add: grows_refl)
next
  case (2 b r x src d ts a)
  from "2.prems"(3) obtain f b1 where c: "chain_audio b r x src d = Inr (f, b1)"
    and rest: "chain_tracks b1 r ts (fed_more a f) = Inr (a', b')"
    by (auto simp: and_then_Inr_iff)
  have g: "grows (stage_node (rv_source r) m) (rv_id r) b b1" "fed_ok b1 (rv_id r) f"
    using chain_audio_grows [OF "2.prems"(1) c] by auto
  have ok: "feed_ok b1 (rv_id r) (fed_more a f)"
    using fed_more_ok feed_ok_grows [OF "2.prems"(2) g(1) "2.prems"(1)] g(2) by blast
  have "grows (stage_node (rv_source r) m) (rv_id r) b1 b' \<and> feed_ok b' (rv_id r) a'"
    by (rule "2.IH" [OF c]) (use grows_pool_inv [OF g(1) "2.prems"(1)] ok rest in auto)
  with g(1) show ?case by (auto intro: grows_trans)
qed

text \<open>A chain is a run and, last, its Mux, which is new and reads nodes that serve the request.\<close>

lemma build_chain_cases:
  assumes "pool_inv b" "build_chain b r ms = Inr b'" "\<And>t why. rv_video r = VEncode t why \<Longrightarrow> m = Some ms"
  obtains a b1 where "grows (stage_node (rv_source r) m) (rv_id r) b b1" "feed_ok b1 (rv_id r) a" "pool_inv b1"
    "b' = push b1 (mux_node b1 r a)"
proof -
  from assms(2) obtain f b0 a b1 where v: "chain_video b r ms = Inr (f, b0)"
    and t: "chain_tracks b0 r (first_track r @ rv_tracks r) (fed_more ([], 0) f) = Inr (a, b1)"
    and b': "b' = push b1 (mux_node b1 r a)"
    by (auto simp: build_chain_def and_then_Inr_iff)
  have g: "grows (stage_node (rv_source r) m) (rv_id r) b b0" "fed_ok b0 (rv_id r) f"
    using chain_video_grows [OF assms(1) v assms(3)] by auto
  have inv: "pool_inv b0" using g(1) assms(1) by (rule grows_pool_inv)
  have "feed_ok b0 (rv_id r) (fed_more ([], 0) f)"
    using g(2) by (intro fed_more_ok) (simp_all add: feed_ok_def)
  from chain_tracks_grows [OF inv this t] g(1) b' show ?thesis
    by (intro that [of b1 a]) (auto intro: grows_trans grows_pool_inv [OF _ inv])
qed

end
