(* ===== verification/Plans.thy ===== *)
theory Plans
  imports Growth
begin

text \<open>
  The planner as a whole. A plan that comes back is the finish of a builder that kept every
  invariant (\<open>make_plan_built\<close>); the lemmas here carry that to the properties of plans.
\<close>

subsection \<open>Muxes\<close>

definition mux_kinds :: "node list \<Rightarrow> node_kind list" where
  "mux_kinds ns = filter is_mux (map nd_kind ns)"

lemma mux_kinds_snoc: "mux_kinds (ns @ [n]) = mux_kinds ns @ (if is_mux (nd_kind n) then [nd_kind n] else [])"
  by (simp add: mux_kinds_def)

lemma bstep_mux_kinds:
  "bstep (stage_node s m) req b b' \<Longrightarrow> mux_kinds (bd_nodes b') = mux_kinds (bd_nodes b)"
  by (induction rule: bstep.induct) (auto simp: mux_kinds_snoc mux_kinds_def stage_node_def map_serve)

lemma grows_mux_kinds:
  "grows (stage_node s m) req b b' \<Longrightarrow> mux_kinds (bd_nodes b') = mux_kinds (bd_nodes b)"
  by (induction rule: grows.induct) (auto dest: bstep_mux_kinds)

definition mux_kind :: "resolved \<Rightarrow> node_kind" where
  "mux_kind r = Mux (rv_id r) (rq_container (rv_request r))"

lemma mux_kinds_mem: "Mux q k \<in> nd_kind ` set ns \<Longrightarrow> Mux q k \<in> set (mux_kinds ns)"
  by (auto simp: mux_kinds_def)

subsection \<open>What every node of a plan keeps\<close>

text \<open>An encode has the keyframe interval its source's rung says.\<close>

fun rung_ok :: "(string \<rightharpoonup> u32) \<Rightarrow> node_kind \<Rightarrow> bool" where
  "rung_ok rungs (Encode s v e p bf) \<longleftrightarrow> rungs s = Some (vs_keyframe_ms v)"
| "rung_ok rungs _ \<longleftrightarrow> True"

definition plan_node_ok :: "(string \<rightharpoonup> u32) \<Rightarrow> node \<Rightarrow> bool" where
  "plan_node_ok rungs n \<longleftrightarrow> named n \<and> rung_ok rungs (nd_kind n) \<and> nd_serves n \<noteq> []"

lemma stage_node_rung: "stage_node s (rungs s) n \<Longrightarrow> named n \<and> rung_ok rungs (nd_kind n)"
  by (cases "nd_kind n") (auto simp: stage_node_def)

definition plan_inv :: "(string \<rightharpoonup> u32) \<Rightarrow> builder \<Rightarrow> bool" where
  "plan_inv rungs b \<longleftrightarrow> builder_inv b \<and> (\<forall>n \<in> set (bd_nodes b). named n \<and> rung_ok rungs (nd_kind n))"

lemma plan_inv_grows:
  assumes "grows P req b b'" "plan_inv rungs b" "\<And>n. P n \<Longrightarrow> named n \<and> rung_ok rungs (nd_kind n)"
  shows "plan_inv rungs b'"
proof -
  have "\<forall>n \<in> set (bd_nodes b'). named n \<and> rung_ok rungs (nd_kind n)"
    using assms(1)
  proof (rule grows_all)
    show "\<forall>n \<in> set (bd_nodes b). named n \<and> rung_ok rungs (nd_kind n)" using assms(2) by (simp add: plan_inv_def)
  qed (simp_all add: named_add_serve assms(3))
  then show ?thesis using grows_builder_inv [OF assms(1)] assms(2) by (simp add: plan_inv_def)
qed

lemma fresh_mux:
  assumes "plan_inv rungs b" "\<forall>k. Mux q k \<notin> set (mux_kinds (bd_nodes b))"
  shows "bd_index b (mux_id q) = None"
proof (rule ccontr)
  assume "bd_index b (mux_id q) \<noteq> None"
  then obtain n where n: "n \<in> set (bd_nodes b)" "nd_id n = mux_id q"
    using assms(1) pool_inv_dom [of b "mux_id q"] by (auto simp: plan_inv_def builder_inv_def pool_ids_def)
  then have "named_as (nd_kind n) (mux_id q)" using assms(1) by (auto simp: plan_inv_def named_def)
  then obtain c where "nd_kind n = Mux q c" by (auto dest: named_mux)
  then have "Mux q c \<in> nd_kind ` set (bd_nodes b)" using n(1) by force
  with assms(2) mux_kinds_mem show False by blast
qed

lemma build_chain_keeps:
  assumes "plan_inv rungs b" "\<forall>k. Mux (rv_id r) k \<notin> set (mux_kinds (bd_nodes b))"
    "build_chain b r (or_default DEFAULT_KEYFRAME_MS (rungs (rv_source r))) = Inr b'"
    "\<And>t why. rv_video r = VEncode t why \<Longrightarrow> rungs (rv_source r) \<noteq> None"
  shows "plan_inv rungs b' \<and> grows named (rv_id r) b b' \<and> mux_kinds (bd_nodes b') = mux_kinds (bd_nodes b) @ [mux_kind r]"
proof -
  have inv: "pool_inv b" using assms(1) by (simp add: plan_inv_def builder_inv_def)
  have m: "rungs (rv_source r) = Some (or_default DEFAULT_KEYFRAME_MS (rungs (rv_source r)))"
    if "rv_video r = VEncode t why" for t why
    using assms(4) [OF that] by (auto simp: or_default_def)
  obtain a b1 where g: "grows (stage_node (rv_source r) (rungs (rv_source r))) (rv_id r) b b1"
    and f: "feed_ok b1 (rv_id r) a" and inv1: "pool_inv b1" and b': "b' = push b1 (mux_node b1 r a)"
    using build_chain_cases [OF inv assms(3), of "rungs (rv_source r)"] m by blast
  have p1: "plan_inv rungs b1" using plan_inv_grows [OF g assms(1)] stage_node_rung by blast
  have mk: "mux_kinds (bd_nodes b1) = mux_kinds (bd_nodes b)" using g by (rule grows_mux_kinds)
  have fresh: "bd_index b1 (mux_id (rv_id r)) = None" using fresh_mux [OF p1] assms(2) mk by simp
  define Q where "Q = (\<lambda>n. named n \<and> rung_ok rungs (nd_kind n))"
  have "bstep Q (rv_id r) b1 b'"
    unfolding b' using fresh f
    by (intro bstep_stage) (auto simp: mux_node_def Q_def named_def feed_ok_def dest: served_by_dom)
  then have g': "grows Q (rv_id r) b1 b'" by (rule grows_one)
  then have "plan_inv rungs b'" using plan_inv_grows [OF g' p1] by (simp add: Q_def)
  moreover have "grows named (rv_id r) b b1" using g by (rule grows_mono) (simp add: stage_node_def)
  moreover have "grows named (rv_id r) b1 b'" using g' by (rule grows_mono) (simp add: Q_def)
  ultimately show ?thesis
    using mk by (auto simp: b' mux_kinds_snoc mux_node_def mux_kind_def intro: grows_trans)
qed

lemma build_all_keeps:
  assumes "plan_inv rungs b" "\<forall>r \<in> set rs. \<forall>k. Mux (rv_id r) k \<notin> set (mux_kinds (bd_nodes b))"
    "distinct (map rv_id rs)" "build_all rungs b rs = Inr b'"
    "\<And>r t why. r \<in> set rs \<Longrightarrow> rv_video r = VEncode t why \<Longrightarrow> rungs (rv_source r) \<noteq> None"
  shows "plan_inv rungs b' \<and> mux_kinds (bd_nodes b') = mux_kinds (bd_nodes b) @ map mux_kind rs
    \<and> bd_model b' = bd_model b \<and> bd_encoders b' = bd_encoders b"
  using assms
proof (induction rs arbitrary: b)
  case (Cons r rs)
  from Cons.prems(4) obtain b1 where
    b1: "build_chain b r (or_default DEFAULT_KEYFRAME_MS (rungs (rv_source r))) = Inr b1"
    and rest: "build_all rungs b1 rs = Inr b'"
    by (auto simp: and_then_Inr_iff)
  have k: "plan_inv rungs b1" "grows named (rv_id r) b b1"
    "mux_kinds (bd_nodes b1) = mux_kinds (bd_nodes b) @ [mux_kind r]"
    using build_chain_keeps [OF Cons.prems(1) _ b1] Cons.prems(2,5) by auto
  have "\<forall>r' \<in> set rs. \<forall>c. Mux (rv_id r') c \<notin> set (mux_kinds (bd_nodes b1))"
    using Cons.prems(2,3) k(3) by (auto simp: mux_kind_def) (metis image_eqI)
  with Cons.IH [OF k(1) _ _ rest] Cons.prems(3,5) grows_env [OF k(2)] k(3) show ?case by auto
qed simp

subsection \<open>The ladder\<close>

text \<open>\<open>noted xs\<close> is the shortest of the intervals that hold a view.\<close>

definition noted :: "u32 list \<Rightarrow> u32" where
  "noted xs = fold (\<lambda>x a. shortest a x) xs 0"

lemma shortest_0 [simp]: "shortest 0 x = x" "shortest x 0 = x"
  by (auto simp: shortest_def)

lemma shortest_le: "b \<noteq> 0 \<Longrightarrow> shortest a b \<noteq> 0 \<and> shortest a b \<le> b" "a \<noteq> 0 \<Longrightarrow> shortest a b \<noteq> 0 \<and> shortest a b \<le> a"
  by (auto simp: shortest_def min_def)

lemma shortest_in: "shortest a b = a \<or> shortest a b = b"
  by (auto simp: shortest_def min_def)

definition asks_of :: "string \<Rightarrow> resolved \<Rightarrow> u32 list" where
  "asks_of s r = (case rv_video r of VEncode t _ \<Rightarrow> if rv_source r = s then [vs_keyframe_ms t] else [] | _ \<Rightarrow> [])"

definition copies_of :: "string \<Rightarrow> resolved \<Rightarrow> u32 list" where
  "copies_of s r = (case rv_video r of
     VCopy \<Rightarrow> if rv_source r = s then [case si_video (rv_info r) of None \<Rightarrow> 0 | Some v \<Rightarrow> vs_keyframe_ms v] else []
   | _ \<Rightarrow> [])"

definition note_all :: "u32 list \<Rightarrow> u32 option \<Rightarrow> u32 option" where
  "note_all xs x = (if xs = [] then x else Some (fold (\<lambda>x a. shortest a x) xs (or_default 0 x)))"

lemma note_all_append: "note_all (xs @ ys) x = note_all ys (note_all xs x)"
  by (auto simp: note_all_def or_default_def)

lemma ladder_fold:
  "fold ladder_step rs (asks, copies) =
     (\<lambda>s. note_all (concat (map (asks_of s) rs)) (asks s), \<lambda>s. note_all (concat (map (copies_of s) rs)) (copies s))"
proof (induction rs arbitrary: asks copies)
  case Nil
  then show ?case by (simp add: note_all_def)
next
  case (Cons r rs)
  have "ladder_step r (asks, copies) = (\<lambda>s. note_all (asks_of s r) (asks s), \<lambda>s. note_all (copies_of s r) (copies s))"
    by (auto simp: ladder_step_def asks_of_def copies_of_def note_interval_def note_all_def fun_eq_iff
        split: video_decision.split)
  then show ?case using Cons.IH by (simp add: note_all_append)
qed

lemma ladder_eq:
  "ladder rs s =
    (let asks = concat (map (asks_of s) rs); copies = concat (map (copies_of s) rs) in
     if asks = [] then None
     else Some (shortest (if noted asks = 0 then DEFAULT_KEYFRAME_MS else noted asks) (noted copies)))"
proof -
  have "or_default 0 (note_all xs None) = noted xs" for xs
    by (simp add: note_all_def or_default_def noted_def)
  moreover have "note_all xs None = (if xs = [] then None else Some (noted xs))" for xs
    by (simp add: note_all_def or_default_def noted_def)
  ultimately show ?thesis by (simp add: ladder_def ladder_fold Let_def del: concat_eq_Nil_conv)
qed

lemma fold_shortest_le:
  "x \<in> set xs \<or> x = a \<Longrightarrow> x \<noteq> 0 \<Longrightarrow> fold (\<lambda>x a. shortest a x) xs a \<noteq> 0 \<and> fold (\<lambda>x a. shortest a x) xs a \<le> x"
proof (induction xs arbitrary: a x)
  case (Cons y ys)
  show ?case
  proof (cases "x \<in> set ys")
    case True
    then show ?thesis using Cons.IH [of x "shortest a y"] Cons.prems(2) by simp
  next
    case False
    with Cons.prems have z: "shortest a y \<noteq> 0 \<and> shortest a y \<le> x"
      using shortest_le(1) [of y a] shortest_le(2) [of a y] by auto
    moreover have "fold (\<lambda>x a. shortest a x) ys (shortest a y) \<noteq> 0
        \<and> fold (\<lambda>x a. shortest a x) ys (shortest a y) \<le> shortest a y"
      using Cons.IH [of "shortest a y" "shortest a y"] z by blast
    ultimately show ?thesis by (simp only: fold_simps) (blast intro: order_trans)
  qed
qed simp

lemma noted_le: "x \<in> set xs \<Longrightarrow> x \<noteq> 0 \<Longrightarrow> noted xs \<noteq> 0 \<and> noted xs \<le> x"
  unfolding noted_def by (rule fold_shortest_le) auto

lemma noted_in: "noted xs = 0 \<or> noted xs \<in> set xs"
proof -
  have "fold (\<lambda>x a. shortest a x) xs a = a \<or> fold (\<lambda>x a. shortest a x) xs a \<in> set xs" for a
  proof (induction xs arbitrary: a)
    case (Cons y ys)
    then show ?case using shortest_in [of a y] by (metis fold_simps(2) list.set_intros)
  qed simp
  then show ?thesis by (simp add: noted_def)
qed

lemma ladder_encode: "r \<in> set rs \<Longrightarrow> rv_video r = VEncode t why \<Longrightarrow> ladder rs (rv_source r) \<noteq> None"
  by (auto simp: ladder_eq Let_def asks_of_def intro!: bexI [of _ r])

lemma asks_mem: "r \<in> set rs \<Longrightarrow> rv_source r = s \<Longrightarrow> rv_video r = VEncode t why
    \<Longrightarrow> vs_keyframe_ms t \<in> set (concat (map (asks_of s) rs))"
  by (force simp: asks_of_def)

lemma copies_mem: "r \<in> set rs \<Longrightarrow> rv_source r = s \<Longrightarrow> rv_video r = VCopy \<Longrightarrow> si_video (rv_info r) = Some v
    \<Longrightarrow> vs_keyframe_ms v \<in> set (concat (map (copies_of s) rs))"
  by (force simp: copies_of_def)

lemma asks_mem_iff: "x \<in> set (concat (map (asks_of s) rs)) \<longleftrightarrow>
    (\<exists>r \<in> set rs. \<exists>t why. rv_source r = s \<and> rv_video r = VEncode t why \<and> x = vs_keyframe_ms t)"
proof -
  have "x \<in> set (asks_of s r) \<longleftrightarrow> (\<exists>t why. rv_source r = s \<and> rv_video r = VEncode t why \<and> x = vs_keyframe_ms t)" for r
    by (cases "rv_video r") (auto simp: asks_of_def)
  then show ?thesis by simp
qed

lemma copies_mem_iff: "x \<noteq> 0 \<Longrightarrow> x \<in> set (concat (map (copies_of s) rs)) \<longleftrightarrow>
    (\<exists>r \<in> set rs. \<exists>v. rv_source r = s \<and> rv_video r = VCopy \<and> si_video (rv_info r) = Some v \<and> x = vs_keyframe_ms v)"
proof -
  assume "x \<noteq> 0"
  then have "x \<in> set (copies_of s r) \<longleftrightarrow>
      (\<exists>v. rv_source r = s \<and> rv_video r = VCopy \<and> si_video (rv_info r) = Some v \<and> x = vs_keyframe_ms v)" for r
    by (auto simp: copies_of_def split: video_decision.split option.split)
  then show ?thesis by simp
qed

subsection \<open>Finishing\<close>

lemma tally_fold:
  "fold tally_node ns (c, t) =
     (\<lambda>d. if device_nodes ns d = [] then c d else Some (cost_plus (or_default cost_default (c d)) (device_cost ns d)),
      cost_plus t (cost_sum (map nd_cost ns)))"
proof (induction ns arbitrary: c t)
  case Nil
  then show ?case by (simp add: device_nodes_def)
next
  case (Cons n ns)
  have "tally_node n (c, t) = (c(nd_device n \<mapsto> cost_plus (or_default cost_default (c (nd_device n))) (nd_cost n)),
      cost_plus t (nd_cost n))" by (simp add: tally_node_def)
  then show ?case
    by (auto simp: Cons.IH fun_eq_iff device_nodes_def device_cost_def or_default_def cost_add.assoc)
qed

lemma finish_sel:
  "pl_nodes (finish b km) = bd_nodes b" "pl_keyframe_ms (finish b km) = km"
  "pl_total (finish b km) = cost_sum (map nd_cost (bd_nodes b))"
  "pl_cost (finish b km) d =
     (if device_nodes (bd_nodes b) d = [] then None else Some (device_cost (bd_nodes b) d))"
  by (simp_all add: finish_def tally_fold or_default_def)

subsection \<open>Resolving\<close>

lemma resolve_request_sel:
  assumes "resolve_request sources s req vs as = Inr r"
  shows "rv_request r = req" "rv_source r = s"
  using assms by (auto simp: resolve_request_def and_then_Inr_iff split: option.splits if_splits)

lemma resolve_all_Inr:
  assumes "resolve_all sources vs as seen reqs = Inr rs"
  shows "list_all2 (\<lambda>sr r. resolve_request sources (fst sr) (snd sr) vs as = Inr r) reqs rs
    \<and> distinct (map (rq_id \<circ> snd) reqs) \<and> set (map (rq_id \<circ> snd) reqs) \<inter> set seen = {}"
  using assms
proof (induction sources vs as seen reqs arbitrary: rs rule: resolve_all.induct)
  case (2 sources vs as seen s req rest)
  from "2.prems" obtain r rs' where
    new: "rq_id req \<notin> set seen" and r: "resolve_request sources s req vs as = Inr r"
    and rest: "resolve_all sources vs as (rq_id req # seen) rest = Inr rs'" and rs: "rs = r # rs'"
    by (auto simp: and_then_Inr_iff split: if_splits)
  from "2.IH" [OF new r rest] new r rs show ?case by auto
qed simp

lemma resolve_all_sel:
  assumes "resolve_all sources vs as seen reqs = Inr rs"
  shows "map rv_request rs = map snd reqs" "map rv_source rs = map fst reqs" "distinct (map rv_id rs)"
proof -
  have l: "list_all2 (\<lambda>sr r. resolve_request sources (fst sr) (snd sr) vs as = Inr r) reqs rs"
    using resolve_all_Inr [OF assms] by blast
  then show rq: "map rv_request rs = map snd reqs" and "map rv_source rs = map fst reqs"
    by (induction rule: list_all2_induct) (auto dest: resolve_request_sel)
  have "map rv_id rs = map rq_id (map rv_request rs)" by (simp add: rv_id_def)
  then show "distinct (map rv_id rs)" using resolve_all_Inr [OF assms] rq by (simp add: comp_def)
qed

lemma plan_inv_new: "plan_inv rungs (builder_new m es)"
  by (simp add: plan_inv_def builder_inv_new) (simp add: builder_new_def)

lemma make_plan_built:
  assumes "make_plan sources requests m = Inr p"
  obtains rs b where
    "resolve_all sources (dedup (map es_codec (cm_encoders m))) (audio_available m) [] requests = Inr rs"
    "build_all (ladder rs) (builder_new m (cm_encoders m)) rs = Inr b" "p = finish b (ladder rs)"
    "plan_inv (ladder rs) b" "mux_kinds (bd_nodes b) = map mux_kind rs"
    "bd_model b = m" "bd_encoders b = cm_encoders m"
proof -
  from assms obtain rs b where
    r: "resolve_all sources (dedup (map es_codec (cm_encoders m))) (audio_available m) [] requests = Inr rs"
    and b: "build_all (ladder rs) (builder_new m (cm_encoders m)) rs = Inr b" and p: "p = finish b (ladder rs)"
    by (auto simp: make_plan_def Let_def and_then_Inr_iff)
  have "plan_inv (ladder rs) b \<and> mux_kinds (bd_nodes b) = mux_kinds (bd_nodes (builder_new m (cm_encoders m))) @ map mux_kind rs
    \<and> bd_model b = bd_model (builder_new m (cm_encoders m)) \<and> bd_encoders b = bd_encoders (builder_new m (cm_encoders m))"
    using plan_inv_new _ resolve_all_sel(3) [OF r] b
    by (rule build_all_keeps) (simp_all add: builder_new_def mux_kinds_def ladder_encode del: not_None_eq)
  then show ?thesis using r b p that by (auto simp: builder_new_def mux_kinds_def)
qed

subsection \<open>What a Mux reads\<close>

definition mux_fed :: "builder \<Rightarrow> bool" where
  "mux_fed b \<longleftrightarrow> (\<forall>n \<in> set (bd_nodes b). \<forall>q k. nd_kind n = Mux q k \<longrightarrow> (\<forall>i \<in> set (nd_inputs n). served_by b q i))"

lemma grows_mux_fed:
  assumes "grows (stage_node s m) req b b'" "pool_inv b" "mux_fed b"
  shows "mux_fed b'"
proof -
  define Q where "Q = (\<lambda>n :: node. \<forall>q k. nd_kind n = Mux q k \<longrightarrow> (\<forall>i \<in> set (nd_inputs n). served_by b' q i))"
  have "\<forall>n \<in> set (bd_nodes b). Q n"
    using assms(3) served_by_grows [OF _ assms(1,2)] by (auto simp: Q_def mux_fed_def)
  then have "\<forall>n \<in> set (bd_nodes b'). Q n"
    by (rule grows_all [OF assms(1)]) (auto simp: Q_def stage_node_def)
  then show ?thesis by (simp add: Q_def mux_fed_def)
qed

lemma served_by_push: "pool_inv b \<Longrightarrow> bd_index b (nd_id n) = None \<Longrightarrow> served_by b q i \<Longrightarrow> served_by (push b n) q i"
  by (auto simp: served_by_def nth_append dest: pool_inv_Some)

lemma build_chain_mux_fed:
  assumes "plan_inv rungs b" "\<forall>k. Mux (rv_id r) k \<notin> set (mux_kinds (bd_nodes b))"
    "build_chain b r ms = Inr b'" "\<And>t why. rv_video r = VEncode t why \<Longrightarrow> rungs (rv_source r) = Some ms" "mux_fed b"
  shows "mux_fed b'"
proof -
  have inv: "pool_inv b" using assms(1) by (simp add: plan_inv_def builder_inv_def)
  obtain a b1 where g: "grows (stage_node (rv_source r) (rungs (rv_source r))) (rv_id r) b b1"
    and f: "feed_ok b1 (rv_id r) a" and inv1: "pool_inv b1" and b': "b' = push b1 (mux_node b1 r a)"
    using build_chain_cases [OF inv assms(3), of "rungs (rv_source r)"] assms(4) by blast
  have p1: "plan_inv rungs b1" using plan_inv_grows [OF g assms(1)] stage_node_rung by blast
  have fresh: "bd_index b1 (nd_id (mux_node b1 r a)) = None"
    using fresh_mux [OF p1] assms(2) grows_mux_kinds [OF g] by (simp add: mux_node_def)
  have "mux_fed b1" using g inv assms(5) by (rule grows_mux_fed)
  then show ?thesis
    using f served_by_push [OF inv1 fresh] by (auto simp: mux_fed_def b' feed_ok_def mux_node_def)
qed

lemma build_all_mux_fed:
  assumes "plan_inv rungs b" "\<forall>r \<in> set rs. \<forall>k. Mux (rv_id r) k \<notin> set (mux_kinds (bd_nodes b))"
    "distinct (map rv_id rs)" "build_all rungs b rs = Inr b'"
    "\<And>r t why. r \<in> set rs \<Longrightarrow> rv_video r = VEncode t why \<Longrightarrow> rungs (rv_source r) \<noteq> None" "mux_fed b"
  shows "mux_fed b'"
  using assms
proof (induction rs arbitrary: b)
  case (Cons r rs)
  define ms where "ms = or_default DEFAULT_KEYFRAME_MS (rungs (rv_source r))"
  from Cons.prems(4) obtain b1 where b1: "build_chain b r ms = Inr b1" and rest: "build_all rungs b1 rs = Inr b'"
    by (auto simp: and_then_Inr_iff ms_def)
  have k: "plan_inv rungs b1" "mux_kinds (bd_nodes b1) = mux_kinds (bd_nodes b) @ [mux_kind r]"
    using build_chain_keeps [OF Cons.prems(1) _ b1 [unfolded ms_def]] Cons.prems(2,5) by auto
  have "rungs (rv_source r) = Some ms" if "rv_video r = VEncode t why" for t why
    using Cons.prems(5) [OF _ that] by (auto simp: ms_def or_default_def)
  then have "mux_fed b1"
    using build_chain_mux_fed [OF Cons.prems(1) _ b1 _ Cons.prems(6)] Cons.prems(2) by simp
  moreover have "\<forall>r' \<in> set rs. \<forall>c. Mux (rv_id r') c \<notin> set (mux_kinds (bd_nodes b1))"
    using Cons.prems(2,3) k(2) by (auto simp: mux_kind_def) (metis image_eqI)
  ultimately show ?case using Cons.IH [OF k(1) _ _ rest] Cons.prems(3,5) by simp
qed simp

lemma make_plan_mux_fed:
  assumes "resolve_all sources vs as [] requests = Inr rs" "build_all (ladder rs) (builder_new m es) rs = Inr b"
  shows "mux_fed b"
  using plan_inv_new _ resolve_all_sel(3) [OF assms(1)] assms(2)
  by (rule build_all_mux_fed)
     (simp_all add: builder_new_def mux_kinds_def mux_fed_def ladder_encode del: not_None_eq)

lemma make_plan_ids:
  assumes "make_plan sources requests m = Inr p"
  shows "distinct (map nd_id (pl_nodes p))" "inputs_first (pl_nodes p)"
proof -
  obtain rs b where b: "p = finish b (ladder rs)" "plan_inv (ladder rs) b"
    using make_plan_built [OF assms] by metis
  then have "pool_inv b" "inputs_first (bd_nodes b)" by (simp_all add: plan_inv_def builder_inv_def)
  then show "distinct (map nd_id (pl_nodes p))" "inputs_first (pl_nodes p)"
    using pool.inv_distinct [of b] b(1) by (simp_all add: pool_ids_def finish_sel)
qed

subsection \<open>Errors\<close>

lemma encoded_Inl: "encoded b r t src = Inl e \<Longrightarrow> error_request e = rv_id r"
  by (auto simp: encoded_def no_encoder_error_def Let_def split: prod.splits bool.splits sum.splits)

lemma chain_video_Inl: "chain_video b r ms = Inl e \<Longrightarrow> error_request e = rv_id r"
  by (auto simp: chain_video_def and_then_Inl_iff Let_def dest: encoded_Inl
      split: option.splits video_decision.splits prod.splits)

lemma chain_tracks_Inl: "chain_tracks b r ts a = Inl e \<Longrightarrow> error_request e = rv_id r"
  by (induction b r ts a rule: chain_tracks.induct)
     (auto simp: and_then_Inl_iff chain_audio_def no_audio_encoder_def Let_def split: audio_decision.splits option.splits prod.splits)

lemma build_all_Inl: "build_all rungs b rs = Inl e \<Longrightarrow> error_request e \<in> rv_id ` set rs"
  by (induction rungs b rs rule: build_all.induct)
     (auto simp: and_then_Inl_iff build_chain_def dest: chain_video_Inl chain_tracks_Inl split: prod.splits)

lemma codec_for_Inl: "codec_for req info vs = Inl e \<Longrightarrow> error_request e = rq_id req"
  by (auto simp: codec_for_def Let_def split: option.splits if_splits bool.splits)

lemma resolve_video_Inl: "resolve_video req s info vs = Inl e \<Longrightarrow> error_request e = rq_id req"
  by (auto simp: resolve_video_def missing_def and_then_Inl_iff Let_def case_prod_beta dest: codec_for_Inl
      split: option.splits if_splits)

lemma audio_codec_for_Inl: "audio_codec_for req info as asked = Inl e \<Longrightarrow> error_request e = rq_id req"
  by (auto simp: audio_codec_for_def Let_def split: option.splits if_splits bool.splits)

lemma resolve_audio_Inl: "resolve_audio req s info as = Inl e \<Longrightarrow> error_request e = rq_id req"
  by (auto simp: resolve_audio_def missing_def and_then_Inl_iff Let_def dest: audio_codec_for_Inl
      split: option.splits if_splits)

lemma more_tracks_Inl: "more_tracks req s info as = Inl e \<Longrightarrow> error_request e = rq_id req"
  by (auto simp: more_tracks_def and_then_Inl_iff Let_def dest!: try_map_Inl resolve_audio_Inl split: if_splits)

lemma resolve_request_Inl: "resolve_request sources s req vs as = Inl e \<Longrightarrow> error_request e = rq_id req"
  by (auto simp: resolve_request_def and_then_Inl_iff split: option.splits if_splits
      dest: resolve_video_Inl resolve_audio_Inl more_tracks_Inl)

lemma resolve_all_Inl:
  "resolve_all sources vs as seen reqs = Inl e \<Longrightarrow> error_request e \<in> (rq_id \<circ> snd) ` set reqs"
  by (induction sources vs as seen reqs rule: resolve_all.induct)
     (auto simp: and_then_Inl_iff dest: resolve_request_Inl split: if_splits)

end
