(* ===== verification/Example_Plan.thy ===== *)
theory Example_Plan
  imports Plans
begin

text \<open>
  A concrete machine, source and requests: one camera, sent on as it is and encoded at 720p, on a machine with one hardware encoder that has two sessions. The witnesses of the
  planner's properties apply them to the plan the model computes here.
\<close>

definition ex_shape :: video_shape where
  "ex_shape = \<lparr>vs_codec = H264, vs_width = 1920, vs_height = 1080, vs_fps = fps_whole 30,
     vs_bitrate_kbps = 6000, vs_keyframe_ms = 2000\<rparr>"

definition ex_sound :: audio_shape where
  "ex_sound = \<lparr>as_codec = Aac, as_channels = 2, as_sample_rate = 48000, as_bitrate_kbps = 160\<rparr>"

definition ex_info :: stream_info where
  "ex_info = stream_info_default\<lparr>si_video := Some ex_shape, si_audio := Some ex_sound, si_encoded := True\<rparr>"

definition ex_slot :: encoder_slot where
  "ex_slot = \<lparr>es_id = ''h264-nvenc'', es_codec = H264, es_hardware = True, es_device = Some ''nvidia:0''\<rparr>"

definition ex_encode_cost :: "video_shape \<Rightarrow> encoder_slot \<Rightarrow> cost option" where
  "ex_encode_cost s e = Some (cost_default\<lparr>cpu_millicores := 100, device_millis := 300, device_sessions := 1\<rparr>)"

definition ex_scale_cost :: "video_shape \<Rightarrow> video_shape \<Rightarrow> cost" where
  "ex_scale_cost a b = cost_default\<lparr>cpu_millicores := 60\<rparr>"

definition ex_decode_cost :: "video_shape \<Rightarrow> cost" where
  "ex_decode_cost s = cost_default\<lparr>cpu_millicores := 250\<rparr>"

definition ex_audio_cost :: "audio_shape \<Rightarrow> audio_work \<Rightarrow> cost option" where
  "ex_audio_cost s w = Some (cost_default\<lparr>cpu_millicores := 5\<rparr>)"

definition ex_room :: "string \<Rightarrow> room" where
  "ex_room d = \<lparr>rm_sessions = Some 2, rm_device_millis = Some 1000\<rparr>"

definition ex_model :: cost_model where
  "ex_model =
    \<lparr>cm_encoders = [software_slot ''h264-software-x264'' H264, ex_slot], cm_encode_cost = ex_encode_cost,
     cm_scale_cost = ex_scale_cost, cm_decode_cost = ex_decode_cost, cm_audio_cost = ex_audio_cost,
     cm_mux_cost = default_mux_cost, cm_room = ex_room\<rparr>"

definition ex_want :: video_want where
  "ex_want = video_want_default\<lparr>vw_width := Some 1280, vw_height := Some 720, vw_bitrate_kbps := Some 2800\<rparr>"

definition ex_copy :: rendition_request where
  "ex_copy = rendition_request_default\<lparr>rq_id := ''copy''\<rparr>"

definition ex_720 :: rendition_request where
  "ex_720 = rendition_request_default\<lparr>rq_id := ''live'', rq_video := Some ex_want\<rparr>"

definition ex_sources :: source_list where
  "ex_sources = [(''cam'', ex_info)]"

definition ex_requests :: request_list where
  "ex_requests = [(''cam'', ex_copy), (''cam'', ex_720)]"

definition ex_plan :: plan where
  "ex_plan = (case make_plan ex_sources ex_requests ex_model of Inr p \<Rightarrow> p | Inl _ \<Rightarrow> plan_default)"

lemma ex_is_planned: "case make_plan ex_sources ex_requests ex_model of Inr p \<Rightarrow> True | Inl _ \<Rightarrow> False"
  by code_simp

lemma ex_planned: "make_plan ex_sources ex_requests ex_model = Inr ex_plan"
  using ex_is_planned by (simp add: ex_plan_def split: sum.splits)

text \<open>The plan: id, work, inputs, requests served, device and cost of each node, in order.\<close>

definition ex_cost :: "u32 \<Rightarrow> u32 \<Rightarrow> u32 \<Rightarrow> cost" where
  "ex_cost cpu_m mem kbps = cost_default\<lparr>cpu_millicores := cpu_m, memory_mib := mem, egress_kbps := kbps\<rparr>"

definition ex_720_shape :: video_shape where
  "ex_720_shape = \<lparr>vs_codec = H264, vs_width = 1280, vs_height = 720, vs_fps = fps_whole 30,
     vs_bitrate_kbps = 2800, vs_keyframe_ms = 2000\<rparr>"

lemma ex_plan_nodes:
  "map (\<lambda>n. (nd_id n, nd_kind n, nd_inputs n, nd_serves n, nd_device n, nd_cost n)) (pl_nodes ex_plan) =
   [(''source:cam'', Source ''cam'', [], [''copy'', ''live''], ''cpu'', cost_default),
    (''copy:cam:video'', Copy ''cam'' Video 0, [''source:cam''], [''copy''], ''cpu'', cost_default),
    (''copy:cam:audio'', Copy ''cam'' Audio 0, [''source:cam''], [''copy'', ''live''], ''cpu'', cost_default),
    (''mux:copy'', Mux ''copy'' Flv, [''copy:cam:video'', ''copy:cam:audio''], [''copy''], ''cpu'', ex_cost 5 2 6160),
    (''decode:cam:video'', Decode ''cam'' Video 0, [''source:cam''], [''live''], ''cpu'', ex_decode_cost ex_shape),
    (''scale:cam:1280x720p30'', Scale ''cam'' 1280 720 (fps_whole 30) Pad None Off Yadif AspectAuto False,
       [''decode:cam:video''], [''live''], ''cpu'', ex_scale_cost ex_shape ex_720_shape),
    (''encode:cam:h264:1280x720p30:2800k:g2000'', Encode ''cam'' ex_720_shape ex_slot None None,
       [''scale:cam:1280x720p30''], [''live''], ''nvidia:0'',
       cost_default\<lparr>cpu_millicores := 100, device_millis := 300, device_sessions := 1\<rparr>),
    (''mux:live'', Mux ''live'' Flv, [''encode:cam:h264:1280x720p30:2800k:g2000'', ''copy:cam:audio''],
       [''live''], ''cpu'', ex_cost 5 2 2960)]"
  by code_simp

lemma ex_plan_length: "length (pl_nodes ex_plan) = 8"
  using arg_cong [where f = length, OF ex_plan_nodes] by simp

text \<open>The nodes the witnesses look at: the decode, the encode and its Mux.\<close>

lemma ex_decode_node:
  "nd_kind (pl_nodes ex_plan ! 4) = Decode ''cam'' Video 0" "nd_inputs (pl_nodes ex_plan ! 4) = [''source:cam'']"
  using arg_cong [where f = "\<lambda>xs. xs ! 4", OF ex_plan_nodes] by (simp_all add: ex_plan_length)

lemma ex_encode_node:
  "nd_id (pl_nodes ex_plan ! 6) = ''encode:cam:h264:1280x720p30:2800k:g2000''"
  "nd_kind (pl_nodes ex_plan ! 6) = Encode ''cam'' ex_720_shape ex_slot None None"
  "nd_inputs (pl_nodes ex_plan ! 6) = [''scale:cam:1280x720p30'']" "nd_device (pl_nodes ex_plan ! 6) = ''nvidia:0''"
  using arg_cong [where f = "\<lambda>xs. xs ! 6", OF ex_plan_nodes] by (simp_all add: ex_plan_length)

lemma ex_live_mux:
  "nd_kind (pl_nodes ex_plan ! 7) = Mux ''live'' Flv"
  "nd_inputs (pl_nodes ex_plan ! 7) = [''encode:cam:h264:1280x720p30:2800k:g2000'', ''copy:cam:audio'']"
  using arg_cong [where f = "\<lambda>xs. xs ! 7", OF ex_plan_nodes] by (simp_all add: ex_plan_length)

lemma ex_plan_in: "k < 8 \<Longrightarrow> pl_nodes ex_plan ! k \<in> set (pl_nodes ex_plan)"
  by (simp add: ex_plan_length)

lemma ex_gpu_cost:
  "pl_cost ex_plan ''nvidia:0'' = Some (cost_default\<lparr>cpu_millicores := 100, device_millis := 300, device_sessions := 1\<rparr>)"
  by code_simp

end
