(* ===== verification/Planner_Properties.thy ===== *)
theory Planner_Properties
  imports Example_Plan
begin

text \<open>
  What a plan promises. Each property is stated over \<open>make_plan\<close>, the model of \<open>plan\<close> in
  \<open>plan.rs\<close>, or over the part of the planner that decides it, and is applied to the plan of
  \<open>Example_Plan\<close>.
\<close>

subsection \<open>The graph\<close>

lemma make_plan_inv:
  assumes "make_plan sources requests m = Inr p"
  obtains rungs b where "plan_inv rungs b" "pl_nodes p = bd_nodes b" "pl_keyframe_ms p = rungs"
    "bd_model b = m" "bd_encoders b = cm_encoders m" "p = finish b rungs" "mux_fed b"
  using make_plan_built [OF assms] make_plan_mux_fed by (metis finish_sel(1,2))

lemma make_plan_builder_inv:
  assumes "make_plan sources requests m = Inr p"
  obtains b where "builder_inv b" "pl_nodes p = bd_nodes b" "bd_model b = m" "bd_encoders b = cm_encoders m"
    "p = finish b (pl_keyframe_ms p)"
  using make_plan_inv [OF assms] by (metis plan_inv_def)

lemma in_plan_nth: "n \<in> set (pl_nodes p) \<Longrightarrow> \<exists>k < length (pl_nodes p). pl_nodes p ! k = n"
  by (auto simp: in_set_conv_nth)

text \<open>C2: No two nodes of a plan have the same id, so an id names one node of it.\<close>

theorem plan_ids_distinct:
  assumes "make_plan sources requests m = Inr p"
  shows "distinct (map nd_id (pl_nodes p))"
  using assms by (rule make_plan_ids)

theorem plan_ids_distinct_witness:
  "distinct (map nd_id (pl_nodes ex_plan)) \<and> length (pl_nodes ex_plan) = 8"
  using plan_ids_distinct [OF ex_planned] ex_plan_length by blast

text \<open>C3: Every input of a node is the id of a node that comes before it in the plan: a plan has no
  cycle, and starting its nodes in order never starts a reader before what it reads.\<close>

theorem plan_inputs_first:
  assumes "make_plan sources requests m = Inr p" "k < length (pl_nodes p)" "i \<in> set (nd_inputs (pl_nodes p ! k))"
  shows "\<exists>j < k. nd_id (pl_nodes p ! j) = i"
proof -
  have "i \<in> nd_id ` set (take k (pl_nodes p))"
    using make_plan_ids(2) [OF assms(1)] assms(2,3) by (auto simp: inputs_first_def)
  then obtain n where "n \<in> set (take k (pl_nodes p))" "nd_id n = i" by auto
  then show ?thesis by (metis in_set_conv_nth length_take min_less_iff_conj nth_take)
qed

theorem plan_inputs_first_witness:
  "\<exists>j < 7. nd_id (pl_nodes ex_plan ! j) = ''copy:cam:audio''"
  using plan_inputs_first [OF ex_planned, of 7] ex_plan_length ex_live_mux by simp

text \<open>A plan has exactly one Mux for every request, in the order of the requests, each with the
  container its request asked for.\<close>

theorem plan_one_mux_per_request:
  assumes "make_plan sources requests m = Inr p"
  shows "filter is_mux (map nd_kind (pl_nodes p)) = map (\<lambda>(s, req). Mux (rq_id req) (rq_container req)) requests"
proof -
  obtain rs b where r: "resolve_all sources (dedup (map es_codec (cm_encoders m))) (audio_available m) [] requests = Inr rs"
    and b: "p = finish b (ladder rs)" "mux_kinds (bd_nodes b) = map mux_kind rs"
    using make_plan_built [OF assms] by metis
  have "map mux_kind rs = map (\<lambda>req. Mux (rq_id req) (rq_container req)) (map rv_request rs)"
    by (simp add: mux_kind_def rv_id_def)
  then show ?thesis
    using b resolve_all_sel(1) [OF r] by (simp add: mux_kinds_def finish_sel case_prod_beta)
qed

theorem plan_one_mux_per_request_witness:
  "filter is_mux (map nd_kind (pl_nodes ex_plan)) = [Mux ''copy'' Flv, Mux ''live'' Flv]"
  using plan_one_mux_per_request [OF ex_planned]
  by (simp add: ex_requests_def ex_copy_def ex_720_def rendition_request_default_def)

text \<open>Whatever a Mux reads is a node of the plan that serves the request of that Mux.\<close>

theorem plan_mux_reads_served:
  assumes "make_plan sources requests m = Inr p" "n \<in> set (pl_nodes p)" "nd_kind n = Mux q k" "i \<in> set (nd_inputs n)"
  shows "\<exists>n' \<in> set (pl_nodes p). nd_id n' = i \<and> q \<in> set (nd_serves n')"
proof -
  obtain rungs b where b: "plan_inv rungs b" "pl_nodes p = bd_nodes b" "mux_fed b"
    using make_plan_inv [OF assms(1)] by blast
  then have "served_by b q i" using assms(2-4) by (auto simp: mux_fed_def)
  then obtain j where j: "bd_index b i = Some j" "q \<in> set (nd_serves (bd_nodes b ! j))" by (auto simp: served_by_def)
  have "j < length (bd_nodes b) \<and> nd_id (bd_nodes b ! j) = i"
    using b(1) j(1) by (auto simp: plan_inv_def builder_inv_def dest: pool_inv_Some)
  with j(2) b(2) show ?thesis by (metis nth_mem)
qed

theorem plan_mux_reads_served_witness:
  "\<exists>n' \<in> set (pl_nodes ex_plan). nd_id n' = ''copy:cam:audio'' \<and> ''live'' \<in> set (nd_serves n')"
  by (rule plan_mux_reads_served [OF ex_planned ex_plan_in [of 7]]) (simp_all add: ex_live_mux)

subsection \<open>Sharing\<close>

text \<open>What work is told apart by its kind alone: everything but a scale and an encode.\<close>

fun by_kind :: "node_kind \<Rightarrow> bool" where
  "by_kind (Scale _ _ _ _ _ _ _ _ _ _) = False"
| "by_kind (Encode _ _ _ _ _) = False"
| "by_kind _ = True"

lemma named_as_unique: "by_kind k \<Longrightarrow> named_as k i \<Longrightarrow> named_as k j \<Longrightarrow> i = j"
  by (cases k) (auto simp: aconvert_id_def)

text \<open>C4: No work is done twice. Two nodes that open the same source, copy or decode the same track,
  convert or encode the same sound the same way, or write the same output, are one node.\<close>

theorem plan_work_once:
  assumes "make_plan sources requests m = Inr p" "n \<in> set (pl_nodes p)" "n' \<in> set (pl_nodes p)"
    "nd_kind n = nd_kind n'" "by_kind (nd_kind n)"
  shows "n = n'"
proof -
  obtain rungs b where b: "plan_inv rungs b" "pl_nodes p = bd_nodes b" using make_plan_inv [OF assms(1)] by blast
  then have "named n" "named n'" using assms(2,3) by (auto simp: plan_inv_def)
  then have "nd_id n = nd_id n'" using assms(4,5) named_as_unique by (auto simp: named_def)
  moreover have "distinct (map nd_id (pl_nodes p))" using assms(1) by (rule make_plan_ids)
  ultimately show ?thesis using assms(2,3) by (auto simp: distinct_map dest: inj_onD)
qed

theorem plan_work_once_witness:
  "{n \<in> set (pl_nodes ex_plan). nd_kind n = Decode ''cam'' Video 0} = {pl_nodes ex_plan ! 4}"
proof (intro equalityI subsetI)
  fix n
  assume "n \<in> {n \<in> set (pl_nodes ex_plan). nd_kind n = Decode ''cam'' Video 0}"
  then have n: "n \<in> set (pl_nodes ex_plan)" "nd_kind n = Decode ''cam'' Video 0" by blast+
  have "n = pl_nodes ex_plan ! 4"
    by (rule plan_work_once [OF ex_planned n(1) ex_plan_in]) (simp_all add: n(2) ex_decode_node)
  then show "n \<in> {pl_nodes ex_plan ! 4}" by (simp only: singleton_iff)
next
  fix n
  assume "n \<in> {pl_nodes ex_plan ! 4}"
  then have "n = pl_nodes ex_plan ! 4" by (rule singletonD)
  moreover have "pl_nodes ex_plan ! 4 \<in> set (pl_nodes ex_plan)" by (rule ex_plan_in) simp
  ultimately show "n \<in> {n \<in> set (pl_nodes ex_plan). nd_kind n = Decode ''cam'' Video 0}"
    by (simp only: mem_Collect_eq ex_decode_node simp_thms)
qed

subsection \<open>Keyframes\<close>

text \<open>Every encode of a source has the one keyframe interval the plan states for that source, so
  the rungs of a ladder cut at the same pictures.\<close>

theorem plan_encodes_share_interval:
  assumes "make_plan sources requests m = Inr p" "n \<in> set (pl_nodes p)" "nd_kind n = Encode s v e pre bf"
  shows "pl_keyframe_ms p s = Some (vs_keyframe_ms v)"
proof -
  obtain rungs b where b: "plan_inv rungs b" "pl_nodes p = bd_nodes b" "pl_keyframe_ms p = rungs"
    using make_plan_inv [OF assms(1)] by blast
  then have "rung_ok rungs (nd_kind n)" using assms(2) by (auto simp: plan_inv_def)
  with assms(3) b(3) show ?thesis by simp
qed

theorem plan_encodes_share_interval_witness: "pl_keyframe_ms ex_plan ''cam'' = Some 2000"
  using plan_encodes_share_interval [OF ex_planned ex_plan_in ex_encode_node(2)] by (simp add: ex_720_shape_def)

text \<open>C5: The interval of a source with an encode is no longer than any interval its encoded requests
  asked for, nor than the interval of a video it copies, and it is one of those or the default: every
  output meets its platform's maximum and the encodes line up with the copy.\<close>

theorem ladder_meets_every_rung:
  assumes "r \<in> set rs" "rv_video r = VEncode t why"
  shows "\<exists>k. ladder rs (rv_source r) = Some k
    \<and> (\<forall>r' \<in> set rs. \<forall>t' why'. rv_source r' = rv_source r \<longrightarrow> rv_video r' = VEncode t' why' \<longrightarrow>
         vs_keyframe_ms t' \<noteq> 0 \<longrightarrow> k \<le> vs_keyframe_ms t')
    \<and> (\<forall>r' \<in> set rs. \<forall>v. rv_source r' = rv_source r \<longrightarrow> rv_video r' = VCopy \<longrightarrow>
         si_video (rv_info r') = Some v \<longrightarrow> vs_keyframe_ms v \<noteq> 0 \<longrightarrow> k \<le> vs_keyframe_ms v)
    \<and> k \<noteq> 0
    \<and> (k = DEFAULT_KEYFRAME_MS
       \<or> (\<exists>r' \<in> set rs. rv_source r' = rv_source r \<and> (\<exists>t' why'. rv_video r' = VEncode t' why' \<and> k = vs_keyframe_ms t'))
       \<or> (\<exists>r' \<in> set rs. rv_source r' = rv_source r \<and> rv_video r' = VCopy \<and>
            (\<exists>v. si_video (rv_info r') = Some v \<and> k = vs_keyframe_ms v)))"
proof -
  define s where "s = rv_source r"
  define asks where "asks = concat (map (asks_of s) rs)"
  define copies where "copies = concat (map (copies_of s) rs)"
  define a where "a = (if noted asks = 0 then DEFAULT_KEYFRAME_MS else noted asks)"
  define k where "k = shortest a (noted copies)"
  have a0: "a \<noteq> 0" by (simp add: a_def DEFAULT_KEYFRAME_MS_def)
  have "vs_keyframe_ms t \<in> set asks" using assms asks_mem [of r rs s] by (simp add: asks_def s_def)
  then have l: "ladder rs s = Some k"
    by (auto simp: ladder_eq asks_def [symmetric] copies_def [symmetric] a_def k_def)
  have ka: "k \<noteq> 0" "k \<le> a" using shortest_le(2) [OF a0] by (simp_all add: k_def)
  have asked: "k \<le> x" if "x \<in> set asks" "x \<noteq> 0" for x
    using ka(2) noted_le [OF that] by (simp add: a_def) (meson order_trans)
  have kept: "k \<le> x" if "x \<in> set copies" "x \<noteq> 0" for x
    using shortest_le(1) [of "noted copies" a] noted_le [OF that] by (simp add: k_def) (meson order_trans)
  have one: "k = DEFAULT_KEYFRAME_MS \<or> k \<in> set asks \<or> k \<in> set copies"
    using ka(1) shortest_in [of a "noted copies"] noted_in [of asks] noted_in [of copies]
    by (auto simp: k_def a_def split: if_splits)
  show ?thesis
    unfolding s_def [symmetric]
  proof (intro exI [of _ k] conjI ballI allI impI)
    show "ladder rs s = Some k" by (rule l)
    show "k \<le> vs_keyframe_ms t'"
      if "r' \<in> set rs" "rv_source r' = s" "rv_video r' = VEncode t' why'" "vs_keyframe_ms t' \<noteq> 0" for r' t' why'
      using asks_mem [OF that(1-3)] that(4) by (intro asked) (simp_all add: asks_def)
    show "k \<le> vs_keyframe_ms v"
      if "r' \<in> set rs" "rv_source r' = s" "rv_video r' = VCopy" "si_video (rv_info r') = Some v" "vs_keyframe_ms v \<noteq> 0" for r' v
      using copies_mem [OF that(1-4)] that(5) by (intro kept) (simp_all add: copies_def)
    show "k \<noteq> 0" by (rule ka(1))
    show "k = DEFAULT_KEYFRAME_MS
       \<or> (\<exists>r' \<in> set rs. rv_source r' = s \<and> (\<exists>t' why'. rv_video r' = VEncode t' why' \<and> k = vs_keyframe_ms t'))
       \<or> (\<exists>r' \<in> set rs. rv_source r' = s \<and> rv_video r' = VCopy \<and>
            (\<exists>v. si_video (rv_info r') = Some v \<and> k = vs_keyframe_ms v))"
      using one asks_mem_iff [of k s rs] copies_mem_iff [OF ka(1), of s rs]
      by (auto simp: asks_def copies_def)
  qed
qed

definition ex_rung :: "string \<Rightarrow> u32 \<Rightarrow> resolved" where
  "ex_rung i ms =
     \<lparr>rv_request = rendition_request_default\<lparr>rq_id := i\<rparr>, rv_source = ''cam'', rv_info = ex_info,
      rv_video = VEncode (at_keyframe ex_720_shape ms) ''why'', rv_audio = ANone, rv_tracks = []\<rparr>"

theorem ladder_meets_every_rung_witness:
  "\<exists>k. ladder [ex_rung ''a'' 0, ex_rung ''b'' 1000] ''cam'' = Some k \<and> k \<le> 1000 \<and> k \<noteq> 0"
  using ladder_meets_every_rung [of "ex_rung ''b'' 1000" "[ex_rung ''a'' 0, ex_rung ''b'' 1000]"
      "at_keyframe ex_720_shape 1000" "''why''"]
  by (auto simp: ex_rung_def at_keyframe_def)

subsection \<open>Devices and costs\<close>

text \<open>C1: What a plan puts on a GPU fits the room the machine said that GPU has, sessions and load
  both, in the \<open>u32\<close> arithmetic of the code.\<close>

theorem plan_within_room:
  assumes "make_plan sources requests m = Inr p" "d \<noteq> CPU" "pl_cost p d = Some c"
  shows "room_fits (cm_room m d) c cost_default"
proof -
  obtain b where b: "builder_inv b" "bd_model b = m" "p = finish b (pl_keyframe_ms p)"
    using make_plan_builder_inv [OF assms(1)] by blast
  have "c = device_cost (bd_nodes b) d"
    using assms(3) finish_sel(4) [of b "pl_keyframe_ms p" d] b(3) by (metis option.distinct(1) option.inject)
  then have "c = used_on (bd_used b) d" using b(1) assms(2) by (simp add: builder_inv_def booked_def)
  then show ?thesis using b(1,2) by (auto simp: builder_inv_def within_room_def)
qed

text \<open>The plan's cost of a device is the sum of the costs of the nodes on it, devices without a
  node have none, and the total is the sum over all nodes.\<close>

theorem plan_costs_add_up:
  assumes "make_plan sources requests m = Inr p"
  shows "pl_total p = cost_sum (map nd_cost (pl_nodes p))
    \<and> pl_cost p d = (let on_d = filter (\<lambda>n. nd_device n = d) (pl_nodes p) in
                     if on_d = [] then None else Some (cost_sum (map nd_cost on_d)))"
proof -
  obtain b rungs where p: "p = finish b rungs" using make_plan_inv [OF assms] by blast
  show ?thesis unfolding p by (simp add: finish_sel device_cost_def device_nodes_def Let_def)
qed

theorem plan_costs_add_up_witness:
  "pl_total ex_plan = \<lparr>cpu_millicores = 420, device_millis = 300, device_sessions = 1, memory_mib = 4, egress_kbps = 9120\<rparr>"
proof -
  have "map nd_cost (pl_nodes ex_plan) = map (\<lambda>(_, _, _, _, _, c). c)
      (map (\<lambda>n. (nd_id n, nd_kind n, nd_inputs n, nd_serves n, nd_device n, nd_cost n)) (pl_nodes ex_plan))"
    by simp
  then show ?thesis
    using plan_costs_add_up [OF ex_planned]
    unfolding ex_plan_nodes by (simp add: ex_cost_def ex_decode_cost_def ex_scale_cost_def cost_plus_def cost_default_def)
qed

theorem plan_within_room_witness:
  "room_fits (ex_room ''nvidia:0'') (cost_default\<lparr>cpu_millicores := 100, device_millis := 300, device_sessions := 1\<rparr>) cost_default"
proof -
  obtain c where c: "pl_cost ex_plan ''nvidia:0'' = Some c"
    "c = cost_default\<lparr>cpu_millicores := 100, device_millis := 300, device_sessions := 1\<rparr>"
    using ex_gpu_cost by blast
  have "room_fits (cm_room ex_model ''nvidia:0'') c cost_default"
    by (rule plan_within_room [OF ex_planned _ c(1)]) (simp add: CPU_def)
  then show ?thesis unfolding c(2) by (simp add: ex_model_def)
qed

text \<open>C6: Every encode of a plan runs on an encoder of this machine that makes its codec, on the
  device of that encoder and at the price the model gives; everything else runs on the CPU.\<close>

theorem plan_encoders_fit:
  assumes "make_plan sources requests m = Inr p" "n \<in> set (pl_nodes p)"
  shows "case nd_kind n of
      Encode s v e pre bf \<Rightarrow> e \<in> set (cm_encoders m) \<and> es_codec e = vs_codec v \<and>
        cm_encode_cost m v e = Some (nd_cost n) \<and> nd_device n = device_of e
    | _ \<Rightarrow> nd_device n = CPU"
proof -
  obtain b where b: "builder_inv b" "pl_nodes p = bd_nodes b" "bd_model b = m" "bd_encoders b = cm_encoders m"
    using make_plan_builder_inv [OF assms(1)] by blast
  then have "encode_ok m (cm_encoders m) (nd_kind n) (nd_device n) (nd_cost n)"
    using assms(2) by (auto simp: builder_inv_def encodes_ok_def)
  then show ?thesis by (cases "nd_kind n") auto
qed

theorem plan_encoders_fit_witness:
  "ex_slot \<in> set (cm_encoders ex_model) \<and> nd_device (pl_nodes ex_plan ! 6) = device_of ex_slot"
  using plan_encoders_fit [OF ex_planned ex_plan_in [of 6]] by (simp add: ex_encode_node)

subsection \<open>Errors\<close>

text \<open>A plan that cannot be made says which of the requests it was about: the error names one of
  the requests it was given.\<close>

theorem plan_error_names_request:
  assumes "make_plan sources requests m = Inl e"
  shows "error_request e \<in> (\<lambda>(s, req). rq_id req) ` set requests"
proof -
  have "error_request e \<in> (rq_id \<circ> snd) ` set requests"
    using assms
  proof (cases "resolve_all sources (dedup (map es_codec (cm_encoders m))) (audio_available m) [] requests")
    case (Inl e')
    with assms have "e' = e" by (simp add: make_plan_def Let_def)
    then show ?thesis using resolve_all_Inl [OF Inl] by blast
  next
    case (Inr rs)
    with assms have "error_request e \<in> rv_id ` set rs"
      by (auto simp: make_plan_def Let_def and_then_Inl_iff dest: build_all_Inl)
    also have "rv_id ` set rs = rq_id ` set (map rv_request rs)" by (auto simp: rv_id_def)
    finally show ?thesis using resolve_all_sel(1) [OF Inr] by auto
  qed
  then show ?thesis by (auto simp: case_prod_beta)
qed

theorem plan_error_names_request_witness:
  "\<exists>e. make_plan [] ex_requests ex_model = Inl e \<and> error_request e \<in> {''copy'', ''live''}"
proof -
  have "make_plan [] ex_requests ex_model = Inl (UnknownSource ''copy'' ''cam'' [])"
    by (simp add: make_plan_def ex_requests_def resolve_request_def ex_copy_def rendition_request_default_def)
  with plan_error_names_request [OF this] show ?thesis
    by (auto simp: ex_requests_def ex_copy_def ex_720_def rendition_request_default_def)
qed

end
