(* ===== verification/Resolve_Properties.thy ===== *)
theory Resolve_Properties
  imports Resolve Choose Ids
begin

text \<open>
  What the decisions of one request promise: what is copied is what was asked for, what is encoded
  fits its container, an encoder is chosen hardware first, a suggestion can be made, and an encode's
  id tells its work.
\<close>

subsection \<open>Copies\<close>

text \<open>The default tolerance copies a stream only from three quarters of the asked bitrate to just
  over five percent above it, and copies every stream within three quarters and five percent.\<close>

theorem default_copy_window:
  "(bitrate_fits src want DEFAULT_TOLERANCE \<longrightarrow>
      3 * uint want \<le> 4 * uint src \<and> 10000000 * uint src \<le> 10500001 * uint want)
    \<and> (3 * uint want \<le> 4 * uint src \<and> 20 * uint src \<le> 21 * uint want \<longrightarrow>
        bitrate_fits src want DEFAULT_TOLERANCE)"
proof -
  define s w :: rat where "s = of_int (uint src)" and "w = of_int (uint want)"
  have w0: "0 \<le> w" by (simp add: w_def)
  have wi: "uint want < 2 ^ 32" using uint_bounded [of want] by simp
  have over: "min OVER_TOLERANCE DEFAULT_TOLERANCE = 13421773 / 268435456"
    by (simp add: OVER_TOLERANCE_def DEFAULT_TOLERANCE_def)
  have "f_add 1 (13421773 / 268435456) = rnd (of_int 281857229 * 2 powi (- 28))"
    by (simp add: f_add_def power_int_def power_divide)
  also have "\<dots> = of_int 281857229 * 2 powi (- 28)" by (rule rnd_dyadic) simp
  finally have one_over: "f_add 1 (13421773 / 268435456) = 281857229 / 268435456"
    by (simp add: power_int_def power_divide)
  have "f_sub 1 DEFAULT_TOLERANCE = rnd (of_int 3 * 2 powi (- 2))"
    by (simp add: f_sub_def DEFAULT_TOLERANCE_def power_int_def power_divide)
  also have "\<dots> = of_int 3 * 2 powi (- 2)" by (rule rnd_dyadic) simp
  finally have under: "f_sub 1 DEFAULT_TOLERANCE = 3 / 4" by (simp add: power_int_def power_divide)
  have "f_mul w (3 / 4) = rnd (of_int (3 * uint want) * 2 powi (- 2))"
    by (simp add: f_mul_def w_def power_int_def power_divide mult.commute)
  also have "\<dots> = of_int (3 * uint want) * 2 powi (- 2)" using wi by (intro rnd_dyadic) simp
  finally have low: "f_mul w (3 / 4) = 3 * w / 4" by (simp add: power_int_def power_divide w_def)
  define h where "h = f_mul w (281857229 / 268435456)"
  have h: "\<bar>h - w * (281857229 / 268435456)\<bar> \<le> w * (281857229 / 268435456) / 9007199254740992"
    using rnd_near [of "w * (281857229 / 268435456)"] w0 by (simp add: h_def f_mul_def)
  have fits: "bitrate_fits src want DEFAULT_TOLERANCE \<longleftrightarrow> s \<le> h \<and> 3 * w / 4 \<le> s"
    by (simp add: bitrate_fits_def over one_over under f_of_def low h_def flip: s_def w_def)
  have up: "h \<le> w * (10500001 / 10000000)" and dn: "w * (21 / 20) \<le> h"
    using h w0 unfolding abs_le_iff by (linarith, linarith)
  have i1: "3 * uint want \<le> 4 * uint src \<longleftrightarrow> 3 * w / 4 \<le> s"
    by (subst of_int_le_iff [where 'a = rat, symmetric]) (simp add: s_def w_def field_simps)
  have i2: "10000000 * uint src \<le> 10500001 * uint want \<longleftrightarrow> s \<le> w * (10500001 / 10000000)"
    by (subst of_int_le_iff [where 'a = rat, symmetric]) (simp add: s_def w_def field_simps)
  have i3: "20 * uint src \<le> 21 * uint want \<longleftrightarrow> s \<le> w * (21 / 20)"
    by (subst of_int_le_iff [where 'a = rat, symmetric]) (simp add: s_def w_def field_simps)
  show ?thesis unfolding fits i1 i2 i3 using up dn by linarith
qed

theorem default_copy_window_witness:
  "bitrate_fits 2400 3000 DEFAULT_TOLERANCE \<and> bitrate_fits 3100 3000 DEFAULT_TOLERANCE
    \<and> \<not> bitrate_fits 160 128 DEFAULT_TOLERANCE \<and> \<not> bitrate_fits 2000 3000 DEFAULT_TOLERANCE"
  using default_copy_window [of 2400 3000] default_copy_window [of 3100 3000]
    default_copy_window [of 160 128] default_copy_window [of 2000 3000]
  by simp

text \<open>A copied video is the video that was asked for: the source is encoded, its container carries
  the codec, and the codec, the size, the rate, the bitrate and the keyframe interval are the ones the
  request names wherever it names one.\<close>

theorem copied_video_is_asked_for:
  assumes "resolve_video req source info available = Inr VCopy"
  shows "\<exists>src. si_video info = Some src \<and> si_encoded info \<and> carries_video (rq_container req) (vs_codec src) \<and>
    (let want = or_default video_want_default (rq_video req) in
      (\<forall>c. vw_codec want = Some c \<longrightarrow> c = vs_codec src) \<and>
      (vw_match_source want = None \<longrightarrow> (\<forall>w. vw_width want = Some w \<longrightarrow> w = vs_width src)) \<and>
      (vw_match_source want = None \<longrightarrow> (\<forall>h. vw_height want = Some h \<longrightarrow> h = vs_height src)) \<and>
      (\<forall>f. vw_fps want = Some f \<longrightarrow> as_f64 f = as_f64 (vs_fps src)) \<and>
      (vw_match_source want = None \<longrightarrow> 0 < vs_bitrate_kbps src \<longrightarrow> (\<forall>k. vw_bitrate_kbps want = Some k \<longrightarrow>
         bitrate_fits (vs_bitrate_kbps src) k (or_default DEFAULT_TOLERANCE (vw_bitrate_tolerance want)))) \<and>
      (vw_keyframe_frames want = None \<longrightarrow> 0 < vs_keyframe_ms src \<longrightarrow>
         (\<forall>ms. vw_keyframe_ms want = Some ms \<longrightarrow> 0 < ms \<longrightarrow> ms = vs_keyframe_ms src)) \<and>
      \<not> (vw_deinterlace want = Some On \<and> si_interlaced info))"
proof -
  define want where "want = or_default video_want_default (rq_video req)"
  have codec: "Option.bind (rq_video req) vw_codec = vw_codec want"
    by (cases "rq_video req") (simp_all add: want_def or_default_def video_want_default_def)
  from assms obtain src where src: "si_video info = Some src"
    by (auto simp: resolve_video_def split: if_splits option.splits)
  from assms src obtain ce where ce: "codec_for req info available = Inr ce"
    by (auto simp: resolve_video_def Let_def and_then_Inr_iff split: if_splits)
  obtain w0 h0 where wh: "size_for (vw_width want) (vw_height want) src = (w0, h0)" by fastforce
  obtain w h kbps where m: "matched want w0 h0 (vs_height src) = (w, h, kbps)" by (metis surj_pair)
  define f where "f = or_default (vs_fps src) (vw_fps want)"
  define t where "t = \<lparr>vs_codec = fst ce, vs_width = w, vs_height = h, vs_fps = f,
    vs_bitrate_kbps = 0, vs_keyframe_ms = wanted_keyframe_ms want f\<rparr>"
  have none: "\<not> (vw_deinterlace want = Some On \<and> si_interlaced info)"
    "video_mismatch req info src t kbps (or_default DEFAULT_TOLERANCE (vw_bitrate_tolerance want)) = None"
    using assms src ce wh m
    by (auto simp: resolve_video_def Let_def and_then_Inr_iff want_def [symmetric] f_def [symmetric] t_def
        case_prod_beta split: if_splits option.splits)
  then have enc: "si_encoded info" "carries_video (rq_container req) (vs_codec src)" "vs_codec src = fst ce"
    "vs_width src = w" "vs_height src = h" "as_f64 (vs_fps src) = as_f64 f"
    and rate: "\<forall>k. kbps = Some k \<longrightarrow> 0 < vs_bitrate_kbps src \<longrightarrow>
      bitrate_fits (vs_bitrate_kbps src) k (or_default DEFAULT_TOLERANCE (vw_bitrate_tolerance want))"
    and keys: "0 < wanted_keyframe_ms want f \<longrightarrow> 0 < vs_keyframe_ms src \<longrightarrow> wanted_keyframe_ms want f = vs_keyframe_ms src"
    by (auto simp: video_mismatch_def t_def split: if_splits option.splits)
  have "fst ce = c" if "vw_codec want = Some c" for c
    using ce that codec by (auto simp: codec_for_def Let_def split: if_splits)
  moreover have "(w, h, kbps) = (w0, h0, vw_bitrate_kbps want)" if "vw_match_source want = None"
    using m that by (simp add: matched_def Let_def)
  moreover have "w0 = x" if "vw_width want = Some x" for x
    using size_for_given(2) [of x "vw_height want" src] wh that by simp
  moreover have "h0 = x" if "vw_height want = Some x" for x
    using size_for_given(3) [of "vw_width want" x src] wh that by simp
  moreover have "f = x" if "vw_fps want = Some x" for x using that by (simp add: f_def or_default_def)
  moreover have "wanted_keyframe_ms want f = x" if "vw_keyframe_frames want = None" "vw_keyframe_ms want = Some x" for x
    using that by (simp add: wanted_keyframe_ms_def)
  ultimately show ?thesis
    unfolding want_def [symmetric] Let_def
    using src enc rate keys none(1) by (intro exI [of _ src] conjI allI impI) simp_all
qed

definition rp_shape :: video_shape where
  "rp_shape = \<lparr>vs_codec = H264, vs_width = 1920, vs_height = 1080, vs_fps = fps_whole 30,
     vs_bitrate_kbps = 6000, vs_keyframe_ms = 2000\<rparr>"

definition rp_info :: stream_info where
  "rp_info = stream_info_default\<lparr>si_video := Some rp_shape, si_encoded := True\<rparr>"

definition rp_request :: rendition_request where
  "rp_request = rendition_request_default\<lparr>rq_id := ''a'',
     rq_video := Some (video_want_default\<lparr>vw_width := Some 1920, vw_bitrate_kbps := Some 6500\<rparr>)\<rparr>"

theorem copied_video_is_asked_for_witness: "bitrate_fits 6000 6500 DEFAULT_TOLERANCE"
proof -
  have "case resolve_video rp_request ''cam'' rp_info [H264] of Inr VCopy \<Rightarrow> True | _ \<Rightarrow> False" by code_simp
  then have "resolve_video rp_request ''cam'' rp_info [H264] = Inr VCopy"
    by (auto split: sum.splits video_decision.splits)
  from copied_video_is_asked_for [OF this] show ?thesis
    by (simp add: rp_info_def rp_shape_def rp_request_def stream_info_default_def rendition_request_default_def
        or_default_def video_want_default_def Let_def)
qed

subsection \<open>Encodes\<close>

lemma fallback_carried: "carries_video (rq_container req) (fallback req available)"
  by (simp add: fallback_def vtab.first_available_carried)

lemma codec_for_carried: "codec_for req info available = Inr (c, x) \<Longrightarrow> carries_video (rq_container req) c"
  by (auto simp: codec_for_def Let_def fallback_carried split: option.splits if_splits bool.splits)

text \<open>Whatever is encoded, video or sound, is in a codec its container carries; and unless the
  request named the codec, it is one this machine can encode whenever the container carries any.\<close>

theorem encode_codec_fits:
  "(resolve_video req source info available = Inr (VEncode t why) \<longrightarrow>
      carries_video (rq_container req) (vs_codec t) \<and>
      (Option.bind (rq_video req) vw_codec = None \<longrightarrow>
        (\<exists>c. carries_video (rq_container req) c \<and> c \<in> set available) \<longrightarrow> vs_codec t \<in> set available))
   \<and> (resolve_audio req source info available' = Inr (AEncode t' why') \<longrightarrow>
      carries_audio (rq_container req) (as_codec t') \<and>
      (Option.bind (rq_audio req) aw_codec = None \<longrightarrow>
        (\<exists>c. carries_audio (rq_container req) c \<and> c \<in> set available') \<longrightarrow> as_codec t' \<in> set available'))"
proof (intro conjI impI)
  assume v: "resolve_video req source info available = Inr (VEncode t why)"
  then obtain c x where cx: "codec_for req info available = Inr (c, x)"
    by (auto simp: resolve_video_def Let_def and_then_Inr_iff split: if_splits option.splits)
  have t: "vs_codec t = (if \<not> x \<and> c \<notin> set available then fallback req available else c)"
    using v cx by (auto simp: resolve_video_def Let_def and_then_Inr_iff case_prod_beta split: if_splits option.splits)
  show "carries_video (rq_container req) (vs_codec t)"
    using t codec_for_carried [OF cx] fallback_carried by simp
  show "vs_codec t \<in> set available"
    if "Option.bind (rq_video req) vw_codec = None" "\<exists>c. carries_video (rq_container req) c \<and> c \<in> set available"
  proof -
    have "\<not> x" using cx that(1) by (auto simp: codec_for_def Let_def split: option.splits if_splits bool.splits)
    then show ?thesis using t vtab.first_available_encodable [OF that(2)] by (simp add: fallback_def)
  qed
next
  assume a: "resolve_audio req source info available' = Inr (AEncode t' why')"
  define want where "want = or_default audio_want_default (rq_audio req)"
  have asked: "Option.bind (rq_audio req) aw_codec = aw_codec want"
    by (cases "rq_audio req") (simp_all add: want_def or_default_def audio_want_default_def)
  obtain c where c: "audio_codec_for req info available' (aw_codec want) = Inr c"
    using a by (auto simp: resolve_audio_def Let_def and_then_Inr_iff want_def split: if_splits option.splits)
  have car: "carries_audio (rq_container req) c"
    using c by (auto simp: audio_codec_for_def Let_def atab.first_available_carried split: option.splits if_splits bool.splits)
  have t: "as_codec t' = (if aw_codec want = None \<and> c \<notin> set available'
      then first_available (audio_codecs (rq_container req)) available' else c)"
    using a c by (auto simp: resolve_audio_def Let_def and_then_Inr_iff want_def split: if_splits option.splits)
  show "carries_audio (rq_container req) (as_codec t')" using t car atab.first_available_carried by simp
  show "as_codec t' \<in> set available'"
    if "Option.bind (rq_audio req) aw_codec = None" "\<exists>c. carries_audio (rq_container req) c \<and> c \<in> set available'"
    using t asked that(1) atab.first_available_encodable [OF that(2)] by simp
qed

definition rp_web :: rendition_request where
  "rp_web = rendition_request_default\<lparr>rq_id := ''a'', rq_container := Webrtc,
     rq_audio := Some (audio_want_default\<lparr>aw_bitrate_kbps := Some 128\<rparr>)\<rparr>"

definition rp_sound :: stream_info where
  "rp_sound = stream_info_default\<lparr>si_audio := Some \<lparr>as_codec = Aac, as_channels = 2, as_sample_rate = 48000,
     as_bitrate_kbps = 160\<rparr>, si_encoded := True\<rparr>"

theorem encode_codec_fits_witness:
  "\<exists>t why. resolve_audio rp_web ''cam'' rp_sound [Aac, Opus] = Inr (AEncode t why) \<and> as_codec t \<in> {Aac, Opus}
     \<and> carries_audio Webrtc (as_codec t)"
proof -
  have "case resolve_audio rp_web ''cam'' rp_sound [Aac, Opus] of Inr (AEncode t why) \<Rightarrow> True | _ \<Rightarrow> False" by code_simp
  then obtain t why where r: "resolve_audio rp_web ''cam'' rp_sound [Aac, Opus] = Inr (AEncode t why)"
    by (auto split: sum.splits audio_decision.splits)
  have "carries_audio Webrtc Opus" by code_simp
  then show ?thesis
    using r encode_codec_fits [of rp_web "''cam''" rp_sound "[]" _ _ "[Aac, Opus]" t why]
    by (auto simp: rp_web_def rendition_request_default_def audio_want_default_def)
qed

subsection \<open>Ids of encodes\<close>

lemma digits_eq: "digits = set ''0123456789''"
proof -
  have "{0..<10 :: int} = set [0, 1, 2, 3, 4, 5, 6, 7, 8, 9]" by (simp add: atLeastLessThan_def lessThan_def atLeast_def set_eq_iff) presburger
  then have "digits = digit_char ` set [0, 1, 2, 3, 4, 5, 6, 7, 8, 9]" by (simp only: digits_def)
  also have "\<dots> = set (map digit_char [0, 1, 2, 3, 4, 5, 6, 7, 8, 9])" by (simp only: set_map)
  also have "map digit_char [0, 1, 2, 3, 4, 5, 6, 7, 8, 9] = ''0123456789''" by code_simp
  finally show ?thesis .
qed

lemma plain_word:
  "CHR '':'' \<notin> set (show_word w)" "CHR ''x'' \<notin> set (show_word w)" "CHR ''p'' \<notin> set (show_word w)"
  "CHR ''/'' \<notin> set (show_word w)" "CHR ''k'' \<notin> set (show_word w)"
proof -
  have "c \<notin> set (show_word w)" if "c \<notin> digits" for c using show_word_digits that by blast
  then show "CHR '':'' \<notin> set (show_word w)" "CHR ''x'' \<notin> set (show_word w)" "CHR ''p'' \<notin> set (show_word w)"
    "CHR ''/'' \<notin> set (show_word w)" "CHR ''k'' \<notin> set (show_word w)" by (simp_all add: digits_eq)
qed

lemma fps_id_no_colon: "CHR '':'' \<notin> set (fps_id f)"
  using plain_word by (auto simp: fps_id_def)

lemma fps_id_inj:
  assumes "fps_id f = fps_id g" "fps_den f \<noteq> 0" "fps_den g \<noteq> 0"
  shows "f = g"
proof -
  have one: "d = 1" if "d \<noteq> 0" "d \<le> 1" for d :: u32
  proof -
    have "unat d = unat (1 :: u32)" using that by (simp add: word_le_nat_alt unat_eq_0 le_Suc_eq)
    then show ?thesis by (rule unsigned_word_eqI)
  qed
  have "show_word n @ CHR ''/'' # xs \<noteq> show_word m" for n m :: u32 and xs
    using plain_word(4) [of m] by (metis in_set_conv_decomp)
  moreover have "show_word n @ CHR ''/'' # xs = show_word m @ CHR ''/'' # ys \<longleftrightarrow> n = m \<and> xs = ys" for n m :: u32 and xs ys
    using sep_split_iff [OF plain_word(4) [of n] plain_word(4) [of m]] by (simp add: show_word_inj)
  ultimately show ?thesis
    using assms one [of "fps_den f"] one [of "fps_den g"]
    by (cases f; cases g) (auto simp: fps_id_def show_word_inj split: if_splits dest: sym)
qed

lemma size_text_no_colon: "CHR '':'' \<notin> set (size_text v)"
  using plain_word fps_id_no_colon by (auto simp: size_text_def)

lemma size_text_inj:
  assumes "size_text v = size_text w" "fps_den (vs_fps v) \<noteq> 0" "fps_den (vs_fps w) \<noteq> 0"
  shows "vs_width v = vs_width w" "vs_height v = vs_height w" "vs_fps v = vs_fps w"
proof -
  have "show_word (vs_width v) @ CHR ''x'' # show_word (vs_height v) @ CHR ''p'' # fps_id (vs_fps v) =
      show_word (vs_width w) @ CHR ''x'' # show_word (vs_height w) @ CHR ''p'' # fps_id (vs_fps w)"
    using assms(1) by (simp add: size_text_def)
  then have "show_word (vs_width v) = show_word (vs_width w) \<and> show_word (vs_height v) = show_word (vs_height w)
      \<and> fps_id (vs_fps v) = fps_id (vs_fps w)"
    using plain_word by (metis sep_split)
  then show "vs_width v = vs_width w" "vs_height v = vs_height w" "vs_fps v = vs_fps w"
    using fps_id_inj assms(2,3) by (simp_all add: show_word_inj)
qed

definition encode_extras :: "string option \<Rightarrow> u8 option \<Rightarrow> encoder_pick option \<Rightarrow> string" where
  "encode_extras p b k =
     (case p of Some p \<Rightarrow> '':p'' @ p | None \<Rightarrow> []) @ (case b of Some b \<Rightarrow> '':b'' @ show_word b | None \<Rightarrow> []) @
     pick_suffix k"

lemma pick_suffix_inj: "pick_suffix k = pick_suffix k' \<Longrightarrow> k = k'"
  by (cases k rule: pick_suffix.cases; cases k' rule: pick_suffix.cases) simp_all

lemma encode_extras_inj:
  assumes "encode_extras p b k = encode_extras p' b' k'"
    "\<forall>q. p = Some q \<longrightarrow> CHR '':'' \<notin> set q" "\<forall>q. p' = Some q \<longrightarrow> CHR '':'' \<notin> set q"
  shows "p = p' \<and> b = b' \<and> k = k'"
proof -
  define tl2 where "tl2 b k = (case b of Some (b :: u8) \<Rightarrow> '':b'' @ show_word b | None \<Rightarrow> []) @ pick_suffix k" for b k
  have pick: "pick_suffix k = [] \<or> hd (pick_suffix k) = CHR '':''" for k
    by (cases k rule: pick_suffix.cases) simp_all
  have tl2: "tl2 b k = [] \<or> hd (tl2 b k) = CHR '':''" for b k
    using pick by (cases b) (simp_all add: tl2_def)
  have pick2: "pick_suffix k \<noteq> CHR '':'' # CHR ''b'' # z" for k z
    by (cases k rule: pick_suffix.cases) simp_all
  have tl2_p: "tl2 b k \<noteq> CHR '':'' # CHR ''p'' # z" for b k z
    by (cases b; cases k rule: pick_suffix.cases) (simp_all add: tl2_def)
  have inj2: "b = b' \<and> k = k'" if "tl2 b k = tl2 b' k'" for b b' k k'
  proof (cases b)
    case None
    then show ?thesis using that pick2 by (cases b') (auto simp: tl2_def dest: pick_suffix_inj)
  next
    case (Some n)
    show ?thesis
    proof (cases b')
      case None
      then show ?thesis using that Some pick2 [of k' "show_word n @ pick_suffix k"] by (simp add: tl2_def)
    next
      case (Some m)
      then have "show_word n @ pick_suffix k = show_word m @ pick_suffix k'"
        using that \<open>b = Some n\<close> by (simp add: tl2_def)
      from sep_split_end [OF plain_word(1) plain_word(1) pick pick this] Some \<open>b = Some n\<close>
      show ?thesis by (simp add: show_word_inj pick_suffix_inj)
    qed
  qed
  have ext: "encode_extras p b k = (case p of Some p \<Rightarrow> '':p'' @ p | None \<Rightarrow> []) @ tl2 b k" for p b k
    by (simp add: encode_extras_def tl2_def)
  show ?thesis
  proof (cases p)
    case None
    then show ?thesis using assms(1) tl2_p inj2 by (cases p') (auto simp: ext)
  next
    case (Some q)
    obtain q' where q': "p' = Some q'"
      using assms(1) Some tl2_p [of b' k' "q @ tl2 b k"] by (cases p') (auto simp: ext)
    then have "q @ tl2 b k = q' @ tl2 b' k'" using assms(1) Some by (simp add: ext)
    then have "q = q' \<and> tl2 b k = tl2 b' k'"
      using sep_split_end [of "CHR '':''" q q' "tl2 b k" "tl2 b' k'"] tl2 assms(2,3) Some q' by blast
    then show ?thesis using inj2 Some q' by blast
  qed
qed

text \<open>The id of an encode tells its work: where neither slug nor preset holds a colon, equal ids
  mean the same source, codec, size, rate, bitrate, keyframe interval, preset, B-frames and pick of
  encoder.\<close>

theorem encode_id_tells_work:
  assumes "encode_id s v p b @ pick_suffix k = encode_id s' v' p' b' @ pick_suffix k'"
    "CHR '':'' \<notin> set s" "CHR '':'' \<notin> set s'" "\<forall>q. p = Some q \<longrightarrow> CHR '':'' \<notin> set q" "\<forall>q. p' = Some q \<longrightarrow> CHR '':'' \<notin> set q"
    "fps_den (vs_fps v) \<noteq> 0" "fps_den (vs_fps v') \<noteq> 0"
  shows "s = s' \<and> v = v' \<and> p = p' \<and> b = b' \<and> k = k'"
proof -
  have id: "encode_id s v p b @ pick_suffix k = ''encode:'' @ s @ CHR '':'' # video_slug (vs_codec v) @ CHR '':'' #
      size_text v @ CHR '':'' # show_word (vs_bitrate_kbps v) @ CHR ''k'' # CHR '':'' # CHR ''g'' #
      show_word (vs_keyframe_ms v) @ encode_extras p b k" for s v p b k
    by (simp add: encode_id_def encode_extras_def)
  from assms(1) have "s @ CHR '':'' # video_slug (vs_codec v) @ CHR '':'' # size_text v @ CHR '':'' #
      show_word (vs_bitrate_kbps v) @ CHR ''k'' # CHR '':'' # CHR ''g'' # show_word (vs_keyframe_ms v) @ encode_extras p b k
    = s' @ CHR '':'' # video_slug (vs_codec v') @ CHR '':'' # size_text v' @ CHR '':'' #
      show_word (vs_bitrate_kbps v') @ CHR ''k'' # CHR '':'' # CHR ''g'' # show_word (vs_keyframe_ms v') @ encode_extras p' b' k'"
    unfolding id by simp
  then have 1: "s = s'" and 2: "video_slug (vs_codec v) = video_slug (vs_codec v')" and 3: "size_text v = size_text v'"
    and rest: "show_word (vs_bitrate_kbps v) @ CHR ''k'' # CHR '':'' # CHR ''g'' # show_word (vs_keyframe_ms v) @ encode_extras p b k
      = show_word (vs_bitrate_kbps v') @ CHR ''k'' # CHR '':'' # CHR ''g'' # show_word (vs_keyframe_ms v') @ encode_extras p' b' k'"
    using assms(2,3) vtab.slug_no_colon size_text_no_colon by (simp_all add: sep_split_iff)
  have 4: "show_word (vs_bitrate_kbps v) = show_word (vs_bitrate_kbps v')"
    and 5: "show_word (vs_keyframe_ms v) @ encode_extras p b k = show_word (vs_keyframe_ms v') @ encode_extras p' b' k'"
    using sep_split [OF plain_word(5) plain_word(5) rest] by simp_all
  have ends: "encode_extras p b k = [] \<or> hd (encode_extras p b k) = CHR '':''" for p b k
    by (cases p; cases b; cases k rule: pick_suffix.cases) (simp_all add: encode_extras_def)
  have "show_word (vs_keyframe_ms v) = show_word (vs_keyframe_ms v') \<and> encode_extras p b k = encode_extras p' b' k'"
    using sep_split_end [OF _ _ ends ends 5] plain_word by blast
  then have kf: "vs_keyframe_ms v = vs_keyframe_ms v'" and ex: "encode_extras p b k = encode_extras p' b' k'"
    by (simp_all add: show_word_inj)
  show ?thesis
    using kf encode_extras_inj [OF ex assms(4,5)] 1 2 4 size_text_inj [OF 3 assms(6,7)]
    by (cases v; cases v') (simp add: video_slug_inj show_word_inj)
qed

theorem encode_id_tells_work_witness:
  "encode_id ''cam'' rp_shape (Some ''fast'') (Some 1) @ pick_suffix (Some Gpu)
     \<noteq> encode_id ''cam'' rp_shape (Some ''fast'') (Some 2) @ pick_suffix (Some Gpu)"
proof
  assume "encode_id ''cam'' rp_shape (Some ''fast'') (Some 1) @ pick_suffix (Some Gpu)
     = encode_id ''cam'' rp_shape (Some ''fast'') (Some 2) @ pick_suffix (Some Gpu)"
  from encode_id_tells_work [OF this] have "(1 :: u8) = 2" by (simp add: rp_shape_def fps_whole_def)
  then show False by simp
qed

subsection \<open>Encoders\<close>

text \<open>An encoder is chosen hardware first: the one chosen is of this machine, makes the codec and
  has room at the model's price, and software is chosen only when every hardware encoder of the codec
  cannot make the shape or has no room.\<close>

theorem hardware_first:
  assumes "choose_encoder m encoders s u = Inr ch"
  shows "ch_encoder ch \<in> set encoders \<and> es_codec (ch_encoder ch) = vs_codec s
    \<and> cm_encode_cost m s (ch_encoder ch) = Some (ch_cost ch)
    \<and> (if es_hardware (ch_encoder ch)
       then room_fits (cm_room m (device_of (ch_encoder ch))) (used_on u (device_of (ch_encoder ch))) (ch_cost ch)
       else \<forall>e \<in> set encoders. es_codec e = vs_codec s \<longrightarrow> es_hardware e \<longrightarrow>
         (case cm_encode_cost m s e of
            None \<Rightarrow> True
          | Some c \<Rightarrow> \<not> room_fits (cm_room m (device_of e)) (used_on u (device_of e)) c))"
proof (cases "es_hardware (ch_encoder ch)")
  case True
  then show ?thesis using choose_Inr [OF assms] by simp
next
  case False
  have "case cm_encode_cost m s e of None \<Rightarrow> True
      | Some c \<Rightarrow> \<not> room_fits (cm_room m (device_of e)) (used_on u (device_of e)) c"
    if "e \<in> set encoders" "es_codec e = vs_codec s" "es_hardware e" for e
    using choose_software [OF assms False that] that(3) by (auto simp: pass_over_def split: option.splits if_splits)
  then show ?thesis using False choose_Inr [OF assms] by simp
qed

definition rp_gpu :: encoder_slot where
  "rp_gpu = \<lparr>es_id = ''h264-nvenc'', es_codec = H264, es_hardware = True, es_device = Some ''nvidia:0''\<rparr>"

definition rp_model :: cost_model where
  "rp_model = \<lparr>cm_encoders = [software_slot ''x264'' H264, rp_gpu],
     cm_encode_cost = (\<lambda>s e. Some (cost_default\<lparr>device_sessions := 1\<rparr>)), cm_scale_cost = (\<lambda>_ _. cost_default),
     cm_decode_cost = (\<lambda>_. cost_default), cm_audio_cost = (\<lambda>_ _. None), cm_mux_cost = default_mux_cost,
     cm_room = (\<lambda>d. \<lparr>rm_sessions = Some 1, rm_device_millis = None\<rparr>)\<rparr>"

definition rp_full :: used where
  "rp_full = [''nvidia:0'' \<mapsto> cost_default\<lparr>device_sessions := 1\<rparr>]"

theorem hardware_first_witness:
  "\<exists>ch. choose_encoder rp_model (cm_encoders rp_model) rp_shape rp_full = Inr ch \<and> \<not> es_hardware (ch_encoder ch) \<and>
     \<not> room_fits (cm_room rp_model ''nvidia:0'') (used_on rp_full ''nvidia:0'') (cost_default\<lparr>device_sessions := 1\<rparr>)"
proof -
  have "case choose_encoder rp_model (cm_encoders rp_model) rp_shape rp_full of Inr ch \<Rightarrow> \<not> es_hardware (ch_encoder ch) | _ \<Rightarrow> False"
    by code_simp
  then obtain ch where ch: "choose_encoder rp_model (cm_encoders rp_model) rp_shape rp_full = Inr ch"
    and soft: "\<not> es_hardware (ch_encoder ch)" by (auto split: sum.splits)
  from hardware_first [OF ch] soft have "\<forall>e \<in> set (cm_encoders rp_model). es_codec e = vs_codec rp_shape \<longrightarrow> es_hardware e \<longrightarrow>
         (case cm_encode_cost rp_model rp_shape e of
            None \<Rightarrow> True
          | Some c \<Rightarrow> \<not> room_fits (cm_room rp_model (device_of e)) (used_on rp_full (device_of e)) c)" by simp
  then have "\<not> room_fits (cm_room rp_model ''nvidia:0'') (used_on rp_full ''nvidia:0'') (cost_default\<lparr>device_sessions := 1\<rparr>)"
    by (simp add: rp_model_def rp_gpu_def rp_shape_def device_of_def)
  with ch soft show ?thesis by blast
qed

text \<open>A suggestion is a shape that can be made: there is a shape of the suggested codec, size and
  rate, in the codec asked for or one the container carries, that an encoder with room makes, and the
  suggestion names that encoder.\<close>

theorem suggestion_can_be_made:
  assumes "nearest m encoders want k u = Some sg"
  shows "\<exists>s ch. sg_codec sg = video_slug (vs_codec s) \<and> sg_width sg = vs_width s \<and> sg_height sg = vs_height s
    \<and> sg_fps sg = vs_fps s \<and> sg_encoder sg = es_id (ch_encoder ch)
    \<and> (vs_codec s = vs_codec want \<or> carries_video k (vs_codec s)) \<and> choose_encoder m encoders s u = Inr ch"
proof -
  obtain s ch where "vs_codec s = vs_codec want \<or> carries_video k (vs_codec s)"
    "choose_encoder m encoders s u = Inr ch" "sg = suggest s (es_id (ch_encoder ch))"
    using nearest_Some [OF assms] by blast
  then show ?thesis by (intro exI [of _ s] exI [of _ ch]) (simp add: suggest_def)
qed

theorem suggestion_can_be_made_witness:
  "\<exists>s ch. choose_encoder rp_model (cm_encoders rp_model) s rp_full = Inr ch \<and> es_id (ch_encoder ch) = ''x264''"
proof -
  have "case nearest rp_model (cm_encoders rp_model) (rp_shape\<lparr>vs_codec := Vp9\<rparr>) Mkv rp_full of
      Some sg \<Rightarrow> sg_encoder sg = ''x264'' | None \<Rightarrow> False" by code_simp
  then obtain sg where "nearest rp_model (cm_encoders rp_model) (rp_shape\<lparr>vs_codec := Vp9\<rparr>) Mkv rp_full = Some sg"
    "sg_encoder sg = ''x264''" by (auto split: option.splits)
  with suggestion_can_be_made [OF this(1)] show ?thesis by metis
qed

text \<open>The function \<open>Plan::chain\<close> returns exactly the nodes that feed a request's output, each once: those reached
  from its Mux by following inputs.\<close>

theorem chain_is_what_feeds:
  "set (plan_chain p request) = {n. feeds (pl_nodes p) (mux_id request) n} \<and> distinct (map nd_id (plan_chain p request))"
  using set_plan_chain chain_walk_distinct [of "[]"] by (simp add: plan_chain_def)

end
