(* ===== verification/Diff.thy ===== *)
theory Diff
  imports Plan_Graph
begin

text \<open>
  What changes between two plans (\<open>crates/godwinmix-render/src/diff.rs\<close>), and what acting on it
  does to a running graph: stopping, restarting and starting the nodes the diff names takes the graph
  of the old plan to the graph of the new one and touches nothing else.
\<close>

record plan_diff =
  df_start :: "string list"
  df_stop :: "string list"
  df_restart :: "string list"
  df_keep :: "string list"

definition diff_default :: plan_diff where
  "diff_default = \<lparr>df_start = [], df_stop = [], df_restart = [], df_keep = []\<rparr>"

definition diff_is_empty :: "plan_diff \<Rightarrow> bool" where
  "diff_is_empty d \<longleftrightarrow> df_start d = [] \<and> df_stop d = [] \<and> df_restart d = []"

definition same_work :: "node \<Rightarrow> node \<Rightarrow> bool" where
  "same_work a b \<longleftrightarrow> nd_kind a = nd_kind b \<and> nd_inputs a = nd_inputs b"

text \<open>Collecting pairs into a \<open>HashMap\<close> keeps the last value of a key.\<close>

definition by_id :: "node list \<Rightarrow> string \<rightharpoonup> node" where
  "by_id nodes = map_of (rev (map (\<lambda>n. (nd_id n, n)) nodes))"

definition diff_new :: "(string \<rightharpoonup> node) \<Rightarrow> node \<Rightarrow> plan_diff \<Rightarrow> plan_diff" where
  "diff_new old n out =
    (case old (nd_id n) of
       None \<Rightarrow> out\<lparr>df_start := df_start out @ [nd_id n]\<rparr>
     | Some was \<Rightarrow> if same_work was n then out\<lparr>df_keep := df_keep out @ [nd_id n]\<rparr>
                   else out\<lparr>df_restart := df_restart out @ [nd_id n]\<rparr>)"

definition diff_old :: "(string \<rightharpoonup> node) \<Rightarrow> node \<Rightarrow> plan_diff \<Rightarrow> plan_diff" where
  "diff_old after n out = (if after (nd_id n) = None then out\<lparr>df_stop := df_stop out @ [nd_id n]\<rparr> else out)"

definition diff :: "plan \<Rightarrow> plan \<Rightarrow> plan_diff" where
  "diff old new =
    (let was = by_id (pl_nodes old); now = by_id (pl_nodes new);
         out = fold (diff_new was) (pl_nodes new) diff_default
     in fold (diff_old now) (rev (pl_nodes old)) out)"

subsection \<open>The four lists\<close>

definition changed :: "plan \<Rightarrow> node \<Rightarrow> bool" where
  "changed old n = (case by_id (pl_nodes old) (nd_id n) of None \<Rightarrow> False | Some was \<Rightarrow> \<not> same_work was n)"

definition unchanged :: "plan \<Rightarrow> node \<Rightarrow> bool" where
  "unchanged old n = (case by_id (pl_nodes old) (nd_id n) of None \<Rightarrow> False | Some was \<Rightarrow> same_work was n)"

definition absent :: "plan \<Rightarrow> node \<Rightarrow> bool" where
  "absent p n \<longleftrightarrow> by_id (pl_nodes p) (nd_id n) = None"

lemma fold_diff_new:
  "fold (diff_new (by_id (pl_nodes old))) ns out =
     out\<lparr>df_start := df_start out @ map nd_id (filter (absent old) ns),
         df_restart := df_restart out @ map nd_id (filter (changed old) ns),
         df_keep := df_keep out @ map nd_id (filter (unchanged old) ns)\<rparr>"
  by (induction ns arbitrary: out)
     (simp_all add: diff_new_def absent_def changed_def unchanged_def split: option.split)

lemma fold_diff_old:
  "fold (diff_old (by_id (pl_nodes new))) ns out = out\<lparr>df_stop := df_stop out @ map nd_id (filter (absent new) ns)\<rparr>"
  by (induction ns arbitrary: out) (simp_all add: diff_old_def absent_def)

lemma diff_sel:
  "df_start (diff old new) = map nd_id (filter (absent old) (pl_nodes new))"
  "df_restart (diff old new) = map nd_id (filter (changed old) (pl_nodes new))"
  "df_keep (diff old new) = map nd_id (filter (unchanged old) (pl_nodes new))"
  "df_stop (diff old new) = rev (map nd_id (filter (absent new) (pl_nodes old)))"
  by (simp_all add: diff_def Let_def fold_diff_new fold_diff_old diff_default_def rev_filter rev_map)

lemma by_id_None: "by_id nodes i = None \<longleftrightarrow> i \<notin> nd_id ` set nodes"
  by (simp add: by_id_def map_of_eq_None_iff image_image)

lemma by_id_Some:
  assumes "distinct (map nd_id nodes)"
  shows "by_id nodes i = Some n \<longleftrightarrow> n \<in> set nodes \<and> nd_id n = i"
proof -
  have d: "distinct (map fst (rev (map (\<lambda>n. (nd_id n, n)) nodes)))"
    using assms by (simp add: rev_map [symmetric] comp_def)
  show ?thesis unfolding by_id_def using map_of_eq_Some_iff [OF d] by auto
qed

lemma absent_iff: "absent p n \<longleftrightarrow> nd_id n \<notin> nd_id ` set (pl_nodes p)"
  by (simp add: absent_def by_id_None)

subsection \<open>A running graph\<close>

text \<open>What runs: the work each node id does and what it reads. The diff is acted on as three passes.\<close>

type_synonym running = "string \<rightharpoonup> node_kind \<times> string list"

definition runs :: "plan \<Rightarrow> running" where
  "runs p i = map_option (\<lambda>n. (nd_kind n, nd_inputs n)) (by_id (pl_nodes p) i)"

definition stop_node :: "string \<Rightarrow> running \<Rightarrow> running" where
  "stop_node i g = g(i := None)"

definition start_node :: "plan \<Rightarrow> string \<Rightarrow> running \<Rightarrow> running" where
  "start_node new i g = g(i := runs new i)"

definition act_on :: "plan_diff \<Rightarrow> plan \<Rightarrow> running \<Rightarrow> running" where
  "act_on d new g = fold (start_node new) (df_start d) (fold (start_node new) (df_restart d) (fold stop_node (df_stop d) g))"

lemma fold_stop: "fold stop_node is g i = (if i \<in> set is then None else g i)"
  by (induction "is" arbitrary: g) (auto simp: stop_node_def)

lemma fold_start: "fold (start_node new) is g i = (if i \<in> set is then runs new i else g i)"
  by (induction "is" arbitrary: g) (auto simp: start_node_def)

lemma act_on_diff:
  assumes "distinct (map nd_id (pl_nodes old))" "distinct (map nd_id (pl_nodes new))"
  shows "act_on (diff old new) new (runs old) = runs new"
proof
  fix i
  show "act_on (diff old new) new (runs old) i = runs new i"
  proof (cases "by_id (pl_nodes new) i")
    case None
    then have "i \<notin> nd_id ` set (pl_nodes new)" by (simp add: by_id_None)
    moreover have "runs old i = None" if "i \<notin> set (df_stop (diff old new))"
      using that calculation by (auto simp: diff_sel absent_iff runs_def by_id_None)
    ultimately show ?thesis
      using None by (auto simp: act_on_def fold_start fold_stop diff_sel runs_def)
  next
    case (Some n)
    then have n: "n \<in> set (pl_nodes new)" "nd_id n = i" using by_id_Some [OF assms(2)] by auto
    then have live: "i \<notin> set (df_stop (diff old new))" by (auto simp: diff_sel absent_iff) (metis image_eqI)
    consider "absent old n" | "changed old n" | "unchanged old n"
      by (cases "by_id (pl_nodes old) (nd_id n)") (auto simp: absent_def changed_def unchanged_def)
    then show ?thesis
    proof cases
      case 3
      have "runs old i = runs new i"
        using 3 Some n(2) by (auto simp: unchanged_def runs_def same_work_def split: option.splits)
      with live show ?thesis by (simp add: act_on_def fold_start fold_stop)
    qed (use n live in \<open>auto simp: act_on_def fold_start fold_stop diff_sel\<close>)
  qed
qed

lemma unchanged_self: "distinct (map nd_id (pl_nodes p)) \<Longrightarrow> n \<in> set (pl_nodes p) \<Longrightarrow> unchanged p n"
  using by_id_Some [of "pl_nodes p" "nd_id n" n] by (simp add: unchanged_def same_work_def)

end
