(* ===== verification/Diff_Properties.thy ===== *)
theory Diff_Properties
  imports Diff Example_Plan "HOL-Library.Multiset"
begin

text \<open>
  What \<open>diff\<close> promises of two plans the planner made.
\<close>

definition ex_old_requests :: request_list where
  "ex_old_requests = [(''cam'', ex_copy\<lparr>rq_id := ''live''\<rparr>)]"

definition ex_old :: plan where
  "ex_old = (case make_plan ex_sources ex_old_requests ex_model of Inr p \<Rightarrow> p | Inl _ \<Rightarrow> plan_default)"

lemma ex_old_planned: "make_plan ex_sources ex_old_requests ex_model = Inr ex_old"
proof -
  have "case make_plan ex_sources ex_old_requests ex_model of Inr p \<Rightarrow> True | Inl _ \<Rightarrow> False" by code_simp
  then show ?thesis by (simp add: ex_old_def split: sum.splits)
qed

lemma ex_old_nodes:
  "map (\<lambda>n. (nd_id n, nd_kind n, nd_inputs n)) (pl_nodes ex_old) =
   [(''source:cam'', Source ''cam'', []), (''copy:cam:video'', Copy ''cam'' Video 0, [''source:cam'']),
    (''copy:cam:audio'', Copy ''cam'' Audio 0, [''source:cam'']),
    (''mux:live'', Mux ''live'' Flv, [''copy:cam:video'', ''copy:cam:audio''])]"
  by code_simp

text \<open>C7: Acting on the diff of two plans takes the running graph of the old one to the running graph of
  the new one: every node of the new plan runs the work it says, reads what it says, and nothing
  else runs.\<close>

theorem diff_takes_old_to_new:
  assumes "make_plan sources requests m = Inr old" "make_plan sources' requests' m' = Inr new"
  shows "act_on (diff old new) new (runs old) = runs new"
  using make_plan_ids(1) [OF assms(1)] make_plan_ids(1) [OF assms(2)] by (rule act_on_diff)

theorem diff_takes_old_to_new_witness:
  "act_on (diff ex_old ex_plan) ex_plan (runs ex_old) = runs ex_plan"
  by (rule diff_takes_old_to_new [OF ex_old_planned ex_planned])

text \<open>The four lists divide the nodes: each node of the new plan is started, restarted or kept, and
  only one of these; the nodes stopped are those of the old plan that the new one lacks; and a plan
  against itself keeps everything and changes nothing.\<close>

theorem diff_divides_nodes:
  assumes "make_plan sources requests m = Inr old" "make_plan sources' requests' m' = Inr new"
  shows "mset (df_start (diff old new) @ df_restart (diff old new) @ df_keep (diff old new)) = mset (map nd_id (pl_nodes new))
    \<and> set (df_stop (diff old new)) = nd_id ` set (pl_nodes old) - nd_id ` set (pl_nodes new)
    \<and> distinct (df_stop (diff old new))
    \<and> diff_is_empty (diff new new) \<and> df_keep (diff new new) = map nd_id (pl_nodes new)"
proof (intro conjI)
  have "mset (filter (absent old) ns) + mset (filter (changed old) ns) + mset (filter (unchanged old) ns) = mset ns" for ns
    by (induction ns) (auto simp: absent_def changed_def unchanged_def split: option.splits)
  then have "mset (map nd_id (filter (absent old) ns)) + mset (map nd_id (filter (changed old) ns))
      + mset (map nd_id (filter (unchanged old) ns)) = mset (map nd_id ns)" for ns
    by (metis image_mset_union mset_map)
  then show "mset (df_start (diff old new) @ df_restart (diff old new) @ df_keep (diff old new)) = mset (map nd_id (pl_nodes new))"
    by (simp add: diff_sel add.assoc)
  show "set (df_stop (diff old new)) = nd_id ` set (pl_nodes old) - nd_id ` set (pl_nodes new)"
    by (auto simp: diff_sel absent_iff)
  show "distinct (df_stop (diff old new))"
    using make_plan_ids(1) [OF assms(1)] by (simp add: diff_sel distinct_map_filter)
  have same: "\<forall>n \<in> set (pl_nodes new). unchanged new n"
    using unchanged_self [OF make_plan_ids(1) [OF assms(2)]] by blast
  then show "df_keep (diff new new) = map nd_id (pl_nodes new)" by (simp add: diff_sel)
  have "\<forall>n \<in> set (pl_nodes new). \<not> changed new n \<and> \<not> absent new n"
    using same by (auto simp: unchanged_def changed_def absent_def split: option.splits)
  then show "diff_is_empty (diff new new)" by (simp add: diff_is_empty_def diff_sel)
qed

theorem diff_divides_nodes_witness:
  "set (df_stop (diff ex_old ex_plan)) = nd_id ` set (pl_nodes ex_old) - nd_id ` set (pl_nodes ex_plan)
    \<and> diff_is_empty (diff ex_plan ex_plan)"
  using diff_divides_nodes [OF ex_old_planned ex_planned] by blast

text \<open>One element of a list comes before another.\<close>

definition before :: "'a list \<Rightarrow> 'a \<Rightarrow> 'a \<Rightarrow> bool" where
  "before xs a b \<longleftrightarrow> (\<exists>us vs ws. xs = us @ a # vs @ b # ws)"

lemma before_nth: "j < k \<Longrightarrow> k < length xs \<Longrightarrow> before xs (xs ! j) (xs ! k)"
proof -
  assume jk: "j < k" "k < length xs"
  then have "xs = take j xs @ xs ! j # drop (Suc j) xs" using id_take_nth_drop [of j xs] by simp
  moreover have "drop (Suc j) xs = take (k - Suc j) (drop (Suc j) xs) @ xs ! k # drop (Suc k) xs"
    using jk id_take_nth_drop [of "k - Suc j" "drop (Suc j) xs"] by (simp add: Suc_diff_Suc)
  ultimately show ?thesis unfolding before_def by metis
qed

lemma before_filter: "before xs a b \<Longrightarrow> P a \<Longrightarrow> P b \<Longrightarrow> before (filter P xs) a b"
proof -
  assume "before xs a b" "P a" "P b"
  then obtain us vs ws where "filter P xs = filter P us @ a # filter P vs @ b # filter P ws"
    unfolding before_def by auto
  then show ?thesis unfolding before_def by blast
qed

lemma before_rev: "before xs a b \<Longrightarrow> before (rev xs) b a"
proof -
  assume "before xs a b"
  then obtain us vs ws where "rev xs = rev ws @ b # rev vs @ a # rev us" unfolding before_def by auto
  then show ?thesis unfolding before_def by blast
qed

lemma before_in_plan:
  assumes "inputs_first nodes" "n \<in> set nodes" "i \<in> set (nd_inputs n)"
  shows "before (map nd_id nodes) i (nd_id n)"
proof -
  obtain k where k: "k < length nodes" "nodes ! k = n" using assms(2) by (auto simp: in_set_conv_nth)
  then have "i \<in> nd_id ` set (take k nodes)" using assms(1,3) by (auto simp: inputs_first_def)
  then obtain j where "j < k" "nd_id (nodes ! j) = i"
    using k(1) by (auto simp: in_set_conv_nth)
  then show ?thesis using before_nth [of j k "map nd_id nodes"] k by simp
qed

text \<open>C8: Stopping goes from readers to what they read: of two stopped nodes where one reads the other,
  the reader stops first. Starting goes the other way.\<close>

theorem diff_orders:
  assumes "make_plan sources requests m = Inr old" "make_plan sources' requests' m' = Inr new"
  shows "(\<forall>n \<in> set (pl_nodes old). \<forall>i \<in> set (nd_inputs n). {nd_id n, i} \<subseteq> set (df_stop (diff old new))
      \<longrightarrow> before (df_stop (diff old new)) (nd_id n) i)
    \<and> (\<forall>n \<in> set (pl_nodes new). \<forall>i \<in> set (nd_inputs n). {nd_id n, i} \<subseteq> set (df_start (diff old new))
      \<longrightarrow> before (df_start (diff old new)) i (nd_id n))"
proof -
  have ids: "map nd_id (filter (absent p) ns) = filter (\<lambda>i. by_id (pl_nodes p) i = None) (map nd_id ns)" for p ns
    by (induction ns) (simp_all add: absent_def)
  have "before (df_stop (diff old new)) (nd_id n) i"
    if "n \<in> set (pl_nodes old)" "i \<in> set (nd_inputs n)" "{nd_id n, i} \<subseteq> set (df_stop (diff old new))" for n i
    using that before_in_plan [OF make_plan_ids(2) [OF assms(1)] that(1,2)] unfolding diff_sel ids
    by (intro before_rev before_filter) auto
  moreover have "before (df_start (diff old new)) i (nd_id n)"
    if "n \<in> set (pl_nodes new)" "i \<in> set (nd_inputs n)" "{nd_id n, i} \<subseteq> set (df_start (diff old new))" for n i
    using that before_in_plan [OF make_plan_ids(2) [OF assms(2)] that(1,2)] unfolding diff_sel ids
    by (intro before_filter) auto
  ultimately show ?thesis by blast
qed

lemma ex_diff:
  "diff ex_plan ex_old =
     \<lparr>df_start = [],
      df_stop = [''encode:cam:h264:1280x720p30:2800k:g2000'', ''scale:cam:1280x720p30'', ''decode:cam:video'', ''mux:copy''],
      df_restart = [''mux:live''], df_keep = [''source:cam'', ''copy:cam:video'', ''copy:cam:audio'']\<rparr>"
  by code_simp

theorem diff_orders_witness:
  "before (df_stop (diff ex_plan ex_old)) ''encode:cam:h264:1280x720p30:2800k:g2000'' ''scale:cam:1280x720p30''"
  using diff_orders [OF ex_planned ex_old_planned, THEN conjunct1, rule_format, OF ex_plan_in [of 6], of "''scale:cam:1280x720p30''"]
  by (simp add: ex_diff ex_encode_node)

text \<open>
  The struct's documentation says to act on \<open>stop\<close>, then \<open>restart\<close>, then \<open>start\<close>, and that consumers stop
  first \<open>so nothing reads a stopped node\<close>. A node that is restarted is a consumer too: here the Mux that
  is to read the copy again still reads the encode when the encode is stopped.
\<close>

theorem restarted_reader_of_stopped_node:
  "''encode:cam:h264:1280x720p30:2800k:g2000'' \<in> set (df_stop (diff ex_plan ex_old))
    \<and> ''mux:live'' \<in> set (df_restart (diff ex_plan ex_old))
    \<and> (\<exists>k ins. runs ex_plan ''mux:live'' = Some (k, ins) \<and> ''encode:cam:h264:1280x720p30:2800k:g2000'' \<in> set ins)"
proof -
  have "nd_id (pl_nodes ex_plan ! 7) = ''mux:live''"
    using arg_cong [where f = "\<lambda>xs. xs ! 7", OF ex_plan_nodes] by (simp add: ex_plan_length)
  then have "by_id (pl_nodes ex_plan) ''mux:live'' = Some (pl_nodes ex_plan ! 7)"
    using by_id_Some [OF make_plan_ids(1) [OF ex_planned]] ex_plan_in [of 7] by simp
  then show ?thesis using ex_live_mux by (simp add: ex_diff runs_def)
qed

end
