(* ===== verification/Presets.thy ===== *)
theory Presets
  imports Rendition
begin

text \<open>
  The built in presets and the requests an output's choice stands for
  (\<open>crates/godwinmix-render/src/presets.rs\<close>, with the choice of
  \<open>crates/godwinmix-protocol/src/rendition/wire.rs\<close>).
\<close>

subsection \<open>The table\<close>

record rendition_preset =
  ps_id :: string
  ps_title :: string
  ps_group :: string
  ps_request :: rendition_request
  ps_ladder :: "rendition_request list option"
  ps_cost :: "cost option"
  ps_available :: bool
  ps_why :: "string option"

text \<open>\<open>PresetRef\<close> and \<open>LadderRef\<close> hold one field each, which the constructors take.\<close>

datatype rendition_choice = PresetChoice string | LadderChoice "rendition_request list" | RequestChoice rendition_request

definition GOP_MS :: u32 where
  "GOP_MS = 2000"

definition aac :: "u32 \<Rightarrow> audio_want option" where
  "aac kbps = Some (audio_want_default\<lparr>aw_codec := Some Aac, aw_channels := Some 2, aw_sample_rate := Some 48000,
     aw_bitrate_kbps := Some kbps\<rparr>)"

definition h264 :: "u32 \<Rightarrow> u32 \<Rightarrow> u32 option \<Rightarrow> u32 \<Rightarrow> video_want option" where
  "h264 width height f kbps = Some (video_want_default\<lparr>vw_codec := Some H264, vw_width := Some width,
     vw_height := Some height, vw_fps := map_option fps_whole f, vw_bitrate_kbps := Some kbps,
     vw_keyframe_ms := Some GOP_MS\<rparr>)"

definition request :: "string \<Rightarrow> container \<Rightarrow> video_want option \<Rightarrow> rendition_request" where
  "request i k video = rendition_request_default\<lparr>rq_id := i, rq_container := k, rq_video := video, rq_audio := aac 128\<rparr>"

definition single :: "string \<Rightarrow> string \<Rightarrow> rendition_request \<Rightarrow> rendition_preset" where
  "single i title r = \<lparr>ps_id = i, ps_title = title, ps_group = ''platform'', ps_request = r, ps_ladder = None,
     ps_cost = None, ps_available = True, ps_why = None\<rparr>"

definition rung_request :: "u32 \<times> u32 \<times> u32 \<Rightarrow> rendition_request" where
  "rung_request r = (case r of (w, h, kbps) \<Rightarrow> request (show_word h @ ''p'') Hls (h264 w h None kbps))"

text \<open>\<open>rungs[0]\<close>: every call of the source has at least one rung.\<close>

definition preset_ladder :: "string \<Rightarrow> string \<Rightarrow> (u32 \<times> u32 \<times> u32) list \<Rightarrow> rendition_preset" where
  "preset_ladder i title rungs =
     (let rs = map rung_request rungs in
      \<lparr>ps_id = i, ps_title = title, ps_group = ''ladder'', ps_request = hd rs, ps_ladder = Some rs,
       ps_cost = None, ps_available = True, ps_why = None\<rparr>)"

definition builtin :: "rendition_preset list" where
  "builtin =
    [single ''youtube-1080p30'' ''YouTube 1080p30'' (request ''youtube-1080p30'' Flv (h264 1920 1080 (Some 30) 6000)),
     single ''youtube-720p30'' ''YouTube 720p30'' (request ''youtube-720p30'' Flv (h264 1280 720 (Some 30) 3000)),
     single ''facebook-720p30'' ''Facebook 720p30'' (request ''facebook-720p30'' Flv (h264 1280 720 (Some 30) 4000)),
     single ''twitch-1080p60'' ''Twitch 1080p60'' (request ''twitch-1080p60'' Flv (h264 1920 1080 (Some 60) 6000)),
     single ''twitch-720p30'' ''Twitch 720p30'' (request ''twitch-720p30'' Flv (h264 1280 720 (Some 30) 3000)),
     (single ''audio-only-aac'' ''Sound only, AAC''
        ((request ''audio-only-aac'' Flv None)\<lparr>rq_no_video := True\<rparr>))\<lparr>ps_group := ''audio''\<rparr>,
     preset_ladder ''abr-ladder-4'' ''Adaptive, 4 steps''
       [(1920, 1080, 5000), (1280, 720, 2800), (854, 480, 1400), (640, 360, 800)],
     preset_ladder ''abr-ladder-3'' ''Adaptive, 3 steps'' [(1280, 720, 2800), (854, 480, 1400), (640, 360, 800)],
     (single ''copy'' ''As it comes (no conversion)'' (rendition_request_default\<lparr>rq_id := ''copy''\<rparr>))\<lparr>ps_group := ''copy''\<rparr>]"

definition preset :: "string \<Rightarrow> rendition_preset option" where
  "preset i = List.find (\<lambda>p. ps_id p = i) builtin"

fun choice_label :: "rendition_choice \<Rightarrow> string" where
  "choice_label (PresetChoice p) = p"
| "choice_label _ = ''custom''"

subsection \<open>A custom ladder\<close>

definition is_ascii_alphanumeric :: "char \<Rightarrow> bool" where
  "is_ascii_alphanumeric c =
    (let n = (of_char c :: int) in 48 \<le> n \<and> n \<le> 57 \<or> 65 \<le> n \<and> n \<le> 90 \<or> 97 \<le> n \<and> n \<le> 122)"

definition own_name :: "rendition_request \<Rightarrow> string option" where
  "own_name r =
    (if rq_id r \<noteq> [] \<and> list_all (\<lambda>c. is_ascii_alphanumeric c \<or> c = CHR ''-'') (rq_id r) then Some (rq_id r) else None)"

definition rung_name :: "int \<Rightarrow> string" where
  "rung_name i = ''rung'' @ show_int (i + 1)"

definition first_name :: "int \<Rightarrow> rendition_request \<Rightarrow> string" where
  "first_name i r =
    (case own_name r of
       Some s \<Rightarrow> s
     | None \<Rightarrow> (case Option.bind (rq_video r) vw_height of Some h \<Rightarrow> show_word h @ ''p'' | None \<Rightarrow> rung_name i))"

definition on_output :: "string \<Rightarrow> string \<Rightarrow> string" where
  "on_output output name = output @ ''-'' @ name"

definition add_rung :: "string \<Rightarrow> int \<Rightarrow> rendition_request \<Rightarrow> rendition_request list \<Rightarrow> rendition_request list" where
  "add_rung output i r out =
    (let name = first_name i r;
         name = (if list_ex (\<lambda>p. rq_id p = on_output output name) out then rung_name i else name)
     in out @ [r\<lparr>rq_id := on_output output name\<rparr>])"

fun add_rungs :: "string \<Rightarrow> int \<Rightarrow> rendition_request list \<Rightarrow> rendition_request list \<Rightarrow> rendition_request list" where
  "add_rungs output i [] out = out"
| "add_rungs output i (r # rs) out = add_rungs output (i + 1) rs (add_rung output i r out)"

definition ladder_rungs :: "string \<Rightarrow> rendition_request list \<Rightarrow> string + rendition_request list" where
  "ladder_rungs output rungs =
    (if rungs = [] then Inl ''A ladder needs at least one rung. Add one, or pick a single format.''
     else Inr (add_rungs output 0 rungs []))"

subsection \<open>What an output asks for\<close>

definition expand :: "string \<Rightarrow> rendition_choice \<Rightarrow> string + rendition_request list option" where
  "expand output choice =
    (case choice of
       RequestChoice r \<Rightarrow> Inr (Some [r\<lparr>rq_id := output\<rparr>])
     | LadderChoice l \<Rightarrow> and_then (ladder_rungs output l) (\<lambda>rungs. Inr (Some rungs))
     | PresetChoice p \<Rightarrow>
        (case preset p of
           None \<Rightarrow> Inl (''There is no rendition preset called `'' @ p @ ''`. Pick one of: '' @
                        join '', '' (map ps_id builtin) @ ''.'')
         | Some found \<Rightarrow>
            if ps_id found = ''copy'' then Inr None
            else case ps_ladder found of
              Some rungs \<Rightarrow> Inr (Some (map (\<lambda>r. r\<lparr>rq_id := on_output output (rq_id r)\<rparr>) rungs))
            | None \<Rightarrow> Inr (Some [(ps_request found)\<lparr>rq_id := output\<rparr>])))"

subsection \<open>Names\<close>

lemma on_output_inj [simp]: "on_output output a = on_output output b \<longleftrightarrow> a = b"
  by (simp add: on_output_def)

lemma rung_name_inj: "0 \<le> i \<Longrightarrow> 0 \<le> j \<Longrightarrow> rung_name i = rung_name j \<Longrightarrow> i = j"
  by (auto simp: rung_name_def dest!: show_int_inj)

lemma add_rung_ids: "map rq_id (add_rung output i r out) = map rq_id out @
    [on_output output (if on_output output (first_name i r) \<in> set (map rq_id out) then rung_name i else first_name i r)]"
proof -
  have "list_ex (\<lambda>p. rq_id p = s) out \<longleftrightarrow> s \<in> set (map rq_id out)" for s
    by (auto simp: list_ex_iff)
  then show ?thesis by (simp add: add_rung_def Let_def)
qed

text \<open>A name that no rung takes by itself cannot be given to two rungs.\<close>

definition plain_name :: "string \<Rightarrow> bool" where
  "plain_name s \<longleftrightarrow> (\<forall>j \<ge> 0. s \<noteq> rung_name j)"

definition ids_below :: "string \<Rightarrow> int \<Rightarrow> string list \<Rightarrow> bool" where
  "ids_below output i ids \<longleftrightarrow> distinct ids \<and>
     (\<forall>s \<in> set ids. \<exists>name. s = on_output output name \<and> (plain_name name \<or> (\<exists>j. 0 \<le> j \<and> j < i \<and> name = rung_name j)))"

lemma first_name_cases: "\<forall>s. own_name r = Some s \<longrightarrow> plain_name s \<Longrightarrow> plain_name (first_name i r) \<or> first_name i r = rung_name i"
proof -
  have "plain_name (show_word h @ ''p'')" for h :: u32
    unfolding plain_name_def
  proof (intro allI impI notI)
    fix j :: int
    assume "show_word h @ ''p'' = rung_name j"
    then have "hd (show_word h @ ''p'') = CHR ''r''" by (simp add: rung_name_def)
    then have "CHR ''r'' \<in> digits" using show_word_digits [of h] by (cases "show_word h") auto
    moreover have "CHR ''r'' \<notin> digits"
    proof
      assume "CHR ''r'' \<in> digits"
      then obtain n :: int where "0 \<le> n" "n < 10" "CHR ''r'' = digit_char n" by (auto simp: digits_def)
      then have "of_char (CHR ''r'') = (of_char (char_of (48 + n) :: char) :: int)" by (simp add: digit_char_def)
      with \<open>0 \<le> n\<close> \<open>n < 10\<close> show False by simp
    qed
    ultimately show False by blast
  qed
  then show "\<forall>s. own_name r = Some s \<longrightarrow> plain_name s \<Longrightarrow> ?thesis"
    by (auto simp: first_name_def split: option.split)
qed

lemma add_rung_below:
  assumes "ids_below output i (map rq_id out)" "\<forall>s. own_name r = Some s \<longrightarrow> plain_name s" "0 \<le> i"
  shows "ids_below output (i + 1) (map rq_id (add_rung output i r out))"
proof -
  have fresh: "on_output output (rung_name i) \<notin> set (map rq_id out)"
  proof
    assume "on_output output (rung_name i) \<in> set (map rq_id out)"
    then obtain name where "rung_name i = name" "plain_name name \<or> (\<exists>j. 0 \<le> j \<and> j < i \<and> name = rung_name j)"
      using assms(1) unfolding ids_below_def by (metis on_output_inj)
    then show False using assms(3) by (metis less_irrefl plain_name_def rung_name_inj)
  qed
  have old: "\<exists>name. s = on_output output name \<and> (plain_name name \<or> (\<exists>j. 0 \<le> j \<and> j < i + 1 \<and> name = rung_name j))"
    if s: "s \<in> set (map rq_id out)" for s
  proof -
    obtain name where n: "s = on_output output name" "plain_name name \<or> (\<exists>j. 0 \<le> j \<and> j < i \<and> name = rung_name j)"
      using assms(1) s unfolding ids_below_def by blast
    from n(2) have "plain_name name \<or> (\<exists>j. 0 \<le> j \<and> j < i + 1 \<and> name = rung_name j)"
    proof
      assume "\<exists>j. 0 \<le> j \<and> j < i \<and> name = rung_name j"
      then obtain j where "0 \<le> j" "j < i" "name = rung_name j" by blast
      then show ?thesis by (intro disjI2 exI [of _ j]) simp
    qed simp
    with n(1) show ?thesis by blast
  qed
  define nm where "nm = (if on_output output (first_name i r) \<in> set (map rq_id out) then rung_name i else first_name i r)"
  have ids: "map rq_id (add_rung output i r out) = map rq_id out @ [on_output output nm]"
    by (simp only: add_rung_ids nm_def)
  have new: "on_output output nm \<notin> set (map rq_id out)" using fresh by (simp add: nm_def del: set_map)
  have kind: "plain_name nm \<or> nm = rung_name i" using first_name_cases [OF assms(2), of i] by (simp add: nm_def)
  show ?thesis
    unfolding ids_below_def ids
  proof (intro conjI ballI)
    show "distinct (map rq_id out @ [on_output output nm])" using assms(1) new by (simp add: ids_below_def)
    fix s
    assume "s \<in> set (map rq_id out @ [on_output output nm])"
    then consider "s \<in> set (map rq_id out)" | "s = on_output output nm" by auto
    then show "\<exists>name. s = on_output output name \<and> (plain_name name \<or> (\<exists>j. 0 \<le> j \<and> j < i + 1 \<and> name = rung_name j))"
    proof cases
      case 2
      then show ?thesis using kind assms(3) by (metis less_add_one)
    qed (rule old)
  qed
qed

lemma add_rungs_below:
  "ids_below output i (map rq_id out) \<Longrightarrow> \<forall>r \<in> set rs. \<forall>s. own_name r = Some s \<longrightarrow> plain_name s \<Longrightarrow> 0 \<le> i
   \<Longrightarrow> \<exists>k. ids_below output k (map rq_id (add_rungs output i rs out))"
proof (induction "output" i rs out rule: add_rungs.induct)
  case (2 name i r rs out)
  then show ?case using add_rung_below [OF "2.prems"(1) _ "2.prems"(3)] by simp
qed auto

lemma add_rungs_length: "length (add_rungs output i rs out) = length out + length rs"
  by (induction "output" i rs out rule: add_rungs.induct) (simp_all add: add_rung_def Let_def)

end
