(* ===== verification/Preset_Properties.thy ===== *)
theory Preset_Properties
  imports Presets
begin

text \<open>
  The ids of the requests an output's choice stands for, which the planner refuses when two are equal.
\<close>

text \<open>The rungs of a custom ladder get ids of their own, one per rung, unless a rung calls itself
  \<open>rung\<close> and a number: that is the name the code falls back on.\<close>

theorem ladder_ids_distinct:
  assumes "ladder_rungs out rungs = Inr rs"
    "\<forall>r \<in> set rungs. \<forall>s j. own_name r = Some s \<longrightarrow> 0 \<le> j \<longrightarrow> s \<noteq> rung_name j"
  shows "distinct (map rq_id rs) \<and> length rs = length rungs"
proof -
  have rs: "rs = add_rungs out 0 rungs []" using assms(1) by (simp add: ladder_rungs_def split: if_splits)
  have "ids_below out 0 (map rq_id [])" by (simp add: ids_below_def)
  then have "\<exists>k. ids_below out k (map rq_id rs)"
    unfolding rs using assms(2) by (intro add_rungs_below) (auto simp: plain_name_def)
  then show ?thesis by (auto simp: ids_below_def rs add_rungs_length)
qed

definition pr_rung :: "string \<Rightarrow> u32 \<Rightarrow> rendition_request" where
  "pr_rung i h = rendition_request_default\<lparr>rq_id := i, rq_container := Hls, rq_video := Some (video_want_default\<lparr>vw_height := Some h\<rparr>)\<rparr>"

theorem ladder_ids_distinct_witness:
  "distinct (map rq_id (add_rungs ''hls'' 0 [pr_rung [] 720, pr_rung ''hd'' 1080, pr_rung ''hd'' 480] []))"
proof -
  have r: "ladder_rungs ''hls'' [pr_rung [] 720, pr_rung ''hd'' 1080, pr_rung ''hd'' 480]
      = Inr (add_rungs ''hls'' 0 [pr_rung [] 720, pr_rung ''hd'' 1080, pr_rung ''hd'' 480] [])"
    by (simp add: ladder_rungs_def)
  have "own_name (pr_rung [] 720) = None" "own_name (pr_rung ''hd'' h) = Some ''hd''" for h
    by (simp_all add: own_name_def pr_rung_def rendition_request_default_def is_ascii_alphanumeric_def)
  then show ?thesis using ladder_ids_distinct [OF r] by (auto simp: rung_name_def)
qed

text \<open>Every preset stands for requests the planner can tell apart: the copy preset for none, a single
  one for one request with the output's id, a ladder for its rungs with distinct ids that start with
  the output's.\<close>

theorem preset_expands:
  assumes "expand out (PresetChoice p) = Inr choice"
  shows "case choice of
      None \<Rightarrow> p = ''copy''
    | Some rs \<Rightarrow> rs \<noteq> [] \<and> distinct (map rq_id rs) \<and> (map rq_id rs = [out] \<or> (\<forall>r \<in> set rs. starts_with (out @ ''-'') (rq_id r)))"
proof -
  from assms obtain f where f: "preset p = Some f"
    by (auto simp: expand_def split: option.splits)
  then have mem: "f \<in> set builtin" and id: "ps_id f = p" by (auto simp: preset_def dest: find_Some_iff_first)
  have "list_all (\<lambda>q. case ps_ladder q of None \<Rightarrow> True | Some rs \<Rightarrow> rs \<noteq> [] \<and> distinct (map rq_id rs)) builtin"
    by code_simp
  then have lad: "rs \<noteq> [] \<and> distinct (map rq_id rs)" if "ps_ladder f = Some rs" for rs
    using mem that by (auto simp: list_all_iff)
  have dist: "distinct (map (\<lambda>r. on_output out (rq_id r)) rs)" if "distinct (map rq_id rs)" for rs
    using that by (auto simp: distinct_map inj_on_def)
  show ?thesis
    using assms f id lad dist
    by (auto simp: expand_def starts_with_def on_output_def comp_def split: if_splits option.splits)
qed

theorem preset_expands_witness:
  "\<exists>rs. expand ''hls'' (PresetChoice ''abr-ladder-3'') = Inr (Some rs) \<and> distinct (map rq_id rs)"
proof -
  have "case expand ''hls'' (PresetChoice ''abr-ladder-3'') of Inr (Some rs) \<Rightarrow> True | _ \<Rightarrow> False" by code_simp
  then obtain rs where "expand ''hls'' (PresetChoice ''abr-ladder-3'') = Inr (Some rs)"
    by (auto split: sum.splits option.splits)
  with preset_expands [OF this] show ?thesis by auto
qed

text \<open>
  The fall back is not checked against the ids there are. Two rungs that both call themselves
  \<open>rung2\<close> keep one id, and so do a first rung called \<open>rung2\<close> and a second without a name or a height;
  the planner then refuses the output with \<open>duplicate_request\<close>.
\<close>

theorem rung_names_collide:
  "map rq_id (add_rungs ''hls'' 0 [pr_rung ''rung2'' 720, pr_rung ''rung2'' 480] []) = [''hls-rung2'', ''hls-rung2'']"
  by code_simp

text \<open>
  A rung that shares its id is named after its place, not after its height as the comment says.
\<close>

theorem shared_id_not_named_after_height:
  "map rq_id (add_rungs ''hls'' 0 [pr_rung ''hd'' 720, pr_rung ''hd'' 480] []) = [''hls-hd'', ''hls-rung2'']"
  by code_simp

end
