(* ===== verification/Calibration.thy ===== *)
theory Calibration
  imports Rendition "HOL-Library.Product_Lexorder" "HOL-Library.List_Lexorder" "HOL-Library.Char_ord"
begin

text \<open>
  A machine, measured (\<open>crates/godwinmix-govern/src/calibration.rs\<close>), the straight line through the
  measured points (\<open>fit.rs\<close>) and the settings of the governor (\<open>config.rs\<close>). The figures a
  calibration file gives as \<open>f64\<close> are taken to be finite and of ordinary size, as everywhere in
  \<open>Float64\<close>. The fields of \<open>Calibration\<close> that no computation reads (when and on what it was taken,
  the notes) are left out, as are the element names.
\<close>

subsection \<open>Points and encoders (\<open>calibration.rs\<close>)\<close>

definition mpix :: "u32 \<Rightarrow> u32 \<Rightarrow> fps \<Rightarrow> f64" where
  "mpix width height f = f_div (f_mul (f_mul (f_of width) (f_of height)) (as_f64 f)) 1000000"

record cal_point =
  pt_width :: u32
  pt_height :: u32
  pt_fps :: fps
  pt_cpu_millicores :: u32
  pt_wall_ms :: u32

definition point_mpix :: "cal_point \<Rightarrow> f64" where
  "point_mpix p = mpix (pt_width p) (pt_height p) (pt_fps p)"

record cal_sessions =
  cs_opened :: u32
  cs_refused :: bool

definition sessions_limit :: "cal_sessions \<Rightarrow> u32 option" where
  "sessions_limit s = (if cs_refused s then Some (cs_opened s) else None)"

record encoder_cal =
  ec_slot :: encoder_slot
  ec_preset :: "string option"
  ec_points :: "cal_point list"
  ec_presets :: "(string \<times> cal_point) list"
  ec_sessions :: "cal_sessions option"

record calibration =
  cb_encoders :: "encoder_cal list"
  cb_scale_per_mpix :: "f64 option"
  cb_decoders :: "(video_codec \<times> f64) list"
  cb_audio :: "(audio_codec \<times> u32) list"
  cb_software_margin :: f64

definition calibration_default :: calibration where
  "calibration_default =
    \<lparr>cb_encoders = [], cb_scale_per_mpix = None, cb_decoders = [], cb_audio = [], cb_software_margin = 0\<rparr>"

subsection \<open>A line through points (\<open>fit.rs\<close>)\<close>

record cost_line =
  ln_fixed :: f64
  ln_slope :: f64

definition line_at :: "cost_line \<Rightarrow> f64 \<Rightarrow> f64" where
  "line_at l x = max (f_add (ln_fixed l) (f_mul (ln_slope l) x)) 0"

text \<open>\<open>iter().sum()\<close> and the fold of both coordinates add from the left, rounding each time.\<close>

definition f_sum :: "f64 list \<Rightarrow> f64" where
  "f_sum xs = foldl f_add 0 xs"

definition EPSILON :: f64 where
  "EPSILON = 1 / 2 ^ 52"

definition line_through :: "(f64 \<times> f64) list \<Rightarrow> cost_line option" where
  "line_through points =
    (let pts = filter (\<lambda>(x, y). 0 < x) points in
     case pts of
       [] \<Rightarrow> None
     | [(x, y)] \<Rightarrow> Some \<lparr>ln_fixed = 0, ln_slope = f_div y x\<rparr>
     | _ \<Rightarrow>
         (let n = of_nat (length pts);
              sx = f_sum (map fst pts);
              sy = f_sum (map snd pts);
              mx = f_div sx n;
              my = f_div sy n;
              var = f_sum (map (\<lambda>(x, y). f_mul (f_sub x mx) (f_sub x mx)) pts)
          in if var \<le> EPSILON then Some \<lparr>ln_fixed = 0, ln_slope = f_div my mx\<rparr>
             else
               (let slope = f_div (f_sum (map (\<lambda>(x, y). f_mul (f_sub x mx) (f_sub y my)) pts)) var;
                    fixed = f_sub my (f_mul slope mx)
                in if fixed < 0 \<or> slope < 0 then Some \<lparr>ln_fixed = 0, ln_slope = f_div sy sx\<rparr>
                   else Some \<lparr>ln_fixed = fixed, ln_slope = slope\<rparr>)))"

subsection \<open>Settings (\<open>config.rs\<close>)\<close>

record governor_config =
  gc_reserve_cores :: "f32 option"
  gc_uplink_kbps :: "u32 option"
  gc_nvenc_session_probe :: "u32 option"
  gc_nvenc_sessions :: "u32 option"
  gc_desktop :: bool

definition governor_config_default :: governor_config where
  "governor_config_default =
    \<lparr>gc_reserve_cores = None, gc_uplink_kbps = None, gc_nvenc_session_probe = None,
     gc_nvenc_sessions = None, gc_desktop = False\<rparr>"

definition MAX_SESSION_PROBE :: u32 where "MAX_SESSION_PROBE = 256"

definition SESSION_PROBE :: u32 where "SESSION_PROBE = 8"

definition session_probe :: "governor_config \<Rightarrow> u32" where
  "session_probe g =
     min (max (case gc_nvenc_session_probe g of Some n \<Rightarrow> n | None \<Rightarrow> SESSION_PROBE) 1) MAX_SESSION_PROBE"

text \<open>\<open>split_once(':')\<close>: what comes before the first colon.\<close>

definition family :: "string \<Rightarrow> string" where
  "family device = takeWhile (\<lambda>c. c \<noteq> CHR '':'') device"

definition sessions_on :: "governor_config \<Rightarrow> string \<Rightarrow> u32 option" where
  "sessions_on g device = (if family device = ''nvidia'' then gc_nvenc_sessions g else None)"

definition reserve_override :: "governor_config \<Rightarrow> u32 option" where
  "reserve_override g =
    (case gc_reserve_cores g of
       Some (Finite c) \<Rightarrow> if 0 \<le> c then Some (as_u32 (f_round (rnd32_pos (c * 1000)))) else None
     | _ \<Rightarrow> None)"

lemma family_idem [simp]: "family (family d) = family d"
  by (simp add: family_def)

lemma line_at_nonneg: "0 \<le> line_at l x"
  by (simp add: line_at_def)

text \<open>Neither part of a line through costs that are not negative is negative.\<close>

lemma f_sum_nonneg: "\<forall>x \<in> set xs. 0 \<le> x \<Longrightarrow> 0 \<le> f_sum xs"
proof -
  have "0 \<le> a \<Longrightarrow> \<forall>x \<in> set xs. 0 \<le> x \<Longrightarrow> 0 \<le> foldl f_add a xs" for a
    by (induction xs arbitrary: a) (auto simp: f_add_def rnd_nonneg)
  then show "\<forall>x \<in> set xs. 0 \<le> x \<Longrightarrow> 0 \<le> f_sum xs" by (simp add: f_sum_def)
qed

lemma line_through_nonneg:
  assumes "line_through points = Some l" "\<forall>p \<in> set points. 0 \<le> snd p"
  shows "0 \<le> ln_fixed l \<and> 0 \<le> ln_slope l"
proof -
  define pts where "pts = filter (\<lambda>(x, y). 0 < x) points"
  have pos: "\<forall>p \<in> set pts. 0 \<le> fst p \<and> 0 \<le> snd p" using assms(2) by (auto simp: pts_def)
  have sx: "0 \<le> f_sum (map fst pts)" and sy: "0 \<le> f_sum (map snd pts)"
    using pos by (auto intro!: f_sum_nonneg)
  have d: "0 \<le> a \<Longrightarrow> 0 \<le> b \<Longrightarrow> 0 \<le> f_div a b" for a b by (simp add: f_div_def rnd_nonneg)
  have r: "line_through points = (case pts of [] \<Rightarrow> None | [(x, y)] \<Rightarrow> Some \<lparr>ln_fixed = 0, ln_slope = f_div y x\<rparr>
      | _ \<Rightarrow> the (Some (line_through points)))"
    by (auto simp: line_through_def pts_def [symmetric] Let_def split: list.split)
  consider "pts = []" | x y where "pts = [(x, y)]" | p q r where "pts = p # q # r"
    by (metis list.exhaust surj_pair)
  then show ?thesis
  proof cases
    case 1
    with r assms(1) show ?thesis by simp
  next
    case 2
    with r assms(1) pos show ?thesis by (auto simp: d)
  next
    case 3
    with assms(1) show ?thesis
      unfolding line_through_def pts_def [symmetric] Let_def
      using sx sy by (auto simp: d split: if_splits)
  qed
qed

end
