(* ===== verification/Profile.thy ===== *)
theory Profile
  imports Calibration
begin

text \<open>
  A machine's costs, read from its calibration (\<open>crates/godwinmix-govern/src/profile/\<close>): encodes,
  scaling, decoding and sound, the session limits of its devices and the speed presets of its
  software encoders.
\<close>

subsection \<open>Guesses before a machine is measured (\<open>estimate.rs\<close>)\<close>

definition GUESS_SCALE :: f64 where "GUESS_SCALE = 2"

definition GUESS_AUDIO :: u32 where "GUESS_AUDIO = 15"

definition guess_encode :: "video_codec \<Rightarrow> f64 \<Rightarrow> u32" where
  "guess_encode c x =
    (let per = (case c of H264 \<Rightarrow> 22 | H265 \<Rightarrow> 60 | Av1 \<Rightarrow> 45 | Vp8 \<Rightarrow> 35 | Vp9 \<Rightarrow> 35 | _ \<Rightarrow> 30)
     in as_u32 (f_round (f_mul per x)))"

definition guess_decode :: "video_codec \<Rightarrow> f64" where
  "guess_decode c = (case c of H264 \<Rightarrow> 7 / 2 | Mpeg2 \<Rightarrow> 7 / 2 | Vp8 \<Rightarrow> 7 / 2 | Prores \<Rightarrow> 2 | _ \<Rightarrow> 6)"

definition memory_for :: "video_shape \<Rightarrow> u32" where
  "memory_for s =
    (let frame = (ucast (vs_width s) :: u64) * ucast (vs_height s) * 3 div 2
     in ucast ((frame * 8) div 1048576) + 8)"

subsection \<open>The profile (\<open>mod.rs\<close>)\<close>

record enc =
  en_cal :: encoder_cal
  en_cpu :: cost_line
  en_presets :: "(string \<times> f64) list"

record profile =
  pr_cal :: calibration
  pr_encs :: "enc list"

definition slot_of :: "enc \<Rightarrow> encoder_slot" where
  "slot_of e = ec_slot (en_cal e)"

definition enc_of :: "encoder_cal \<Rightarrow> f64 \<Rightarrow> enc option" where
  "enc_of c margin =
    (let m = (if es_hardware (ec_slot c) then 1 else margin) in
     case line_through (map (\<lambda>p. (point_mpix p, f_mul (f_of (pt_cpu_millicores p)) m)) (ec_points c)) of
       None \<Rightarrow> None
     | Some cpu \<Rightarrow>
        (case line_through (map (\<lambda>p. (point_mpix p, f_of (pt_wall_ms p))) (ec_points c)) of
           None \<Rightarrow> None
         | Some wall \<Rightarrow>
             Some \<lparr>en_cal = c, en_cpu = cpu,
               en_presets = map (\<lambda>(name, p).
                 (name, f_div (f_mul (f_of (pt_cpu_millicores p)) m) (max (line_at cpu (point_mpix p)) 1)))
                 (ec_presets c)\<rparr>))"

definition from_calibration :: "calibration \<Rightarrow> profile" where
  "from_calibration c =
    (let margin = (if 0 < cb_software_margin c then cb_software_margin c else 1)
     in \<lparr>pr_cal = c, pr_encs = List.map_filter (\<lambda>e. enc_of e margin) (cb_encoders c)\<rparr>)"

definition uncalibrated :: profile where
  "uncalibrated = \<lparr>pr_cal = calibration_default, pr_encs = []\<rparr>"

definition is_calibrated :: "profile \<Rightarrow> bool" where
  "is_calibrated p \<longleftrightarrow> pr_encs p \<noteq> []"

text \<open>\<open>sort_by\<close> is stable: hardware ahead of software, then the cheapest on the CPU.\<close>

definition ref_mpix :: f64 where
  "ref_mpix = mpix 1920 1080 (fps_whole 30)"

definition profile_encoders :: "profile \<Rightarrow> video_codec \<Rightarrow> encoder_slot list" where
  "profile_encoders p codec =
     map slot_of (sort_key (\<lambda>e. (\<not> es_hardware (slot_of e), line_at (en_cpu e) ref_mpix))
       (filter (\<lambda>e. es_codec (slot_of e) = codec) (pr_encs p)))"

definition all_encoders :: "profile \<Rightarrow> encoder_slot list" where
  "all_encoders p = map slot_of (pr_encs p)"

definition find_enc :: "profile \<Rightarrow> encoder_slot \<Rightarrow> enc option" where
  "find_enc p s = List.find (\<lambda>e. es_id (slot_of e) = es_id s) (pr_encs p)"

definition hardware_share :: "video_codec \<Rightarrow> f64 \<Rightarrow> u32" where
  "hardware_share c x =
    (let per_mpix = (case c of H265 \<Rightarrow> rnd (82 / 100) | _ \<Rightarrow> rnd (55 / 100))
     in min (max (as_u32 (f_round (f_mul per_mpix x))) 1) 1000)"

definition encode_cost_at :: "profile \<Rightarrow> encoder_slot \<Rightarrow> video_shape \<Rightarrow> string option \<Rightarrow> cost" where
  "encode_cost_at p s shape preset =
    (let x = mpix (vs_width shape) (vs_height shape) (vs_fps shape);
         mem = memory_for shape;
         on_device = (\<lambda>cpu. \<lparr>cpu_millicores = cpu, device_millis = hardware_share (vs_codec shape) x,
                       device_sessions = 1, memory_mib = mem, egress_kbps = 0\<rparr>)
     in case find_enc p s of
          None \<Rightarrow>
            (let guess = guess_encode (vs_codec shape) x in
             if es_hardware s then on_device (max (guess div 10) 1)
             else cost_default\<lparr>cpu_millicores := guess, memory_mib := mem\<rparr>)
        | Some e \<Rightarrow>
            (let ratio = (case Option.bind preset (\<lambda>n. map_of (en_presets e) n) of Some r \<Rightarrow> r | None \<Rightarrow> 1);
                 cpu = as_u32 (f_round (f_mul (line_at (en_cpu e) x) ratio))
             in if es_hardware s then on_device cpu
                else cost_default\<lparr>cpu_millicores := max cpu 1, memory_mib := mem\<rparr>))"

definition profile_encode_cost :: "profile \<Rightarrow> encoder_slot \<Rightarrow> video_shape \<Rightarrow> cost" where
  "profile_encode_cost p s shape = encode_cost_at p s shape None"

text \<open>The least of the limits the encoders of a device showed, its family's if it showed none.\<close>

definition min_of :: "u32 list \<Rightarrow> u32 option" where
  "min_of xs = (case xs of [] \<Rightarrow> None | x # ys \<Rightarrow> Some (fold min ys x))"

definition limits_of :: "profile \<Rightarrow> string \<Rightarrow> u32 option" where
  "limits_of p d =
     min_of (List.map_filter (\<lambda>e. Option.bind (ec_sessions (en_cal e)) sessions_limit)
       (filter (\<lambda>e. es_device (slot_of e) = Some d) (pr_encs p)))"

definition session_limit :: "profile \<Rightarrow> string \<Rightarrow> u32 option" where
  "session_limit p device =
     (case limits_of p device of
        Some l \<Rightarrow> Some l
      | None \<Rightarrow> if family device \<noteq> device then limits_of p (family device) else None)"

definition profile_devices :: "profile \<Rightarrow> string list" where
  "profile_devices p = dedup (sort (List.map_filter (\<lambda>e. es_device (slot_of e)) (pr_encs p)))"

subsection \<open>What is not an encode (\<open>others.rs\<close>)\<close>

definition profile_scale_cost :: "profile \<Rightarrow> video_shape \<Rightarrow> video_shape \<Rightarrow> cost" where
  "profile_scale_cost p from to =
    (let x = f_add (mpix (vs_width from) (vs_height from) (vs_fps from)) (mpix (vs_width to) (vs_height to) (vs_fps to));
         per = (case cb_scale_per_mpix (pr_cal p) of Some s \<Rightarrow> s | None \<Rightarrow> GUESS_SCALE)
     in cost_default\<lparr>cpu_millicores := as_u32 (f_round (f_mul per x)), memory_mib := memory_for to\<rparr>)"

definition profile_decode_cost :: "profile \<Rightarrow> video_shape \<Rightarrow> cost" where
  "profile_decode_cost p s =
    (let x = mpix (vs_width s) (vs_height s) (vs_fps s);
         per = (case map_of (cb_decoders (pr_cal p)) (vs_codec s) of Some d \<Rightarrow> d | None \<Rightarrow> guess_decode (vs_codec s))
     in cost_default\<lparr>cpu_millicores := as_u32 (f_round (f_mul per x)), memory_mib := memory_for s\<rparr>)"

definition profile_audio_cost :: "profile \<Rightarrow> audio_shape \<Rightarrow> cost" where
  "profile_audio_cost p s =
    (let stereo = (case map_of (cb_audio (pr_cal p)) (as_codec s) of Some a \<Rightarrow> a | None \<Rightarrow> GUESS_AUDIO);
         scaled = f_div (f_mul (f_div (f_mul (f_of stereo) (f_of (max (as_channels s) 1))) 2)
                    (f_of (max (as_sample_rate s) 8000))) 48000
     in cost_default\<lparr>cpu_millicores := max (as_u32 (f_round scaled)) 1, memory_mib := 2\<rparr>)"

subsection \<open>Speed presets (\<open>presets.rs\<close>)\<close>

definition profile_presets :: "profile \<Rightarrow> encoder_slot \<Rightarrow> string list" where
  "profile_presets p s = (case find_enc p s of Some e \<Rightarrow> map fst (en_presets e) | None \<Rightarrow> [])"

definition configured_preset :: "profile \<Rightarrow> encoder_slot \<Rightarrow> string option" where
  "configured_preset p s = Option.bind (find_enc p s) (\<lambda>e. ec_preset (en_cal e))"

definition preset_that_fits :: "profile \<Rightarrow> encoder_slot \<Rightarrow> video_shape \<Rightarrow> u32 \<Rightarrow> string option" where
  "preset_that_fits p s shape room =
     List.find (\<lambda>n. cpu_millicores (encode_cost_at p s shape (Some n)) \<le> room) (rev (profile_presets p s))"

fun position :: "('a \<Rightarrow> bool) \<Rightarrow> 'a list \<Rightarrow> nat option" where
  "position P [] = None"
| "position P (x # xs) = (if P x then Some 0 else map_option Suc (position P xs))"

definition faster_preset :: "profile \<Rightarrow> encoder_slot \<Rightarrow> string option \<Rightarrow> string option" where
  "faster_preset p s current =
    (let names = profile_presets p s in
     case (case current of Some c \<Rightarrow> Some c | None \<Rightarrow> configured_preset p s) of
       None \<Rightarrow> None
     | Some cur \<Rightarrow>
        (case position (\<lambda>n. n = cur) names of
           None \<Rightarrow> None
         | Some k \<Rightarrow> if k = 0 then None else Some (names ! (k - 1))))"

subsection \<open>What the figures keep to\<close>

lemma encode_cost_software:
  "\<not> es_hardware s \<Longrightarrow> device_millis (encode_cost_at p s shape n) = 0 \<and> device_sessions (encode_cost_at p s shape n) = 0"
  by (simp add: encode_cost_at_def Let_def cost_default_def split: option.splits)

lemma hardware_share_bounds: "1 \<le> hardware_share c x \<and> hardware_share c x \<le> 1000"
  by (simp add: hardware_share_def Let_def)

lemma encode_cost_hardware:
  "es_hardware s \<Longrightarrow> device_sessions (encode_cost_at p s shape n) = 1
    \<and> device_millis (encode_cost_at p s shape n) = hardware_share (vs_codec shape) (mpix (vs_width shape) (vs_height shape) (vs_fps shape))"
  by (simp add: encode_cost_at_def Let_def split: option.splits)

lemma encode_cost_egress [simp]: "egress_kbps (encode_cost_at p s shape n) = 0"
  by (simp add: encode_cost_at_def Let_def cost_default_def split: option.splits)

lemma encode_cost_memory [simp]: "memory_mib (encode_cost_at p s shape n) = memory_for shape"
  by (simp add: encode_cost_at_def Let_def split: option.splits)

lemma position_Some: "position P xs = Some i \<Longrightarrow> i < length xs \<and> P (xs ! i) \<and> (\<forall>j<i. \<not> P (xs ! j))"
proof (induction xs arbitrary: i)
  case (Cons x xs)
  show ?case
  proof (cases "P x")
    case False
    with Cons.prems obtain k where k: "position P xs = Some k" "i = Suc k" by auto
    from Cons.IH [OF k(1)] False k(2) show ?thesis by (auto simp: nth_Cons split: nat.splits)
  qed (use Cons.prems in auto)
qed simp

lemma position_None: "position P xs = None \<longleftrightarrow> (\<forall>x \<in> set xs. \<not> P x)"
  by (induction xs) auto

text \<open>The rounded products and quotients of values that are not negative keep the order.\<close>

lemma f_mul_mono: "0 \<le> a \<Longrightarrow> a \<le> b \<Longrightarrow> 0 \<le> c \<Longrightarrow> c \<le> d \<Longrightarrow> f_mul a c \<le> f_mul b d"
  by (simp add: f_mul_def rnd_mono mult_mono)

lemma f_mul_nonneg: "0 \<le> a \<Longrightarrow> 0 \<le> b \<Longrightarrow> 0 \<le> f_mul a b"
  by (simp add: f_mul_def rnd_nonneg)

lemma as_u32_mono: "i \<le> j \<Longrightarrow> as_u32 i \<le> as_u32 j"
proof -
  have u: "uint (as_u32 k) = min (max k 0) (2 ^ 32 - 1)" for k
  proof (cases "0 < k \<and> k < 2 ^ 32 - 1")
    case True
    then have "uint (of_int k :: u32) = k" by (simp add: uint_word_of_int_eq take_bit_int_eq_self)
    with True show ?thesis by (simp add: as_u32_def)
  qed (auto simp: as_u32_def unsigned_minus_1_eq_mask mask_eq_exp_minus_1)
  assume "i \<le> j"
  then show ?thesis unfolding word_le_def u by linarith
qed

text \<open>A picture that is no wider, no taller and no faster.\<close>

definition no_bigger :: "video_shape \<Rightarrow> video_shape \<Rightarrow> bool" where
  "no_bigger s t \<longleftrightarrow> vs_codec s = vs_codec t \<and> vs_width s \<le> vs_width t \<and> vs_height s \<le> vs_height t \<and>
     as_f64 (vs_fps s) \<le> as_f64 (vs_fps t)"

definition shape_mpix :: "video_shape \<Rightarrow> f64" where
  "shape_mpix s = mpix (vs_width s) (vs_height s) (vs_fps s)"

lemma mpix_nonneg: "0 \<le> mpix w h f"
  by (simp add: mpix_def f_div_def rnd_nonneg f_mul_nonneg f_of_bounds as_f64_nonneg)

lemma shape_mpix_mono: "no_bigger s t \<Longrightarrow> shape_mpix s \<le> shape_mpix t"
  unfolding shape_mpix_def mpix_def f_div_def no_bigger_def
  by (intro rnd_mono divide_right_mono f_mul_mono f_mul_nonneg) (simp_all add: f_of_bounds as_f64_nonneg)

lemma line_at_mono: "0 \<le> ln_slope l \<Longrightarrow> 0 \<le> x \<Longrightarrow> x \<le> y \<Longrightarrow> line_at l x \<le> line_at l y"
  unfolding line_at_def f_add_def
  by (intro max.mono order_refl rnd_mono add_left_mono f_mul_mono) auto

lemma hardware_share_mono: "0 \<le> x \<Longrightarrow> x \<le> y \<Longrightarrow> hardware_share c x \<le> hardware_share c y"
  unfolding hardware_share_def Let_def
  by (intro min.mono max.mono order_refl as_u32_mono f_round_mono f_mul_mono f_mul_nonneg)
    (auto simp: rnd_nonneg split: video_codec.splits)

lemma guess_encode_mono: "0 \<le> x \<Longrightarrow> x \<le> y \<Longrightarrow> guess_encode c x \<le> guess_encode c y"
  unfolding guess_encode_def Let_def
  by (intro as_u32_mono f_round_mono f_mul_mono f_mul_nonneg) (auto split: video_codec.splits)

text \<open>Every encoder of a profile read from a calibration prices by a line that does not fall.\<close>

definition rising :: "profile \<Rightarrow> bool" where
  "rising p \<longleftrightarrow> (\<forall>e \<in> set (pr_encs p). 0 \<le> ln_slope (en_cpu e) \<and> (\<forall>r \<in> set (en_presets e). 0 \<le> snd r))"

lemma enc_of_rising:
  assumes "enc_of c margin = Some e" "0 \<le> margin"
  shows "0 \<le> ln_slope (en_cpu e) \<and> (\<forall>r \<in> set (en_presets e). 0 \<le> snd r)"
proof -
  define m where "m = (if es_hardware (ec_slot c) then 1 else margin)"
  have m: "0 \<le> m" using assms(2) by (simp add: m_def)
  from assms(1) obtain cpu where cpu: "line_through (map (\<lambda>p. (point_mpix p, f_mul (f_of (pt_cpu_millicores p)) m)) (ec_points c)) = Some cpu"
    and e: "en_cpu e = cpu" "en_presets e = map (\<lambda>(name, p).
      (name, f_div (f_mul (f_of (pt_cpu_millicores p)) m) (max (line_at cpu (point_mpix p)) 1))) (ec_presets c)"
    by (auto simp: enc_of_def Let_def m_def split: option.splits)
  have "0 \<le> ln_slope cpu" using line_through_nonneg [OF cpu] m by (auto simp: f_mul_nonneg f_of_bounds)
  moreover have "0 \<le> f_div (f_mul (f_of (pt_cpu_millicores p)) m) (max (line_at cpu (point_mpix p)) 1)" for p
    using m by (simp add: f_div_def rnd_nonneg f_mul_nonneg f_of_bounds)
  ultimately show ?thesis unfolding e by auto
qed

lemma from_calibration_rising: "rising (from_calibration c)"
  unfolding rising_def from_calibration_def Let_def
  by (auto simp: List.map_filter_def intro: enc_of_rising [THEN conjunct1] enc_of_rising [THEN conjunct2, THEN bspec, THEN order_trans])

lemma find_enc_in: "find_enc p s = Some e \<Longrightarrow> e \<in> set (pr_encs p)"
  by (simp add: find_enc_def find_Some_iff_first)

end
