(* ===== verification/Shed.thy ===== *)
theory Shed
  imports Profile "HOL-Library.Sublist" "HOL-Library.Multiset"
begin

text \<open>
  What goes first when the machine runs short (\<open>crates/godwinmix-govern/src/shed.rs\<close>): thumbnails and
  previews, then the rungs of a ladder from the bottom, then faster presets of software encodes.
\<close>

datatype kind = Thumbnail | Preview | Rung u8 | Programme | OtherWork

text \<open>Lower sheds sooner.\<close>

fun rank :: "kind \<Rightarrow> u8 \<times> u8" where
  "rank Thumbnail = (0, 0)"
| "rank Preview = (1, 0)"
| "rank (Rung index) = (2, - 1 - index)"
| "rank OtherWork = (3, 0)"
| "rank Programme = (4, 0)"

lemma rank_inj: "rank a = rank b \<Longrightarrow> a = b"
  by (cases a; cases b) auto

instantiation kind :: linorder
begin

definition less_eq_kind :: "kind \<Rightarrow> kind \<Rightarrow> bool" where
  "less_eq_kind a b \<longleftrightarrow> rank a \<le> rank b"

definition less_kind :: "kind \<Rightarrow> kind \<Rightarrow> bool" where
  "less_kind a b \<longleftrightarrow> rank a < rank b"

instance
  by standard (auto simp: less_eq_kind_def less_kind_def dest: rank_inj)

end

record work_encode =
  we_slot :: encoder_slot
  we_shape :: video_shape
  we_preset :: "string option"

record held =
  hl_id :: u64
  hl_what :: string
  hl_cost :: cost
  hl_kind :: kind
  hl_device :: "string option"
  hl_encode :: "work_encode option"

datatype shed_action = DropWork | LowerPreset string cost

record shed_step =
  ss_ticket :: u64
  ss_what :: string
  ss_action :: shed_action
  ss_frees :: cost
  ss_why :: string

fun kind_label :: "kind \<Rightarrow> string" where
  "kind_label Thumbnail = ''a thumbnail''"
| "kind_label Preview = ''a preview''"
| "kind_label (Rung _) = ''a lower rung of its ladder''"
| "kind_label Programme = ''the programme''"
| "kind_label OtherWork = ''other work''"

fun may_drop :: "kind \<Rightarrow> bool" where
  "may_drop Thumbnail = True"
| "may_drop Preview = True"
| "may_drop (Rung index) = (0 < index)"
| "may_drop _ = False"

text \<open>The key of both sorts: the rank, then the dearest first.\<close>

definition shed_key :: "held \<Rightarrow> kind \<times> int" where
  "shed_key h = (hl_kind h, - uint (cpu_millicores (hl_cost h)))"

definition drop_order :: "held list \<Rightarrow> held list" where
  "drop_order hs = sort_key shed_key (filter (\<lambda>h. may_drop (hl_kind h)) hs)"

definition soft_encode :: "held \<Rightarrow> bool" where
  "soft_encode h = (case hl_encode h of Some e \<Rightarrow> \<not> es_hardware (we_slot e) | None \<Rightarrow> False)"

definition preset_order :: "held list \<Rightarrow> held list" where
  "preset_order hs = sort_key shed_key (filter soft_encode hs)"

definition drop_step :: "string \<Rightarrow> held \<Rightarrow> shed_step" where
  "drop_step over h =
    \<lparr>ss_ticket = hl_id h, ss_what = hl_what h, ss_action = DropWork, ss_frees = hl_cost h,
     ss_why = ''Stopped '' @ hl_what h @ '' ('' @ kind_label (hl_kind h) @
       '') to keep what is on air: the machine was '' @ over @ '' cores over what it can hold.''\<rparr>"

text \<open>The first loop: drop until enough is freed. The sum is a \<open>u32\<close>.\<close>

fun drop_steps :: "string \<Rightarrow> u32 \<Rightarrow> held list \<Rightarrow> u32 \<Rightarrow> shed_step list \<times> u32" where
  "drop_steps over excess [] freed = ([], freed)"
| "drop_steps over excess (h # hs) freed =
    (if excess \<le> freed then ([], freed)
     else (case drop_steps over excess hs (freed + cpu_millicores (hl_cost h)) of
             (ss, f) \<Rightarrow> (drop_step over h # ss, f)))"

text \<open>A faster preset for one piece of work: the preset, its cost and the CPU it frees.\<close>

definition faster_for :: "profile \<Rightarrow> held \<Rightarrow> (string \<times> cost \<times> u32) option" where
  "faster_for p h =
    (case hl_encode h of
       None \<Rightarrow> None
     | Some e \<Rightarrow>
        (case faster_preset p (we_slot e) (we_preset e) of
           None \<Rightarrow> None
         | Some to \<Rightarrow>
            (let c = encode_cost_at p (we_slot e) (we_shape e) (Some to);
                 f = saturating_sub (cpu_millicores (hl_cost h)) (cpu_millicores c)
             in if f = 0 then None else Some (to, c, f))))"

definition lower_step :: "string \<Rightarrow> held \<Rightarrow> string \<times> cost \<times> u32 \<Rightarrow> shed_step" where
  "lower_step over h l =
    (case l of (to, c, f) \<Rightarrow>
      \<lparr>ss_ticket = hl_id h, ss_what = hl_what h, ss_action = LowerPreset to c,
       ss_frees = cost_default\<lparr>cpu_millicores := f\<rparr>,
       ss_why = ''Moved '' @ hl_what h @ '' to the '' @ to @
         '' preset, which looks a little softer, because the machine was '' @ over @
         '' cores over what it can hold.''\<rparr>)"

text \<open>The second loop, with the steps taken so far in front of it.\<close>

fun preset_steps :: "profile \<Rightarrow> string \<Rightarrow> u32 \<Rightarrow> held list \<Rightarrow> shed_step list \<Rightarrow> u32 \<Rightarrow> shed_step list \<times> u32" where
  "preset_steps p over excess [] sofar freed = (sofar, freed)"
| "preset_steps p over excess (h # hs) sofar freed =
    (if excess \<le> freed then (sofar, freed)
     else if hl_id h \<in> ss_ticket ` set sofar then preset_steps p over excess hs sofar freed
     else (case faster_for p h of
             None \<Rightarrow> preset_steps p over excess hs sofar freed
           | Some l \<Rightarrow> preset_steps p over excess hs (sofar @ [lower_step over h l]) (freed + snd (snd l))))"

definition shed_plan :: "held list \<Rightarrow> u32 \<Rightarrow> profile \<Rightarrow> shed_step list" where
  "shed_plan hs excess p =
    (let over = show_fixed 1 (f_div (f_of excess) 1000);
         (ss, freed) = drop_steps over excess (drop_order hs) 0
     in fst (preset_steps p over excess (preset_order hs) ss freed))"

subsection \<open>What the two loops do\<close>

definition frees :: "shed_step list \<Rightarrow> nat" where
  "frees ss = sum_list (map (\<lambda>s. unat (cpu_millicores (ss_frees s))) ss)"

lemma frees_append [simp]: "frees (a @ b) = frees a + frees b"
  by (simp add: frees_def)

lemma frees_Nil [simp]: "frees [] = 0"
  by (simp add: frees_def)

lemma frees_single [simp]: "frees [s] = unat (cpu_millicores (ss_frees s))"
  by (simp add: frees_def)

definition cpu_of :: "held \<Rightarrow> nat" where
  "cpu_of h = unat (cpu_millicores (hl_cost h))"

lemma drop_step_sel [simp]:
  "ss_ticket (drop_step over h) = hl_id h" "ss_action (drop_step over h) = DropWork"
  "ss_frees (drop_step over h) = hl_cost h"
  by (simp_all add: drop_step_def)

text \<open>
  The dropping loop takes a prefix of its order. Where the CPU of the work adds up to a \<open>u32\<close>, its
  running sum is what the steps free, every proper prefix of them frees too little, and they free
  enough unless nothing is left to drop.
\<close>

lemma drop_steps_spec:
  assumes "drop_steps over excess hs freed = (ss, f)"
    and "unat freed + sum_list (map cpu_of hs) < 2 ^ 32"
  shows "\<exists>n \<le> length hs. ss = map (drop_step over) (take n hs) \<and> unat f = unat freed + frees ss
    \<and> (\<forall>k < n. unat freed + frees (take k ss) < unat excess)
    \<and> (n = length hs \<or> unat excess \<le> unat f)"
  using assms
proof (induction hs arbitrary: freed ss f)
  case Nil
  then show ?case by simp
next
  case (Cons h hs)
  show ?case
  proof (cases "excess \<le> freed")
    case True
    with Cons.prems(1) show ?thesis by (intro exI [of _ 0]) (auto simp: word_le_nat_alt)
  next
    case False
    define nxt where "nxt = freed + cpu_millicores (hl_cost h)"
    obtain rest where rest: "drop_steps over excess hs nxt = (rest, f)" and ss: "ss = drop_step over h # rest"
      using Cons.prems(1) False by (auto simp: nxt_def split: prod.splits)
    have nx: "unat nxt = unat freed + cpu_of h"
      using Cons.prems(2) by (simp add: nxt_def cpu_of_def unat_add_no_wrap)
    have "unat nxt + sum_list (map cpu_of hs) < 2 ^ 32" using Cons.prems(2) nx by simp
    from Cons.IH [OF rest this] obtain n where n: "n \<le> length hs" "rest = map (drop_step over) (take n hs)"
      "unat f = unat nxt + frees rest" "\<forall>k < n. unat nxt + frees (take k rest) < unat excess"
      "n = length hs \<or> unat excess \<le> unat f" by blast
    have fr: "frees (drop_step over h # xs) = cpu_of h + frees xs" for xs
      by (simp add: frees_def cpu_of_def)
    have "unat freed + frees (take k ss) < unat excess" if "k < Suc n" for k
    proof (cases k)
      case 0
      with False show ?thesis by (simp add: word_le_nat_alt)
    next
      case (Suc j)
      with that n(4) have "unat nxt + frees (take j rest) < unat excess" by simp
      with Suc show ?thesis by (simp add: ss fr nx)
    qed
    with n ss fr nx show ?thesis by (intro exI [of _ "Suc n"]) auto
  qed
qed

lemma faster_for_saves:
  assumes "faster_for p h = Some (to, c, f)"
  shows "soft_encode h \<or> es_hardware (we_slot (the (hl_encode h)))"
    and "0 < unat f" "unat f + unat (cpu_millicores c) = cpu_of h"
proof -
  from assms obtain e where e: "hl_encode h = Some e"
    and f: "f = saturating_sub (cpu_millicores (hl_cost h)) (cpu_millicores c)" "f \<noteq> 0"
    by (auto simp: faster_for_def Let_def split: option.splits if_splits)
  then show "soft_encode h \<or> es_hardware (we_slot (the (hl_encode h)))" by (simp add: soft_encode_def)
  have "unat f \<noteq> 0" using f(2) by (simp add: unat_eq_zero)
  then show "0 < unat f" "unat f + unat (cpu_millicores c) = cpu_of h" by (auto simp: f(1) cpu_of_def)
qed

lemma lower_step_sel [simp]:
  "ss_ticket (lower_step over h l) = hl_id h"
  "ss_action (lower_step over h l) = LowerPreset (fst l) (fst (snd l))"
  "cpu_millicores (ss_frees (lower_step over h l)) = snd (snd l)"
  by (simp_all add: lower_step_def split: prod.split)

definition tickets :: "shed_step list \<Rightarrow> u64 set" where
  "tickets ss = ss_ticket ` set ss"

text \<open>
  The second loop adds steps for work not named yet, in its order, each to a faster preset that
  saves CPU, until enough is freed or no work left has one.
\<close>

lemma preset_steps_spec:
  assumes "preset_steps p over excess hs sofar freed = (ss, f)"
    and "unat freed + sum_list (map cpu_of hs) < 2 ^ 32"
  shows "\<exists>extra. ss = sofar @ extra \<and> unat f = unat freed + frees extra
    \<and> subseq (map ss_ticket extra) (map hl_id hs)
    \<and> tickets extra \<inter> tickets sofar = {}
    \<and> (\<forall>s \<in> set extra. \<exists>h \<in> set hs. \<exists>l. faster_for p h = Some l \<and> s = lower_step over h l)
    \<and> (\<forall>k < length extra. unat freed + frees (take k extra) < unat excess)
    \<and> (unat excess \<le> unat f \<or> (\<forall>h \<in> set hs. hl_id h \<in> tickets ss \<or> faster_for p h = None))"
  using assms
proof (induction hs arbitrary: sofar freed)
  case Nil
  then show ?case by (intro exI [of _ "[]"]) (auto simp: tickets_def)
next
  case (Cons h hs)
  have room: "unat freed + sum_list (map cpu_of hs) < 2 ^ 32" using Cons.prems(2) by simp
  consider (enough) "excess \<le> freed"
    | (skip) "\<not> excess \<le> freed" "hl_id h \<in> ss_ticket ` set sofar \<or> faster_for p h = None"
    | (lower) l where "\<not> excess \<le> freed" "hl_id h \<notin> ss_ticket ` set sofar" "faster_for p h = Some l"
    by blast
  then show ?case
  proof cases
    case enough
    with Cons.prems(1) show ?thesis by (intro exI [of _ "[]"]) (auto simp: tickets_def word_le_nat_alt)
  next
    case skip
    then have "preset_steps p over excess hs sofar freed = (ss, f)" using Cons.prems(1) by (auto split: if_splits)
    from Cons.IH [OF this room] obtain extra where ex: "ss = sofar @ extra" "unat f = unat freed + frees extra"
      "subseq (map ss_ticket extra) (map hl_id hs)" "tickets extra \<inter> tickets sofar = {}"
      "\<forall>s \<in> set extra. \<exists>h \<in> set hs. \<exists>l. faster_for p h = Some l \<and> s = lower_step over h l"
      "\<forall>k < length extra. unat freed + frees (take k extra) < unat excess"
      "unat excess \<le> unat f \<or> (\<forall>h \<in> set hs. hl_id h \<in> tickets ss \<or> faster_for p h = None)" by blast
    have "hl_id h \<in> tickets ss \<or> faster_for p h = None" using skip(2) ex(1) by (auto simp: tickets_def)
    with ex show ?thesis by (intro exI [of _ extra]) (auto intro: list_emb_Cons)
  next
    case (lower l)
    define nxt where "nxt = freed + snd (snd l)"
    define st where "st = lower_step over h l"
    have run: "preset_steps p over excess hs (sofar @ [st]) nxt = (ss, f)"
      using Cons.prems(1) lower by (simp add: nxt_def st_def)
    have save: "0 < unat (snd (snd l))" "unat (snd (snd l)) \<le> cpu_of h"
      using faster_for_saves(2,3) [of p h "fst l" "fst (snd l)" "snd (snd l)"] lower(3) by simp_all
    have nx: "unat nxt = unat freed + unat (snd (snd l))"
      using Cons.prems(2) save(2) by (simp add: nxt_def unat_add_no_wrap)
    have "unat nxt + sum_list (map cpu_of hs) < 2 ^ 32" using Cons.prems(2) nx save(2) by simp
    from Cons.IH [OF run this] obtain extra where ex: "ss = (sofar @ [st]) @ extra" "unat f = unat nxt + frees extra"
      "subseq (map ss_ticket extra) (map hl_id hs)" "tickets extra \<inter> tickets (sofar @ [st]) = {}"
      "\<forall>s \<in> set extra. \<exists>h \<in> set hs. \<exists>l. faster_for p h = Some l \<and> s = lower_step over h l"
      "\<forall>k < length extra. unat nxt + frees (take k extra) < unat excess"
      "unat excess \<le> unat f \<or> (\<forall>h \<in> set hs. hl_id h \<in> tickets ss \<or> faster_for p h = None)" by blast
    have fr: "frees (st # xs) = unat (snd (snd l)) + frees xs" for xs by (simp add: frees_def st_def)
    have early: "unat freed + frees (take k (st # extra)) < unat excess" if "k < length (st # extra)" for k
    proof (cases k)
      case 0
      with lower(1) show ?thesis by (simp add: word_le_nat_alt)
    next
      case (Suc j)
      with that ex(6) have "unat nxt + frees (take j extra) < unat excess" by simp
      with Suc show ?thesis by (simp add: fr nx)
    qed
    have "\<forall>s \<in> set (st # extra). \<exists>h' \<in> set (h # hs). \<exists>l. faster_for p h' = Some l \<and> s = lower_step over h' l"
    proof (intro ballI)
      fix s assume "s \<in> set (st # extra)"
      then consider "s = st" | "s \<in> set extra" by auto
      then show "\<exists>h' \<in> set (h # hs). \<exists>l. faster_for p h' = Some l \<and> s = lower_step over h' l"
      proof cases
        case 1
        show ?thesis by (rule bexI [of _ h], rule exI [of _ l]) (simp_all add: 1 st_def lower(3))
      next
        case 2
        with ex(5) show ?thesis by (meson list.set_intros(2))
      qed
    qed
    moreover have "tickets (st # extra) \<inter> tickets sofar = {}"
      using ex(4) lower(2) by (auto simp: tickets_def st_def)
    moreover have "subseq (map ss_ticket (st # extra)) (map hl_id (h # hs))"
      using ex(3) by (simp add: st_def)
    moreover have "hl_id h \<in> tickets ss" by (simp add: ex(1) tickets_def st_def)
    ultimately show ?thesis using ex early fr nx
      by (intro exI [of _ "st # extra"] conjI) auto
  qed
qed

subsection \<open>The whole plan\<close>

lemma sum_list_filter_le: "sum_list (map f (filter P xs)) \<le> sum_list (map (f :: 'a \<Rightarrow> nat) xs)"
  by (induction xs) auto

lemma sum_list_sort_key: "sum_list (map f (sort_key g xs)) = sum_list (map (f :: 'a \<Rightarrow> nat) xs)"
  by (metis mset_map mset_sort sum_mset_sum_list)

lemma drop_order_sum: "sum_list (map cpu_of (drop_order hs)) \<le> sum_list (map cpu_of hs)"
  by (simp add: drop_order_def sum_list_sort_key sum_list_filter_le)

lemma preset_order_sum: "sum_list (map cpu_of (preset_order hs)) \<le> sum_list (map cpu_of hs)"
  by (simp add: preset_order_def sum_list_sort_key sum_list_filter_le)

lemma set_drop_order [simp]: "set (drop_order hs) = {h \<in> set hs. may_drop (hl_kind h)}"
  by (simp add: drop_order_def)

lemma set_preset_order [simp]: "set (preset_order hs) = {h \<in> set hs. soft_encode h}"
  by (simp add: preset_order_def)

lemma distinct_map_sort_key: "distinct (map f (sort_key g xs)) = distinct (map f xs)"
  by (simp add: distinct_map inj_on_def)

lemma distinct_orders:
  assumes "distinct (map hl_id hs)"
  shows "distinct (map hl_id (drop_order hs))" "distinct (map hl_id (preset_order hs))"
  using assms by (simp_all add: drop_order_def preset_order_def distinct_map_sort_key distinct_map_filter)

text \<open>
  The plan is the first \<open>n\<close> of the drop order, dropped, then work of the preset order moved to a
  faster preset.
\<close>

lemma shed_plan_spec:
  assumes "2 * sum_list (map cpu_of hs) < 2 ^ 32"
  shows "\<exists>over n extra. n \<le> length (drop_order hs)
    \<and> shed_plan hs excess p = map (drop_step over) (take n (drop_order hs)) @ extra
    \<and> subseq (map ss_ticket extra) (map hl_id (preset_order hs))
    \<and> tickets extra \<inter> hl_id ` set (take n (drop_order hs)) = {}
    \<and> (\<forall>s \<in> set extra. \<exists>h \<in> set hs. soft_encode h \<and> (\<exists>l. faster_for p h = Some l \<and> s = lower_step over h l))
    \<and> (\<forall>k < length (shed_plan hs excess p). frees (take k (shed_plan hs excess p)) < unat excess)
    \<and> (unat excess \<le> frees (shed_plan hs excess p)
       \<or> (n = length (drop_order hs)
          \<and> (\<forall>h \<in> set hs. soft_encode h \<longrightarrow> hl_id h \<in> tickets (shed_plan hs excess p) \<or> faster_for p h = None)))
    \<and> (extra \<noteq> [] \<longrightarrow> n = length (drop_order hs))"
proof -
  define over where "over = show_fixed 1 (f_div (f_of excess) 1000)"
  define ds where "ds = drop_order hs"
  obtain ss freed where d: "drop_steps over excess ds 0 = (ss, freed)" by fastforce
  obtain all f where a: "preset_steps p over excess (preset_order hs) ss freed = (all, f)" by fastforce
  have plan: "shed_plan hs excess p = all"
    using d a unfolding shed_plan_def Let_def over_def ds_def by simp
  have dsum: "sum_list (map cpu_of ds) \<le> sum_list (map cpu_of hs)" by (simp add: ds_def drop_order_sum)
  obtain n where n: "n \<le> length ds" "ss = map (drop_step over) (take n ds)" "unat freed = frees ss"
    "\<forall>k < n. frees (take k ss) < unat excess" "n = length ds \<or> unat excess \<le> unat freed"
    using drop_steps_spec [OF d] dsum assms by auto
  have "frees ss = sum_list (map cpu_of (take n ds))" by (simp add: n(2) frees_def cpu_of_def [abs_def] comp_def)
  also have "\<dots> \<le> sum_list (map cpu_of ds)" by (metis append_take_drop_id le_add1 map_append sum_list_append)
  finally have "unat freed \<le> sum_list (map cpu_of hs)" using n(3) dsum by simp
  then have "unat freed + sum_list (map cpu_of (preset_order hs)) < 2 ^ 32"
    using assms preset_order_sum [of hs] by linarith
  from preset_steps_spec [OF a this] obtain extra where ex: "all = ss @ extra" "unat f = unat freed + frees extra"
    "subseq (map ss_ticket extra) (map hl_id (preset_order hs))" "tickets extra \<inter> tickets ss = {}"
    "\<forall>s \<in> set extra. \<exists>h \<in> set (preset_order hs). \<exists>l. faster_for p h = Some l \<and> s = lower_step over h l"
    "\<forall>k < length extra. unat freed + frees (take k extra) < unat excess"
    "unat excess \<le> unat f \<or> (\<forall>h \<in> set (preset_order hs). hl_id h \<in> tickets all \<or> faster_for p h = None)" by blast
  have len: "length ss = n" using n by simp
  have early: "frees (take k all) < unat excess" if k: "k < length all" for k
  proof (cases "k < n")
    case True
    with n(4) show ?thesis by (simp add: ex(1) len)
  next
    case False
    with k have "k - n < length extra" by (simp add: ex(1) len)
    with ex(6) n(3) have "frees ss + frees (take (k - n) extra) < unat excess" by simp
    with False show ?thesis by (simp add: ex(1) len)
  qed
  have all_first: "n = length ds" if "extra \<noteq> []"
    using n(5) ex(6) [rule_format, of 0] that by auto
  have tk: "tickets ss = hl_id ` set (take n ds)" by (simp add: n(2) tickets_def image_image)
  have fin: "unat excess \<le> frees all \<or> (n = length ds
      \<and> (\<forall>h \<in> set hs. soft_encode h \<longrightarrow> hl_id h \<in> tickets all \<or> faster_for p h = None))"
    using ex(7) n(3,5) ex(1,2) by auto
  have low: "\<forall>s \<in> set extra. \<exists>h \<in> set hs. soft_encode h \<and> (\<exists>l. faster_for p h = Some l \<and> s = lower_step over h l)"
  proof
    fix s assume "s \<in> set extra"
    with ex(5) obtain h l where "h \<in> set (preset_order hs)" "faster_for p h = Some l" "s = lower_step over h l" by blast
    then show "\<exists>h \<in> set hs. soft_encode h \<and> (\<exists>l. faster_for p h = Some l \<and> s = lower_step over h l)"
      by (intro bexI [of _ h] conjI exI [of _ l]) auto
  qed
  show ?thesis unfolding plan
  proof (intro exI conjI)
    show "n \<le> length (drop_order hs)" using n(1) by (simp add: ds_def)
    show "all = map (drop_step over) (take n (drop_order hs)) @ extra" using n(2) ex(1) by (simp add: ds_def)
    show "subseq (map ss_ticket extra) (map hl_id (preset_order hs))" by (rule ex(3))
    show "tickets extra \<inter> hl_id ` set (take n (drop_order hs)) = {}" using ex(4) tk by (simp add: ds_def)
    show "\<forall>s \<in> set extra. \<exists>h \<in> set hs. soft_encode h \<and> (\<exists>l. faster_for p h = Some l \<and> s = lower_step over h l)" by (rule low)
    show "\<forall>k < length all. frees (take k all) < unat excess" using early by blast
    show "unat excess \<le> frees all \<or> (n = length (drop_order hs)
      \<and> (\<forall>h \<in> set hs. soft_encode h \<longrightarrow> hl_id h \<in> tickets all \<or> faster_for p h = None))"
      using fin unfolding ds_def .
    show "extra \<noteq> [] \<longrightarrow> n = length (drop_order hs)" using all_first by (simp add: ds_def)
  qed
qed

end
