(* ===== verification/Load_Window.thy ===== *)
theory Load_Window
  imports Float64
begin

text \<open>
  Live load (\<open>crates/godwinmix-govern/src/load/\<close>): a reading of the machine, the window that smooths
  readings and keeps the recent peak of other programs, and the cell the sampler writes and anyone
  reads. The counters of the operating system (\<open>load/sys.rs\<close>) are arguments.
\<close>

subsection \<open>Readings (\<open>mod.rs\<close>)\<close>

record reading =
  rd_system_millicores :: u32
  rd_own_millicores :: u32
  rd_available_mib :: "u64 option"
  rd_devices :: "(string \<times> u32) list"

definition with_elsewhere :: "reading \<Rightarrow> u32 \<Rightarrow> reading" where
  "with_elsewhere r millicores =
    (let own = saturating_add (rd_own_millicores r) millicores in
     r\<lparr>rd_own_millicores := own, rd_system_millicores := max (rd_system_millicores r) own\<rparr>)"

text \<open>A \<open>u64\<close> cast to \<open>f64\<close> rounds.\<close>

definition f_of_u64 :: "u64 \<Rightarrow> f64" where
  "f_of_u64 w = rnd (of_int (uint w))"

record probe =
  pb_cores :: u32
  pb_last_sys :: "(u64 \<times> u64) option"
  pb_last_own :: "(u64 \<times> u64) option"

text \<open>
  What one read of the counters gives: the system's busy and total ticks, this process's CPU time in
  nanoseconds, the time now in nanoseconds, the free memory and how busy each device is. \<open>wall\<close> is
  a difference of two instants, at least one nanosecond.
\<close>

record counters =
  ct_sys :: "(u64 \<times> u64) option"
  ct_own :: "u64 option"
  ct_now :: u64
  ct_memory :: "(u64 \<times> u64) option"
  ct_devices :: "(string \<times> u32) list"

definition system_share :: "u32 \<Rightarrow> (u64 \<times> u64) option \<Rightarrow> (u64 \<times> u64) option \<Rightarrow> u32" where
  "system_share cores prev now =
    (case (prev, now) of
       (Some (b0, t0), Some (b1, t1)) \<Rightarrow>
         if t0 < t1
         then as_u32 (f_round (f_mul (f_mul (f_div (f_of_u64 (saturating_sub b1 b0)) (f_of_u64 (t1 - t0))) (f_of cores)) 1000))
         else 0
     | _ \<Rightarrow> 0)"

definition own_share :: "(u64 \<times> u64) option \<Rightarrow> u64 option \<Rightarrow> u64 \<Rightarrow> u32" where
  "own_share prev n now =
    (case (prev, n) of
       (Some (n0, t0), Some n1) \<Rightarrow>
         as_u32 (f_round (f_mul (f_div (f_of_u64 (saturating_sub n1 n0)) (f_of_u64 (max (saturating_sub now t0) 1))) 1000))
     | _ \<Rightarrow> 0)"

definition probe_read :: "counters \<Rightarrow> probe \<Rightarrow> reading \<times> probe" where
  "probe_read c p =
    (let system = system_share (pb_cores p) (pb_last_sys p) (ct_sys c);
         own = own_share (pb_last_own p) (ct_own c) (ct_now c)
     in (\<lparr>rd_system_millicores = max system own, rd_own_millicores = own,
          rd_available_mib = map_option snd (ct_memory c), rd_devices = ct_devices c\<rparr>,
         p\<lparr>pb_last_sys := (case ct_sys c of None \<Rightarrow> pb_last_sys p | s \<Rightarrow> s),
           pb_last_own := (case ct_own c of None \<Rightarrow> pb_last_own p | Some n \<Rightarrow> Some (n, ct_now c))\<rparr>))"

subsection \<open>What the load is (\<open>cell.rs\<close>)\<close>

record load =
  ld_system_millicores :: u32
  ld_own_millicores :: u32
  ld_others_peak_millicores :: u32
  ld_jitter_millicores :: u32
  ld_available_mib :: "u64 option"
  ld_devices :: "(string \<times> u32) list"
  ld_samples :: u64

definition load_default :: load where
  "load_default = \<lparr>ld_system_millicores = 0, ld_own_millicores = 0, ld_others_peak_millicores = 0,
     ld_jitter_millicores = 0, ld_available_mib = None, ld_devices = [], ld_samples = 0\<rparr>"

definition load_device :: "load \<Rightarrow> string \<Rightarrow> u32 option" where
  "load_device l name = map_option snd (List.find (\<lambda>d. fst d = name) (ld_devices l))"

subsection \<open>The window (\<open>window.rs\<close>)\<close>

record window =
  wn_size :: nat
  wn_readings :: "reading list"
  wn_system_avg :: f64
  wn_own_avg :: f64
  wn_samples :: u64

definition window_new :: "nat \<Rightarrow> window" where
  "window_new n = \<lparr>wn_size = max n 1, wn_readings = [], wn_system_avg = 0, wn_own_avg = 0, wn_samples = 0\<rparr>"

text \<open>The weight \<open>A\<close>, \<open>0.3\<close>.\<close>

definition window_weight :: f64 where
  "window_weight = rnd (3 / 10)"

definition smooth :: "f64 \<Rightarrow> u32 \<Rightarrow> f64" where
  "smooth avg x = f_add avg (f_mul window_weight (f_sub (f_of x) avg))"

text \<open>\<open>iter().max().unwrap_or(0)\<close>.\<close>

definition peak_of :: "u32 list \<Rightarrow> u32" where
  "peak_of xs = fold max xs 0"

definition others :: "reading \<Rightarrow> u32" where
  "others r = saturating_sub (rd_system_millicores r) (rd_own_millicores r)"

definition window_load :: "window \<Rightarrow> load" where
  "window_load w =
    (let others_peak = peak_of (map others (wn_readings w));
         peak = peak_of (map rd_system_millicores (wn_readings w));
         burst = f_sub (f_sub (f_of peak) (f_of others_peak)) (wn_own_avg w);
         final = (if wn_readings w = [] then None else Some (last (wn_readings w)))
     in \<lparr>ld_system_millicores = as_u32 (f_round (wn_system_avg w)),
         ld_own_millicores = as_u32 (f_round (wn_own_avg w)),
         ld_others_peak_millicores = others_peak,
         ld_jitter_millicores = as_u32 (f_round (max burst 0)),
         ld_available_mib = Option.bind final rd_available_mib,
         ld_devices = (case final of None \<Rightarrow> [] | Some r \<Rightarrow> rd_devices r),
         ld_samples = wn_samples w\<rparr>)"

definition window_take :: "reading \<Rightarrow> window \<Rightarrow> window" where
  "window_take r w =
    (let system = rd_system_millicores r; own = rd_own_millicores r; kept = wn_readings w in
     w\<lparr>wn_system_avg := (if wn_samples w = 0 then f_of system else smooth (wn_system_avg w) system),
       wn_own_avg := (if wn_samples w = 0 then f_of own else smooth (wn_own_avg w) own),
       wn_samples := wn_samples w + 1,
       wn_readings := (if length kept = wn_size w then tl kept else kept) @ [r]\<rparr>)"

definition window_push :: "reading \<Rightarrow> window \<Rightarrow> load \<times> window" where
  "window_push r w = (let w = window_take r w in (window_load w, w))"

subsection \<open>The cell\<close>

text \<open>\<open>u64::MAX\<close> stands for no figure.\<close>

definition UNKNOWN :: u64 where
  "UNKNOWN = - 1"

record load_cell =
  lc_system :: u32
  lc_own :: u32
  lc_others_peak :: u32
  lc_jitter :: u32
  lc_available :: u64
  lc_samples :: u64
  lc_devices :: "(string \<times> u32) list"
  lc_elsewhere :: u32

definition load_cell_default :: load_cell where
  "load_cell_default = \<lparr>lc_system = 0, lc_own = 0, lc_others_peak = 0, lc_jitter = 0, lc_available = UNKNOWN,
     lc_samples = 0, lc_devices = [], lc_elsewhere = 0\<rparr>"

definition set_elsewhere :: "u32 \<Rightarrow> load_cell \<Rightarrow> load_cell" where
  "set_elsewhere millicores c = c\<lparr>lc_elsewhere := millicores\<rparr>"

definition cell_store :: "load \<Rightarrow> load_cell \<Rightarrow> load_cell" where
  "cell_store l c =
     c\<lparr>lc_system := ld_system_millicores l, lc_own := ld_own_millicores l,
       lc_others_peak := ld_others_peak_millicores l, lc_jitter := ld_jitter_millicores l,
       lc_available := (case ld_available_mib l of Some a \<Rightarrow> a | None \<Rightarrow> UNKNOWN),
       lc_devices := (if lc_devices c \<noteq> ld_devices l then ld_devices l else lc_devices c),
       lc_samples := ld_samples l\<rparr>"

definition cell_load :: "load_cell \<Rightarrow> load" where
  "cell_load c =
    \<lparr>ld_system_millicores = lc_system c, ld_own_millicores = lc_own c,
     ld_others_peak_millicores = lc_others_peak c, ld_jitter_millicores = lc_jitter c,
     ld_available_mib = (if lc_available c \<noteq> UNKNOWN then Some (lc_available c) else None),
     ld_devices = lc_devices c, ld_samples = lc_samples c\<rparr>"

text \<open>One turn of the sampler: read, count what other processes did as our own, smooth, write.\<close>

definition sample :: "counters \<Rightarrow> probe \<times> window \<times> load_cell \<Rightarrow> probe \<times> window \<times> load_cell" where
  "sample c s =
    (case s of (p, w, cell) \<Rightarrow>
       let (r, p) = probe_read c p; (l, w) = window_push (with_elsewhere r (lc_elsewhere cell)) w
       in (p, w, cell_store l cell))"

subsection \<open>What they keep\<close>

lemma cell_roundtrip: "ld_available_mib l \<noteq> Some UNKNOWN \<Longrightarrow> cell_load (cell_store l c) = l"
  by (cases l) (auto simp: cell_load_def cell_store_def split: option.splits)

lemma cell_store_elsewhere [simp]: "lc_elsewhere (cell_store l c) = lc_elsewhere c"
  by (simp add: cell_store_def)

lemma fold_max_ge: "(a :: u32) \<le> fold max xs a"
proof (induction xs arbitrary: a)
  case (Cons x xs)
  have "a \<le> max x a" by simp
  also have "\<dots> \<le> fold max xs (max x a)" by (rule Cons.IH)
  finally show ?case by simp
qed simp

lemma fold_max_member: "x \<in> set xs \<Longrightarrow> x \<le> fold max xs (a :: u32)"
proof (induction xs arbitrary: a)
  case (Cons y xs)
  show ?case
  proof (cases "x = y")
    case True
    then show ?thesis using fold_max_ge [of "max y a" xs] by simp
  qed (use Cons in simp)
qed simp

lemma fold_max_in: "fold max xs (a :: u32) = a \<or> fold max xs a \<in> set xs"
proof (induction xs arbitrary: a)
  case (Cons y xs)
  from Cons.IH [of "max y a"] show ?case by (cases "y \<le> a") (auto simp: max_def)
qed simp

lemma peak_of_ge: "x \<in> set xs \<Longrightarrow> x \<le> peak_of xs"
  by (simp add: peak_of_def fold_max_member)

lemma peak_of_in:
  assumes "xs \<noteq> []"
  shows "peak_of xs \<in> set xs"
proof (cases "peak_of xs = 0")
  case True
  obtain x ys where xs: "xs = x # ys" using assms by (cases xs) auto
  with peak_of_ge [of x xs] True have "x = 0" by simp
  with xs True show ?thesis by simp
qed (use fold_max_in [of xs 0] in \<open>simp add: peak_of_def\<close>)

lemma own_le_system: "rd_own_millicores (with_elsewhere r k) \<le> rd_system_millicores (with_elsewhere r k)"
  by (simp add: with_elsewhere_def Let_def)

text \<open>What a window holds after a run: the last readings, as many as it has places.\<close>

definition window_after :: "nat \<Rightarrow> reading list \<Rightarrow> window" where
  "window_after n rs = fold window_take rs (window_new n)"

lemma window_take_sel [simp]:
  "wn_size (window_take r w) = wn_size w" "wn_samples (window_take r w) = wn_samples w + 1"
  by (simp_all add: window_take_def Let_def)

lemma window_after_snoc: "window_after n (rs @ [r]) = window_take r (window_after n rs)"
  by (simp add: window_after_def)

lemma window_readings:
  "wn_size (window_after n rs) = max n 1 \<and>
   wn_readings (window_after n rs) = drop (length rs - max n 1) rs"
proof (induction rs rule: rev_induct)
  case Nil
  then show ?case by (simp add: window_after_def window_new_def)
next
  case (snoc r rs)
  define m where "m = max n 1"
  have m: "0 < m" by (simp add: m_def)
  have kept: "wn_readings (window_after n rs) = drop (length rs - m) rs"
    and sz: "wn_size (window_after n rs) = m" using snoc by (simp_all add: m_def)
  have "wn_readings (window_after n (rs @ [r])) =
      (if length (drop (length rs - m) rs) = m then tl (drop (length rs - m) rs) else drop (length rs - m) rs) @ [r]"
    by (simp add: window_after_snoc window_take_def Let_def kept sz)
  also have "\<dots> = drop (length (rs @ [r]) - m) (rs @ [r])"
  proof (cases "m \<le> length rs")
    case True
    then have "tl (drop (length rs - m) rs) = drop (Suc (length rs) - m) rs" by (simp add: tl_drop drop_Suc Suc_diff_le flip: drop_Suc)
    with True m show ?thesis by simp
  next
    case False
    then show ?thesis by (cases "length rs = m") auto
  qed
  finally have "wn_readings (window_after n (rs @ [r])) = drop (length (rs @ [r]) - m) (rs @ [r])" .
  moreover have "wn_size (window_after n (rs @ [r])) = m" using sz by (simp add: window_after_snoc)
  ultimately show ?case unfolding m_def by blast
qed

text \<open>The smoothed figures stay within the range of what they smooth.\<close>

lemma f_of_top: "f_of (w :: u32) \<le> 2 ^ 32 - 1"
proof -
  have "uint w \<le> 2 ^ 32 - 1" using uint_bounded [of w] by simp
  then have "(of_int (uint w) :: rat) \<le> of_int (2 ^ 32 - 1)" by (rule of_int_le_iff [THEN iffD2])
  then show ?thesis by (simp add: f_of_def)
qed

lemma rnd_le:
  assumes "0 \<le> x"
  shows "rnd x \<le> x * (1 + 1 / 2 ^ 53)"
proof -
  have "rnd x - x \<le> x / 2 ^ 53" using rnd_near [OF assms] by (rule order_trans [OF abs_ge_self])
  then show ?thesis by (simp add: algebra_simps)
qed

lemma smooth_between:
  assumes "0 \<le> avg" "avg \<le> 2 ^ 32 - 1"
  shows "0 \<le> smooth avg x \<and> smooth avg x \<le> 2 ^ 32 - 1"
proof -
  define d where "d = f_sub (f_of x) avg"
  have top: "f_of x \<le> 2 ^ 32 - 1" by (rule f_of_top)
  have w: "0 \<le> window_weight" "window_weight \<le> 1 / 2"
    by code_simp+
  have shrink: "0 \<le> rnd (window_weight * rnd y) \<and> rnd (window_weight * rnd y) \<le> y" if "0 \<le> y" for y
  proof -
    have y: "0 \<le> rnd y" "rnd y \<le> y * (1 + 1 / 2 ^ 53)"
      using rnd_le [OF that] that by (simp_all add: rnd_nonneg)
    have z: "0 \<le> window_weight * rnd y" "window_weight * rnd y \<le> 1 / 2 * (y * (1 + 1 / 2 ^ 53))"
      using w y mult_mono [OF w(2) y(2)] by simp_all
    then have "rnd (window_weight * rnd y) \<le> 1 / 2 * (y * (1 + 1 / 2 ^ 53)) * (1 + 1 / 2 ^ 53)"
      using rnd_le [OF z(1)] mult_right_mono [OF z(2), of "1 + 1 / 2 ^ 53"] by simp
    also have "\<dots> \<le> y" using that by (simp add: field_simps)
    finally show ?thesis using z by (simp add: rnd_nonneg)
  qed
  have s: "smooth avg x = rnd (avg + rnd (window_weight * rnd (f_of x - avg)))"
    by (simp add: smooth_def f_add_def f_sub_def f_mul_def)
  have "0 \<le> avg + rnd (window_weight * rnd (f_of x - avg)) \<and> avg + rnd (window_weight * rnd (f_of x - avg)) \<le> 2 ^ 32 - 1"
  proof (cases "avg \<le> f_of x")
    case True
    then show ?thesis using shrink [of "f_of x - avg"] assms top by linarith
  next
    case False
    have "f_of x - avg = - (avg - f_of x)" by simp
    then have "rnd (window_weight * rnd (f_of x - avg)) = - rnd (window_weight * rnd (avg - f_of x))"
      by (simp only: rnd_minus mult_minus_right)
    with False show ?thesis using shrink [of "avg - f_of x"] assms f_of_bounds(1) [of x] by linarith
  qed
  moreover have "rnd (2 ^ 32 - 1) = 2 ^ 32 - 1" using rnd_of_int [of "2 ^ 32 - 1"] by simp
  ultimately show ?thesis unfolding s using rnd_mono rnd_nonneg by metis
qed

lemma window_avg_bounds:
  "0 \<le> wn_own_avg (window_after n rs) \<and> wn_own_avg (window_after n rs) \<le> 2 ^ 32 - 1"
proof (induction rs rule: rev_induct)
  case Nil
  then show ?case by (simp add: window_after_def window_new_def)
next
  case (snoc r rs)
  show ?case
    using snoc f_of_top [of "rd_own_millicores r"] smooth_between [of "wn_own_avg (window_after n rs)"] f_of_bounds(1) [of "rd_own_millicores r"]
    by (simp add: window_after_snoc window_take_def Let_def)
qed

lemma round_near:
  assumes "0 \<le> x" "x \<le> 2 ^ 32 - 1"
  shows "x \<le> of_int (uint (as_u32 (f_round x))) + 1 / 2"
proof -
  have r: "f_round x = \<lfloor>x + 1 / 2\<rfloor>" using assms by (simp add: f_round_def)
  have "0 \<le> \<lfloor>x + 1 / 2\<rfloor>" using assms by simp
  moreover have "\<lfloor>x + 1 / 2\<rfloor> \<le> 2 ^ 32 - 1" using assms by (simp add: floor_le_iff)
  ultimately have "uint (as_u32 (f_round x)) = \<lfloor>x + 1 / 2\<rfloor>"
    by (auto simp: r as_u32_def uint_word_of_int unsigned_minus_1_eq_mask mask_eq_exp_minus_1 floor_eq_iff)
  then show ?thesis by simp linarith
qed

text \<open>
  What is taken off a machine for a load, others at their peak, this process at its average and the
  jitter, reaches the peak of the machine over the window, to within one for the rounding.
\<close>

lemma window_load_covers:
  fixes n :: nat and rs :: "reading list"
  defines "l \<equiv> window_load (window_after n rs)"
  assumes r: "r \<in> set (wn_readings (window_after n rs))"
  shows "unat (rd_system_millicores r)
    \<le> unat (ld_others_peak_millicores l) + unat (ld_own_millicores l) + unat (ld_jitter_millicores l) + 1"
proof -
  define w where "w = window_after n rs"
  define peak where "peak = peak_of (map rd_system_millicores (wn_readings w))"
  define op where "op = peak_of (map others (wn_readings w))"
  define avg where "avg = wn_own_avg w"
  define burst where "burst = f_sub (f_sub (f_of peak) (f_of op)) avg"
  have l: "ld_others_peak_millicores l = op" "ld_own_millicores l = as_u32 (f_round avg)"
    "ld_jitter_millicores l = as_u32 (f_round (max burst 0))"
    by (simp_all add: l_def window_load_def Let_def op_def avg_def burst_def peak_def w_def)
  have avg: "0 \<le> avg" "avg \<le> 2 ^ 32 - 1" using window_avg_bounds [of n rs] by (simp_all add: avg_def w_def)
  have "rd_system_millicores r \<le> peak" using r unfolding peak_def by (intro peak_of_ge) (auto simp: w_def)
  have pd: "f_sub (f_of peak) (f_of op) = f_of peak - f_of op"
  proof -
    have "f_of peak - f_of op = of_int (uint peak - uint op)" by (simp add: f_of_def)
    moreover have "\<bar>uint peak - uint op\<bar> \<le> 2 ^ 53" using uint_bounded [of peak] uint_bounded [of op] uint_ge_0 [of peak] uint_ge_0 [of op]
      by (simp add: abs_le_iff del: uint_ge_0 unsigned_greater_eq)
    ultimately show ?thesis unfolding f_sub_def by (metis rnd_of_int)
  qed
  define e where "e = f_of peak - f_of op - avg"
  have burst: "burst = rnd e" using pd by (simp add: burst_def f_sub_def e_def)
  have e: "e \<le> 2 ^ 32 - 1" using avg f_of_top [of peak] f_of_bounds(1) [of op] by (simp add: e_def)
  have b: "max burst 0 \<le> 2 ^ 32 - 1"
    using rnd_mono [OF e] rnd_of_int [of "2 ^ 32 - 1"] by (simp add: burst)
  have "e \<le> max burst 0 + 1 / 4"
  proof (cases "0 \<le> e")
    case True
    have "e / 2 ^ 53 \<le> 1 / 4" using e by simp
    moreover have "- (rnd e - e) \<le> e / 2 ^ 53"
      using rnd_near [OF True] by (rule order_trans [OF abs_ge_minus_self])
    ultimately show ?thesis unfolding burst by linarith
  qed simp
  moreover have "max burst 0 \<le> of_int (uint (ld_jitter_millicores l)) + 1 / 2"
    unfolding l by (rule round_near) (use b in auto)
  moreover have "avg \<le> of_int (uint (ld_own_millicores l)) + 1 / 2"
    unfolding l by (rule round_near) (use avg in auto)
  ultimately have "(of_int (uint peak) :: rat)
      < of_int (uint op + uint (ld_own_millicores l) + uint (ld_jitter_millicores l) + 2)"
    unfolding e_def f_of_def of_int_add of_int_numeral by linarith
  then have "uint peak < uint op + uint (ld_own_millicores l) + uint (ld_jitter_millicores l) + 2"
    by (rule of_int_less_iff [THEN iffD1])
  moreover have "uint (rd_system_millicores r) \<le> uint peak"
    using \<open>rd_system_millicores r \<le> peak\<close> by (simp add: word_le_def)
  ultimately show ?thesis unfolding l(1) uint_nat by linarith
qed

end
