(* ===== verification/Headroom.thy ===== *)
theory Headroom
  imports Rendition Load_Window
begin

text \<open>
  What is left (\<open>crates/godwinmix-govern/src/headroom.rs\<close>): the reserve kept free, what could be
  admitted now given the load and what is promised, and which parts of a cost do not fit.
\<close>

definition UNLIMITED :: u32 where
  "UNLIMITED = - 1"

definition reserve :: "u32 \<Rightarrow> bool \<Rightarrow> u32 \<Rightarrow> u32 option \<Rightarrow> u32" where
  "reserve cores desktop jitter override_millicores =
    (let cap = max cores 1 * 1000 in
     case override_millicores of
       Some ov \<Rightarrow> min ov cap
     | None \<Rightarrow>
         let base = (if desktop then max (cap div 5) 1500 else max (cap div 12) 500)
         in min (base + min jitter (cap div 4)) (cap div 2))"

definition memory_reserve :: "u64 \<Rightarrow> u64" where
  "memory_reserve total_mib = max (total_mib div 10) 512"

record device_use =
  du_committed_millis :: u32
  du_committed_sessions :: u32
  du_session_limit :: "u32 option"
  du_measured_millis :: "u32 option"

record room_inputs =
  in_cores :: u32
  in_memory_total_mib :: u64
  in_load :: load
  in_committed :: cost
  in_reserve_millicores :: u32
  in_device :: "device_use option"
  in_uplink_kbps :: "u32 option"

text \<open>\<open>clamp(0, u32::MAX) as u32\<close> of an \<open>i64\<close>.\<close>

definition clamp_u32 :: "int \<Rightarrow> u32" where
  "clamp_u32 i = of_int (min (max i 0) (2 ^ 32 - 1))"

definition cpu_left :: "room_inputs \<Rightarrow> u32" where
  "cpu_left i =
    (let cap = uint (max (in_cores i) 1) * 1000;
         own = uint (max (ld_own_millicores (in_load i)) (cpu_millicores (in_committed i)))
     in clamp_u32 (cap - uint (in_reserve_millicores i) - uint (ld_others_peak_millicores (in_load i)) - own))"

definition memory_left :: "room_inputs \<Rightarrow> u32" where
  "memory_left i =
    (let mem_reserve = memory_reserve (in_memory_total_mib i);
         by_book = saturating_sub (in_memory_total_mib i) (mem_reserve + ucast (memory_mib (in_committed i)));
         memory = (case ld_available_mib (in_load i) of
                     Some a \<Rightarrow> min (saturating_sub a mem_reserve) by_book
                   | None \<Rightarrow> by_book)
     in ucast (min memory (ucast (- 1 :: u32))))"

definition device_left :: "device_use option \<Rightarrow> u32 \<times> u32" where
  "device_left du =
    (case du of
       Some d \<Rightarrow>
         (let busy = max (case du_measured_millis d of Some m \<Rightarrow> m | None \<Rightarrow> 0) (du_committed_millis d)
          in (saturating_sub 900 busy,
              case du_session_limit d of None \<Rightarrow> UNLIMITED
              | Some l \<Rightarrow> saturating_sub l (du_committed_sessions d)))
     | None \<Rightarrow> (0, 0))"

definition egress_left :: "room_inputs \<Rightarrow> u32" where
  "egress_left i =
    (case in_uplink_kbps i of
       Some u \<Rightarrow> saturating_sub (u div 5 * 4) (egress_kbps (in_committed i))
     | None \<Rightarrow> UNLIMITED)"

definition have_room :: "room_inputs \<Rightarrow> cost" where
  "have_room i =
    \<lparr>cpu_millicores = cpu_left i,
     device_millis = fst (device_left (in_device i)),
     device_sessions = snd (device_left (in_device i)),
     memory_mib = memory_left i,
     egress_kbps = egress_left i\<rparr>"

text \<open>The words of \<open>short\<close>.\<close>

definition short_of :: "cost \<Rightarrow> cost \<Rightarrow> string list" where
  "short_of need room =
     (if cpu_millicores room < cpu_millicores need then [''cpu''] else []) @
     (if device_millis room < device_millis need then [''device''] else []) @
     (if device_sessions room < device_sessions need then [''sessions''] else []) @
     (if memory_mib room < memory_mib need then [''memory''] else []) @
     (if egress_kbps room < egress_kbps need then [''uplink''] else [])"

definition short_name :: "string \<Rightarrow> string option" where
  "short_name name = List.find (\<lambda>n. n = name) [''cpu'', ''device'', ''sessions'', ''memory'', ''uplink'']"

subsection \<open>What fits\<close>

definition cost_le :: "cost \<Rightarrow> cost \<Rightarrow> bool" where
  "cost_le a b \<longleftrightarrow> cpu_millicores a \<le> cpu_millicores b \<and> device_millis a \<le> device_millis b \<and>
     device_sessions a \<le> device_sessions b \<and> memory_mib a \<le> memory_mib b \<and> egress_kbps a \<le> egress_kbps b"

lemma short_of_Nil: "short_of need room = [] \<longleftrightarrow> cost_le need room"
  by (auto simp: short_of_def cost_le_def not_less split: if_splits)

lemma short_name_known: "n \<in> set (short_of need room) \<Longrightarrow> short_name n = Some n"
  by (auto simp: short_of_def short_name_def split: if_splits)

lemma List_map_filter_short: "List.map_filter short_name (short_of need room) = short_of need room"
proof -
  have "List.map_filter f xs = xs" if "\<And>x. x \<in> set xs \<Longrightarrow> f x = Some x" for f :: "string \<Rightarrow> string option" and xs
    using that by (induction xs) (auto simp: List.map_filter_simps)
  then show ?thesis using short_name_known by blast
qed

subsection \<open>Bounds\<close>

text \<open>As numbers: what the reserve is of a machine of \<open>cores\<close>, where the product does not wrap.\<close>

lemma unat_cap:
  assumes "unat (c :: u32) * 1000 < 2 ^ 32"
  shows "unat (max c 1 * 1000) = max (unat c) 1 * 1000"
proof -
  have "unat (max c 1) = max (unat c) 1" by (auto simp: max_def word_le_nat_alt)
  then show ?thesis using assms by (simp add: unat_word_ariths)
qed

lemma unat_min_word: "unat (min a b) = min (unat a) (unat (b :: 'a::len word))"
  by (simp add: min_def word_le_nat_alt)

lemma unat_max_word: "unat (max a b) = max (unat a) (unat (b :: 'a::len word))"
  by (simp add: max_def word_le_nat_alt)

lemma unat_reserve:
  assumes "unat c * 1000 < 2 ^ 32"
  shows "unat (reserve c desktop jitter None) =
    min (max (max (unat c) 1 * 1000 div (if desktop then 5 else 12)) (if desktop then 1500 else 500)
         + min (unat jitter) (max (unat c) 1 * 1000 div 4)) (max (unat c) 1 * 1000 div 2)"
proof -
  define cap where "cap = max c 1 * 1000"
  define n where "n = max (unat c) 1 * 1000"
  have cap: "unat cap = n" using unat_cap [OF assms] by (simp add: cap_def n_def)
  have n: "n < 2 ^ 32" using assms by (simp add: n_def)
  define base where "base = (if desktop then max (cap div 5) 1500 else max (cap div 12) 500)"
  have base: "unat base = max (n div (if desktop then 5 else 12)) (if desktop then 1500 else 500)"
    by (simp add: base_def unat_max_word unat_div cap)
  have j: "unat (min jitter (cap div 4)) = min (unat jitter) (n div 4)"
    by (simp add: unat_min_word unat_div cap)
  have "unat base + unat (min jitter (cap div 4)) < 2 ^ 32" unfolding base j using n by auto
  then have "unat (base + min jitter (cap div 4)) = unat base + unat (min jitter (cap div 4))"
    by (intro unat_add_no_wrap) simp
  then have "unat (min (base + min jitter (cap div 4)) (cap div 2)) =
      min (unat base + unat (min jitter (cap div 4))) (n div 2)"
    by (simp add: unat_min_word unat_div cap)
  moreover have "reserve c desktop jitter None = min (base + min jitter (cap div 4)) (cap div 2)"
    by (simp add: reserve_def Let_def cap_def base_def)
  ultimately show ?thesis by (simp only: base j n_def)
qed

lemma reserve_mono:
  assumes "unat c * 1000 < 2 ^ 32" "j \<le> k"
  shows "reserve c desktop j ov \<le> reserve c desktop k ov"
proof (cases ov)
  case None
  have "unat j \<le> unat k" using assms(2) by (simp add: word_le_nat_alt)
  then show ?thesis
    unfolding word_le_nat_alt None unat_reserve [OF assms(1)]
    by (intro min.mono add_mono order_refl)
qed (simp add: reserve_def)

lemma reserve_le_cap:
  assumes "unat c * 1000 < 2 ^ 32"
  shows "unat (reserve c desktop j ov) \<le> max (unat c) 1 * 1000"
proof (cases ov)
  case None
  show ?thesis unfolding None unat_reserve [OF assms] by linarith
next
  case (Some x)
  then show ?thesis using unat_cap [OF assms] by (simp add: reserve_def Let_def unat_min_word)
qed

lemma unat_memory_reserve: "unat (memory_reserve t) = max (unat t div 10) 512"
  by (simp add: memory_reserve_def unat_max_word unat_div)

lemma unat_clamp_u32: "int (unat (clamp_u32 i)) = min (max i 0) (2 ^ 32 - 1)"
proof -
  define x where "x = min (max i 0) (2 ^ 32 - 1)"
  have "0 \<le> x" "x < 2 ^ 32" by (simp_all add: x_def)
  then have "uint (of_int x :: u32) = x" by (simp add: uint_word_of_int_eq take_bit_int_eq_self)
  then show ?thesis unfolding clamp_u32_def x_def uint_nat .
qed

text \<open>What is granted within the CPU that is left keeps the promised CPU within the machine.\<close>

lemma cpu_left_bound:
  assumes "need \<le> cpu_left i" "0 < unat need"
  shows "unat (cpu_millicores (in_committed i)) + unat need + unat (in_reserve_millicores i)
    \<le> max (unat (in_cores i)) 1 * 1000"
proof -
  define own where "own = max (ld_own_millicores (in_load i)) (cpu_millicores (in_committed i))"
  define x where "x = uint (max (in_cores i) 1) * 1000 - uint (in_reserve_millicores i)
    - uint (ld_others_peak_millicores (in_load i)) - uint own"
  have "unat need \<le> unat (clamp_u32 x)"
    using assms(1) by (simp add: word_le_nat_alt cpu_left_def Let_def x_def own_def)
  then have need: "int (unat need) \<le> max x 0"
    using unat_clamp_u32 [of x] by linarith
  have "uint (max (in_cores i) 1) = int (max (unat (in_cores i)) 1)"
    unfolding uint_nat unat_max_word by simp
  moreover have "int (unat (cpu_millicores (in_committed i))) \<le> uint own"
    unfolding uint_nat own_def unat_max_word by (rule of_nat_mono) (rule max.cobounded2)
  moreover have "0 \<le> uint (ld_others_peak_millicores (in_load i))" by simp
  ultimately have "x \<le> int (max (unat (in_cores i)) 1) * 1000 - int (unat (in_reserve_millicores i))
      - int (unat (cpu_millicores (in_committed i)))"
    unfolding x_def uint_nat by linarith
  with need assms(2) show ?thesis by linarith
qed

lemma memory_left_within:
  assumes "need \<le> memory_left i" "unat (in_memory_total_mib i) < 2 ^ 63"
    and "unat (memory_mib (in_committed i)) \<le> unat (in_memory_total_mib i) - unat (memory_reserve (in_memory_total_mib i))"
  shows "unat (memory_mib (in_committed i)) + unat need
    \<le> unat (in_memory_total_mib i) - unat (memory_reserve (in_memory_total_mib i))"
proof -
  define t where "t = in_memory_total_mib i"
  define c :: u64 where "c = ucast (memory_mib (in_committed i))"
  define by_book where "by_book = saturating_sub t (memory_reserve t + c)"
  define m where "m = (case ld_available_mib (in_load i) of
      Some a \<Rightarrow> min (saturating_sub a (memory_reserve t)) by_book | None \<Rightarrow> by_book)"
  have c32: "unat (memory_mib (in_committed i)) < 2 ^ 32" using unsigned_less [of "memory_mib (in_committed i)"] by simp
  then have c: "unat c = unat (memory_mib (in_committed i))"
    by (simp add: c_def unsigned_ucast_eq take_bit_nat_eq_self_iff)
  have t: "unat t < 2 ^ 63" using assms(2) by (simp add: t_def)
  have "unat (memory_reserve t) + unat c < 2 ^ 64" using t c c32 by (simp add: unat_memory_reserve)
  then have "unat (memory_reserve t + c) = unat (memory_reserve t) + unat c" by (intro unat_add_no_wrap) simp
  then have bb: "unat by_book = unat t - (unat (memory_reserve t) + unat c)" by (simp add: by_book_def)
  have "m \<le> by_book" by (simp add: m_def split: option.splits)
  then have m: "unat m \<le> unat by_book" by (simp add: word_le_nat_alt)
  have "memory_left i = ucast (min m (ucast (- 1 :: u32)))"
    unfolding memory_left_def Let_def m_def by_book_def t_def c_def by (rule refl)
  then have "unat (memory_left i) \<le> unat (min m (ucast (- 1 :: u32)))"
    by (simp add: unsigned_ucast_eq take_bit_nat_less_eq_self)
  also have "\<dots> \<le> unat m" unfolding unat_min_word by (rule min.cobounded1)
  finally have "unat (memory_left i) \<le> unat m" .
  with assms(1) m bb have "unat need \<le> unat t - (unat (memory_reserve t) + unat c)"
    by (simp add: word_le_nat_alt)
  then show ?thesis using assms(3) unfolding c [symmetric] t_def [symmetric] by linarith
qed

end
