(* ===== verification/Advice.thy ===== *)
theory Advice
  imports Profile Headroom
begin

text \<open>
  A refusal that helps (\<open>crates/godwinmix-govern/src/advice.rs\<close>): what the work needs and what is free
  in words, and the encodes that would fit instead.
\<close>

record advice_fit =
  af_label :: string
  af_slot :: encoder_slot
  af_width :: u32
  af_height :: u32
  af_fps :: fps
  af_cost :: cost

record advice =
  ad_text :: string
  ad_short :: "string list"
  ad_fits :: "advice_fit list"

fun codec_name :: "video_codec \<Rightarrow> string" where
  "codec_name H264 = ''H.264''"
| "codec_name H265 = ''HEVC''"
| "codec_name Av1 = ''AV1''"
| "codec_name Vp8 = ''VP8''"
| "codec_name Vp9 = ''VP9''"
| "codec_name Mpeg2 = ''MPEG-2''"
| "codec_name Prores = ''ProRes''"
| "codec_name OtherVideo = ''video''"

definition SHAPES :: "(u32 \<times> u32 \<times> u32) list" where
  "SHAPES = [(1920, 1080, 60), (1920, 1080, 30), (1280, 720, 60), (1280, 720, 30), (854, 480, 30)]"

definition cores_text :: "u32 \<Rightarrow> string" where
  "cores_text m =
    (if m = 0 then ''0 cores''
     else if m \<le> 99 then show_fixed 2 (f_div (f_of (max m 10)) 1000) @ '' cores''
     else show_fixed 1 (f_div (f_of m) 1000) @ '' cores'')"

definition amount_part :: "cost \<Rightarrow> string \<Rightarrow> string" where
  "amount_part c s =
    (if s = ''cpu'' then cores_text (cpu_millicores c)
     else if s = ''device'' then show_word (device_millis c div 10) @ ''% of the GPU encoder''
     else if s = ''sessions'' \<and> device_sessions c = UNLIMITED then ''any number of encoder sessions''
     else if s = ''sessions'' then show_word (device_sessions c) @ '' encoder sessions''
     else if s = ''memory'' then show_word (memory_mib c) @ '' MiB of memory''
     else show_word (egress_kbps c) @ '' kbit/s of uplink'')"

definition amount :: "cost \<Rightarrow> string list \<Rightarrow> string" where
  "amount c ss =
    (let parts = map (amount_part c) ss
     in join '' and '' (if parts = [] then [cores_text (cpu_millicores c)] else parts))"

definition all_slots :: "profile \<Rightarrow> encoder_slot list" where
  "all_slots p = concat (map (profile_encoders p) [H264, H265, Av1, Vp9, Vp8])"

definition offer_shape :: "encoder_slot \<Rightarrow> u32 \<times> u32 \<times> u32 \<Rightarrow> video_shape" where
  "offer_shape s d =
    (case d of (w, h, f) \<Rightarrow>
      \<lparr>vs_codec = es_codec s, vs_width = w, vs_height = h, vs_fps = fps_whole f, vs_bitrate_kbps = 0, vs_keyframe_ms = 0\<rparr>)"

text \<open>The largest shape an encoder has room for.\<close>

definition best_shape :: "profile \<Rightarrow> (string option \<Rightarrow> cost) \<Rightarrow> encoder_slot \<Rightarrow> (video_shape \<times> cost) option" where
  "best_shape p have_on s =
     find_map (\<lambda>d. let shape = offer_shape s d; c = profile_encode_cost p s shape in
                   if short_of c (have_on (es_device s)) = [] then Some (shape, c) else None) SHAPES"

definition fit_of :: "encoder_slot \<Rightarrow> video_shape \<times> cost \<Rightarrow> advice_fit" where
  "fit_of s best =
    (case best of (shape, c) \<Rightarrow>
      \<lparr>af_label = show_word (vs_height shape) @ ''p'' @ show_word (fps_num (vs_fps shape)) @ '' '' @
         codec_name (es_codec s) @ '' on '' @ (if es_hardware s then ''the GPU encoder '' else []) @ es_id s,
       af_slot = s, af_width = vs_width shape, af_height = vs_height shape, af_fps = vs_fps shape, af_cost = c\<rparr>)"

text \<open>Largest picture first, H.264 ahead of the rest at the same size.\<close>

definition fit_key :: "advice_fit \<Rightarrow> f64 \<times> bool" where
  "fit_key f = (- mpix (af_width f) (af_height f) (af_fps f), es_codec (af_slot f) \<noteq> H264)"

definition fits_now :: "profile \<Rightarrow> (string option \<Rightarrow> cost) \<Rightarrow> advice_fit list" where
  "fits_now p have_on =
     sort_key fit_key (List.map_filter (\<lambda>s. map_option (fit_of s) (best_shape p have_on s)) (all_slots p))"

definition advise :: "string \<Rightarrow> cost \<Rightarrow> cost \<Rightarrow> profile \<Rightarrow> (string option \<Rightarrow> cost) \<Rightarrow> advice" where
  "advise what need room p have_on =
    (let short = short_of need room;
         fits = fits_now p have_on;
         soft = List.find (\<lambda>f. \<not> es_hardware (af_slot f)) fits;
         hard = List.find (\<lambda>f. es_hardware (af_slot f)) fits;
         text = what @ '' needs '' @ amount need short @ '' and '' @ amount room short @ '' is free.'' @
           (case (soft, hard) of
              (Some s, Some h) \<Rightarrow> '' '' @ af_label s @ '' fits, or '' @ af_label h @ ''.''
            | (Some f, None) \<Rightarrow> '' '' @ af_label f @ '' fits.''
            | (None, Some f) \<Rightarrow> '' '' @ af_label f @ '' fits.''
            | (None, None) \<Rightarrow> '' Nothing more fits now: stop a preview or an output, or make one that is running smaller.'') @
           (if is_calibrated p then []
            else '' This machine has not been measured yet, so these figures are cautious guesses.'')
     in \<lparr>ad_text = text, ad_short = short, ad_fits = fits\<rparr>)"

subsection \<open>What is offered\<close>

lemma advise_sel [simp]:
  "ad_short (advise what need room p have_on) = short_of need room"
  "ad_fits (advise what need room p have_on) = fits_now p have_on"
  by (simp_all add: advise_def Let_def)

lemma best_shape_fits:
  assumes "best_shape p have_on s = Some (shape, c)"
  shows "c = profile_encode_cost p s shape \<and> cost_le c (have_on (es_device s))
    \<and> (\<exists>d \<in> set SHAPES. shape = offer_shape s d)"
  using find_map_Some [OF assms [unfolded best_shape_def]]
  by (auto simp: Let_def short_of_Nil split: if_splits)

lemma all_slots_encoders: "s \<in> set (all_slots p) \<Longrightarrow> s \<in> set (all_encoders p)"
  by (auto simp: all_slots_def profile_encoders_def all_encoders_def)

lemma fits_now_member:
  assumes "f \<in> set (fits_now p have_on)"
  shows "\<exists>s \<in> set (all_slots p). \<exists>best. best_shape p have_on s = Some best \<and> f = fit_of s best"
proof -
  from assms obtain s best where "s \<in> set (all_slots p)" "best_shape p have_on s = Some best" "f = fit_of s best"
    by (auto simp: fits_now_def List.map_filter_def)
  then show ?thesis by blast
qed

lemma fits_now_complete:
  assumes "s \<in> set (all_slots p)" "d \<in> set SHAPES"
    and "cost_le (profile_encode_cost p s (offer_shape s d)) (have_on (es_device s))"
  shows "\<exists>f \<in> set (fits_now p have_on). af_slot f = s"
proof -
  have "best_shape p have_on s \<noteq> None"
    using assms(2,3) unfolding best_shape_def find_map_None by (auto simp: Let_def short_of_Nil)
  then obtain best where "best_shape p have_on s = Some best" by blast
  with assms(1) have "fit_of s best \<in> set (fits_now p have_on)"
    by (force simp: fits_now_def List.map_filter_def)
  moreover have "af_slot (fit_of s best) = s" by (simp add: fit_of_def split: prod.split)
  ultimately show ?thesis by blast
qed

end
