(* ===== verification/Governor.thy ===== *)
theory Governor
  imports Store Shed Advice
begin

text \<open>
  The governor (\<open>crates/godwinmix-govern/src/governor/\<close>, \<open>ticket.rs\<close> and \<open>remote.rs\<close>): the book of
  tickets, admission, release and shedding, and the two halves of the link between a show's governor
  and its station's. Every method that locks the book or a field is one step on the state; the
  \<open>Weak\<close> pointer of a ticket is taken to be alive (a dead one makes its operations do nothing).
\<close>

subsection \<open>Claims, tickets and answers (\<open>admit.rs\<close>, \<open>ticket.rs\<close>)\<close>

record claim =
  cl_what :: string
  cl_cost :: cost
  cl_kind :: kind
  cl_device :: "string option"
  cl_encode :: "work_encode option"

definition claim_new :: "string \<Rightarrow> cost \<Rightarrow> claim" where
  "claim_new what c = \<lparr>cl_what = what, cl_cost = c, cl_kind = OtherWork, cl_device = None, cl_encode = None\<rparr>"

record ticket =
  tk_id :: u64
  tk_cost :: cost
  tk_preset :: "string option"
  tk_remote :: bool

datatype admitted = Granted ticket | Refused cost cost advice

fun granted :: "admitted \<Rightarrow> ticket option" where
  "granted (Granted t) = Some t"
| "granted (Refused _ _ _) = None"

subsection \<open>The link to a station (\<open>remote.rs\<close>)\<close>

record ask =
  ak_what :: string
  ak_cost :: cost
  ak_kind :: kind
  ak_device :: "string option"
  ak_encode :: "(encoder_slot \<times> video_shape) option"

datatype answer =
  AnswerGranted u64 cost "string option"
| AnswerRefused cost cost string "string list" "advice_fit list"

text \<open>
  The trait \<open>Remote\<close> as it stands at one moment: what the station would answer an ask (nothing when it
  cannot be reached), what it last said to give up, and the numbers it has been told to release.
\<close>

record remote =
  rl_ask :: "ask \<Rightarrow> answer option"
  rl_shed :: "shed_step list"
  rl_released :: "u64 list"

definition ask_of :: "claim \<Rightarrow> ask" where
  "ask_of c =
    \<lparr>ak_what = cl_what c, ak_cost = cl_cost c, ak_kind = cl_kind c, ak_device = cl_device c,
     ak_encode = map_option (\<lambda>e. (we_slot e, we_shape e)) (cl_encode c)\<rparr>"

fun admit_of :: "answer \<Rightarrow> admitted" where
  "admit_of (AnswerGranted i c n) = Granted \<lparr>tk_id = i, tk_cost = c, tk_preset = n, tk_remote = True\<rparr>"
| "admit_of (AnswerRefused need room text short fits) =
     Refused need room \<lparr>ad_text = text, ad_short = List.map_filter short_name short, ad_fits = fits\<rparr>"

subsection \<open>The book (\<open>mod.rs\<close>)\<close>

text \<open>The \<open>BTreeMap\<close> of tickets is the list of its entries in the order of the numbers.\<close>

record book =
  bk_next :: u64
  bk_held :: "(u64 \<times> held) list"

definition book_default :: book where
  "book_default = \<lparr>bk_next = 0, bk_held = []\<rparr>"

definition book_get :: "book \<Rightarrow> u64 \<Rightarrow> held option" where
  "book_get b = map_of (bk_held b)"

definition book_ids :: "book \<Rightarrow> u64 list" where
  "book_ids b = map fst (bk_held b)"

definition book_insert :: "u64 \<Rightarrow> held \<Rightarrow> book \<Rightarrow> book" where
  "book_insert i h b = b\<lparr>bk_held := insort_key fst (i, h) (filter (\<lambda>e. fst e \<noteq> i) (bk_held b))\<rparr>"

definition book_remove :: "u64 \<Rightarrow> book \<Rightarrow> book" where
  "book_remove i b = b\<lparr>bk_held := filter (\<lambda>e. fst e \<noteq> i) (bk_held b)\<rparr>"

definition book_values :: "book \<Rightarrow> held list" where
  "book_values b = map snd (bk_held b)"

definition book_total :: "book \<Rightarrow> cost" where
  "book_total b = foldl (\<lambda>a h. cost_plus a (hl_cost h)) cost_default (book_values b)"

definition on_device :: "book \<Rightarrow> string \<Rightarrow> u32 \<times> u32" where
  "on_device b d =
     foldl (\<lambda>(m, s) h. (m + device_millis (hl_cost h), s + device_sessions (hl_cost h))) (0, 0)
       (filter (\<lambda>h. hl_device h = Some d) (book_values b))"

subsection \<open>The governor\<close>

record governor =
  gv_cores :: u32
  gv_memory_total_mib :: u64
  gv_config :: governor_config
  gv_profile :: profile
  gv_load :: load_cell
  gv_book :: book
  gv_remote :: "remote option"

definition with_machine :: "governor_config \<Rightarrow> profile \<Rightarrow> u32 \<Rightarrow> u64 \<Rightarrow> governor" where
  "with_machine config p cores memory_total_mib =
    \<lparr>gv_cores = max cores 1, gv_memory_total_mib = memory_total_mib, gv_config = config, gv_profile = p,
     gv_load = load_cell_default, gv_book = book_default, gv_remote = None\<rparr>"

definition set_profile :: "profile \<Rightarrow> governor \<Rightarrow> governor" where
  "set_profile p g = g\<lparr>gv_profile := p\<rparr>"

definition set_remote :: "remote \<Rightarrow> governor \<Rightarrow> governor" where
  "set_remote r g = g\<lparr>gv_remote := Some r\<rparr>"

definition governor_set_elsewhere :: "u32 \<Rightarrow> governor \<Rightarrow> governor" where
  "governor_set_elsewhere millicores g = g\<lparr>gv_load := set_elsewhere millicores (gv_load g)\<rparr>"

definition governor_load :: "governor \<Rightarrow> load" where
  "governor_load g = cell_load (gv_load g)"

definition governor_reserve :: "governor \<Rightarrow> u32" where
  "governor_reserve g =
     reserve (gv_cores g) (gc_desktop (gv_config g)) (ld_jitter_millicores (governor_load g)) (reserve_override (gv_config g))"

definition limit_on :: "governor \<Rightarrow> string \<Rightarrow> u32 option" where
  "limit_on g d = (case sessions_on (gv_config g) d of Some l \<Rightarrow> Some l | None \<Rightarrow> session_limit (gv_profile g) d)"

definition device_use_of :: "governor \<Rightarrow> book \<Rightarrow> load \<Rightarrow> string \<Rightarrow> device_use" where
  "device_use_of g b l d =
     \<lparr>du_committed_millis = fst (on_device b d), du_committed_sessions = snd (on_device b d),
      du_session_limit = limit_on g d, du_measured_millis = load_device l d\<rparr>"

definition governor_have :: "governor \<Rightarrow> book \<Rightarrow> load \<Rightarrow> string option \<Rightarrow> cost" where
  "governor_have g b l device =
     have_room
      \<lparr>in_cores = gv_cores g, in_memory_total_mib = gv_memory_total_mib g, in_load = l,
       in_committed = book_total b,
       in_reserve_millicores = reserve (gv_cores g) (gc_desktop (gv_config g)) (ld_jitter_millicores l)
         (reserve_override (gv_config g)),
       in_device = map_option (device_use_of g b l) device,
       in_uplink_kbps = gc_uplink_kbps (gv_config g)\<rparr>"

definition headroom :: "governor \<Rightarrow> string option \<Rightarrow> cost" where
  "headroom g device = governor_have g (gv_book g) (governor_load g) device"

definition governor_held :: "governor \<Rightarrow> held list" where
  "governor_held g = book_values (gv_book g)"

subsection \<open>Admission (\<open>admit.rs\<close>)\<close>

text \<open>The device a claim runs on: the profile's first one when the cost uses one and none is named.\<close>

definition placed :: "profile \<Rightarrow> claim \<Rightarrow> claim" where
  "placed p c =
    (if cl_device c = None \<and> (0 < device_millis (cl_cost c) \<or> 0 < device_sessions (cl_cost c))
     then c\<lparr>cl_device := (case profile_devices p of [] \<Rightarrow> None | d # _ \<Rightarrow> Some d)\<rparr> else c)"

definition held_of :: "u64 \<Rightarrow> claim \<Rightarrow> held" where
  "held_of i c =
     \<lparr>hl_id = i, hl_what = cl_what c, hl_cost = cl_cost c, hl_kind = cl_kind c, hl_device = cl_device c,
      hl_encode = cl_encode c\<rparr>"

definition admit_local :: "governor \<Rightarrow> claim \<Rightarrow> admitted \<times> governor" where
  "admit_local g claim =
    (let c = placed (gv_profile g) claim;
         l = governor_load g;
         b = gv_book g;
         room = governor_have g b l (cl_device c)
     in if short_of (cl_cost c) room = []
        then (let i = bk_next b + 1 in
              (Granted \<lparr>tk_id = i, tk_cost = cl_cost c, tk_preset = Option.bind (cl_encode c) we_preset, tk_remote = False\<rparr>,
               g\<lparr>gv_book := book_insert i (held_of i c) (b\<lparr>bk_next := i\<rparr>)\<rparr>))
        else (Refused (cl_cost c) room
                (advise (cl_what c) (cl_cost c) room (gv_profile g) (\<lambda>d. governor_have g (gv_book g) l d)), g))"

definition admit_claim :: "governor \<Rightarrow> claim \<Rightarrow> admitted \<times> governor" where
  "admit_claim g c =
    (case Option.bind (gv_remote g) (\<lambda>r. rl_ask r (ask_of c)) of
       Some a \<Rightarrow> (admit_of a, g)
     | None \<Rightarrow> admit_local g c)"

definition admit_cost :: "governor \<Rightarrow> cost \<Rightarrow> string \<Rightarrow> admitted \<times> governor" where
  "admit_cost g c what = admit_claim g (claim_new what c)"

text \<open>The cost and the preset an encode asks at: a faster preset when the configured one does not fit.\<close>

definition encode_offer :: "governor \<Rightarrow> encoder_slot \<Rightarrow> video_shape \<Rightarrow> cost \<times> string option" where
  "encode_offer g slot shape =
    (let p = gv_profile g;
         c = profile_encode_cost p slot shape;
         room = cpu_millicores (headroom g None)
     in if \<not> es_hardware slot \<and> room < cpu_millicores c
        then (case preset_that_fits p slot shape room of
                Some n \<Rightarrow> (encode_cost_at p slot shape (Some n), Some n)
              | None \<Rightarrow> (c, configured_preset p slot))
        else (c, configured_preset p slot))"

definition encode_claim :: "governor \<Rightarrow> encoder_slot \<Rightarrow> video_shape \<Rightarrow> string \<Rightarrow> kind \<Rightarrow> claim" where
  "encode_claim g slot shape what k =
    (case encode_offer g slot shape of (c, n) \<Rightarrow>
      \<lparr>cl_what = what, cl_cost = c, cl_kind = k, cl_device = es_device slot,
       cl_encode = Some \<lparr>we_slot = slot, we_shape = shape, we_preset = n\<rparr>\<rparr>)"

definition admit_encode :: "governor \<Rightarrow> encoder_slot \<Rightarrow> video_shape \<Rightarrow> string \<Rightarrow> kind \<Rightarrow> admitted \<times> governor" where
  "admit_encode g slot shape what k = admit_claim g (encode_claim g slot shape what k)"

subsection \<open>Release, lowering and shedding (\<open>ticket.rs\<close>, \<open>room.rs\<close>)\<close>

definition release :: "u64 \<Rightarrow> governor \<Rightarrow> governor" where
  "release i g = g\<lparr>gv_book := book_remove i (gv_book g)\<rparr>"

definition release_remote :: "u64 \<Rightarrow> governor \<Rightarrow> governor" where
  "release_remote i g = g\<lparr>gv_remote := map_option (\<lambda>r. r\<lparr>rl_released := rl_released r @ [i]\<rparr>) (gv_remote g)\<rparr>"

definition ticket_drop :: "ticket \<Rightarrow> governor \<Rightarrow> governor" where
  "ticket_drop t g = (if tk_remote t then release_remote (tk_id t) g else release (tk_id t) g)"

definition lower_held :: "string \<Rightarrow> cost \<Rightarrow> held \<Rightarrow> held" where
  "lower_held preset c h = h\<lparr>hl_cost := c, hl_encode := map_option (\<lambda>e. e\<lparr>we_preset := Some preset\<rparr>) (hl_encode h)\<rparr>"

definition book_lower :: "u64 \<Rightarrow> string \<Rightarrow> cost \<Rightarrow> book \<Rightarrow> book" where
  "book_lower i preset c b =
     b\<lparr>bk_held := map (\<lambda>(k, h). (k, if k = i then lower_held preset c h else h)) (bk_held b)\<rparr>"

definition ticket_lower :: "string \<Rightarrow> cost \<Rightarrow> ticket \<Rightarrow> governor \<Rightarrow> ticket \<times> governor" where
  "ticket_lower preset c t g =
    (t\<lparr>tk_preset := Some preset, tk_cost := c\<rparr>, g\<lparr>gv_book := book_lower (tk_id t) preset c (gv_book g)\<rparr>)"

definition governor_shed :: "governor \<Rightarrow> shed_step list" where
  "governor_shed g =
    (case gv_remote g of
       Some r \<Rightarrow> rl_shed r
     | None \<Rightarrow>
        (let l = governor_load g;
             cap = gv_cores g * 1000;
             res = governor_reserve g;
             over = saturating_sub cap res
         in if ld_samples l = 0 \<or> ld_system_millicores l \<le> saturating_sub cap (res div 2) then []
            else shed_plan (governor_held g) (ld_system_millicores l - over) (gv_profile g)))"

text \<open>The station's half of the link (\<open>answer\<close>): admit an ask, keep the ticket, say what was decided.\<close>

definition answer_of :: "admitted \<Rightarrow> answer \<times> ticket option" where
  "answer_of a =
    (case a of
       Granted t \<Rightarrow> (AnswerGranted (tk_id t) (tk_cost t) (tk_preset t), Some t)
     | Refused need room adv \<Rightarrow> (AnswerRefused need room (ad_text adv) (ad_short adv) (ad_fits adv), None))"

definition admit_ask :: "governor \<Rightarrow> ask \<Rightarrow> admitted \<times> governor" where
  "admit_ask g a =
    (case ak_encode a of
       Some (slot, shape) \<Rightarrow> admit_encode g slot shape (ak_what a) (ak_kind a)
     | None \<Rightarrow> admit_claim g ((claim_new (ak_what a) (ak_cost a))\<lparr>cl_kind := ak_kind a, cl_device := ak_device a\<rparr>))"

definition answer_ask :: "governor \<Rightarrow> ask \<Rightarrow> (answer \<times> ticket option) \<times> governor" where
  "answer_ask g a =
    (let (adm, g) = admit_ask g a in (answer_of adm, g))"

end
