(* ===== verification/Governor_Run.thy ===== *)
theory Governor_Run
  imports Governor
begin

text \<open>
  What a governor keeps to over any run: the book as a keyed map that forgets, the sums it admits
  against as numbers that do not wrap, the steps of a governor and the invariant that nothing is ever
  promised twice.
\<close>

subsection \<open>The book is a keyed map that forgets\<close>

definition book_inv :: "book \<Rightarrow> bool" where
  "book_inv b \<longleftrightarrow> sorted (book_ids b) \<and> distinct (book_ids b)"

lemma map_of_insort_key:
  "k \<notin> fst ` set xs \<Longrightarrow> map_of (insort_key fst (k, v) xs) = (map_of xs)(k \<mapsto> v)"
  by (induction xs) (auto simp: fun_eq_iff)

lemma map_fst_insort: "map fst (insort_key fst x xs) = insort (fst x) (map fst xs)"
  by (induction xs) auto

lemma filter_key_id: "k \<notin> fst ` set xs \<Longrightarrow> filter (\<lambda>e. fst e \<noteq> k) xs = xs"
  by (simp add: filter_id_conv) (metis imageI)

lemma map_of_filter_key: "map_of (filter (\<lambda>e. fst e \<noteq> k) xs) = (map_of xs)(k := None)"
  by (induction xs) (auto simp: fun_eq_iff)

lemma book_get_None: "book_get b i = None \<longleftrightarrow> i \<notin> fst ` set (bk_held b)"
  by (simp add: book_get_def map_of_eq_None_iff)

interpretation tickets_book: keyed_map_del book_inv book_ids book_get book_insert book_remove
proof unfold_locales
  fix s :: book and k :: u64
  assume inv: "book_inv s"
  show "distinct (book_ids s)" using inv by (simp add: book_inv_def)
  show "(book_get s k \<noteq> None) = (k \<in> set (book_ids s))" by (auto simp: book_get_None book_ids_def)
next
  fix s :: book and k :: u64 and v
  assume inv: "book_inv s" and new: "book_get s k = None"
  have fresh: "k \<notin> fst ` set (bk_held s)" using new by (simp add: book_get_None)
  have ids: "book_ids (book_insert k v s) = insort k (book_ids s)"
    by (simp add: book_ids_def book_insert_def map_fst_insort filter_key_id [OF fresh])
  show "book_inv (book_insert k v s)"
    using inv fresh by (simp add: book_inv_def ids sorted_insort distinct_insort) (simp add: book_ids_def)
  show "book_get (book_insert k v s) = (book_get s)(k \<mapsto> v)"
    by (simp add: book_get_def book_insert_def filter_key_id [OF fresh] map_of_insort_key [OF fresh])
next
  fix s :: book and k :: u64
  assume inv: "book_inv s"
  have ids: "book_ids (book_remove k s) = filter (\<lambda>i. i \<noteq> k) (book_ids s)"
    by (simp add: book_ids_def book_remove_def filter_map comp_def)
  show "book_inv (book_remove k s)" using inv by (simp add: book_inv_def ids sorted_wrt_filter)
  show "book_get (book_remove k s) = (book_get s)(k := None)"
    by (simp add: book_get_def book_remove_def map_of_filter_key)
qed

subsection \<open>Sums as numbers\<close>

text \<open>A part of the cost of the work that a predicate picks, summed without wrapping.\<close>

definition promised :: "(cost \<Rightarrow> u32) \<Rightarrow> (held \<Rightarrow> bool) \<Rightarrow> book \<Rightarrow> nat" where
  "promised f P b = sum_list (map (\<lambda>h. unat (f (hl_cost h))) (filter P (book_values b)))"

abbreviation everything :: "held \<Rightarrow> bool" where
  "everything \<equiv> \<lambda>h. True"

abbreviation held_on :: "string \<Rightarrow> held \<Rightarrow> bool" where
  "held_on d \<equiv> \<lambda>h. hl_device h = Some d"

lemma unat_sum_list:
  fixes ws :: "u32 list"
  assumes "sum_list (map unat ws) < 2 ^ 32"
  shows "unat (sum_list ws) = sum_list (map unat ws)"
  using assms by (induction ws) (simp_all add: unat_add_no_wrap)

lemma foldl_plus_word: "foldl (\<lambda>a x. a + f x) (a :: u32) xs = a + sum_list (map f xs)"
  by (induction xs arbitrary: a) (simp_all add: add.assoc)

lemma foldl_cost:
  fixes hs :: "held list" and f :: "cost \<Rightarrow> u32"
  assumes "\<And>a b. f (cost_plus a b) = f a + f b"
  shows "f (foldl (\<lambda>a h. cost_plus a (hl_cost h)) c hs) = f c + sum_list (map (\<lambda>h. f (hl_cost h)) hs)"
  using assms
  by (induction hs arbitrary: c) (simp_all add: add.assoc)

lemma book_total_cpu:
  assumes "promised cpu_millicores everything b < 2 ^ 32"
  shows "unat (cpu_millicores (book_total b)) = promised cpu_millicores everything b"
  using unat_sum_list [of "map (\<lambda>h. cpu_millicores (hl_cost h)) (book_values b)"] assms
  by (simp add: book_total_def foldl_cost promised_def comp_def)

lemma book_total_memory:
  assumes "promised memory_mib everything b < 2 ^ 32"
  shows "unat (memory_mib (book_total b)) = promised memory_mib everything b"
  using unat_sum_list [of "map (\<lambda>h. memory_mib (hl_cost h)) (book_values b)"] assms
  by (simp add: book_total_def foldl_cost promised_def comp_def)

lemma book_total_egress:
  assumes "promised egress_kbps everything b < 2 ^ 32"
  shows "unat (egress_kbps (book_total b)) = promised egress_kbps everything b"
  using unat_sum_list [of "map (\<lambda>h. egress_kbps (hl_cost h)) (book_values b)"] assms
  by (simp add: book_total_def foldl_cost promised_def comp_def)

lemma on_device_sums:
  "on_device b d = (sum_list (map (\<lambda>h. device_millis (hl_cost h)) (filter (held_on d) (book_values b))),
                    sum_list (map (\<lambda>h. device_sessions (hl_cost h)) (filter (held_on d) (book_values b))))"
proof -
  have "foldl (\<lambda>(m, s) h. (m + device_millis (hl_cost h), s + device_sessions (hl_cost h))) (x, y) hs =
      (x + sum_list (map (\<lambda>h. device_millis (hl_cost h)) hs), y + sum_list (map (\<lambda>h. device_sessions (hl_cost h)) hs))"
    for x y and hs :: "held list"
    by (induction hs arbitrary: x y) (simp_all add: add.assoc)
  then show ?thesis by (simp add: on_device_def)
qed

lemma on_device_millis:
  assumes "promised device_millis (held_on d) b < 2 ^ 32"
  shows "unat (fst (on_device b d)) = promised device_millis (held_on d) b"
  using unat_sum_list [of "map (\<lambda>h. device_millis (hl_cost h)) (filter (held_on d) (book_values b))"] assms
  by (simp add: on_device_sums promised_def comp_def)

lemma on_device_sessions:
  assumes "promised device_sessions (held_on d) b < 2 ^ 32"
  shows "unat (snd (on_device b d)) = promised device_sessions (held_on d) b"
  using unat_sum_list [of "map (\<lambda>h. device_sessions (hl_cost h)) (filter (held_on d) (book_values b))"] assms
  by (simp add: on_device_sums promised_def comp_def)

text \<open>How the sums move: a new ticket adds its cost, a released one takes it away, a lowered one moves it.\<close>

lemma promised_insert:
  assumes "book_get b i = None"
  shows "promised f P (book_insert i h b) = promised f P b + (if P h then unat (f (hl_cost h)) else 0)"
proof -
  define G where "G e = (if P (snd e) then unat (f (hl_cost (snd e))) else 0)" for e :: "u64 \<times> held"
  have alt: "promised f P c = sum_list (map G (bk_held c))" for c
    by (simp add: promised_def book_values_def sum_list_map_filter' filter_map comp_def G_def [abs_def])
  have ins: "sum_list (map G (insort_key fst x xs)) = G x + sum_list (map G xs)" for x xs
    by (induction xs) auto
  have "i \<notin> fst ` set (bk_held b)" using assms by (simp add: book_get_None)
  then show ?thesis by (simp add: alt book_insert_def filter_key_id ins) (simp add: G_def)
qed

lemma promised_next [simp]: "promised f P (b\<lparr>bk_next := n\<rparr>) = promised f P b"
  by (simp add: promised_def book_values_def)

lemma promised_remove_le: "promised f P (book_remove i b) \<le> promised f P b"
proof -
  have "sum_list (map g (filter P (map snd (filter Q xs)))) \<le> sum_list (map g (filter P (map snd xs)))"
    for g :: "held \<Rightarrow> nat" and Q :: "u64 \<times> held \<Rightarrow> bool" and xs
    by (induction xs) auto
  then show ?thesis by (simp add: promised_def book_values_def book_remove_def)
qed

lemma lower_held_sel [simp]:
  "hl_cost (lower_held n c h) = c" "hl_device (lower_held n c h) = hl_device h"
  "hl_id (lower_held n c h) = hl_id h" "hl_kind (lower_held n c h) = hl_kind h"
  by (simp_all add: lower_held_def)

lemma promised_lower_le:
  assumes "\<forall>h. (i, h) \<in> set (bk_held b) \<longrightarrow> f c \<le> f (hl_cost h)" "\<And>h. P (lower_held n c h) = P h"
  shows "promised f P (book_lower i n c b) \<le> promised f P b"
proof -
  have "sum_list (map (\<lambda>h. unat (f (hl_cost h))) (filter P (map snd (map (\<lambda>(k, h). (k, if k = i then lower_held n c h else h)) xs))))
      \<le> sum_list (map (\<lambda>h. unat (f (hl_cost h))) (filter P (map snd xs)))"
    if "\<forall>h. (i, h) \<in> set xs \<longrightarrow> f c \<le> f (hl_cost h)" for xs
    using that by (induction xs) (auto simp: assms(2) word_le_nat_alt add_mono)
  from this [OF assms(1)] show ?thesis by (simp add: promised_def book_values_def book_lower_def)
qed

lemma lower_ids [simp]: "book_ids (book_lower i n c b) = book_ids b"
  by (simp add: book_ids_def book_lower_def case_prod_unfold comp_def)

subsection \<open>Steps\<close>

text \<open>
  One step of a governor: an admission, a ticket dropped, a ticket lowered to a cost no part of which
  is more than it held, a reading written to the load cell, a new profile that shows no device a lower
  session limit, or a station set. A grant needs a number left to give.
\<close>

inductive gstep :: "governor \<Rightarrow> governor \<Rightarrow> bool" where
  admit: "bk_next (gv_book g) \<noteq> - 1 \<Longrightarrow> admit_claim g c = (a, g') \<Longrightarrow> gstep g g'"
| encode: "bk_next (gv_book g) \<noteq> - 1 \<Longrightarrow> admit_encode g slot shape what k = (a, g') \<Longrightarrow> gstep g g'"
| drop_ticket: "gstep g (ticket_drop t g)"
| lower: "(\<And>h. book_get (gv_book g) (tk_id t) = Some h \<Longrightarrow> cost_le c (hl_cost h)) \<Longrightarrow>
    ticket_lower n c t g = (t', g') \<Longrightarrow> gstep g g'"
| load: "gstep g (g\<lparr>gv_load := l\<rparr>)"
| profile: "(\<And>d l. limit_on (set_profile p g) d = Some l \<Longrightarrow> \<exists>k. limit_on g d = Some k \<and> k \<le> l) \<Longrightarrow>
    gstep g (set_profile p g)"
| remote: "gstep g (set_remote r g)"

inductive_cases gstepE: "gstep g g'"

text \<open>
  The same with any profile set at any time, as the code lets a calibration do: one that shows a device
  less sessions than it already has to give, too.
\<close>

inductive gstep_free :: "governor \<Rightarrow> governor \<Rightarrow> bool" where
  kept: "gstep g g' \<Longrightarrow> gstep_free g g'"
| measured: "gstep_free g (set_profile p g)"

inductive_cases gstep_freeE: "gstep_free g g'"

abbreviation grun :: "governor \<Rightarrow> governor \<Rightarrow> bool" where
  "grun \<equiv> gstep\<^sup>*\<^sup>*"

abbreviation grun_free :: "governor \<Rightarrow> governor \<Rightarrow> bool" where
  "grun_free \<equiv> gstep_free\<^sup>*\<^sup>*"

lemma placed_cost [simp]: "cl_cost (placed p c) = cl_cost c"
  by (simp add: placed_def)

lemma held_of_sel [simp]: "hl_cost (held_of i c) = cl_cost c" "hl_device (held_of i c) = cl_device c" "hl_id (held_of i c) = i"
  by (simp_all add: held_of_def)

text \<open>What an admission against the own book does: a grant within what is free, or nothing.\<close>

lemma admit_local_cases:
  assumes "admit_local g c = (a, g')"
  obtains (grant) t where "a = Granted t" "tk_id t = bk_next (gv_book g) + 1" "tk_cost t = cl_cost c" "\<not> tk_remote t"
      "cost_le (cl_cost c) (governor_have g (gv_book g) (governor_load g) (cl_device (placed (gv_profile g) c)))"
      "g' = g\<lparr>gv_book := book_insert (tk_id t) (held_of (tk_id t) (placed (gv_profile g) c)) ((gv_book g)\<lparr>bk_next := tk_id t\<rparr>)\<rparr>"
  | (refuse) room adv where "a = Refused (cl_cost c) room adv" "g' = g"
      "room = governor_have g (gv_book g) (governor_load g) (cl_device (placed (gv_profile g) c))"
      "\<not> cost_le (cl_cost c) room" "ad_short adv = short_of (cl_cost c) room"
      "ad_fits adv = fits_now (gv_profile g) (\<lambda>d. governor_have g (gv_book g) (governor_load g) d)"
proof -
  define d where "d = placed (gv_profile g) c"
  define free where "free = governor_have g (gv_book g) (governor_load g) (cl_device d)"
  define i where "i = bk_next (gv_book g) + 1"
  define t where "t = \<lparr>tk_id = i, tk_cost = cl_cost c, tk_preset = Option.bind (cl_encode d) we_preset, tk_remote = False\<rparr>"
  define adv where "adv = advise (cl_what d) (cl_cost c) free (gv_profile g) (\<lambda>d. governor_have g (gv_book g) (governor_load g) d)"
  have run: "admit_local g c = (if short_of (cl_cost c) free = []
      then (Granted t, g\<lparr>gv_book := book_insert i (held_of i d) ((gv_book g)\<lparr>bk_next := i\<rparr>)\<rparr>)
      else (Refused (cl_cost c) free adv, g))"
    unfolding admit_local_def Let_def d_def [symmetric] placed_cost [of "gv_profile g" c, folded d_def]
      free_def [symmetric] i_def [symmetric] t_def [symmetric] adv_def [symmetric] by (rule refl)
  show thesis
  proof (cases "short_of (cl_cost c) free = []")
    case True
    with assms run have "a = Granted t" "g' = g\<lparr>gv_book := book_insert i (held_of i d) ((gv_book g)\<lparr>bk_next := i\<rparr>)\<rparr>" by simp_all
    moreover have "cost_le (cl_cost c) free" using True by (simp add: short_of_Nil)
    ultimately show thesis using grant [of t] by (simp add: t_def i_def free_def d_def)
  next
    case False
    with assms run have "a = Refused (cl_cost c) free adv" "g' = g" by simp_all
    moreover have "\<not> cost_le (cl_cost c) free" using False by (simp add: short_of_Nil)
    ultimately show thesis using refuse [of free adv] by (simp add: adv_def free_def d_def)
  qed
qed

lemma admit_claim_cases:
  assumes "admit_claim g c = (a, g')"
  obtains (asked) r ans where "gv_remote g = Some r" "rl_ask r (ask_of c) = Some ans" "a = admit_of ans" "g' = g"
  | (own) "admit_local g c = (a, g')"
proof (cases "Option.bind (gv_remote g) (\<lambda>r. rl_ask r (ask_of c))")
  case None
  with assms own show thesis by (simp add: admit_claim_def)
next
  case (Some ans)
  then obtain r where "gv_remote g = Some r" "rl_ask r (ask_of c) = Some ans" unfolding bind_eq_Some_conv by blast
  moreover have "a = admit_of ans" "g' = g" using assms Some by (simp_all add: admit_claim_def)
  ultimately show thesis by (rule asked)
qed

subsection \<open>The invariant\<close>

text \<open>The reserve of a still machine: what the reserve is at the least.\<close>

definition still_reserve :: "governor \<Rightarrow> u32" where
  "still_reserve g = reserve (gv_cores g) (gc_desktop (gv_config g)) 0 (reserve_override (gv_config g))"

definition machine_mc :: "governor \<Rightarrow> nat" where
  "machine_mc g = max (unat (gv_cores g)) 1 * 1000"

definition machine_mib :: "governor \<Rightarrow> nat" where
  "machine_mib g = unat (gv_memory_total_mib g) - unat (memory_reserve (gv_memory_total_mib g))"

definition numbered :: "book \<Rightarrow> bool" where
  "numbered b \<longleftrightarrow> book_inv b \<and> (\<forall>i \<in> set (book_ids b). i \<le> bk_next b) \<and> (\<forall>(i, h) \<in> set (bk_held b). hl_id h = i)"

definition cpu_within :: "governor \<Rightarrow> bool" where
  "cpu_within g \<longleftrightarrow> promised cpu_millicores everything (gv_book g) + unat (still_reserve g) \<le> machine_mc g"

definition memory_within :: "governor \<Rightarrow> bool" where
  "memory_within g \<longleftrightarrow> promised memory_mib everything (gv_book g) \<le> machine_mib g"

definition devices_within :: "governor \<Rightarrow> bool" where
  "devices_within g \<longleftrightarrow>
    (\<forall>d. promised device_millis (held_on d) (gv_book g) \<le> 900 \<and>
         (\<forall>l. limit_on g d = Some l \<longrightarrow> promised device_sessions (held_on d) (gv_book g) \<le> unat l))"

definition device_time_within :: "governor \<Rightarrow> bool" where
  "device_time_within g \<longleftrightarrow> (\<forall>d. promised device_millis (held_on d) (gv_book g) \<le> 900)"

abbreviation sessions_given :: "string \<Rightarrow> governor \<Rightarrow> nat" where
  "sessions_given d g \<equiv> promised device_sessions (held_on d) (gv_book g)"

definition uplink_within :: "governor \<Rightarrow> bool" where
  "uplink_within g \<longleftrightarrow>
    (\<forall>u. gc_uplink_kbps (gv_config g) = Some u \<longrightarrow> promised egress_kbps everything (gv_book g) \<le> unat (u div 5 * 4))"

definition kept_within :: "governor \<Rightarrow> bool" where
  "kept_within g \<longleftrightarrow> numbered (gv_book g) \<and> cpu_within g \<and> memory_within g \<and> devices_within g \<and> uplink_within g"

text \<open>What holds whatever profile is set: all of it but the session limits.\<close>

definition kept_sums :: "governor \<Rightarrow> bool" where
  "kept_sums g \<longleftrightarrow> numbered (gv_book g) \<and> cpu_within g \<and> memory_within g \<and> device_time_within g \<and> uplink_within g"

lemma kept_within_sums:
  "kept_within g \<longleftrightarrow> kept_sums g \<and> (\<forall>d l. limit_on g d = Some l \<longrightarrow> sessions_given d g \<le> unat l)"
  by (auto simp: kept_within_def kept_sums_def devices_within_def device_time_within_def)

text \<open>The machine is of a size whose figures fit the code's integers.\<close>

definition sized :: "governor \<Rightarrow> bool" where
  "sized g \<longleftrightarrow> unat (gv_cores g) * 1000 < 2 ^ 32 \<and> unat (gv_memory_total_mib g) < 2 ^ 32"

lemma kept_within_start:
  assumes "sized (with_machine cfg p cores mem)"
  shows "kept_within (with_machine cfg p cores mem)"
  using assms reserve_le_cap [of "max cores 1" "gc_desktop cfg" 0 "reserve_override cfg"]
  by (simp add: kept_within_def with_machine_def book_default_def numbered_def book_inv_def book_ids_def cpu_within_def
      memory_within_def devices_within_def uplink_within_def promised_def book_values_def sized_def still_reserve_def
      machine_mc_def)

lemma device_left_within:
  assumes "need \<le> fst (device_left (Some du))" "unat (du_committed_millis du) \<le> 900"
  shows "unat (du_committed_millis du) + unat need \<le> 900"
  using assms by (simp add: device_left_def Let_def word_le_nat_alt unat_max_word)

lemma sessions_left_within:
  assumes "need \<le> snd (device_left (Some du))" "du_session_limit du = Some l" "unat (du_committed_sessions du) \<le> unat l"
  shows "unat (du_committed_sessions du) + unat need \<le> unat l"
  using assms by (simp add: device_left_def Let_def word_le_nat_alt)

lemma egress_left_within:
  assumes "need \<le> egress_left i" "in_uplink_kbps i = Some u" "unat (egress_kbps (in_committed i)) \<le> unat (u div 5 * 4)"
  shows "unat (egress_kbps (in_committed i)) + unat need \<le> unat (u div 5 * 4)"
  using assms by (simp add: egress_left_def word_le_nat_alt)

subsection \<open>Every step keeps it\<close>

text \<open>What a grant within the room that is left does to each sum.\<close>

lemma still_reserve_le:
  assumes "sized g"
  shows "unat (still_reserve g) \<le> unat (reserve (gv_cores g) (gc_desktop (gv_config g)) j (reserve_override (gv_config g)))"
  using reserve_mono [of "gv_cores g" 0 j] assms unfolding still_reserve_def sized_def word_le_nat_alt by simp

lemma sized_mc: "sized g \<Longrightarrow> machine_mc g < 2 ^ 32"
  by (cases "unat (gv_cores g) = 0") (simp_all add: sized_def machine_mc_def max_def)

lemma grant_cpu:
  assumes "sized g" "cpu_within g" "cpu_millicores c \<le> cpu_millicores (governor_have g (gv_book g) l d)"
  shows "promised cpu_millicores everything (gv_book g) + unat (cpu_millicores c) + unat (still_reserve g) \<le> machine_mc g"
proof (cases "cpu_millicores c = 0")
  case True
  with assms(2) show ?thesis by (simp add: cpu_within_def)
next
  case False
  define i where "i = \<lparr>in_cores = gv_cores g, in_memory_total_mib = gv_memory_total_mib g, in_load = l,
       in_committed = book_total (gv_book g),
       in_reserve_millicores = reserve (gv_cores g) (gc_desktop (gv_config g)) (ld_jitter_millicores l)
         (reserve_override (gv_config g)),
       in_device = map_option (device_use_of g (gv_book g) l) d,
       in_uplink_kbps = gc_uplink_kbps (gv_config g)\<rparr>"
  have need: "cpu_millicores c \<le> cpu_left i" using assms(3) by (simp add: governor_have_def have_room_def i_def)
  have small: "promised cpu_millicores everything (gv_book g) < 2 ^ 32"
    using assms(2) sized_mc [OF assms(1)] by (simp add: cpu_within_def)
  have sum: "unat (cpu_millicores (in_committed i)) = promised cpu_millicores everything (gv_book g)"
    using book_total_cpu [OF small] by (simp add: i_def)
  have "unat (cpu_millicores (in_committed i)) + unat (cpu_millicores c) + unat (in_reserve_millicores i) \<le> machine_mc g"
    using cpu_left_bound [OF need] False by (simp add: machine_mc_def i_def unat_gt_0)
  then show ?thesis using still_reserve_le [OF assms(1), of "ld_jitter_millicores l"]
    unfolding sum by (simp add: i_def)
qed

lemma grant_memory:
  assumes "sized g" "memory_within g" "memory_mib c \<le> memory_mib (governor_have g (gv_book g) l d)"
  shows "promised memory_mib everything (gv_book g) + unat (memory_mib c) \<le> machine_mib g"
proof -
  have small: "promised memory_mib everything (gv_book g) < 2 ^ 32"
    using assms(1,2) unfolding sized_def memory_within_def machine_mib_def by - (elim conjE, linarith)
  have "unat (gv_memory_total_mib g) < 2 ^ 63" using assms(1) by (simp add: sized_def)
  then show ?thesis
    using memory_left_within [where i = "\<lparr>in_cores = gv_cores g, in_memory_total_mib = gv_memory_total_mib g, in_load = l,
       in_committed = book_total (gv_book g),
       in_reserve_millicores = reserve (gv_cores g) (gc_desktop (gv_config g)) (ld_jitter_millicores l)
         (reserve_override (gv_config g)),
       in_device = map_option (device_use_of g (gv_book g) l) d,
       in_uplink_kbps = gc_uplink_kbps (gv_config g)\<rparr>" and need = "memory_mib c"] assms(2,3)
    by (simp add: book_total_memory [OF small] memory_within_def machine_mib_def governor_have_def have_room_def)
qed

lemma grant_uplink:
  assumes "uplink_within g" "egress_kbps c \<le> egress_kbps (governor_have g (gv_book g) l d)" "gc_uplink_kbps (gv_config g) = Some u"
  shows "promised egress_kbps everything (gv_book g) + unat (egress_kbps c) \<le> unat (u div 5 * 4)"
proof -
  have small: "promised egress_kbps everything (gv_book g) < 2 ^ 32"
    using assms(1,3) unsigned_less [of "u div 5 * 4"] by (auto simp: uplink_within_def intro: le_less_trans)
  show ?thesis
    using egress_left_within [where i = "\<lparr>in_cores = gv_cores g, in_memory_total_mib = gv_memory_total_mib g, in_load = l,
       in_committed = book_total (gv_book g),
       in_reserve_millicores = reserve (gv_cores g) (gc_desktop (gv_config g)) (ld_jitter_millicores l)
         (reserve_override (gv_config g)),
       in_device = map_option (device_use_of g (gv_book g) l) d,
       in_uplink_kbps = gc_uplink_kbps (gv_config g)\<rparr>" and need = "egress_kbps c" and u = u] assms
    by (simp add: book_total_egress [OF small] uplink_within_def governor_have_def have_room_def)
qed

lemma grant_device:
  assumes "device_time_within g" "device_millis c \<le> device_millis (governor_have g (gv_book g) l (Some d))"
  shows "promised device_millis (held_on d) (gv_book g) + unat (device_millis c) \<le> 900"
proof -
  define du where "du = device_use_of g (gv_book g) l d"
  have need: "device_millis c \<le> fst (device_left (Some du))"
    using assms(2) by (simp add: governor_have_def have_room_def du_def)
  have m: "promised device_millis (held_on d) (gv_book g) \<le> 900" using assms(1) by (simp add: device_time_within_def)
  then have "unat (du_committed_millis du) = promised device_millis (held_on d) (gv_book g)"
    by (simp add: du_def device_use_of_def on_device_millis)
  then show ?thesis using device_left_within [OF need] m by simp
qed

text \<open>Of a device over its limit no session is given.\<close>

lemma grant_sessions:
  assumes "sessions_given d g < 2 ^ 32" "device_sessions c \<le> device_sessions (governor_have g (gv_book g) l (Some d))"
    "limit_on g d = Some m"
  shows "device_sessions c = 0 \<or> sessions_given d g + unat (device_sessions c) \<le> unat m"
proof -
  define du where "du = device_use_of g (gv_book g) l d"
  have need: "device_sessions c \<le> snd (device_left (Some du))"
    using assms(2) by (simp add: governor_have_def have_room_def du_def)
  have "unat (du_committed_sessions du) = sessions_given d g"
    using assms(1) by (simp add: du_def device_use_of_def on_device_sessions)
  moreover have lim: "du_session_limit du = Some m" using assms(3) by (simp add: du_def device_use_of_def)
  moreover have "device_sessions c = 0 \<or> unat (du_committed_sessions du) \<le> unat m"
    using need lim by (auto simp: device_left_def Let_def word_le_nat_alt unat_eq_0)
  ultimately show ?thesis using sessions_left_within [OF need lim] by auto
qed

lemma numbered_next:
  assumes "numbered b" "bk_next b \<noteq> - 1"
  shows "book_get b (bk_next b + 1) = None" "bk_next b < bk_next b + 1"
proof -
  have "unat (bk_next b) \<noteq> 2 ^ 64 - 1"
  proof
    assume "unat (bk_next b) = 2 ^ 64 - 1"
    then have "unat (bk_next b) = unat (- 1 :: u64)" by (simp add: unsigned_minus_1_eq_mask mask_eq_exp_minus_1)
    with assms(2) show False by (simp add: word_unat_eq_iff)
  qed
  then have "unat (bk_next b) + 1 < 2 ^ 64" using unsigned_less [of "bk_next b", where 'a = nat] by simp
  then have n: "unat (bk_next b + 1) = unat (bk_next b) + 1" by (simp add: unat_add_no_wrap)
  then show "bk_next b < bk_next b + 1" by (simp add: word_less_nat_alt)
  with assms(1) have "bk_next b + 1 \<notin> set (book_ids b)" by (auto simp: numbered_def not_le [symmetric])
  then show "book_get b (bk_next b + 1) = None" by (simp add: book_get_None book_ids_def)
qed

lemma numbered_grant:
  assumes "numbered b" "bk_next b \<noteq> - 1" "i = bk_next b + 1" "hl_id h = i"
  shows "numbered (book_insert i h (b\<lparr>bk_next := i\<rparr>))"
proof -
  have fresh: "i \<notin> fst ` set (bk_held b)" and up: "bk_next b < i"
    using numbered_next [OF assms(1,2)] assms(3) by (simp_all add: book_get_None)
  have "book_inv (b\<lparr>bk_next := i\<rparr>)" "book_get (b\<lparr>bk_next := i\<rparr>) i = None"
    using assms(1) fresh by (simp_all add: numbered_def book_inv_def book_ids_def book_get_None)
  from tickets_book.inv_put [OF this] have inv: "book_inv (book_insert i h (b\<lparr>bk_next := i\<rparr>))" .
  have held: "set (bk_held (book_insert i h (b\<lparr>bk_next := i\<rparr>))) = insert (i, h) (set (bk_held b))"
    by (simp add: book_insert_def filter_key_id [OF fresh] set_insort_key)
  have nx: "bk_next (book_insert i h (b\<lparr>bk_next := i\<rparr>)) = i" by (simp add: book_insert_def)
  have "\<forall>j \<in> set (book_ids b). j \<le> i" using assms(1) up by (auto simp: numbered_def)
  then show ?thesis using inv assms(1,4) by (auto simp: numbered_def nx held book_ids_def)
qed

lemma admit_local_sums:
  assumes "kept_sums g" "bk_next (gv_book g) \<noteq> - 1" "admit_local g c = (Granted t, g')"
  defines "d \<equiv> placed (gv_profile g) c"
  shows "numbered (gv_book g')"
    "promised f P (gv_book g') = promised f P (gv_book g) + (if P (held_of (tk_id t) d) then unat (f (cl_cost c)) else 0)"
    "cost_le (cl_cost c) (governor_have g (gv_book g) (governor_load g) (cl_device d))"
    "gv_cores g' = gv_cores g" "gv_memory_total_mib g' = gv_memory_total_mib g" "gv_config g' = gv_config g" "gv_profile g' = gv_profile g"
proof -
  define b where "b = gv_book g"
  have num: "numbered b" using assms(1) by (simp add: kept_sums_def b_def)
  from assms(3) have grant: "tk_id t = bk_next b + 1" "cost_le (cl_cost c) (governor_have g b (governor_load g) (cl_device d))"
      "g' = g\<lparr>gv_book := book_insert (tk_id t) (held_of (tk_id t) d) (b\<lparr>bk_next := tk_id t\<rparr>)\<rparr>"
    by (cases rule: admit_local_cases; simp add: b_def d_def)+
  have "book_get b (tk_id t) = None" using numbered_next(1) [OF num] assms(2) by (simp add: grant(1) b_def)
  then have fresh: "book_get (b\<lparr>bk_next := tk_id t\<rparr>) (tk_id t) = None" by (simp add: book_get_def)
  show "numbered (gv_book g')" using numbered_grant [OF num] assms(2) by (simp add: grant(1,3) b_def)
  show "promised f P (gv_book g') = promised f P (gv_book g) + (if P (held_of (tk_id t) d) then unat (f (cl_cost c)) else 0)"
    by (simp add: grant(3) promised_insert [OF fresh] b_def [symmetric] d_def)
  show "cost_le (cl_cost c) (governor_have g (gv_book g) (governor_load g) (cl_device d))" using grant(2) by (simp add: b_def)
qed (use assms(3) in \<open>cases rule: admit_local_cases; simp\<close>)+

lemma kept_sums_admit:
  assumes "sized g" "kept_sums g" "bk_next (gv_book g) \<noteq> - 1" "admit_local g c = (a, g')"
  shows "kept_sums g'"
proof (cases a)
  case (Granted t)
  define d where "d = placed (gv_profile g) c"
  define l where "l = governor_load g"
  have within: "cpu_within g" "memory_within g" "device_time_within g" "uplink_within g" using assms(2) by (simp_all add: kept_sums_def)
  note grant = admit_local_sums [OF assms(2,3) assms(4) [unfolded Granted], folded d_def l_def]
  note le = grant(3) [unfolded cost_le_def]
  have "cpu_within g'" using grant_cpu [OF assms(1) within(1), of "cl_cost c" l "cl_device d"] le
    by (simp add: cpu_within_def grant machine_mc_def still_reserve_def)
  moreover have "memory_within g'" using grant_memory [OF assms(1) within(2), of "cl_cost c" l "cl_device d"] le
    by (simp add: memory_within_def grant machine_mib_def)
  moreover have "uplink_within g'" using grant_uplink [OF within(4), of "cl_cost c" l "cl_device d"] le
    by (simp add: uplink_within_def grant)
  moreover have "device_time_within g'"
    unfolding device_time_within_def
  proof
    fix e
    show "promised device_millis (held_on e) (gv_book g') \<le> 900"
      using grant_device [OF within(3), of "cl_cost c" l e] le within(3) by (auto simp: grant device_time_within_def)
  qed
  ultimately show ?thesis using grant(1) by (simp add: kept_sums_def)
next
  case (Refused x room adv)
  from assms(4) have "g' = g" unfolding Refused by (cases rule: admit_local_cases) simp_all
  with assms(2) show ?thesis by simp
qed

lemma limit_on_cong: "gv_profile g' = gv_profile g \<Longrightarrow> gv_config g' = gv_config g \<Longrightarrow> limit_on g' = limit_on g"
  by (simp add: limit_on_def fun_eq_iff cong: option.case_cong)

text \<open>The sessions of a device grow only within the limit it has then.\<close>

definition sessions_grow_within :: "governor \<Rightarrow> governor \<Rightarrow> string \<Rightarrow> bool" where
  "sessions_grow_within g g' d \<longleftrightarrow>
     sessions_given d g' \<le> sessions_given d g \<or> (\<forall>l. limit_on g' d = Some l \<longrightarrow> sessions_given d g' \<le> unat l)"

lemma admit_sessions:
  assumes "kept_sums g" "bk_next (gv_book g) \<noteq> - 1" "admit_local g c = (a, g')" "sessions_given d g < 2 ^ 32"
  shows "sessions_grow_within g g' d"
proof (cases a)
  case (Granted t)
  define k where "k = placed (gv_profile g) c"
  note grant = admit_local_sums [OF assms(1,2) assms(3) [unfolded Granted], folded k_def]
  note le = grant(3) [unfolded cost_le_def]
  show ?thesis
  proof (cases "cl_device k = Some d")
    case True
    have lim: "limit_on g' = limit_on g" by (rule limit_on_cong) (simp_all add: grant)
    have "device_sessions (cl_cost c) = 0 \<or> sessions_given d g + unat (device_sessions (cl_cost c)) \<le> unat m"
      if "limit_on g d = Some m" for m
      using that assms(4) le True by (intro grant_sessions [where l = "governor_load g"]) simp_all
    then show ?thesis using True by (auto simp: sessions_grow_within_def grant lim)
  qed (simp add: sessions_grow_within_def grant)
next
  case (Refused x room adv)
  from assms(3) have "g' = g" unfolding Refused by (cases rule: admit_local_cases) simp_all
  then show ?thesis by (simp add: sessions_grow_within_def)
qed

lemma kept_within_grown:
  assumes "kept_within g" "kept_sums g'"
    "\<And>d. sessions_given d g < 2 ^ 32 \<Longrightarrow> sessions_grow_within g g' d"
    "\<And>d l. limit_on g' d = Some l \<Longrightarrow> \<exists>k. limit_on g d = Some k \<and> k \<le> l"
  shows "kept_within g'"
  unfolding kept_within_sums
proof (intro conjI allI impI)
  fix d l assume l: "limit_on g' d = Some l"
  then obtain k where k: "limit_on g d = Some k" "k \<le> l" using assms(4) by blast
  then have le: "sessions_given d g \<le> unat k" using assms(1) by (simp add: kept_within_sums)
  then have "sessions_given d g < 2 ^ 32" using unsigned_less [of k] by (auto intro: le_less_trans)
  then have "sessions_grow_within g g' d" by (rule assms(3))
  then show "sessions_given d g' \<le> unat l" using l le k(2) by (auto simp: sessions_grow_within_def word_le_nat_alt)
qed (rule assms(2))

lemma kept_within_admit:
  assumes "sized g" "kept_within g" "bk_next (gv_book g) \<noteq> - 1" "admit_local g c = (a, g')"
  shows "kept_within g'"
proof (rule kept_within_grown [OF assms(2)])
  have sums: "kept_sums g" using assms(2) by (simp add: kept_within_sums)
  show "kept_sums g'" by (rule kept_sums_admit [OF assms(1) sums assms(3,4)])
  show "sessions_grow_within g g' d" if "sessions_given d g < 2 ^ 32" for d using that by (rule admit_sessions [OF sums assms(3,4)])
  have "gv_profile g' = gv_profile g \<and> gv_config g' = gv_config g" using assms(4) by (cases rule: admit_local_cases) simp_all
  then have "limit_on g' = limit_on g" by (intro limit_on_cong) simp_all
  then show "\<exists>k. limit_on g d = Some k \<and> k \<le> l" if "limit_on g' d = Some l" for d l using that by simp
qed

lemma limit_on_update [simp]:
  "limit_on (g\<lparr>gv_book := b\<rparr>) d = limit_on g d"
  "limit_on (g\<lparr>gv_load := c\<rparr>) d = limit_on g d"
  "limit_on (g\<lparr>gv_remote := r\<rparr>) d = limit_on g d"
  by (simp_all add: limit_on_def cong: option.case_cong)

text \<open>What takes away or lowers keeps it.\<close>

lemma kept_sums_smaller:
  assumes "kept_sums g" "numbered (gv_book g')"
    and same: "gv_cores g' = gv_cores g" "gv_memory_total_mib g' = gv_memory_total_mib g" "gv_config g' = gv_config g"
    and less: "promised cpu_millicores everything (gv_book g') \<le> promised cpu_millicores everything (gv_book g)"
      "promised memory_mib everything (gv_book g') \<le> promised memory_mib everything (gv_book g)"
      "promised egress_kbps everything (gv_book g') \<le> promised egress_kbps everything (gv_book g)"
      "\<And>d. promised device_millis (held_on d) (gv_book g') \<le> promised device_millis (held_on d) (gv_book g)"
  shows "kept_sums g'"
proof -
  have within: "cpu_within g" "memory_within g" "device_time_within g" "uplink_within g"
    using assms(1) by (simp_all add: kept_sums_def)
  have "cpu_within g'" using within(1) less(1) by (simp add: cpu_within_def machine_mc_def still_reserve_def same)
  moreover have "memory_within g'" using within(2) less(2) by (simp add: memory_within_def machine_mib_def same)
  moreover have "uplink_within g'"
    unfolding uplink_within_def same
  proof (intro allI impI)
    fix u assume "gc_uplink_kbps (gv_config g) = Some u"
    with within(4) have "promised egress_kbps everything (gv_book g) \<le> unat (u div 5 * 4)" by (simp add: uplink_within_def)
    with less(3) show "promised egress_kbps everything (gv_book g') \<le> unat (u div 5 * 4)" by (rule le_trans)
  qed
  moreover have "device_time_within g'"
    using less(4) within(3) unfolding device_time_within_def by (meson le_trans)
  ultimately show ?thesis using assms(2) by (simp add: kept_sums_def)
qed

lemma numbered_remove:
  assumes "numbered b"
  shows "numbered (book_remove i b)"
proof -
  have "book_inv (book_remove i b)" using assms tickets_book.inv_del by (simp add: numbered_def)
  then show ?thesis using assms by (auto simp: numbered_def book_remove_def book_ids_def)
qed

lemma numbered_lower:
  assumes "numbered b"
  shows "numbered (book_lower i n c b)"
  using assms by (auto simp: numbered_def book_inv_def) (auto simp: book_lower_def)

lemma kept_sums_drop:
  assumes "kept_sums g"
  shows "kept_sums (ticket_drop t g)" "sessions_given d (ticket_drop t g) \<le> sessions_given d g"
proof -
  have num: "numbered (gv_book g)" "numbered (book_remove (tk_id t) (gv_book g))" using assms numbered_remove by (simp_all add: kept_sums_def)
  show "kept_sums (ticket_drop t g)"
    by (rule kept_sums_smaller [OF assms])
      (use num in \<open>auto simp: ticket_drop_def release_def release_remote_def promised_remove_le\<close>)
  show "sessions_given d (ticket_drop t g) \<le> sessions_given d g"
    by (auto simp: ticket_drop_def release_def release_remote_def promised_remove_le)
qed

lemma book_get_held:
  assumes "numbered b" "(i, h) \<in> set (bk_held b)"
  shows "book_get b i = Some h"
  using assms by (simp add: numbered_def book_inv_def book_ids_def book_get_def)

lemma kept_sums_lower:
  assumes "kept_sums g" "\<And>h. book_get (gv_book g) (tk_id t) = Some h \<Longrightarrow> cost_le c (hl_cost h)"
  shows "kept_sums (snd (ticket_lower n c t g))" "sessions_given d (snd (ticket_lower n c t g)) \<le> sessions_given d g"
proof -
  have num: "numbered (gv_book g)" using assms(1) by (simp add: kept_sums_def)
  have le: "cost_le c (hl_cost h)" if "(tk_id t, h) \<in> set (bk_held (gv_book g))" for h
    using assms(2) book_get_held [OF num that] by blast
  show "kept_sums (snd (ticket_lower n c t g))"
    by (rule kept_sums_smaller [OF assms(1)])
      (use le numbered_lower [OF num] in \<open>auto simp: ticket_lower_def cost_le_def intro!: promised_lower_le\<close>)
  show "sessions_given d (snd (ticket_lower n c t g)) \<le> sessions_given d g"
    using le by (auto simp: ticket_lower_def cost_le_def intro!: promised_lower_le)
qed

lemma admit_claim_sums:
  assumes "sized g" "kept_sums g" "bk_next (gv_book g) \<noteq> - 1" "admit_claim g c = (a, g')"
  shows "kept_sums g' \<and> sized g' \<and> (sessions_given d g < 2 ^ 32 \<longrightarrow> sessions_grow_within g g' d) \<and> limit_on g' = limit_on g"
  using assms(4)
proof (cases rule: admit_claim_cases)
  case own
  then have "gv_cores g' = gv_cores g \<and> gv_memory_total_mib g' = gv_memory_total_mib g \<and> limit_on g' = limit_on g"
    by (cases rule: admit_local_cases) (simp_all add: fun_eq_iff)
  then show ?thesis
    using assms(1) kept_sums_admit [OF assms(1,2,3) own] admit_sessions [OF assms(2,3) own] by (simp add: sized_def)
qed (use assms in \<open>simp add: sessions_grow_within_def\<close>)

lemma gstep_sums:
  assumes "gstep g g'" "sized g" "kept_sums g"
  shows "kept_sums g' \<and> sized g' \<and> (sessions_given d g < 2 ^ 32 \<longrightarrow> sessions_grow_within g g' d) \<and>
    (\<forall>l. limit_on g' d = Some l \<longrightarrow> (\<exists>k. limit_on g d = Some k \<and> k \<le> l))"
  using assms(1)
proof (cases rule: gstep.cases)
  case (admit c a)
  from admit_claim_sums [OF assms(2,3) admit] show ?thesis by auto
next
  case (encode slot shape what k a)
  then have "admit_claim g (encode_claim g slot shape what k) = (a, g')" by (simp add: admit_encode_def)
  from admit_claim_sums [OF assms(2,3) encode(1) this] show ?thesis by auto
next
  case (drop_ticket t)
  have "sized g' \<and> limit_on g' d = limit_on g d"
    using assms(2) by (simp add: drop_ticket sized_def ticket_drop_def release_def release_remote_def)
  then show ?thesis using kept_sums_drop [OF assms(3)] by (simp add: drop_ticket sessions_grow_within_def)
next
  case (lower t c n t')
  then have g': "g' = snd (ticket_lower n c t g)" by simp
  then have "sized g' \<and> limit_on g' d = limit_on g d" using assms(2) by (simp add: sized_def ticket_lower_def)
  moreover have "kept_sums g'" "sessions_given d g' \<le> sessions_given d g"
    using kept_sums_lower(1) [OF assms(3) lower(1), where n = n] kept_sums_lower(2) [OF assms(3) lower(1), where n = n and d = d]
    by (simp_all add: g')
  ultimately show ?thesis by (simp add: sessions_grow_within_def)
next
  case (load l)
  have "kept_sums g'" by (rule kept_sums_smaller [OF assms(3)]) (use assms(3) in \<open>simp_all add: load kept_sums_def\<close>)
  then show ?thesis using assms(2) by (simp add: load sized_def sessions_grow_within_def)
next
  case (profile p)
  have "kept_sums g'" by (rule kept_sums_smaller [OF assms(3)]) (use assms(3) in \<open>simp_all add: profile(1) set_profile_def kept_sums_def\<close>)
  then show ?thesis using assms(2) profile by (simp add: sized_def sessions_grow_within_def) (simp add: set_profile_def)
next
  case (remote r)
  have "kept_sums g'" by (rule kept_sums_smaller [OF assms(3)]) (use assms(3) in \<open>simp_all add: remote set_remote_def kept_sums_def\<close>)
  then show ?thesis using assms(2) by (simp add: remote sized_def sessions_grow_within_def set_remote_def)
qed

lemma gstep_kept_within:
  assumes "gstep g g'" "sized g" "kept_within g"
  shows "kept_within g' \<and> sized g'"
proof
  have sums: "kept_sums g" using assms(3) by (simp add: kept_within_sums)
  note step = gstep_sums [OF assms(1,2) sums]
  show "kept_within g'" by (rule kept_within_grown [OF assms(3)]) (use step in blast)+
  show "sized g'" using step by blast
qed

lemma gstep_free_sums:
  assumes "gstep_free g g'" "sized g" "kept_sums g"
  shows "kept_sums g' \<and> sized g' \<and> (sessions_given d g < 2 ^ 32 \<longrightarrow> sessions_grow_within g g' d)"
  using assms(1)
proof (cases rule: gstep_free.cases)
  case kept
  from gstep_sums [OF this assms(2,3)] show ?thesis by blast
next
  case (measured p)
  have "kept_sums g'" by (rule kept_sums_smaller [OF assms(3)]) (use assms(3) in \<open>simp_all add: measured set_profile_def kept_sums_def\<close>)
  then show ?thesis using assms(2) by (simp add: measured sized_def sessions_grow_within_def) (simp add: set_profile_def)
qed

lemma grun_free_sums:
  assumes "grun_free g g'" "sized g" "kept_sums g"
  shows "kept_sums g' \<and> sized g'"
  using assms by (induction rule: rtranclp_induct) (auto dest: gstep_free_sums)

lemma grun_kept_within:
  assumes "grun g g'" "sized g" "kept_within g"
  shows "kept_within g' \<and> sized g'"
  using assms by (induction rule: rtranclp_induct) (auto dest: gstep_kept_within)

subsection \<open>Numbers only go up\<close>

lemma admit_claim_next:
  assumes "numbered (gv_book g)" "bk_next (gv_book g) \<noteq> - 1" "admit_claim g c = (a, g')"
  shows "bk_next (gv_book g) \<le> bk_next (gv_book g')"
  using assms(3)
proof (cases rule: admit_claim_cases)
  case own
  then show ?thesis
  proof (cases rule: admit_local_cases)
    case (grant t)
    then show ?thesis using numbered_next(2) [OF assms(1,2)] by (simp add: book_insert_def less_imp_le)
  qed simp
qed simp

lemma gstep_next:
  assumes "gstep g g'" "numbered (gv_book g)"
  shows "bk_next (gv_book g) \<le> bk_next (gv_book g')"
  using assms
proof (cases rule: gstep.cases)
  case (encode slot shape what k a)
  with assms(2) show ?thesis by (auto simp: admit_encode_def intro: admit_claim_next)
qed (auto intro: admit_claim_next simp: ticket_drop_def release_def release_remote_def book_remove_def ticket_lower_def
    book_lower_def set_profile_def set_remote_def)

lemma grun_next:
  assumes "grun g g'" "sized g" "kept_within g"
  shows "bk_next (gv_book g) \<le> bk_next (gv_book g')"
  using assms
proof (induction rule: rtranclp_induct)
  case (step y z)
  have "numbered (gv_book y)" using grun_kept_within [OF step(1)] step(4,5) by (simp add: kept_within_def)
  with gstep_next [OF step(2)] step.IH [OF step(4,5)] show ?case by (meson order_trans)
qed simp

text \<open>A ticket put in the book and taken out leaves the very book there was.\<close>

lemma filter_insort_fresh:
  "k \<notin> fst ` set xs \<Longrightarrow> filter (\<lambda>e. fst e \<noteq> k) (insort_key fst (k, h) xs) = xs"
  by (induction xs) (auto simp: filter_key_id)

lemma remove_insert:
  assumes "book_get b i = None"
  shows "book_values (book_remove i (book_insert i h b)) = book_values b"
  using assms by (simp add: book_get_None book_values_def book_remove_def book_insert_def filter_key_id filter_insort_fresh)

lemma governor_have_values:
  "book_values b = book_values b' \<Longrightarrow> governor_have g b l d = governor_have g b' l d"
  by (simp add: governor_have_def book_total_def device_use_of_def [abs_def] on_device_def)

end
