(* ===== verification/Governor_Properties.thy ===== *)
theory Governor_Properties
  imports Governor_Run
begin

text \<open>
  What the governor promises: it never admits more than the machine has, its numbers are never given
  twice, a refusal says what would fit and a ticket gives back what it took, shedding spares what is
  on air and frees enough, and a station's answer is the one a show's own governor would have given.
\<close>

subsection \<open>A machine for the witnesses\<close>

definition ex_governor :: governor where
  "ex_governor = with_machine governor_config_default uncalibrated 8 16384"

definition ex_claim :: claim where
  "ex_claim = claim_new ''the programme'' (cost_default\<lparr>cpu_millicores := 3000, memory_mib := 40\<rparr>)"

definition ex_running :: governor where
  "ex_running = snd (admit_claim ex_governor ex_claim)"

lemma ex_sized: "sized ex_governor"
  by (simp add: sized_def ex_governor_def with_machine_def max_def)

lemma ex_granted:
  "fst (admit_claim ex_governor ex_claim) =
    Granted \<lparr>tk_id = 1, tk_cost = cl_cost ex_claim, tk_preset = None, tk_remote = False\<rparr>"
  by code_simp

lemma ex_running_step: "gstep ex_governor ex_running"
proof (rule gstep.admit)
  show "bk_next (gv_book ex_governor) \<noteq> - 1" by code_simp
  show "admit_claim ex_governor ex_claim = (fst (admit_claim ex_governor ex_claim), ex_running)" by (simp add: ex_running_def)
qed

lemma ex_run: "grun (with_machine governor_config_default uncalibrated 8 16384) ex_running"
  using ex_running_step unfolding ex_governor_def by (rule r_into_rtranclp)

subsection \<open>Admission\<close>

text \<open>C9: whatever is admitted, released or measured and whatever profile or station comes along, as long as a
  ticket is lowered only to a cost no part of which is more than it held and ticket numbers last, the tickets held never promise more than the
  machine has: the CPU promised and the reserve fit the cores, the memory promised fits what its reserve
  leaves, no device is promised over nine tenths of its time, and the uplink is promised four fifths at
  most. A profile can bring the session limit of a device below what was given out before it: no step
  then gives out a session past the limit, where those given out fit 32 bits, and as long as no profile
  shows a device a limit that is new or lower, no device is past its limit at all. The sums are over
  numbers, so none of them wraps.\<close>

theorem never_overcommits:
  assumes "grun_free (with_machine config p cores mem) g"
    and "unat cores * 1000 < 2 ^ 32" "unat mem < 2 ^ 32"
  shows "cpu_within g \<and> memory_within g \<and> device_time_within g \<and> uplink_within g
    \<and> (\<forall>g' d l. gstep_free g g' \<and> limit_on g' d = Some l \<and> sessions_given d g < 2 ^ 32 \<longrightarrow>
         sessions_given d g' \<le> sessions_given d g \<or> sessions_given d g' \<le> unat l)
    \<and> (grun (with_machine config p cores mem) g \<longrightarrow> devices_within g)"
proof -
  let ?g = "with_machine config p cores mem"
  have "unat (max cores 1) = max (unat cores) 1" using unat_max_word [of cores 1] by simp
  then have size: "sized ?g" using assms(2,3) by (simp add: sized_def with_machine_def max_def)
  from kept_within_start [OF this] have start: "kept_within ?g" "kept_sums ?g" by (simp_all add: kept_within_sums)
  have sums: "kept_sums g" "sized g" using grun_free_sums [OF assms(1) size start(2)] by simp_all
  have "devices_within g" if "grun ?g g" using grun_kept_within [OF that size start(1)] by (simp add: kept_within_def)
  then show ?thesis using sums(1) gstep_free_sums [OF _ sums(2,1)] unfolding kept_sums_def sessions_grow_within_def by blast
qed

lemma never_overcommits_witness:
  "cpu_within ex_running \<and> memory_within ex_running \<and> devices_within ex_running \<and> uplink_within ex_running
    \<and> promised cpu_millicores everything (gv_book ex_running) = 3000"
proof -
  have "promised cpu_millicores everything (gv_book ex_running) = 3000" by code_simp
  moreover have "grun_free (with_machine governor_config_default uncalibrated 8 16384) ex_running"
    using gstep_free.kept [OF ex_running_step] unfolding ex_governor_def by (rule r_into_rtranclp)
  from never_overcommits [OF this] ex_run
  have "cpu_within ex_running \<and> memory_within ex_running \<and> devices_within ex_running \<and> uplink_within ex_running" by simp
  ultimately show ?thesis by blast
qed

text \<open>A ticket granted later always has a higher number, whatever happened in between: a
  released number is never given again.\<close>

theorem tickets_never_reused:
  assumes "kept_within g" "sized g" "bk_next (gv_book g) \<noteq> - 1"
    and "admit_local g c = (Granted t, g1)" "grun g1 g2"
    and "bk_next (gv_book g2) \<noteq> - 1" "admit_local g2 d = (Granted u, g3)"
  shows "tk_id t < tk_id u \<and> book_get (gv_book g2) (tk_id u) = None"
proof -
  have within: "kept_within g1" "sized g1"
    using kept_within_admit [OF assms(2,1,3,4)] assms(2,4) by (auto elim!: admit_local_cases simp: sized_def)
  have t: "tk_id t = bk_next (gv_book g1)" using assms(4) by (auto elim!: admit_local_cases simp: book_insert_def)
  have u: "tk_id u = bk_next (gv_book g2) + 1" using assms(7) by (auto elim!: admit_local_cases)
  have num: "numbered (gv_book g2)" using grun_kept_within [OF assms(5) within(2,1)] by (simp add: kept_within_def)
  have "bk_next (gv_book g1) \<le> bk_next (gv_book g2)" using grun_next [OF assms(5) within(2,1)] .
  then show ?thesis using numbered_next [OF num assms(6)] unfolding t u by simp
qed

lemma tickets_never_reused_witness:
  "(1 :: u64) < 2 \<and> book_get (gv_book (release 1 ex_running)) 2 = None"
proof -
  have a: "admit_local ex_governor ex_claim =
      (Granted \<lparr>tk_id = 1, tk_cost = cl_cost ex_claim, tk_preset = None, tk_remote = False\<rparr>, ex_running)"
    using ex_granted unfolding ex_running_def by (simp add: admit_claim_def ex_governor_def with_machine_def prod_eq_iff)
  have b: "fst (admit_local (release 1 ex_running) ex_claim) =
      Granted \<lparr>tk_id = 2, tk_cost = cl_cost ex_claim, tk_preset = None, tk_remote = False\<rparr>"
    by code_simp
  have c: "admit_local (release 1 ex_running) ex_claim =
      (Granted \<lparr>tk_id = 2, tk_cost = cl_cost ex_claim, tk_preset = None, tk_remote = False\<rparr>,
       snd (admit_local (release 1 ex_running) ex_claim))"
    by (simp add: b prod_eq_iff)
  have d: "grun ex_running (release 1 ex_running)"
    using gstep.drop_ticket [of ex_running "\<lparr>tk_id = 1, tk_cost = cost_default, tk_preset = None, tk_remote = False\<rparr>"]
    by (simp add: ticket_drop_def)
  have "kept_within ex_governor" using kept_within_start ex_sized by (simp add: ex_governor_def)
  moreover have "bk_next (gv_book ex_governor) \<noteq> - 1" by code_simp
  moreover have "bk_next (gv_book (release 1 ex_running)) \<noteq> - 1" by code_simp
  ultimately show ?thesis using tickets_never_reused [OF _ ex_sized _ a d _ c] by simp
qed

text \<open>C10: a governor of its own grants exactly what fits in what is left where the work would run. A
  grant puts one entry in the book, for what was asked, and leaves every other; a refusal leaves the
  governor as it was and names what is short.\<close>

theorem admission_decides:
  assumes "kept_within g" "bk_next (gv_book g) \<noteq> - 1" "gv_remote g = None" "admit_claim g c = (a, g')"
  defines "room \<equiv> governor_have g (gv_book g) (governor_load g) (cl_device (placed (gv_profile g) c))"
  shows "if cost_le (cl_cost c) room
    then \<exists>t h. a = Granted t \<and> tk_cost t = cl_cost c \<and> book_get (gv_book g) (tk_id t) = None
      \<and> book_get (gv_book g') = (book_get (gv_book g))(tk_id t \<mapsto> h) \<and> hl_cost h = cl_cost c
    else \<exists>adv. a = Refused (cl_cost c) room adv \<and> g' = g \<and> ad_short adv = short_of (cl_cost c) room \<and> ad_short adv \<noteq> []"
proof -
  have num: "numbered (gv_book g)" using assms(1) by (simp add: kept_within_def)
  have own: "admit_local g c = (a, g')" using assms(3,4) by (simp add: admit_claim_def)
  from own show ?thesis
  proof (cases rule: admit_local_cases)
    case (grant t)
    have fresh: "book_get (gv_book g) (tk_id t) = None" using numbered_next(1) [OF num assms(2)] grant(2) by simp
    have "book_inv ((gv_book g)\<lparr>bk_next := tk_id t\<rparr>)" "book_get ((gv_book g)\<lparr>bk_next := tk_id t\<rparr>) (tk_id t) = None"
      using num fresh by (simp_all add: numbered_def book_inv_def book_ids_def book_get_def)
    from tickets_book.get_put [OF this] have
      "book_get (gv_book g') = (book_get (gv_book g))(tk_id t \<mapsto> held_of (tk_id t) (placed (gv_profile g) c))"
      by (simp add: grant(6) book_get_def)
    then show ?thesis using grant(1,3,5) fresh unfolding room_def [symmetric] by auto
  next
    case (refuse free adv)
    then have "free = room" by (simp add: room_def)
    with refuse show ?thesis by (auto simp: short_of_Nil)
  qed
qed

lemma ex_kept: "kept_within ex_governor"
  using kept_within_start ex_sized by (simp add: ex_governor_def)

lemma admission_decides_witness:
  "\<exists>t h. fst (admit_claim ex_governor ex_claim) = Granted t \<and> tk_cost t = cl_cost ex_claim
    \<and> book_get (gv_book ex_running) = (book_get (gv_book ex_governor))(tk_id t \<mapsto> h)"
proof -
  have nxt: "bk_next (gv_book ex_governor) \<noteq> - 1" and alone: "gv_remote ex_governor = None" by code_simp+
  have run: "admit_claim ex_governor ex_claim = (fst (admit_claim ex_governor ex_claim), ex_running)" by (simp add: ex_running_def)
  have fits: "cost_le (cl_cost ex_claim) (governor_have ex_governor (gv_book ex_governor) (governor_load ex_governor)
      (cl_device (placed (gv_profile ex_governor) ex_claim)))"
    by code_simp
  show ?thesis using admission_decides [OF ex_kept nxt alone run] fits by auto
qed

text \<open>C11: what a refusal offers can be had: asking there and then for an encode it lists, on that
  encoder and at that size and rate, is granted at the cost it states.\<close>

theorem advice_can_be_taken:
  assumes "gv_remote g = None" "admit_claim g c = (Refused need room adv, g')" "f \<in> set (ad_fits adv)"
  defines "shape \<equiv> \<lparr>vs_codec = es_codec (af_slot f), vs_width = af_width f, vs_height = af_height f, vs_fps = af_fps f,
    vs_bitrate_kbps = 0, vs_keyframe_ms = 0\<rparr>"
  shows "\<exists>t. fst (admit_encode g' (af_slot f) shape what k) = Granted t \<and> tk_cost t = af_cost f"
proof -
  define have_on where "have_on = governor_have g (gv_book g) (governor_load g)"
  have same: "g' = g" and fits: "f \<in> set (fits_now (gv_profile g) have_on)"
    using assms(1-3) by (auto simp: admit_claim_def have_on_def elim!: admit_local_cases)
  obtain s t p where best: "best_shape (gv_profile g) have_on s = Some (t, p)" "f = fit_of s (t, p)"
    using fits_now_member [OF fits] by (metis surj_pair)
  obtain d where d: "t = offer_shape s d" and p: "p = profile_encode_cost (gv_profile g) s t" and le: "cost_le p (have_on (es_device s))"
    using best_shape_fits [OF best(1)] by blast
  have f: "af_slot f = s" "af_cost f = p" and shape: "shape = t"
    using d by (simp_all add: best(2) fit_of_def shape_def offer_shape_def split: prod.split)
  have cpu: "cpu_millicores (have_on e) = cpu_millicores (headroom g None)" for e
    by (simp add: have_on_def headroom_def governor_have_def have_room_def cpu_left_def)
  have "\<not> cpu_millicores (headroom g None) < cpu_millicores p"
    using le cpu [of "es_device s"] by (simp add: cost_le_def not_less)
  then have offer: "encode_offer g s t = (p, configured_preset (gv_profile g) s)"
    by (simp add: encode_offer_def Let_def p)
  define cl where "cl = encode_claim g s t what k"
  have cl: "cl_cost cl = p" "cl_device cl = es_device s" by (simp_all add: cl_def encode_claim_def offer)
  have "placed (gv_profile g) cl = cl"
    using le by (auto simp: placed_def cl cost_le_def have_on_def governor_have_def have_room_def device_left_def)
  then have "short_of (cl_cost (placed (gv_profile g) cl)) (governor_have g (gv_book g) (governor_load g) (cl_device (placed (gv_profile g) cl))) = []"
    using le by (simp add: short_of_Nil cl have_on_def)
  then have "\<exists>u. fst (admit_local g cl) = Granted u \<and> tk_cost u = p"
    by (simp add: admit_local_def Let_def cl(1))
  then show ?thesis using assms(1) by (simp add: same f shape admit_encode_def admit_claim_def cl_def)
qed

definition ex_x264 :: encoder_slot where
  "ex_x264 = \<lparr>es_id = ''x264'', es_codec = H264, es_hardware = False, es_device = None\<rparr>"

definition ex_profile :: profile where
  "ex_profile = \<lparr>pr_cal = calibration_default, pr_encs =
    [\<lparr>en_cal = \<lparr>ec_slot = ex_x264, ec_preset = Some ''veryfast'', ec_points = [], ec_presets = [], ec_sessions = None\<rparr>,
      en_cpu = \<lparr>ln_fixed = 0, ln_slope = 32\<rparr>, en_presets = [(''superfast'', 1 / 2), (''veryfast'', 1)]\<rparr>]\<rparr>"

definition ex_calibrated :: governor where
  "ex_calibrated = with_machine governor_config_default ex_profile 8 16384"

definition ex_big :: claim where
  "ex_big = claim_new ''everything'' (cost_default\<lparr>cpu_millicores := 9000\<rparr>)"

definition ex_offer :: advice_fit where
  "ex_offer = \<lparr>af_label = ''1080p60 H.264 on x264'', af_slot = ex_x264, af_width = 1920, af_height = 1080, af_fps = fps_whole 60,
    af_cost = cost_default\<lparr>cpu_millicores := 3981, memory_mib := 31\<rparr>\<rparr>"

abbreviation ex_have :: "string option \<Rightarrow> cost" where
  "ex_have \<equiv> governor_have ex_calibrated (gv_book ex_calibrated) (governor_load ex_calibrated)"

lemma ex_offer_cost: "profile_encode_cost ex_profile ex_x264 (offer_shape ex_x264 (1920, 1080, 60)) = af_cost ex_offer"
  by code_simp

lemma ex_offer_fits: "cost_le (af_cost ex_offer) (ex_have (es_device ex_x264))"
  by code_simp

lemma ex_best: "best_shape ex_profile ex_have ex_x264 = Some (offer_shape ex_x264 (1920, 1080, 60), af_cost ex_offer)"
  using ex_offer_fits by (simp add: best_shape_def SHAPES_def Let_def ex_offer_cost short_of_Nil)

lemma ex_slots: "ex_x264 \<in> set (all_slots ex_profile)"
  by (simp add: all_slots_def profile_encoders_def ex_profile_def slot_of_def ex_x264_def)

lemma ex_fit_of: "fit_of ex_x264 (offer_shape ex_x264 (1920, 1080, 60), af_cost ex_offer) = ex_offer"
  by code_simp

lemma ex_offered: "ex_offer \<in> set (fits_now ex_profile ex_have)"
  using ex_slots ex_best ex_fit_of by (force simp: fits_now_def List.map_filter_def)

lemma ex_refused:
  "\<exists>need room adv g'. admit_claim ex_calibrated ex_big = (Refused need room adv, g') \<and> g' = ex_calibrated \<and> ex_offer \<in> set (ad_fits adv)"
proof -
  have not: "\<not> cost_le (cl_cost ex_big) (governor_have ex_calibrated (gv_book ex_calibrated) (governor_load ex_calibrated)
      (cl_device (placed (gv_profile ex_calibrated) ex_big)))"
    by code_simp
  obtain a g' where run: "admit_local ex_calibrated ex_big = (a, g')" by fastforce
  have prof: "gv_profile ex_calibrated = ex_profile" by (simp add: ex_calibrated_def with_machine_def)
  from run show ?thesis
  proof (cases rule: admit_local_cases)
    case (refuse room adv)
    have "admit_claim ex_calibrated ex_big = (a, g')" using run by (simp add: admit_claim_def ex_calibrated_def with_machine_def)
    with refuse show ?thesis by (simp add: prof ex_offered)
  qed (use not in simp)
qed

lemma advice_can_be_taken_witness:
  "\<exists>t. fst (admit_encode ex_calibrated ex_x264 \<lparr>vs_codec = H264, vs_width = 1920, vs_height = 1080, vs_fps = fps_whole 60,
      vs_bitrate_kbps = 0, vs_keyframe_ms = 0\<rparr> ''again'' Programme) = Granted t
    \<and> tk_cost t = cost_default\<lparr>cpu_millicores := 3981, memory_mib := 31\<rparr>"
proof -
  obtain need room adv g' where "admit_claim ex_calibrated ex_big = (Refused need room adv, g')" "g' = ex_calibrated"
    "ex_offer \<in> set (ad_fits adv)" using ex_refused by blast
  moreover have "gv_remote ex_calibrated = None" by (simp add: ex_calibrated_def with_machine_def)
  ultimately show ?thesis
    using advice_can_be_taken [of ex_calibrated ex_big need room adv g' ex_offer "''again''" Programme]
    by (simp add: ex_offer_def ex_x264_def)
qed

text \<open>C12: dropping a ticket gives back exactly what it took: what could be admitted before it was
  granted can be admitted after it is dropped, on every device.\<close>

theorem release_gives_back:
  assumes "kept_within g" "bk_next (gv_book g) \<noteq> - 1" "admit_local g c = (Granted t, g')"
  shows "headroom (ticket_drop t g') d = headroom g d \<and> governor_held (ticket_drop t g') = governor_held g"
proof -
  have num: "numbered (gv_book g)" using assms(1) by (simp add: kept_within_def)
  from assms(3) show ?thesis
  proof (cases rule: admit_local_cases)
    case (grant u)
    have "book_get ((gv_book g)\<lparr>bk_next := tk_id u\<rparr>) (tk_id u) = None"
      using numbered_next(1) [OF num assms(2)] grant(2) by (simp add: book_get_def)
    from remove_insert [OF this] have same: "book_values (gv_book (ticket_drop t g')) = book_values (gv_book g)"
      using grant(1,4,6) by (simp add: ticket_drop_def release_def) (simp add: book_values_def)
    have rest: "governor_have (ticket_drop t g') b l d = governor_have g b l d" "governor_load (ticket_drop t g') = governor_load g" for b l
      using grant(1,4,6)
      by (simp_all add: ticket_drop_def release_def governor_have_def governor_load_def device_use_of_def [abs_def])
    show ?thesis using governor_have_values [OF same] by (simp add: headroom_def rest governor_held_def same)
  qed simp
qed

lemma release_gives_back_witness:
  "headroom (ticket_drop \<lparr>tk_id = 1, tk_cost = cl_cost ex_claim, tk_preset = None, tk_remote = False\<rparr> ex_running) None
    = headroom ex_governor None"
proof -
  have "admit_local ex_governor ex_claim =
      (Granted \<lparr>tk_id = 1, tk_cost = cl_cost ex_claim, tk_preset = None, tk_remote = False\<rparr>, ex_running)"
    using ex_granted unfolding ex_running_def by (simp add: admit_claim_def ex_governor_def with_machine_def prod_eq_iff)
  moreover have "bk_next (gv_book ex_governor) \<noteq> - 1" by code_simp
  ultimately show ?thesis using release_gives_back [OF ex_kept] by blast
qed

end
