(* ===== verification/Shed_Properties.thy ===== *)
theory Shed_Properties
  imports Governor_Run
begin

text \<open>
  What shedding promises: it spares what is on air, it goes in order, it frees enough or all there is
  and no more than it needs; and what the load, the reserve, the figures and the speed presets it works
  from keep to.
\<close>

subsection \<open>The plan over the book\<close>

definition over_line :: "governor \<Rightarrow> bool" where
  "over_line g \<longleftrightarrow> ld_samples (governor_load g) \<noteq> 0 \<and>
     saturating_sub (gv_cores g * 1000) (governor_reserve g div 2) < ld_system_millicores (governor_load g)"

text \<open>What has to be freed: how far the load is above the machine less its reserve.\<close>

definition excess_of :: "governor \<Rightarrow> u32" where
  "excess_of g = ld_system_millicores (governor_load g) - saturating_sub (gv_cores g * 1000) (governor_reserve g)"

lemma governor_shed_own:
  "gv_remote g = None \<Longrightarrow>
    governor_shed g = (if over_line g then shed_plan (governor_held g) (excess_of g) (gv_profile g) else [])"
  by (simp add: governor_shed_def over_line_def excess_of_def Let_def not_le [symmetric])

lemma held_sum: "sum_list (map cpu_of (governor_held g)) = promised cpu_millicores everything (gv_book g)"
  by (simp add: promised_def governor_held_def cpu_of_def [abs_def])

lemma held_member:
  assumes "numbered b" "h \<in> set (book_values b)"
  shows "book_get b (hl_id h) = Some h"
proof -
  from assms(2) obtain i where i: "(i, h) \<in> set (bk_held b)" by (auto simp: book_values_def)
  with assms(1) have "hl_id h = i" by (auto simp: numbered_def)
  with book_get_held [OF assms(1) i] show ?thesis by simp
qed

lemma held_ids_distinct:
  assumes "numbered b"
  shows "distinct (map hl_id (book_values b))"
proof -
  have "map hl_id (book_values b) = book_ids b"
    using assms by (auto simp: numbered_def book_values_def book_ids_def intro!: map_cong)
  with assms show ?thesis by (simp add: numbered_def book_inv_def)
qed

lemma faster_for_parts:
  assumes "faster_for p h = Some l"
  shows "\<exists>e. hl_encode h = Some e \<and> faster_preset p (we_slot e) (we_preset e) = Some (fst l)
    \<and> fst (snd l) = encode_cost_at p (we_slot e) (we_shape e) (Some (fst l))"
  using assms by (auto simp: faster_for_def Let_def split: option.splits if_splits)

text \<open>The governor's own shed list, taken apart.\<close>

lemma shed_parts:
  assumes "gv_remote g = None" "numbered (gv_book g)" "2 * promised cpu_millicores everything (gv_book g) < 2 ^ 32" "over_line g"
  shows "\<exists>over n extra. n \<le> length (drop_order (governor_held g))
    \<and> governor_shed g = map (drop_step over) (take n (drop_order (governor_held g))) @ extra
    \<and> subseq (map ss_ticket extra) (map hl_id (preset_order (governor_held g)))
    \<and> tickets extra \<inter> hl_id ` set (take n (drop_order (governor_held g))) = {}
    \<and> (\<forall>s \<in> set extra. \<exists>h \<in> set (governor_held g). soft_encode h
         \<and> (\<exists>l. faster_for (gv_profile g) h = Some l \<and> s = lower_step over h l))
    \<and> (\<forall>k < length (governor_shed g). frees (take k (governor_shed g)) < unat (excess_of g))
    \<and> (unat (excess_of g) \<le> frees (governor_shed g)
       \<or> (n = length (drop_order (governor_held g))
          \<and> (\<forall>h \<in> set (governor_held g). soft_encode h \<longrightarrow>
               hl_id h \<in> tickets (governor_shed g) \<or> faster_for (gv_profile g) h = None)))
    \<and> (extra \<noteq> [] \<longrightarrow> n = length (drop_order (governor_held g)))"
  using shed_plan_spec [of "governor_held g" "excess_of g" "gv_profile g"] assms
  by (simp add: governor_shed_own held_sum)

lemma subseq_distinct: "subseq xs ys \<Longrightarrow> distinct ys \<Longrightarrow> distinct xs"
  by (induction rule: list_emb.induct) (auto dest: list_emb_set)

lemma sorted_subseq: "subseq xs ys \<Longrightarrow> sorted ys \<Longrightarrow> sorted (xs :: 'a :: linorder list)"
  by (induction rule: list_emb.induct) (auto dest: list_emb_set)

text \<open>Nothing is left to give up: what the list does not name may not be stopped, nor be made cheaper.\<close>

definition nothing_left :: "governor \<Rightarrow> bool" where
  "nothing_left g \<longleftrightarrow> (\<forall>(i, h) \<in> set (bk_held (gv_book g)). i \<in> tickets (governor_shed g) \<or>
     (hl_kind h = Programme \<or> hl_kind h = OtherWork \<or> hl_kind h = Rung 0)
       \<and> (soft_encode h \<longrightarrow> faster_for (gv_profile g) h = None))"

subsection \<open>A machine over its line, for the witnesses\<close>

definition ex_held :: "u64 \<Rightarrow> string \<Rightarrow> u32 \<Rightarrow> kind \<Rightarrow> held" where
  "ex_held i what cpu k =
     \<lparr>hl_id = i, hl_what = what, hl_cost = cost_default\<lparr>cpu_millicores := cpu\<rparr>, hl_kind = k, hl_device = None, hl_encode = None\<rparr>"

definition ex_book :: book where
  "ex_book = \<lparr>bk_next = 3, bk_held = [(1, ex_held 1 ''programme'' 3000 Programme), (2, ex_held 2 ''rung'' 500 (Rung 1)),
     (3, ex_held 3 ''multiview'' 400 Preview)]\<rparr>"

definition ex_hot :: governor where
  "ex_hot = (with_machine governor_config_default uncalibrated 8 16384)\<lparr>gv_book := ex_book,
     gv_load := cell_store (load_default\<lparr>ld_system_millicores := 7900, ld_samples := 3\<rparr>) load_cell_default\<rparr>"

lemma ex_hot_facts: "gv_remote ex_hot = None" "numbered (gv_book ex_hot)"
  "2 * promised cpu_millicores everything (gv_book ex_hot) < 2 ^ 32" "over_line ex_hot"
proof -
  show "gv_remote ex_hot = None" by code_simp
  show "numbered (gv_book ex_hot)" by code_simp
  have "promised cpu_millicores everything (gv_book ex_hot) = 3900"
    by (simp add: promised_def ex_hot_def ex_book_def book_values_def ex_held_def)
  then show "2 * promised cpu_millicores everything (gv_book ex_hot) < 2 ^ 32" by simp
  show "over_line ex_hot" by code_simp
qed

lemma ex_hot_shed: "map ss_ticket (governor_shed ex_hot) = [3, 2]"
  by code_simp

subsection \<open>Shedding\<close>

text \<open>C13: the shed list names tickets of the book, each at most once. What it stops is never the
  programme, the top rung of a ladder or work of no stated kind; what it moves to a faster preset is
  a software encode, and costs less CPU there.\<close>

theorem shed_spares_what_is_on_air:
  assumes "gv_remote g = None" "numbered (gv_book g)" "2 * promised cpu_millicores everything (gv_book g) < 2 ^ 32"
    and "s \<in> set (governor_shed g)"
  shows "distinct (map ss_ticket (governor_shed g)) \<and>
    (\<exists>h. book_get (gv_book g) (ss_ticket s) = Some h \<and>
      (case ss_action s of
         DropWork \<Rightarrow> hl_kind h \<noteq> Programme \<and> hl_kind h \<noteq> OtherWork \<and> hl_kind h \<noteq> Rung 0
       | LowerPreset n c \<Rightarrow> soft_encode h \<and> cpu_millicores c < cpu_millicores (hl_cost h)))"
proof -
  have over: "over_line g" using assms(1,4) by (auto simp: governor_shed_own split: if_splits)
  obtain what n extra where parts:
    "governor_shed g = map (drop_step what) (take n (drop_order (governor_held g))) @ extra"
    "subseq (map ss_ticket extra) (map hl_id (preset_order (governor_held g)))"
    "tickets extra \<inter> hl_id ` set (take n (drop_order (governor_held g))) = {}"
    "\<forall>s \<in> set extra. \<exists>h \<in> set (governor_held g). soft_encode h
         \<and> (\<exists>l. faster_for (gv_profile g) h = Some l \<and> s = lower_step what h l)"
    using shed_parts [OF assms(1-3) over] by blast
  have ids: "distinct (map hl_id (governor_held g))" using held_ids_distinct [OF assms(2)] by (simp add: governor_held_def)
  have get: "book_get (gv_book g) (hl_id h) = Some h" if "h \<in> set (governor_held g)" for h
    using held_member [OF assms(2)] that by (simp add: governor_held_def)
  have "distinct (map hl_id (take n (drop_order (governor_held g))))"
    using distinct_orders(1) [OF ids] by (simp add: take_map [symmetric] distinct_take)
  moreover have "distinct (map ss_ticket extra)"
    using subseq_distinct [OF parts(2)] distinct_orders(2) [OF ids] by simp
  ultimately have "distinct (map ss_ticket (governor_shed g))"
    using parts(3) by (simp add: parts(1) comp_def tickets_def Int_commute)
  moreover have "\<exists>h. book_get (gv_book g) (ss_ticket s) = Some h \<and>
      (case ss_action s of
         DropWork \<Rightarrow> hl_kind h \<noteq> Programme \<and> hl_kind h \<noteq> OtherWork \<and> hl_kind h \<noteq> Rung 0
       | LowerPreset n c \<Rightarrow> soft_encode h \<and> cpu_millicores c < cpu_millicores (hl_cost h))"
  proof (cases "s \<in> set extra")
    case True
    then obtain h l where h: "h \<in> set (governor_held g)" "soft_encode h" "faster_for (gv_profile g) h = Some l"
      "s = lower_step what h l" using parts(4) by blast
    have "unat (cpu_millicores (fst (snd l))) < cpu_of h"
      using faster_for_saves(2,3) [of "gv_profile g" h "fst l" "fst (snd l)" "snd (snd l)"] h(3) by simp
    then show ?thesis using get [OF h(1)] h(2) by (simp add: h(4) cpu_of_def word_less_nat_alt)
  next
    case False
    then obtain h where h: "h \<in> set (drop_order (governor_held g))" "s = drop_step what h"
      using assms(4) unfolding parts(1) by (auto dest: in_set_takeD)
    then have "h \<in> set (governor_held g)" "may_drop (hl_kind h)" by simp_all
    then show ?thesis using get h(2) by (auto elim: may_drop.elims)
  qed
  ultimately show ?thesis by blast
qed

lemma shed_spares_what_is_on_air_witness:
  "governor_shed ex_hot \<noteq> [] \<and> distinct (map ss_ticket (governor_shed ex_hot))
    \<and> (\<exists>h. book_get (gv_book ex_hot) (ss_ticket (hd (governor_shed ex_hot))) = Some h)"
proof -
  have "governor_shed ex_hot \<noteq> []" using ex_hot_shed by auto
  then have "hd (governor_shed ex_hot) \<in> set (governor_shed ex_hot)" by simp
  from shed_spares_what_is_on_air [OF ex_hot_facts(1-3) this] ex_hot_shed show ?thesis by auto
qed

text \<open>C14: a governor over its line frees at least what it is over by, or else gives up everything it
  may: all work that may be stopped is stopped and every software encode is moved to a faster preset,
  unless it has none that saves anything. And it gives up no more than it needs: before its last step
  it has freed too little.\<close>

theorem shed_frees_enough:
  assumes "gv_remote g = None" "numbered (gv_book g)" "2 * promised cpu_millicores everything (gv_book g) < 2 ^ 32"
    and "over_line g"
  shows "(unat (excess_of g) \<le> frees (governor_shed g) \<or> nothing_left g)
    \<and> (\<forall>k < length (governor_shed g). frees (take k (governor_shed g)) < unat (excess_of g))"
proof -
  obtain what n extra where parts:
    "governor_shed g = map (drop_step what) (take n (drop_order (governor_held g))) @ extra"
    "\<forall>k < length (governor_shed g). frees (take k (governor_shed g)) < unat (excess_of g)"
    "unat (excess_of g) \<le> frees (governor_shed g)
       \<or> (n = length (drop_order (governor_held g))
          \<and> (\<forall>h \<in> set (governor_held g). soft_encode h \<longrightarrow>
               hl_id h \<in> tickets (governor_shed g) \<or> faster_for (gv_profile g) h = None))"
    using shed_parts [OF assms] by blast
  have "nothing_left g" if "\<not> unat (excess_of g) \<le> frees (governor_shed g)"
  proof -
    note both = disjE [OF parts(3) notE [OF that]]
    have all: "n = length (drop_order (governor_held g))"
      "\<forall>h \<in> set (governor_held g). soft_encode h \<longrightarrow> hl_id h \<in> tickets (governor_shed g) \<or> faster_for (gv_profile g) h = None"
      by (rule both, assumption, erule conjunct1) (rule both, assumption, erule conjunct2)
    have "governor_shed g = map (drop_step what) (drop_order (governor_held g)) @ extra"
      unfolding parts(1) by (simp only: all(1) take_all order_refl)
    then have stopped: "hl_id ` set (drop_order (governor_held g)) \<subseteq> tickets (governor_shed g)"
      unfolding tickets_def by (simp only: set_append set_map image_Un image_image drop_step_sel) (rule Un_upper1)
    have "(hl_kind h = Programme \<or> hl_kind h = OtherWork \<or> hl_kind h = Rung 0)
       \<and> (soft_encode h \<longrightarrow> faster_for (gv_profile g) h = None)"
      if mem: "(i, h) \<in> set (bk_held (gv_book g))" and out: "i \<notin> tickets (governor_shed g)" for i h
    proof -
      have id: "hl_id h = i" using assms(2) mem by (auto simp: numbered_def)
      have held: "h \<in> set (governor_held g)" using mem by (force simp: governor_held_def book_values_def)
      have "\<not> may_drop (hl_kind h)" using stopped out id held by auto
      then show ?thesis using all(2) out id held by (cases "hl_kind h") (auto simp: not_less)
    qed
    note left = this
    show ?thesis
      unfolding nothing_left_def
    proof (rule ballI)
      fix e assume "e \<in> set (bk_held (gv_book g))"
      then have "fst e \<in> tickets (governor_shed g) \<or> (hl_kind (snd e) = Programme \<or> hl_kind (snd e) = OtherWork
          \<or> hl_kind (snd e) = Rung 0) \<and> (soft_encode (snd e) \<longrightarrow> faster_for (gv_profile g) (snd e) = None)"
        using left [of "fst e" "snd e"] by simp blast
      then show "case e of (i, h) \<Rightarrow> i \<in> tickets (governor_shed g) \<or> (hl_kind h = Programme \<or> hl_kind h = OtherWork
          \<or> hl_kind h = Rung 0) \<and> (soft_encode h \<longrightarrow> faster_for (gv_profile g) h = None)"
        by (simp add: case_prod_unfold)
    qed
  qed
  with parts(2) show ?thesis by blast
qed

lemma shed_frees_enough_witness: "unat (excess_of ex_hot) \<le> frees (governor_shed ex_hot) \<or> nothing_left ex_hot"
  using shed_frees_enough [OF ex_hot_facts] by blast

text \<open>The shed list goes in order: first what is stopped, thumbnails, previews, then rungs from the
  bottom, the dearest first among equals; only when all of that is stopped, software encodes move to
  faster presets, in the same order with the programme last.\<close>

theorem shed_in_order:
  assumes "gv_remote g = None" "numbered (gv_book g)" "2 * promised cpu_millicores everything (gv_book g) < 2 ^ 32"
    and "over_line g"
  defines "key \<equiv> \<lambda>s. shed_key (the (book_get (gv_book g) (ss_ticket s)))"
  shows "\<exists>stops moves. governor_shed g = stops @ moves
    \<and> (\<forall>s \<in> set stops. ss_action s = DropWork) \<and> sorted (map key stops)
    \<and> (\<forall>s \<in> set moves. \<exists>n c. ss_action s = LowerPreset n c) \<and> sorted (map key moves)
    \<and> (moves \<noteq> [] \<longrightarrow> (\<forall>(i, h) \<in> set (bk_held (gv_book g)). may_drop (hl_kind h) \<longrightarrow> i \<in> tickets stops))"
proof -
  obtain what n extra where parts:
    "governor_shed g = map (drop_step what) (take n (drop_order (governor_held g))) @ extra"
    "subseq (map ss_ticket extra) (map hl_id (preset_order (governor_held g)))"
    "\<forall>s \<in> set extra. \<exists>h \<in> set (governor_held g). soft_encode h
         \<and> (\<exists>l. faster_for (gv_profile g) h = Some l \<and> s = lower_step what h l)"
    "extra \<noteq> [] \<longrightarrow> n = length (drop_order (governor_held g))"
    using shed_parts [OF assms(1-4)] by blast
  define stops where "stops = map (drop_step what) (take n (drop_order (governor_held g)))"
  have get: "book_get (gv_book g) (hl_id h) = Some h" if "h \<in> set (governor_held g)" for h
    using held_member [OF assms(2)] that by (simp add: governor_held_def)
  have look: "map (\<lambda>i. shed_key (the (book_get (gv_book g) i))) (map hl_id hs) = map shed_key hs"
    if "set hs \<subseteq> set (governor_held g)" for hs
    using that get by (auto simp: subset_iff)
  have by_ticket: "map key ss = map (\<lambda>i. shed_key (the (book_get (gv_book g) i))) (map ss_ticket ss)" for ss
    by (simp add: key_def)
  have taken: "set (take n (drop_order (governor_held g))) \<subseteq> set (governor_held g)"
    using set_take_subset by fastforce
  have "map ss_ticket stops = map hl_id (take n (drop_order (governor_held g)))" by (simp add: stops_def comp_def)
  then have keys: "map key stops = take n (map shed_key (drop_order (governor_held g)))"
    by (simp only: by_ticket look [OF taken] take_map)
  have "sorted (map shed_key (drop_order (governor_held g)))" unfolding drop_order_def by (rule sorted_sort_key)
  then have first: "sorted (map key stops)" unfolding keys by (rule sorted_wrt_take)
  have "subseq (map key extra) (map (\<lambda>i. shed_key (the (book_get (gv_book g) i))) (map hl_id (preset_order (governor_held g))))"
    unfolding by_ticket by (rule subseq_map [OF parts(2)])
  then have "subseq (map key extra) (map shed_key (preset_order (governor_held g)))"
    by (simp only: look [of "preset_order (governor_held g)"] set_preset_order Collect_restrict)
  moreover have "sorted (map shed_key (preset_order (governor_held g)))" unfolding preset_order_def by (rule sorted_sort_key)
  ultimately have second: "sorted (map key extra)" by (rule sorted_subseq)
  have moves: "\<forall>s \<in> set extra. \<exists>n c. ss_action s = LowerPreset n c"
    using parts(3) by (metis lower_step_sel(2))
  have all: "\<forall>(i, h) \<in> set (bk_held (gv_book g)). may_drop (hl_kind h) \<longrightarrow> i \<in> tickets stops" if "extra \<noteq> []"
  proof (rule ballI)
    fix e assume e: "e \<in> set (bk_held (gv_book g))"
    then have "snd e \<in> set (governor_held g)" "hl_id (snd e) = fst e"
      using assms(2) by (auto simp: governor_held_def book_values_def numbered_def)
    moreover have "stops = map (drop_step what) (drop_order (governor_held g))"
      unfolding stops_def by (simp only: parts(4) [rule_format, OF that] take_all order_refl)
    ultimately show "case e of (i, h) \<Rightarrow> may_drop (hl_kind h) \<longrightarrow> i \<in> tickets stops"
      by (force simp: tickets_def case_prod_unfold)
  qed
  have "\<forall>s \<in> set stops. ss_action s = DropWork" by (simp add: stops_def)
  then show ?thesis using first second moves all parts(1) unfolding stops_def [symmetric] by blast
qed

lemma shed_in_order_witness:
  "\<exists>stops moves. governor_shed ex_hot = stops @ moves
    \<and> sorted (map (\<lambda>s. shed_key (the (book_get (gv_book ex_hot) (ss_ticket s)))) stops)"
  using shed_in_order [OF ex_hot_facts] by blast

end
