(* ===== verification/Measure_Properties.thy ===== *)
theory Measure_Properties
  imports Governor_Run
begin

text \<open>
  What the figures of the governor keep to: the window of readings, the reserve, the costs and speed
  presets read from a calibration, and the link that carries a decision from a station to a show.
\<close>

subsection \<open>The load and the reserve\<close>

text \<open>After any run of readings, what is taken off the machine for its load (others at their peak,
  this process at its average, and the jitter) reaches the load of every reading of the window, the
  last \<open>n\<close> of the run, to within one thousandth of a core for the rounding; and the peak of other
  programs is at least what each of those readings showed of them.\<close>

theorem window_covers_peak:
  assumes "r \<in> set (drop (length rs - max n 1) rs)"
  defines "l \<equiv> window_load (window_after n rs)"
  shows "unat (rd_system_millicores r)
      \<le> unat (ld_others_peak_millicores l) + unat (ld_own_millicores l) + unat (ld_jitter_millicores l) + 1
    \<and> others r \<le> ld_others_peak_millicores l"
proof -
  have r: "r \<in> set (wn_readings (window_after n rs))" using assms(1) window_readings [of n rs] by simp
  have "others r \<le> peak_of (map others (wn_readings (window_after n rs)))" using r by (intro peak_of_ge) simp
  moreover have "ld_others_peak_millicores l = peak_of (map others (wn_readings (window_after n rs)))"
    by (simp add: l_def window_load_def Let_def)
  ultimately show ?thesis using window_load_covers [OF r] by (simp add: l_def)
qed

definition ex_reading :: "u32 \<Rightarrow> u32 \<Rightarrow> reading" where
  "ex_reading system own = \<lparr>rd_system_millicores = system, rd_own_millicores = own, rd_available_mib = None, rd_devices = []\<rparr>"

lemma window_covers_peak_witness:
  "(7000 :: nat) \<le> unat (ld_others_peak_millicores (window_load (window_after 2 [ex_reading 7000 500, ex_reading 3000 500])))
    + unat (ld_own_millicores (window_load (window_after 2 [ex_reading 7000 500, ex_reading 3000 500])))
    + unat (ld_jitter_millicores (window_load (window_after 2 [ex_reading 7000 500, ex_reading 3000 500]))) + 1"
  using window_covers_peak [of "ex_reading 7000 500" "[ex_reading 7000 500, ex_reading 3000 500]" 2]
  by (simp add: ex_reading_def)

text \<open>The reserve worked out for a machine is at least its base (a fifth of a desktop and a core and
  a half, a twelfth of a server and half a core, or half the machine when that is less), at most half
  the machine, and grows with the jitter.\<close>

theorem reserve_bounds:
  assumes "unat cores * 1000 < 2 ^ 32" "j \<le> k"
  defines "cap \<equiv> max (unat cores) 1 * 1000"
  shows "min (max (cap div (if desktop then 5 else 12)) (if desktop then 1500 else 500)) (cap div 2)
      \<le> unat (reserve cores desktop j None)
    \<and> reserve cores desktop j None \<le> reserve cores desktop k None
    \<and> unat (reserve cores desktop k None) \<le> cap div 2"
  unfolding unat_reserve [OF assms(1)] cap_def [symmetric]
  using reserve_mono [OF assms(1,2)] by simp

lemma reserve_bounds_witness:
  "min (max ((8000 :: nat) div 12) 500) (8000 div 2) \<le> unat (reserve 8 False 100 None)
    \<and> unat (reserve 8 False 200 None) \<le> 8000 div 2"
  using reserve_bounds [of 8 100 200 False] by simp

subsection \<open>Costs\<close>

lemma enc_rising:
  assumes "find_enc (from_calibration c) s = Some e"
  shows "0 \<le> ln_slope (en_cpu e) \<and> (\<forall>r \<in> set (en_presets e). 0 \<le> snd r)"
  using from_calibration_rising [of c] find_enc_in [OF assms] by (simp add: rising_def)

lemma word_div_mono: "(a :: u32) \<le> b \<Longrightarrow> a div 10 \<le> b div 10"
  by (simp add: word_le_nat_alt unat_div div_le_mono)

text \<open>On a calibrated machine and on an unmeasured one alike, a picture that is no wider, no taller
  and no faster costs no more to encode, in CPU and on the device, at every speed preset.\<close>

theorem bigger_picture_costs_no_less:
  assumes "no_bigger s t"
  shows "cpu_millicores (encode_cost_at (from_calibration c) slot s preset)
      \<le> cpu_millicores (encode_cost_at (from_calibration c) slot t preset)
    \<and> device_millis (encode_cost_at (from_calibration c) slot s preset)
      \<le> device_millis (encode_cost_at (from_calibration c) slot t preset)
    \<and> device_sessions (encode_cost_at (from_calibration c) slot s preset)
      = device_sessions (encode_cost_at (from_calibration c) slot t preset)"
proof -
  let ?p = "from_calibration c"
  have codec: "vs_codec t = vs_codec s" using assms by (simp add: no_bigger_def)
  have x: "0 \<le> shape_mpix s" "shape_mpix s \<le> shape_mpix t"
    using shape_mpix_mono [OF assms] by (simp_all add: shape_mpix_def mpix_nonneg)
  have dev: "device_millis (encode_cost_at ?p slot s preset) \<le> device_millis (encode_cost_at ?p slot t preset)
    \<and> device_sessions (encode_cost_at ?p slot s preset) = device_sessions (encode_cost_at ?p slot t preset)"
    using encode_cost_hardware [of slot ?p _ preset] encode_cost_software [of slot ?p _ preset]
      hardware_share_mono [OF x, of "vs_codec s"]
    by (cases "es_hardware slot") (simp_all add: codec shape_mpix_def)
  have "cpu_millicores (encode_cost_at ?p slot s preset) \<le> cpu_millicores (encode_cost_at ?p slot t preset)"
  proof (cases "find_enc ?p slot")
    case None
    have "guess_encode (vs_codec s) (shape_mpix s) \<le> guess_encode (vs_codec s) (shape_mpix t)"
      by (rule guess_encode_mono [OF x])
    then show ?thesis
      using word_div_mono max.mono [of "guess_encode (vs_codec s) (shape_mpix s) div 10" _ 1 1]
      by (simp add: encode_cost_at_def Let_def None codec shape_mpix_def)
  next
    case (Some e)
    define ratio where "ratio = (case Option.bind preset (\<lambda>n. map_of (en_presets e) n) of Some r \<Rightarrow> r | None \<Rightarrow> 1)"
    have "0 \<le> ratio"
      using enc_rising [OF Some] by (auto simp: ratio_def split: option.splits bind_splits dest!: map_of_SomeD)
    then have "f_round (f_mul (line_at (en_cpu e) (shape_mpix s)) ratio) \<le> f_round (f_mul (line_at (en_cpu e) (shape_mpix t)) ratio)"
      using enc_rising [OF Some] x by (intro f_round_mono f_mul_mono f_mul_nonneg line_at_mono) (auto simp: line_at_nonneg)
    then have "as_u32 (f_round (f_mul (line_at (en_cpu e) (shape_mpix s)) ratio))
        \<le> as_u32 (f_round (f_mul (line_at (en_cpu e) (shape_mpix t)) ratio))" by (rule as_u32_mono)
    then show ?thesis
      by (cases "es_hardware slot") (simp_all add: encode_cost_at_def Let_def Some ratio_def [symmetric]
        shape_mpix_def [symmetric] le_max_iff_disj, meson linear order_trans)
  qed
  with dev show ?thesis by blast
qed

lemma bigger_picture_costs_no_less_witness:
  "cpu_millicores (encode_cost_at (from_calibration calibration_default) \<lparr>es_id = ''x264'', es_codec = H264, es_hardware = False, es_device = None\<rparr>
      \<lparr>vs_codec = H264, vs_width = 1280, vs_height = 720, vs_fps = fps_whole 30, vs_bitrate_kbps = 0, vs_keyframe_ms = 0\<rparr> None)
    \<le> cpu_millicores (encode_cost_at (from_calibration calibration_default) \<lparr>es_id = ''x264'', es_codec = H264, es_hardware = False, es_device = None\<rparr>
      \<lparr>vs_codec = H264, vs_width = 1920, vs_height = 1080, vs_fps = fps_whole 30, vs_bitrate_kbps = 0, vs_keyframe_ms = 0\<rparr> None)"
proof -
  have "no_bigger \<lparr>vs_codec = H264, vs_width = 1280, vs_height = 720, vs_fps = fps_whole 30, vs_bitrate_kbps = 0, vs_keyframe_ms = 0\<rparr>
      \<lparr>vs_codec = H264, vs_width = 1920, vs_height = 1080, vs_fps = fps_whole 30, vs_bitrate_kbps = 0, vs_keyframe_ms = 0\<rparr>"
    by (simp add: no_bigger_def)
  from bigger_picture_costs_no_less [OF this] show ?thesis by blast
qed

subsection \<open>Speed presets\<close>

lemma faster_preset_position:
  assumes "faster_preset p s (Some n) = Some m"
  shows "\<exists>i j. position (\<lambda>k. k = n) (profile_presets p s) = Some i \<and> position (\<lambda>k. k = m) (profile_presets p s) = Some j \<and> j < i"
proof -
  obtain i where i: "position (\<lambda>k. k = n) (profile_presets p s) = Some i" "i \<noteq> 0" "m = profile_presets p s ! (i - 1)"
    using assms by (auto simp: faster_preset_def Let_def split: option.splits if_splits)
  have len: "i < length (profile_presets p s)" using position_Some [OF i(1)] by simp
  then have "m \<in> set (profile_presets p s)" using i by simp
  then have "position (\<lambda>k. k = m) (profile_presets p s) \<noteq> None" unfolding position_None by blast
  then obtain j where j: "position (\<lambda>k. k = m) (profile_presets p s) = Some j" by blast
  have "\<forall>k<j. profile_presets p s ! k \<noteq> m" using position_Some [OF j] by simp
  then have "\<not> i - 1 < j" using i(3) by metis
  with i(1,2) j show ?thesis by (intro exI [of _ i] exI [of _ j]) simp
qed

text \<open>C15: moving an encode to a faster preset again and again comes to an end: a chain of such moves has
  no more presets than were measured for the encoder.\<close>

theorem faster_presets_end:
  assumes "\<forall>k. Suc k < length ns \<longrightarrow> faster_preset p s (Some (ns ! k)) = Some (ns ! Suc k)"
  shows "length ns \<le> max 1 (length (profile_presets p s))"
proof (cases "length ns \<le> 1")
  case False
  define pos where "pos k = the (position (\<lambda>n. n = ns ! k) (profile_presets p s))" for k
  have down: "pos (Suc k) < pos k" if "Suc k < length ns" for k
    using faster_preset_position assms that by (fastforce simp: pos_def)
  have falls: "k < length ns \<Longrightarrow> pos k + k \<le> pos 0" for k
  proof (induction k)
    case (Suc k)
    with down [of k] show ?case by simp
  qed simp
  have "length ns - 1 < length ns" using False by simp
  from falls [OF this] have "length ns - 1 \<le> pos 0" by linarith
  moreover have "pos 0 < length (profile_presets p s)"
  proof -
    have "faster_preset p s (Some (ns ! 0)) = Some (ns ! Suc 0)" using assms False by simp
    from faster_preset_position [OF this] show ?thesis by (auto simp: pos_def dest: position_Some)
  qed
  ultimately show ?thesis by linarith
qed simp

definition ex_presets :: profile where
  "ex_presets = \<lparr>pr_cal = calibration_default, pr_encs =
    [\<lparr>en_cal = \<lparr>ec_slot = \<lparr>es_id = ''x264'', es_codec = H264, es_hardware = False, es_device = None\<rparr>, ec_preset = Some ''veryfast'',
        ec_points = [], ec_presets = [], ec_sessions = None\<rparr>,
      en_cpu = \<lparr>ln_fixed = 0, ln_slope = 32\<rparr>, en_presets = [(''ultrafast'', 1 / 2), (''superfast'', 3 / 4), (''veryfast'', 1)]\<rparr>]\<rparr>"

definition ex_soft :: encoder_slot where
  "ex_soft = \<lparr>es_id = ''x264'', es_codec = H264, es_hardware = False, es_device = None\<rparr>"

lemma faster_presets_end_witness:
  "length [''veryfast'', ''superfast'', ''ultrafast''] \<le> max 1 (length (profile_presets ex_presets ex_soft))"
proof (rule faster_presets_end)
  have "faster_preset ex_presets ex_soft (Some ''veryfast'') = Some ''superfast''"
    "faster_preset ex_presets ex_soft (Some ''superfast'') = Some ''ultrafast''" by code_simp+
  then show "\<forall>k. Suc k < length [''veryfast'', ''superfast'', ''ultrafast''] \<longrightarrow>
      faster_preset ex_presets ex_soft (Some ([''veryfast'', ''superfast'', ''ultrafast''] ! k))
        = Some ([''veryfast'', ''superfast'', ''ultrafast''] ! Suc k)"
    by (auto simp: less_Suc_eq)
qed

subsection \<open>The link to a station\<close>

text \<open>A show hears from its station exactly what the station decided: the same ticket number, cost and
  preset when it was granted, the same figures, text, shortages and offers when it was refused. Its own
  book plays no part.\<close>

theorem station_decides:
  assumes "gv_remote station = None" "answer_ask station (ask_of c) = ((ans, kept), station')"
    and "gv_remote client = Some link" "rl_ask link (ask_of c) = Some ans"
  shows "snd (admit_claim client c) = client \<and>
    (case fst (admit_ask station (ask_of c)) of
       Granted t \<Rightarrow> kept = Some t \<and> fst (admit_claim client c) = Granted (t\<lparr>tk_remote := True\<rparr>)
     | Refused need room adv \<Rightarrow> kept = None \<and> fst (admit_claim client c) = Refused need room adv)"
proof -
  obtain adm where run: "admit_ask station (ask_of c) = (adm, station')" and ans: "answer_of adm = (ans, kept)"
    using assms(2) by (auto simp: answer_ask_def split: prod.splits)
  have own: "admit_claim client c = (admit_of ans, client)" using assms(3,4) by (simp add: admit_claim_def)
  show ?thesis
  proof (cases adm)
    case (Granted t)
    with ans have "kept = Some t" "admit_of ans = Granted (t\<lparr>tk_remote := True\<rparr>)" by (auto simp: answer_of_def)
    with Granted run own show ?thesis by simp
  next
    case (Refused need room adv)
    have "\<exists>cl. admit_claim station cl = (adm, station')"
      using run by (auto simp: admit_ask_def admit_encode_def split: option.splits)
    then obtain cl where "admit_local station cl = (adm, station')" using assms(1) by (auto simp: admit_claim_def)
    then have "\<exists>need room. ad_short adv = short_of need room" using Refused by (cases rule: admit_local_cases) auto
    then have "List.map_filter short_name (ad_short adv) = ad_short adv" using List_map_filter_short by auto
    with ans Refused have "kept = None" "admit_of ans = Refused need room adv" by (auto simp: answer_of_def)
    with Refused run own show ?thesis by simp
  qed
qed

definition ex_station :: governor where
  "ex_station = with_machine governor_config_default uncalibrated 8 16384"

definition ex_ask_claim :: claim where
  "ex_ask_claim = claim_new ''sound'' (cost_default\<lparr>cpu_millicores := 15\<rparr>)"

definition ex_show :: governor where
  "ex_show = set_remote \<lparr>rl_ask = (\<lambda>a. Some (fst (fst (answer_ask ex_station a)))), rl_shed = [], rl_released = []\<rparr>
     (with_machine governor_config_default uncalibrated 8 16384)"

lemma station_decides_witness:
  "snd (admit_claim ex_show ex_ask_claim) = ex_show \<and>
    fst (admit_claim ex_show ex_ask_claim) =
      Granted \<lparr>tk_id = 1, tk_cost = cl_cost ex_ask_claim, tk_preset = None, tk_remote = True\<rparr>"
proof -
  have dec: "fst (admit_ask ex_station (ask_of ex_ask_claim)) =
      Granted \<lparr>tk_id = 1, tk_cost = cl_cost ex_ask_claim, tk_preset = None, tk_remote = False\<rparr>"
    by code_simp
  obtain ans kept st where run: "answer_ask ex_station (ask_of ex_ask_claim) = ((ans, kept), st)" by (metis surj_pair)
  have "gv_remote ex_station = None" by (simp add: ex_station_def with_machine_def)
  moreover have "gv_remote ex_show =
      Some \<lparr>rl_ask = (\<lambda>a. Some (fst (fst (answer_ask ex_station a)))), rl_shed = [], rl_released = []\<rparr>"
    by (simp add: ex_show_def set_remote_def)
  ultimately show ?thesis
    using station_decides [of ex_station ex_ask_claim ans kept st ex_show] run dec by simp
qed

text \<open>
  A ticket a station granted carries the station's number. Lowering it changes whatever entry the
  show's own book has under that number, work of its own admitted while the station could not be
  reached, and the station is told nothing.
\<close>

theorem remote_lower_changes_own_book:
  assumes "tk_remote t" "book_get (gv_book g) (tk_id t) = Some h"
  shows "book_get (gv_book (snd (ticket_lower n c t g))) (tk_id t) = Some (lower_held n c h)
    \<and> gv_remote (snd (ticket_lower n c t g)) = gv_remote g"
proof -
  have "map_of (map (\<lambda>(k, h). (k, if k = i then lower_held n c h else h)) xs) i = Some (lower_held n c h)"
    if "map_of xs i = Some h" for xs :: "(u64 \<times> held) list" and i
    using that by (induction xs) (auto split: if_splits)
  with assms show ?thesis by (simp add: ticket_lower_def book_lower_def book_get_def)
qed

end
