(* ===== verification/Maps.thy ===== *)
theory Maps
  imports Store "HOL-Library.Char_ord" "HOL-Library.List_Lexorder"
begin

text \<open>
  The two maps of Rust's library the engine keeps its state in, as association lists that compute: a
  \<open>BTreeMap\<close> in the order of its keys, and a \<open>HashMap\<close> in the order of insertion. The order a
  \<open>HashMap\<close> is walked in is not specified; nothing below depends on it but what says so.
\<close>

subsection \<open>A tree map\<close>

fun tree_put :: "'k::linorder \<Rightarrow> 'v \<Rightarrow> ('k \<times> 'v) list \<Rightarrow> ('k \<times> 'v) list" where
  "tree_put k v [] = [(k, v)]"
| "tree_put k v ((j, w) # xs) =
    (if k < j then (k, v) # (j, w) # xs else if k = j then (k, v) # xs else (j, w) # tree_put k v xs)"

definition tree_del :: "'k \<Rightarrow> ('k \<times> 'v) list \<Rightarrow> ('k \<times> 'v) list" where
  "tree_del k xs = filter (\<lambda>e. fst e \<noteq> k) xs"

definition keys_of :: "('k \<times> 'v) list \<Rightarrow> 'k list" where
  "keys_of xs = map fst xs"

definition tree_ok :: "('k::linorder \<times> 'v) list \<Rightarrow> bool" where
  "tree_ok xs \<longleftrightarrow> sorted_wrt (<) (keys_of xs)"

lemma keys_of_simps [simp]: "keys_of [] = []" "keys_of (e # xs) = fst e # keys_of xs"
  by (simp_all add: keys_of_def)

lemma set_keys_of: "set (keys_of xs) = fst ` set xs"
  by (simp add: keys_of_def)

lemma map_of_keys: "map_of xs k \<noteq> None \<longleftrightarrow> k \<in> set (keys_of xs)"
  by (simp add: set_keys_of map_of_eq_None_iff)

lemma tree_ok_Nil [simp]: "tree_ok []"
  by (simp add: tree_ok_def)

lemma set_tree_put: "set (keys_of (tree_put k v xs)) = insert k (set (keys_of xs))"
  by (induction k v xs rule: tree_put.induct) auto

lemma tree_ok_put: "tree_ok xs \<Longrightarrow> tree_ok (tree_put k v xs)"
proof (induction k v xs rule: tree_put.induct)
  case (2 k v j w xs)
  then show ?case by (auto simp: tree_ok_def set_tree_put)
qed (simp add: tree_ok_def)

lemma map_of_tree_put: "tree_ok xs \<Longrightarrow> map_of (tree_put k v xs) = (map_of xs)(k \<mapsto> v)"
  by (induction k v xs rule: tree_put.induct) (auto simp: tree_ok_def fun_eq_iff)

lemma map_of_tree_del: "map_of (tree_del k xs) = (map_of xs)(k := None)"
  unfolding tree_del_def by (induction xs) (auto simp: fun_eq_iff)

lemma keys_tree_del: "keys_of (tree_del k xs) = filter (\<lambda>j. j \<noteq> k) (keys_of xs)"
  by (simp add: keys_of_def tree_del_def filter_map comp_def)

lemma tree_ok_del: "tree_ok xs \<Longrightarrow> tree_ok (tree_del k xs)"
  by (simp add: tree_ok_def keys_tree_del sorted_wrt_filter)

lemma tree_ok_distinct: "tree_ok xs \<Longrightarrow> distinct (keys_of xs)"
  by (simp add: tree_ok_def strict_sorted_iff)

interpretation tree_map: keyed_map_del tree_ok keys_of map_of tree_put tree_del
  by unfold_locales
    (simp_all add: tree_ok_distinct map_of_keys [simplified] tree_ok_put map_of_tree_put tree_ok_del map_of_tree_del)

text \<open>A tree map is the map it stands for: two of them with the same entries are the same list.\<close>

lemma tree_ext:
  assumes "tree_ok xs" "tree_ok ys" "map_of xs = map_of ys"
  shows "xs = ys"
proof -
  have "set (keys_of xs) = set (keys_of ys)" using assms(3) map_of_keys [of xs] map_of_keys [of ys] by auto
  then have keys: "map fst xs = map fst ys"
    using assms(1,2) strict_sorted_equal unfolding tree_ok_def keys_of_def by blast
  have entries: "map (\<lambda>k. (k, the (map_of zs k))) (map fst zs) = zs" if "tree_ok zs" for zs :: "('a \<times> 'b) list"
  proof -
    have "(fst e, the (map_of zs (fst e))) = e" if "e \<in> set zs" for e
      using map_of_is_SomeI [of zs "fst e" "snd e"] that tree_ok_distinct [OF \<open>tree_ok zs\<close>] by (cases e) (simp add: keys_of_def)
    then show ?thesis by (simp add: comp_def map_idI)
  qed
  show ?thesis using entries [OF assms(1)] entries [OF assms(2)] unfolding keys assms(3) by (rule box_equals [OF refl])
qed

subsection \<open>A hash map\<close>

definition hash_del :: "'k \<Rightarrow> ('k \<times> 'v) list \<Rightarrow> ('k \<times> 'v) list" where
  "hash_del k xs = filter (\<lambda>e. fst e \<noteq> k) xs"

definition hash_put :: "'k \<Rightarrow> 'v \<Rightarrow> ('k \<times> 'v) list \<Rightarrow> ('k \<times> 'v) list" where
  "hash_put k v xs = hash_del k xs @ [(k, v)]"

definition hash_ok :: "('k \<times> 'v) list \<Rightarrow> bool" where
  "hash_ok xs \<longleftrightarrow> distinct (keys_of xs)"

lemma hash_ok_Nil [simp]: "hash_ok []"
  by (simp add: hash_ok_def)

lemma keys_hash_del: "keys_of (hash_del k xs) = filter (\<lambda>j. j \<noteq> k) (keys_of xs)"
  by (simp add: keys_of_def hash_del_def filter_map comp_def)

lemma map_of_hash_del: "map_of (hash_del k xs) = (map_of xs)(k := None)"
  unfolding hash_del_def by (induction xs) (auto simp: fun_eq_iff)

lemma keys_hash_put: "keys_of (hash_put k v xs) = filter (\<lambda>j. j \<noteq> k) (keys_of xs) @ [k]"
  by (simp add: hash_put_def keys_of_def hash_del_def filter_map comp_def)

lemma map_of_hash_put: "map_of (hash_put k v xs) = (map_of xs)(k \<mapsto> v)"
  by (auto simp: hash_put_def map_of_hash_del map_add_def fun_eq_iff split: option.split)

lemma hash_ok_put: "hash_ok xs \<Longrightarrow> hash_ok (hash_put k v xs)"
  by (simp add: hash_ok_def keys_hash_put)

lemma hash_ok_del: "hash_ok xs \<Longrightarrow> hash_ok (hash_del k xs)"
  by (simp add: hash_ok_def keys_hash_del)

lemma hash_ok_distinct: "hash_ok xs \<Longrightarrow> distinct (keys_of xs)"
  by (simp add: hash_ok_def)

interpretation hash_map: keyed_map_del hash_ok keys_of map_of hash_put hash_del
  by unfold_locales
    (simp_all add: hash_ok_distinct hash_ok_put hash_ok_del map_of_hash_put map_of_hash_del map_of_keys [simplified])

lemma hash_mem: "hash_ok xs \<Longrightarrow> map_of xs k = Some v \<longleftrightarrow> (k, v) \<in> set xs"
  by (simp add: hash_ok_def keys_of_def)

end
