(* ===== verification/Text.thy ===== *)
theory Text
  imports Prelude
begin

text \<open>
  What the code does to text beside formatting: \<open>trim\<close>, \<open>to_lowercase\<close>, \<open>strip_prefix\<close>. Strings are
  lists of bytes; blanks and letters are the ASCII ones.
\<close>

definition is_blank :: "char \<Rightarrow> bool" where
  "is_blank c \<longleftrightarrow> c = CHR '' '' \<or> (9 \<le> (of_char c :: int) \<and> (of_char c :: int) \<le> 13)"

definition trim :: "string \<Rightarrow> string" where
  "trim s = rev (dropWhile is_blank (rev (dropWhile is_blank s)))"

definition to_lower :: "char \<Rightarrow> char" where
  "to_lower c = (if (65 :: int) \<le> of_char c \<and> (of_char c :: int) \<le> 90 then char_of (of_char c + 32 :: int) else c)"

definition strip_prefix :: "string \<Rightarrow> string \<Rightarrow> string option" where
  "strip_prefix p s = (if starts_with p s then Some (drop (length p) s) else None)"

lemma strip_prefix_append [simp]: "strip_prefix p (p @ s) = Some s"
  by (simp add: strip_prefix_def starts_with_def)

lemma trim_plain: "s \<noteq> [] \<Longrightarrow> \<not> is_blank (hd s) \<Longrightarrow> \<not> is_blank (last s) \<Longrightarrow> trim s = s"
proof -
  assume s: "s \<noteq> []" "\<not> is_blank (hd s)" "\<not> is_blank (last s)"
  then have "dropWhile is_blank s = s" "dropWhile is_blank (rev s) = rev s" by (simp_all add: dropWhile_eq_self_iff hd_rev)
  then show "trim s = s" by (simp add: trim_def)
qed

lemma trim_idle:
  assumes "trim s \<noteq> []"
  shows "\<not> is_blank (hd (trim s)) \<and> \<not> is_blank (last (trim s))"
proof -
  have front: "\<not> is_blank (hd (dropWhile is_blank xs))" if "dropWhile is_blank xs \<noteq> []" for xs
    using that by (simp add: hd_dropWhile)
  define t where "t = dropWhile is_blank s"
  have ne: "dropWhile is_blank (rev t) \<noteq> []" using assms by (simp add: trim_def t_def)
  then have "\<not> is_blank (last (trim s))" using front [OF ne] by (simp add: trim_def t_def last_rev)
  moreover have "hd (trim s) = hd t"
  proof -
    have "rev t = takeWhile is_blank (rev t) @ dropWhile is_blank (rev t)" by simp
    then have "t = rev (dropWhile is_blank (rev t)) @ rev (takeWhile is_blank (rev t))" by (metis rev_append rev_rev_ident)
    then show ?thesis using ne by (metis hd_append2 rev_is_Nil_conv t_def trim_def)
  qed
  moreover have "t \<noteq> []" using ne by auto
  then have "\<not> is_blank (hd t)" using front [of s] by (simp add: t_def)
  ultimately show ?thesis by simp
qed

lemma trim_trim [simp]: "trim (trim s) = trim s"
proof (cases "trim s = []")
  case True
  moreover have "trim [] = []" by (simp add: trim_def)
  ultimately show ?thesis by simp
next
  case False
  then show ?thesis using trim_idle [of s] trim_plain [of "trim s"] by blast
qed

end
