(* ===== verification/Catalogue.thy ===== *)
theory Catalogue
  imports Rendition Maps Text
begin

text \<open>
  The codec catalogue (\<open>crates/godwinmix-core/src/catalogue/model.rs\<close> and \<open>mod.rs\<close>): the entries
  \<open>codecs.toml\<close> parses into, what an entry needs installed, laying one catalogue over another, and the
  two environment variables that nudge it. Reading the TOML itself is serde's.
\<close>

subsection \<open>Entries (\<open>model.rs\<close>)\<close>

record derived =
  dv_unit :: string
  dv_from :: string

text \<open>\<open>i64\<close> values are integers; where the code computes with them the bounds are written out.\<close>

datatype prop_value = PDerived derived | PBool bool | PInt int | PFloat f64 | PText string

type_synonym props = "(string \<times> prop_value) list"

record keyframe_rule =
  kr_property :: string
  kr_unit :: string

record verified =
  vf_platform :: string
  vf_driver :: string
  vf_gstreamer :: string
  vf_by :: string
  vf_date :: string
  vf_report :: string

datatype role = RoleEncode | RoleDecode

fun role_text :: "role \<Rightarrow> string" where
  "role_text RoleEncode = ''encode''"
| "role_text RoleDecode = ''decode''"

text \<open>A rank is an \<open>i32\<close> that is only ever compared.\<close>

record video_entry =
  ve_id :: "string option"
  ve_codec :: string
  ve_accel :: string
  ve_rank :: int
  ve_encoder :: "string option"
  ve_decoder :: "string option"
  ve_convert_rank :: "int option"
  ve_download :: "string option"
  ve_parser :: "string option"
  ve_profile :: "string option"
  ve_memory :: string
  ve_requires :: "string list"
  ve_properties :: props
  ve_decode_properties :: props
  ve_arch_properties :: "(string \<times> props) list"
  ve_keyframe :: "keyframe_rule option"
  ve_container :: "string list"
  ve_license :: "string option"
  ve_verified :: "verified list"
  ve_comment :: "string option"
  ve_disabled :: bool

record audio_entry =
  ae_id :: "string option"
  ae_codec :: string
  ae_accel :: string
  ae_rank :: int
  ae_encoder :: "string option"
  ae_decoder :: "string option"
  ae_parser :: "string option"
  ae_requires :: "string list"
  ae_properties :: props
  ae_container :: "string list"
  ae_license :: "string option"
  ae_max_channels :: "u8 option"
  ae_priming_delay_ms :: "u64 option"
  ae_verified :: "verified list"
  ae_comment :: "string option"
  ae_disabled :: bool

record graphics_entry =
  ge_id :: "string option"
  ge_accel :: string
  ge_rank :: int
  ge_compositor :: string
  ge_convert :: string
  ge_upload :: "string option"
  ge_download :: "string option"
  ge_memory :: string
  ge_requires :: "string list"
  ge_license :: "string option"
  ge_verified :: "verified list"
  ge_comment :: "string option"
  ge_disabled :: bool

record container_entry =
  ce_name :: string
  ce_muxer :: string
  ce_video :: "string list"
  ce_audio :: "string list"
  ce_streamable :: bool
  ce_properties :: props
  ce_comment :: "string option"

definition ARCHES :: "string list" where
  "ARCHES = [''x86_64'', ''aarch64'']"

definition ve_ranks_converter :: "video_entry \<Rightarrow> int" where
  "ve_ranks_converter e = (case ve_convert_rank e of Some r \<Rightarrow> r | None \<Rightarrow> ve_rank e)"

definition put_all :: "props \<Rightarrow> props \<Rightarrow> props" where
  "put_all over base = fold (\<lambda>(name, v). tree_put name v) over base"

definition resolve_arch :: "string \<Rightarrow> video_entry \<Rightarrow> video_entry" where
  "resolve_arch arch e =
    (case map_of (ve_arch_properties e) arch of
       Some over \<Rightarrow> e\<lparr>ve_properties := put_all over (ve_properties e)\<rparr>
     | None \<Rightarrow> e)"

definition entry_carries_video :: "container_entry \<Rightarrow> string \<Rightarrow> bool" where
  "entry_carries_video c codec = (codec \<in> set (ce_video c))"

definition entry_carries_audio :: "container_entry \<Rightarrow> string \<Rightarrow> bool" where
  "entry_carries_audio c codec = (codec \<in> set (ce_audio c))"

definition derived_id :: "string option \<Rightarrow> string \<Rightarrow> string \<Rightarrow> string option \<Rightarrow> string option \<Rightarrow> string" where
  "derived_id explicit codec accel encoder decoder =
    (case explicit of
       Some i \<Rightarrow> i
     | None \<Rightarrow> codec @ ''-'' @ accel @ ''-'' @
         (case encoder of Some e \<Rightarrow> e | None \<Rightarrow> (case decoder of Some d \<Rightarrow> d | None \<Rightarrow> ''none'')))"

fun video_element :: "role \<Rightarrow> video_entry \<Rightarrow> string option" where
  "video_element RoleEncode e = ve_encoder e"
| "video_element RoleDecode e = ve_decoder e"

fun other_element :: "role \<Rightarrow> video_entry \<Rightarrow> string option" where
  "other_element RoleEncode e = ve_decoder e"
| "other_element RoleDecode e = ve_encoder e"

fun audio_element :: "role \<Rightarrow> audio_entry \<Rightarrow> string option" where
  "audio_element RoleEncode e = ae_encoder e"
| "audio_element RoleDecode e = ae_decoder e"

fun other_audio_element :: "role \<Rightarrow> audio_entry \<Rightarrow> string option" where
  "other_audio_element RoleEncode e = ae_decoder e"
| "other_audio_element RoleDecode e = ae_encoder e"

fun add_needs :: "string option \<Rightarrow> string list \<Rightarrow> string list \<Rightarrow> string list" where
  "add_needs other [] v = v"
| "add_needs other (r # rs) v =
    (if Some r = other \<or> r \<in> set v then add_needs other rs v else add_needs other rs (v @ [r]))"

definition needs :: "string option \<Rightarrow> string option \<Rightarrow> string list \<Rightarrow> string list" where
  "needs own other required = add_needs other required (case own of Some e \<Rightarrow> [e] | None \<Rightarrow> [])"

definition video_id :: "video_entry \<Rightarrow> string" where
  "video_id e = derived_id (ve_id e) (ve_codec e) (ve_accel e) (ve_encoder e) (ve_decoder e)"

definition video_needs :: "role \<Rightarrow> video_entry \<Rightarrow> string list" where
  "video_needs r e = needs (video_element r e) (other_element r e) (ve_requires e)"

definition audio_id :: "audio_entry \<Rightarrow> string" where
  "audio_id e = derived_id (ae_id e) (ae_codec e) (ae_accel e) (ae_encoder e) (ae_decoder e)"

definition audio_needs :: "role \<Rightarrow> audio_entry \<Rightarrow> string list" where
  "audio_needs r e = needs (audio_element r e) (other_audio_element r e) (ae_requires e)"

definition graphics_id :: "graphics_entry \<Rightarrow> string" where
  "graphics_id e = (case ge_id e of Some i \<Rightarrow> i | None \<Rightarrow> ge_accel e)"

definition add_element :: "string \<Rightarrow> string list \<Rightarrow> string list" where
  "add_element e v = (if e \<noteq> [] \<and> e \<notin> set v then v @ [e] else v)"

definition graphics_needs :: "graphics_entry \<Rightarrow> string list" where
  "graphics_needs e = add_element (ge_convert e) (add_element (ge_compositor e) (ge_requires e))"

subsection \<open>The catalogue and what is laid over it (\<open>mod.rs\<close>)\<close>

record catalogue =
  ct_video :: "video_entry list"
  ct_audio :: "audio_entry list"
  ct_graphics :: "graphics_entry list"
  ct_container :: "container_entry list"
  ct_programme_container :: "string option"

definition catalogue_resolve_arch :: "string \<Rightarrow> catalogue \<Rightarrow> catalogue" where
  "catalogue_resolve_arch arch c = c\<lparr>ct_video := map (resolve_arch arch) (ct_video c)\<rparr>"

definition catalogue_container :: "catalogue \<Rightarrow> string \<Rightarrow> container_entry option" where
  "catalogue_container c name = List.find (\<lambda>e. ce_name e = name) (ct_container c)"

definition find_video :: "catalogue \<Rightarrow> string \<Rightarrow> video_entry option" where
  "find_video c i = List.find (\<lambda>e. video_id e = i) (ct_video c)"

definition find_audio :: "catalogue \<Rightarrow> string \<Rightarrow> audio_entry option" where
  "find_audio c i = List.find (\<lambda>e. audio_id e = i) (ct_audio c)"

definition find_graphics :: "catalogue \<Rightarrow> string \<Rightarrow> graphics_entry option" where
  "find_graphics c i = List.find (\<lambda>e. graphics_id e = i) (ct_graphics c)"

text \<open>\<open>iter_mut().find(p)\<close>: change the first element that satisfies \<open>p\<close>; nothing when none does.\<close>

fun update_first :: "('a \<Rightarrow> bool) \<Rightarrow> ('a \<Rightarrow> 'a) \<Rightarrow> 'a list \<Rightarrow> 'a list option" where
  "update_first p f [] = None"
| "update_first p f (x # xs) = (if p x then Some (f x # xs) else map_option (Cons x) (update_first p f xs))"

definition replace_or_push :: "('a \<Rightarrow> string) \<Rightarrow> 'a \<Rightarrow> 'a list \<Rightarrow> 'a list" where
  "replace_or_push key item v =
    (case update_first (\<lambda>x. key x = key item) (\<lambda>x. item) v of Some w \<Rightarrow> w | None \<Rightarrow> v @ [item])"

definition overlay :: "catalogue \<Rightarrow> catalogue \<Rightarrow> catalogue" where
  "overlay c other =
    \<lparr>ct_video = fold (replace_or_push video_id) (ct_video other) (ct_video c),
     ct_audio = fold (replace_or_push audio_id) (ct_audio other) (ct_audio c),
     ct_graphics = fold (replace_or_push graphics_id) (ct_graphics other) (ct_graphics c),
     ct_container = fold (replace_or_push ce_name) (ct_container other) (ct_container c),
     ct_programme_container =
       (if ct_programme_container other \<noteq> None then ct_programme_container other else ct_programme_container c)\<rparr>"

text \<open>The first entry of that id, video before audio before graphics; nothing when there is none.\<close>

definition change_entry :: "string \<Rightarrow> (video_entry \<Rightarrow> video_entry) \<Rightarrow> (audio_entry \<Rightarrow> audio_entry)
    \<Rightarrow> (graphics_entry \<Rightarrow> graphics_entry) \<Rightarrow> catalogue \<Rightarrow> catalogue option" where
  "change_entry i f g h c =
    (case update_first (\<lambda>e. video_id e = i) f (ct_video c) of
       Some v \<Rightarrow> Some (c\<lparr>ct_video := v\<rparr>)
     | None \<Rightarrow>
        (case update_first (\<lambda>e. audio_id e = i) g (ct_audio c) of
           Some a \<Rightarrow> Some (c\<lparr>ct_audio := a\<rparr>)
         | None \<Rightarrow> map_option (\<lambda>x. c\<lparr>ct_graphics := x\<rparr>) (update_first (\<lambda>e. graphics_id e = i) h (ct_graphics c))))"

definition set_rank :: "string \<Rightarrow> int \<Rightarrow> catalogue \<Rightarrow> catalogue option" where
  "set_rank i r c =
     change_entry i (\<lambda>e. e\<lparr>ve_rank := r\<rparr>) (\<lambda>e. e\<lparr>ae_rank := r\<rparr>) (\<lambda>e. e\<lparr>ge_rank := r\<rparr>) c"

definition set_disabled :: "string \<Rightarrow> catalogue \<Rightarrow> catalogue option" where
  "set_disabled i c =
     change_entry i (\<lambda>e. e\<lparr>ve_disabled := True\<rparr>) (\<lambda>e. e\<lparr>ae_disabled := True\<rparr>) (\<lambda>e. e\<lparr>ge_disabled := True\<rparr>) c"

subsection \<open>The environment\<close>

text \<open>\<open>split\<close> and \<open>split_once\<close> over bytes.\<close>

fun split_at :: "char \<Rightarrow> string \<Rightarrow> string list" where
  "split_at c [] = [[]]"
| "split_at c (x # xs) =
    (if x = c then [] # split_at c xs
     else case split_at c xs of [] \<Rightarrow> [[x]] | w # ws \<Rightarrow> (x # w) # ws)"

fun split_once :: "char \<Rightarrow> string \<Rightarrow> (string \<times> string) option" where
  "split_once c [] = None"
| "split_once c (x # xs) = (if x = c then Some ([], xs) else map_option (\<lambda>(a, b). (x # a, b)) (split_once c xs))"

definition digit_of :: "char \<Rightarrow> int option" where
  "digit_of c = (let n = (of_char c :: int) - 48 in if 0 \<le> n \<and> n \<le> 9 then Some n else None)"

fun parse_digits :: "int \<Rightarrow> string \<Rightarrow> int option" where
  "parse_digits n [] = Some n"
| "parse_digits n (c # cs) = Option.bind (digit_of c) (\<lambda>d. parse_digits (10 * n + d) cs)"

text \<open>\<open>str::parse::<i32>\<close>: an optional sign, at least one digit, and within the type.\<close>

definition parse_i32 :: "string \<Rightarrow> int option" where
  "parse_i32 s =
    (let (neg, ds) = (case s of c # cs \<Rightarrow> if c = CHR ''-'' then (True, cs) else if c = CHR ''+'' then (False, cs) else (False, s)
                              | [] \<Rightarrow> (False, [])) in
     if ds = [] then None
     else Option.bind (parse_digits 0 ds) (\<lambda>n. let v = (if neg then - n else n) in
       if - (2 ^ 31) \<le> v \<and> v < 2 ^ 31 then Some v else None))"

definition parse_rank :: "string \<Rightarrow> (string \<times> int) option" where
  "parse_rank pair =
     Option.bind (case split_once CHR ''='' pair of Some p \<Rightarrow> Some p | None \<Rightarrow> split_once CHR '':'' pair)
       (\<lambda>(i, r). map_option (\<lambda>n. (trim i, n)) (parse_i32 (trim r)))"

definition parse_rank_spec :: "string \<Rightarrow> (string \<times> int) list" where
  "parse_rank_spec spec = List.map_filter parse_rank (split_at CHR '','' spec)"

text \<open>A name no entry has is logged and skipped.\<close>

definition or_same :: "(catalogue \<Rightarrow> catalogue option) \<Rightarrow> catalogue \<Rightarrow> catalogue" where
  "or_same f c = (case f c of Some d \<Rightarrow> d | None \<Rightarrow> c)"

definition apply_env_from :: "(string \<Rightarrow> string option) \<Rightarrow> catalogue \<Rightarrow> catalogue" where
  "apply_env_from get c =
    (let c = (case get ''GMX_CODEC_RANK'' of
                None \<Rightarrow> c
              | Some spec \<Rightarrow> fold (\<lambda>(i, r). or_same (set_rank i r)) (parse_rank_spec spec) c)
     in case get ''GMX_CODEC_DISABLE'' of
          None \<Rightarrow> c
        | Some spec \<Rightarrow> fold (\<lambda>i. or_same (set_disabled i)) (filter (\<lambda>s. s \<noteq> []) (map trim (split_at CHR '','' spec))) c)"

text \<open>
  \<open>load\<close> with the files already read: the shipped catalogue, an installed update that parsed, the
  operator's table, the file of \<open>--codecs\<close>, this machine's architecture and the environment.
\<close>

definition load_catalogue :: "string \<Rightarrow> (string \<Rightarrow> string option) \<Rightarrow> catalogue \<Rightarrow> catalogue option \<Rightarrow> catalogue option
    \<Rightarrow> catalogue option \<Rightarrow> catalogue" where
  "load_catalogue arch env shipped installed config extra =
    (let over = (\<lambda>o' c. case o' of Some other \<Rightarrow> overlay c other | None \<Rightarrow> c)
     in apply_env_from env (catalogue_resolve_arch arch (over extra (over config (over installed shipped)))))"

end
