(* ===== verification/Catalogue_Check.thy ===== *)
theory Catalogue_Check
  imports Catalogue "HOL-Library.Signed_Division"
begin

text \<open>
  Catalogue properties in the units an element wants (\<open>crates/godwinmix-core/src/catalogue/apply.rs\<close>)
  and what is wrong with a catalogue (\<open>Catalogue::validate\<close> in \<open>mod.rs\<close>). An element is outside the
  sources; what the code does to one is the list of the settings it makes, in order.
\<close>

subsection \<open>Units (\<open>apply.rs\<close>)\<close>

text \<open>\<open>i64\<close> fields as integers within the type.\<close>

record vars =
  vr_video_bitrate_kbps :: int
  vr_audio_bitrate_kbps :: int
  vr_keyframe_frames :: int
  vr_keyframe_secs :: int
  vr_fps :: int
  vr_cpu_count :: int

definition vars_default :: "int \<Rightarrow> vars" where
  "vars_default cpus =
    \<lparr>vr_video_bitrate_kbps = 4000, vr_audio_bitrate_kbps = 128, vr_keyframe_frames = 60, vr_keyframe_secs = 2,
     vr_fps = 30, vr_cpu_count = cpus\<rparr>"

definition unit_family :: "string \<Rightarrow> string option" where
  "unit_family u =
    (if u \<in> {''bit'', ''kbit'', ''mbit''} then Some ''bitrate''
     else if u \<in> {''frames'', ''seconds''} then Some ''interval''
     else if u \<in> {''count'', ''raw''} then Some ''count''
     else None)"

definition UNITS :: "(string \<times> string) list" where
  "UNITS = [(''video.bitrate_kbps'', ''kbit''), (''audio.bitrate_kbps'', ''kbit''), (''keyframe.frames'', ''frames''),
            (''keyframe.secs'', ''seconds''), (''canvas.fps'', ''count''), (''cpu.count'', ''count'')]"

definition known_variable :: "string \<Rightarrow> string option" where
  "known_variable v = map_of UNITS v"

datatype derived_problem = UnknownVariable string | UnknownUnit string | CannotConvert string string string

definition check_derived :: "derived \<Rightarrow> derived_problem option" where
  "check_derived d =
    (case known_variable (dv_from d) of
       None \<Rightarrow> Some (UnknownVariable (dv_from d))
     | Some native \<Rightarrow>
        (case (unit_family native, unit_family (dv_unit d)) of
           (_, None) \<Rightarrow> Some (UnknownUnit (dv_unit d))
         | (Some a, Some b) \<Rightarrow> if a \<noteq> b then Some (CannotConvert (dv_from d) native (dv_unit d)) else None
         | (None, Some _) \<Rightarrow> None))"

definition native :: "vars \<Rightarrow> string \<Rightarrow> int option" where
  "native v from =
    (if from = ''video.bitrate_kbps'' then Some (vr_video_bitrate_kbps v)
     else if from = ''audio.bitrate_kbps'' then Some (vr_audio_bitrate_kbps v)
     else if from = ''keyframe.frames'' then Some (vr_keyframe_frames v)
     else if from = ''keyframe.secs'' then Some (vr_keyframe_secs v)
     else if from = ''canvas.fps'' then Some (vr_fps v)
     else if from = ''cpu.count'' then Some (vr_cpu_count v)
     else None)"

definition i64_max :: int where
  "i64_max = 9223372036854775807"

definition i64_min :: int where
  "i64_min = - 9223372036854775808"

definition i64_saturating_mul :: "int \<Rightarrow> int \<Rightarrow> int" where
  "i64_saturating_mul a b = max i64_min (min i64_max (a * b))"

text \<open>The arms in the source's order; \<open>/\<close> on \<open>i64\<close> truncates.\<close>

definition convert :: "int \<Rightarrow> string \<Rightarrow> string \<Rightarrow> int \<Rightarrow> int" where
  "convert x from to fps =
    (let fps = max fps 1 in
     if from = to then x
     else if (from, to) = (''kbit'', ''bit'') then i64_saturating_mul x 1000
     else if (from, to) = (''kbit'', ''mbit'') then x sdiv 1000
     else if (from, to) = (''bit'', ''kbit'') then x sdiv 1000
     else if (from, to) = (''bit'', ''mbit'') then x sdiv 1000000
     else if (from, to) = (''mbit'', ''kbit'') then i64_saturating_mul x 1000
     else if (from, to) = (''mbit'', ''bit'') then i64_saturating_mul x 1000000
     else if (from, to) = (''seconds'', ''frames'') then i64_saturating_mul x fps
     else if (from, to) = (''frames'', ''seconds'') then x sdiv fps
     else x)"

definition resolve :: "vars \<Rightarrow> derived \<Rightarrow> int option" where
  "resolve v d =
    (if check_derived d \<noteq> None then None
     else Option.bind (native v (dv_from d)) (\<lambda>x.
          map_option (\<lambda>u. convert x u (dv_unit d) (vr_fps v)) (known_variable (dv_from d))))"

datatype setting = SetInt string int | SetBool string bool | SetFloat string f64 | SetEnum string string

definition set_one :: "vars \<Rightarrow> string \<Rightarrow> prop_value \<Rightarrow> setting list" where
  "set_one v name p =
    (case p of
       PDerived d \<Rightarrow> (case resolve v d of Some x \<Rightarrow> [SetInt name x] | None \<Rightarrow> [])
     | PBool b \<Rightarrow> [SetBool name b]
     | PInt i \<Rightarrow> [SetInt name i]
     | PFloat f \<Rightarrow> [SetFloat name f]
     | PText s \<Rightarrow> [SetEnum name s])"

definition apply_props :: "props \<Rightarrow> vars \<Rightarrow> setting list" where
  "apply_props ps v = concat (map (\<lambda>(name, p). set_one v name p) ps)"

definition apply_keyframe :: "keyframe_rule option \<Rightarrow> vars \<Rightarrow> setting list" where
  "apply_keyframe kf v =
    (case kf of None \<Rightarrow> []
     | Some k \<Rightarrow> [SetInt (kr_property k) (convert (vr_keyframe_frames v) ''frames'' (kr_unit k) (vr_fps v))])"

subsection \<open>What is wrong with a catalogue (\<open>mod.rs\<close>)\<close>

definition is_ascii_lowercase :: "char \<Rightarrow> bool" where
  "is_ascii_lowercase c \<longleftrightarrow> (97 :: int) \<le> of_char c \<and> (of_char c :: int) \<le> 122"

definition is_ascii_digit :: "char \<Rightarrow> bool" where
  "is_ascii_digit c \<longleftrightarrow> (48 :: int) \<le> of_char c \<and> (of_char c :: int) \<le> 57"

definition plausible_factory :: "string \<Rightarrow> bool" where
  "plausible_factory name \<longleftrightarrow>
     name \<noteq> [] \<and> (is_ascii_lowercase (hd name) \<or> is_ascii_digit (hd name)) \<and>
     list_all (\<lambda>c. is_ascii_lowercase c \<or> is_ascii_digit c \<or> c \<in> set ''_-+.'') name"

text \<open>The sentences of the code, told apart by what they say, with the words they fill in.\<close>

datatype problem =
    SharedId string
  | NoCodec string
  | NoLicense string
  | NoElement string
  | NotAFactory string string
  | UnnamedProperty string
  | BadProperty string string derived_problem
  | UnknownArch string string
  | BadKeyframeUnit string string
  | GraphicsIncomplete string
  | ContainerMuxer string string

definition check_names :: "string \<Rightarrow> string list \<Rightarrow> problem list" where
  "check_names i names = map (NotAFactory i) (filter (\<lambda>n. \<not> plausible_factory n) names)"

definition check_prop :: "string \<Rightarrow> string \<times> prop_value \<Rightarrow> problem list" where
  "check_prop i np =
    (if fst np = [] then [UnnamedProperty i] else []) @
    (case snd np of PDerived d \<Rightarrow> (case check_derived d of Some why \<Rightarrow> [BadProperty i (fst np) why] | None \<Rightarrow> []) | _ \<Rightarrow> [])"

definition check_props :: "string \<Rightarrow> props \<Rightarrow> problem list" where
  "check_props i ps = concat (map (check_prop i) ps)"

definition option_list :: "'a option \<Rightarrow> 'a list" where
  "option_list x' = (case x' of Some x \<Rightarrow> [x] | None \<Rightarrow> [])"

definition check_video :: "video_entry \<Rightarrow> problem list" where
  "check_video e =
    (let i = video_id e in
     (if ve_codec e = [] then [NoCodec i] else []) @
     (if ve_license e = None then [NoLicense i] else []) @
     (if ve_encoder e = None \<and> ve_decoder e = None then [NoElement i] else []) @
     check_names i (video_needs RoleEncode e @ video_needs RoleDecode e @ option_list (ve_download e) @ option_list (ve_parser e)) @
     check_props i (ve_properties e) @
     concat (map (\<lambda>(arch, ps). (if arch \<notin> set ARCHES then [UnknownArch i arch] else []) @ check_props i ps) (ve_arch_properties e)) @
     (case ve_keyframe e of
        Some k \<Rightarrow> if kr_unit k \<notin> {''frames'', ''seconds''} then [BadKeyframeUnit i (kr_unit k)] else []
      | None \<Rightarrow> []))"

definition check_audio :: "audio_entry \<Rightarrow> problem list" where
  "check_audio e =
    (let i = audio_id e in
     (if ae_license e = None then [NoLicense i] else []) @
     check_names i (audio_needs RoleEncode e @ audio_needs RoleDecode e @ option_list (ae_parser e)) @
     check_props i (ae_properties e))"

definition check_graphics :: "graphics_entry \<Rightarrow> problem list" where
  "check_graphics e =
    (let i = graphics_id e in
     (if ge_license e = None then [NoLicense i] else []) @
     (if ge_compositor e = [] \<or> ge_convert e = [] then [GraphicsIncomplete i] else []) @
     check_names i (graphics_needs e @ option_list (ge_upload e) @ option_list (ge_download e)))"

definition check_container :: "container_entry \<Rightarrow> problem list" where
  "check_container c =
    (if \<not> plausible_factory (ce_muxer c) then [ContainerMuxer (ce_name c) (ce_muxer c)] else []) @
    check_props (ce_name c) (ce_properties c)"

text \<open>Every entry with the ids seen before it; an id seen before is reported first.\<close>

fun check_each :: "('a \<Rightarrow> string) \<Rightarrow> ('a \<Rightarrow> problem list) \<Rightarrow> string list \<Rightarrow> 'a list \<Rightarrow> problem list \<times> string list" where
  "check_each key check ids [] = ([], ids)"
| "check_each key check ids (e # es) =
    (let (ps, ids') = check_each key check (ids @ [key e]) es
     in ((if key e \<in> set ids then [SharedId (key e)] else []) @ check e @ ps, ids'))"

definition validate :: "catalogue \<Rightarrow> problem list" where
  "validate c =
    (let (v, ids) = check_each video_id check_video [] (ct_video c);
         (a, ids) = check_each audio_id check_audio ids (ct_audio c);
         (g, ids) = check_each graphics_id check_graphics ids (ct_graphics c)
     in v @ a @ g @ concat (map check_container (ct_container c)))"

end
