(* ===== verification/Catalogue_Select.thy ===== *)
theory Catalogue_Select
  imports Catalogue_Check "HOL-Library.Product_Lexorder"
begin

text \<open>
  Choosing entries for this machine (\<open>crates/godwinmix-core/src/catalogue/select.rs\<close>) and the catalogue
  as the planner's encoder list (\<open>crates/godwinmix-core/src/render/candidates.rs\<close>). What is installed
  is the predicate \<open>reg\<close>, the trait \<open>Registry\<close>'s \<open>has\<close>.
\<close>

subsection \<open>Pins (\<open>config.rs\<close>)\<close>

datatype accel = AccelAuto | Nvidia | Va | Qsv | Amf | VideoToolbox | MediaFoundation | D3d11 | D3d12 | Cuda | Gl
  | Vulkan | V4l2 | Software

fun accel_name :: "accel \<Rightarrow> string option" where
  "accel_name AccelAuto = None"
| "accel_name Nvidia = Some ''nvidia''"
| "accel_name Va = Some ''va''"
| "accel_name Qsv = Some ''qsv''"
| "accel_name Amf = Some ''amf''"
| "accel_name VideoToolbox = Some ''videotoolbox''"
| "accel_name MediaFoundation = Some ''mediafoundation''"
| "accel_name D3d11 = Some ''d3d11''"
| "accel_name D3d12 = Some ''d3d12''"
| "accel_name Cuda = Some ''cuda''"
| "accel_name Gl = Some ''gl''"
| "accel_name Vulkan = Some ''vulkan''"
| "accel_name V4l2 = Some ''v4l2''"
| "accel_name Software = Some ''software''"

subsection \<open>Rows and the rank decision (\<open>select.rs\<close>)\<close>

type_synonym registry = "string \<Rightarrow> bool"

record selection_request =
  sr_container :: "string option"
  sr_decode :: accel
  sr_encode :: accel
  sr_graphics :: accel
  sr_platform :: string

record consideration =
  co_role :: string
  co_id :: string
  co_accel :: string
  co_rank :: int
  co_element :: string
  co_present :: bool
  co_missing :: "string list"
  co_chosen :: bool
  co_note :: string

definition missing_of :: "string list \<Rightarrow> registry \<Rightarrow> string list" where
  "missing_of needed reg = filter (\<lambda>n. \<not> reg n) needed"

definition row :: "string \<Rightarrow> string \<Rightarrow> string \<Rightarrow> int \<Rightarrow> string \<Rightarrow> string list \<Rightarrow> consideration" where
  "row r i a k element missing =
    \<lparr>co_role = r, co_id = i, co_accel = a, co_rank = k, co_element = element, co_present = (missing = []),
     co_missing = missing, co_chosen = False, co_note = (if missing = [] then [] else ''missing '' @ join '', '' missing)\<rparr>"

definition eligible :: "accel \<Rightarrow> consideration \<Rightarrow> bool" where
  "eligible pin c \<longleftrightarrow> co_present c \<and> (accel_name pin = None \<or> accel_name pin = Some (co_accel c))"

text \<open>
  \<open>max_by_key\<close> keeps the later of two equal keys; the key is the rank and the index reversed, so no two
  are equal.
\<close>

definition choose_key :: "nat \<times> consideration \<Rightarrow> int \<times> int" where
  "choose_key ic = (co_rank (snd ic), - int (fst ic))"

definition keep_max :: "nat \<times> consideration \<Rightarrow> (nat \<times> consideration) option \<Rightarrow> (nat \<times> consideration) option" where
  "keep_max x best = (case best of None \<Rightarrow> Some x | Some b \<Rightarrow> if choose_key b \<le> choose_key x then Some x else Some b)"

datatype no_entry = NoEntry string "string option" "consideration list"

definition choose_row :: "string \<Rightarrow> accel \<Rightarrow> consideration list \<Rightarrow> no_entry + nat" where
  "choose_row r pin rows =
    (case fold keep_max (filter (\<lambda>ic. eligible pin (snd ic)) (enumerate 0 rows)) None of
       Some ic \<Rightarrow> Inr (fst ic)
     | None \<Rightarrow> Inl (NoEntry r (accel_name pin) rows))"

text \<open>The columns \<open>{:<26}\<close> of the message are padded on the right.\<close>

definition pad_right :: "nat \<Rightarrow> string \<Rightarrow> string" where
  "pad_right n s = s @ replicate (n - length s) CHR '' ''"

definition show_signed :: "int \<Rightarrow> string" where
  "show_signed i = (if i < 0 then ''-'' @ show_int (- i) else show_int i)"

definition no_entry_row :: "consideration \<Rightarrow> string" where
  "no_entry_row c =
     [CHR 0x0A] @ ''  '' @ pad_right 26 (co_id c) @ '' accel '' @ pad_right 16 (co_accel c) @ '' rank '' @
     pad_right 4 (show_signed (co_rank c)) @ '' '' @
     (if co_present c then ''installed'' else ''missing '' @ join '', '' (co_missing c))"

fun no_entry_message :: "no_entry \<Rightarrow> string" where
  "no_entry_message (NoEntry r want rows) =
    (case want of
       Some w \<Rightarrow> ''no '' @ r @ '' entry for accel '' @ [CHR 0x22] @ w @ [CHR 0x22] @ '' is installed. Set [hardware] back to '' @
         [CHR 0x22] @ ''auto'' @ [CHR 0x22] @ '', or install the elements. The entries the catalogue knows for this role:''
     | None \<Rightarrow> ''no '' @ r @ '' entry is installed at all. The entries the catalogue knows:'') @
    (if rows = [] then [CHR 0x0A] @ ''  (none: the catalogue has no entry for this role)''
     else concat (map no_entry_row rows))"

record chosen =
  ch_id :: string
  ch_role :: string
  ch_codec :: string
  ch_accel :: string
  ch_element :: string
  ch_download :: "string option"
  ch_parser :: "string option"
  ch_memory :: string
  ch_rank :: int
  ch_license :: string
  ch_properties :: props
  ch_keyframe :: "keyframe_rule option"
  ch_priming_delay_ms :: "u64 option"
  ch_container :: "string list"

record graphics_choice =
  gx_id :: string
  gx_accel :: string
  gx_rank :: int
  gx_compositor :: string
  gx_convert :: string
  gx_upload :: "string option"
  gx_download :: "string option"
  gx_memory :: string
  gx_why :: string

definition is_gpu :: "graphics_choice \<Rightarrow> bool" where
  "is_gpu g \<longleftrightarrow> gx_memory g \<noteq> ''system''"

definition request_carries :: "(container_entry \<Rightarrow> string \<Rightarrow> bool) \<Rightarrow> catalogue \<Rightarrow> selection_request \<Rightarrow> string \<Rightarrow> bool" where
  "request_carries carries cat req codec =
    (case Option.bind (sr_container req) (catalogue_container cat) of Some c \<Rightarrow> carries c codec | None \<Rightarrow> True)"

definition with_chosen :: "nat \<Rightarrow> consideration list \<Rightarrow> consideration list" where
  "with_chosen k rows = map (\<lambda>(i, c). c\<lparr>co_chosen := (i = k)\<rparr>) (enumerate 0 rows)"

text \<open>\<open>element(role).unwrap()\<close> follows the filter that asks for one.\<close>

definition video_rows :: "catalogue \<Rightarrow> role \<Rightarrow> selection_request \<Rightarrow> registry \<Rightarrow> (video_entry \<times> consideration) list" where
  "video_rows cat r req reg =
     map (\<lambda>e. (e, row (''video.'' @ role_text r) (video_id e) (ve_accel e) (ve_rank e) (the (video_element r e))
                    (missing_of (video_needs r e) reg)))
       (filter (\<lambda>e. request_carries entry_carries_video cat req (ve_codec e))
         (filter (\<lambda>e. \<not> ve_disabled e \<and> video_element r e \<noteq> None) (ct_video cat)))"

definition unstated :: "string option \<Rightarrow> string" where
  "unstated l = (case l of Some t \<Rightarrow> t | None \<Rightarrow> ''unstated'')"

definition chosen_video :: "role \<Rightarrow> video_entry \<Rightarrow> chosen" where
  "chosen_video r e =
    \<lparr>ch_id = video_id e, ch_role = ''video.'' @ role_text r, ch_codec = ve_codec e, ch_accel = ve_accel e,
     ch_element = the (video_element r e), ch_download = ve_download e, ch_parser = ve_parser e,
     ch_memory = ve_memory e, ch_rank = ve_rank e, ch_license = unstated (ve_license e),
     ch_properties = (if r = RoleEncode then ve_properties e else []), ch_keyframe = ve_keyframe e,
     ch_priming_delay_ms = None, ch_container = ve_container e\<rparr>"

definition pick_video :: "catalogue \<Rightarrow> role \<Rightarrow> selection_request \<Rightarrow> registry \<Rightarrow> consideration list
    \<Rightarrow> no_entry + (chosen \<times> consideration list)" where
  "pick_video cat r req reg seen =
    (let pin = (if r = RoleEncode then sr_encode req else sr_decode req);
         label = ''video.'' @ role_text r;
         rows = video_rows cat r req reg
     in and_then (choose_row label pin (map snd rows)) (\<lambda>k.
          Inr (chosen_video r (fst (rows ! k)), seen @ with_chosen k (map snd rows))))"

definition audio_rows :: "catalogue \<Rightarrow> role \<Rightarrow> selection_request \<Rightarrow> registry \<Rightarrow> (audio_entry \<times> consideration) list" where
  "audio_rows cat r req reg =
     map (\<lambda>e. (e, row (''audio.'' @ role_text r) (audio_id e) (ae_accel e) (ae_rank e) (the (audio_element r e))
                    (missing_of (audio_needs r e) reg)))
       (filter (\<lambda>e. request_carries entry_carries_audio cat req (ae_codec e))
         (filter (\<lambda>e. \<not> ae_disabled e \<and> audio_element r e \<noteq> None) (ct_audio cat)))"

definition chosen_audio :: "role \<Rightarrow> audio_entry \<Rightarrow> chosen" where
  "chosen_audio r e =
    \<lparr>ch_id = audio_id e, ch_role = ''audio.'' @ role_text r, ch_codec = ae_codec e, ch_accel = ae_accel e,
     ch_element = the (audio_element r e), ch_download = None, ch_parser = ae_parser e,
     ch_memory = ''system'', ch_rank = ae_rank e, ch_license = unstated (ae_license e),
     ch_properties = (if r = RoleEncode then ae_properties e else []), ch_keyframe = None,
     ch_priming_delay_ms = ae_priming_delay_ms e, ch_container = ae_container e\<rparr>"

definition pick_audio :: "catalogue \<Rightarrow> role \<Rightarrow> selection_request \<Rightarrow> registry \<Rightarrow> consideration list
    \<Rightarrow> no_entry + (chosen \<times> consideration list)" where
  "pick_audio cat r req reg seen =
    (let label = ''audio.'' @ role_text r;
         rows = audio_rows cat r req reg
     in and_then (choose_row label AccelAuto (map snd rows)) (\<lambda>k.
          Inr (chosen_audio r (fst (rows ! k)), seen @ with_chosen k (map snd rows))))"

definition verified_here :: "graphics_entry \<Rightarrow> string \<Rightarrow> bool" where
  "verified_here e platform = list_ex (\<lambda>v. vf_platform v = platform \<or> vf_platform v = ''any'') (ge_verified e)"

text \<open>A graphics entry of GPU memory counts as installed only where it was verified, unless pinned.\<close>

definition graphics_row :: "selection_request \<Rightarrow> registry \<Rightarrow> graphics_entry \<Rightarrow> consideration" where
  "graphics_row req reg e =
    (let c = row ''graphics'' (graphics_id e) (ge_accel e) (ge_rank e) (ge_compositor e) (missing_of (graphics_needs e) reg)
     in if co_present c \<and> ge_memory e \<noteq> ''system'' \<and> sr_graphics req = AccelAuto \<and> \<not> verified_here e (sr_platform req)
        then c\<lparr>co_present := False, co_note := ''present but not verified on '' @ sr_platform req\<rparr> else c)"

definition pick_graphics :: "catalogue \<Rightarrow> selection_request \<Rightarrow> registry \<Rightarrow> consideration list
    \<Rightarrow> no_entry + (graphics_choice \<times> consideration list)" where
  "pick_graphics cat req reg seen =
    (let es = filter (\<lambda>e. \<not> ge_disabled e) (ct_graphics cat);
         rows = map (graphics_row req reg) es
     in and_then (choose_row ''graphics'' (sr_graphics req) rows) (\<lambda>k.
          let e = es ! k in
          Inr (\<lparr>gx_id = graphics_id e, gx_accel = ge_accel e, gx_rank = ge_rank e, gx_compositor = ge_compositor e,
                gx_convert = ge_convert e, gx_upload = ge_upload e, gx_download = ge_download e, gx_memory = ge_memory e,
                gx_why =
                  (if sr_graphics req \<noteq> AccelAuto
                   then ''pinned by [hardware] graphics = '' @ [CHR 0x22] @ ge_accel e @ [CHR 0x22]
                   else if ge_memory e = ''system''
                   then ''highest ranked entry present; GPU entries are taken only once verified here''
                   else ''highest ranked entry present and verified on '' @ sr_platform req)\<rparr>,
               seen @ with_chosen k rows)))"

record selection =
  sl_video_decode :: chosen
  sl_video_encode :: chosen
  sl_audio_decode :: chosen
  sl_audio_encode :: chosen
  sl_graphics :: graphics_choice
  sl_container :: "string option"
  sl_considered :: "consideration list"

definition select :: "catalogue \<Rightarrow> selection_request \<Rightarrow> registry \<Rightarrow> no_entry + selection" where
  "select cat req reg =
     and_then (pick_video cat RoleDecode req reg []) (\<lambda>(vd, seen).
     and_then (pick_video cat RoleEncode req reg seen) (\<lambda>(ve, seen).
     and_then (pick_audio cat RoleDecode req reg seen) (\<lambda>(ad, seen).
     and_then (pick_audio cat RoleEncode req reg seen) (\<lambda>(ae, seen).
     and_then (pick_graphics cat req reg seen) (\<lambda>(g, seen).
       Inr \<lparr>sl_video_decode = vd, sl_video_encode = ve, sl_audio_decode = ad, sl_audio_encode = ae, sl_graphics = g,
            sl_container = sr_container req, sl_considered = seen\<rparr>)))))"

subsection \<open>The planner's encoders (\<open>candidates.rs\<close>)\<close>

definition video_codec_named :: "string \<Rightarrow> video_codec option" where
  "video_codec_named name =
    map_of [(''h264'', H264), (''h265'', H265), (''av1'', Av1), (''vp8'', Vp8), (''vp9'', Vp9)] name"

definition audio_codec_named :: "string \<Rightarrow> audio_codec option" where
  "audio_codec_named name = map_of [(''aac'', Aac), (''opus'', Opus), (''mp3'', Mp3)] name"

definition installed :: "registry \<Rightarrow> string list \<Rightarrow> bool" where
  "installed reg names \<longleftrightarrow> names \<noteq> [] \<and> list_all reg names"

text \<open>\<open>fps * keyframe_ms\<close> is an \<open>i64\<close> product, which wraps in a release build.\<close>

definition vars_for :: "int \<Rightarrow> video_shape \<Rightarrow> u32 \<Rightarrow> vars" where
  "vars_for cpus shape audio_kbps =
    (let fps = max (uint (fps_num (vs_fps shape) div max (fps_den (vs_fps shape)) 1)) 1 in
     (vars_default cpus)
       \<lparr>vr_video_bitrate_kbps := uint (vs_bitrate_kbps shape),
        vr_audio_bitrate_kbps := uint audio_kbps,
        vr_keyframe_frames := signed_take_bit 63 (fps * uint (max (vs_keyframe_ms shape) 1)) sdiv 1000,
        vr_keyframe_secs := uint (max (vs_keyframe_ms shape) 1000 div 1000),
        vr_fps := fps\<rparr>)"

definition slot_of_entry :: "video_entry \<Rightarrow> encoder_slot option" where
  "slot_of_entry e =
    (case video_codec_named (ve_codec e) of
       None \<Rightarrow> None
     | Some codec \<Rightarrow>
        if ve_encoder e = None then None
        else (let hardware = (ve_accel e \<noteq> ''software'') in
              Some \<lparr>es_id = video_id e, es_codec = codec, es_hardware = hardware,
                    es_device = (if hardware then Some (ve_accel e) else None)\<rparr>))"

text \<open>\<open>sort_by_key(Reverse(rank))\<close> is stable.\<close>

definition video_entries :: "catalogue \<Rightarrow> accel \<Rightarrow> registry \<Rightarrow> video_entry list" where
  "video_entries cat pin reg =
     sort_key (\<lambda>e. - ve_rank e)
       (filter (\<lambda>e. installed reg (video_needs RoleEncode e))
         (filter (\<lambda>e. accel_name pin = None \<or> accel_name pin = Some (ve_accel e))
           (filter (\<lambda>e. \<not> ve_disabled e \<and> ve_encoder e \<noteq> None) (ct_video cat))))"

definition audio_entries :: "catalogue \<Rightarrow> registry \<Rightarrow> audio_entry list" where
  "audio_entries cat reg =
     sort_key (\<lambda>e. - ae_rank e)
       (filter (\<lambda>e. installed reg (audio_needs RoleEncode e))
         (filter (\<lambda>e. \<not> ae_disabled e \<and> ae_encoder e \<noteq> None) (ct_audio cat)))"

record candidate =
  cd_slot :: encoder_slot
  cd_element :: string
  cd_parser :: "string option"
  cd_decoder :: "string option"
  cd_configure :: "video_shape \<Rightarrow> setting list"

definition present_of :: "registry \<Rightarrow> string option \<Rightarrow> string option" where
  "present_of reg p = (case p of Some x \<Rightarrow> if reg x then Some x else None | None \<Rightarrow> None)"

definition candidate_of :: "int \<Rightarrow> registry \<Rightarrow> video_entry \<Rightarrow> candidate option" where
  "candidate_of cpus reg e =
    (case (slot_of_entry e, ve_encoder e) of
       (Some slot, Some element) \<Rightarrow>
         Some \<lparr>cd_slot = slot, cd_element = element, cd_parser = present_of reg (ve_parser e),
               cd_decoder = present_of reg (ve_decoder e),
               cd_configure = (\<lambda>shape. let v = vars_for cpus (shape\<lparr>vs_keyframe_ms := 2000\<rparr>) 128
                                       in apply_props (ve_properties e) v @ apply_keyframe (ve_keyframe e) v)\<rparr>
     | _ \<Rightarrow> None)"

definition video_candidates :: "int \<Rightarrow> catalogue \<Rightarrow> accel \<Rightarrow> registry \<Rightarrow> candidate list" where
  "video_candidates cpus cat pin reg = List.map_filter (candidate_of cpus reg) (video_entries cat pin reg)"

record audio_candidate =
  aq_id :: string
  aq_codec :: audio_codec
  aq_element :: string
  aq_configure :: "setting list"

definition add_audio :: "int \<Rightarrow> audio_entry \<Rightarrow> audio_candidate list \<Rightarrow> audio_candidate list" where
  "add_audio cpus e out =
    (case (ae_encoder e, audio_codec_named (ae_codec e)) of
       (Some element, Some codec) \<Rightarrow>
         if codec \<in> aq_codec ` set out then out
         else out @ [\<lparr>aq_id = audio_id e, aq_codec = codec, aq_element = element,
                      aq_configure = apply_props (ae_properties e) (vars_default cpus)\<rparr>]
     | _ \<Rightarrow> out)"

definition audio_candidates :: "int \<Rightarrow> catalogue \<Rightarrow> registry \<Rightarrow> audio_candidate list" where
  "audio_candidates cpus cat reg = fold (add_audio cpus) (audio_entries cat reg) []"

end
