(* ===== verification/Catalogue_Properties.thy ===== *)
theory Catalogue_Properties
  imports Catalogue_Select
begin

text \<open>
  What the catalogue promises: the element selection picks is the best installed one the pin and the
  container allow, and the very one the planner's encoder list starts with; an entry of a later layer
  replaces the one of its id; and a property that passes the check reaches the element in its unit.
\<close>

subsection \<open>The rank decision\<close>

lemma keep_max_simps [simp]:
  "keep_max x None = Some x" "keep_max x (Some b) = Some (if choose_key b \<le> choose_key x then x else b)"
  by (simp_all add: keep_max_def)

lemma fold_keep_max:
  assumes "fold keep_max ics best = Some ic" "sorted_wrt (\<lambda>a b. choose_key a \<noteq> choose_key b) (option_list best @ ics)"
  shows "ic \<in> set (option_list best @ ics) \<and> (\<forall>x \<in> set (option_list best @ ics). choose_key x \<le> choose_key ic)"
  using assms
proof (induction ics arbitrary: best)
  case (Cons x ics)
  show ?case
  proof (cases best)
    case None
    with Cons.prems have "fold keep_max ics (Some x) = Some ic" by simp
    from Cons.IH [OF this] None Cons.prems(2) show ?thesis by (auto simp: option_list_def)
  next
    case (Some b)
    define w where "w = (if choose_key b \<le> choose_key x then x else b)"
    have "fold keep_max ics (Some w) = Some ic" using Cons.prems(1) Some by (simp add: w_def)
    from Cons.IH [OF this] Cons.prems(2) Some
    have "ic \<in> set (w # ics)" "\<forall>y \<in> set (w # ics). choose_key y \<le> choose_key ic"
      by (auto simp: option_list_def w_def split: if_splits)
    moreover have "choose_key b \<le> choose_key w" "choose_key x \<le> choose_key w" by (auto simp: w_def)
    ultimately show ?thesis using Some by (auto simp: option_list_def w_def intro: order_trans split: if_splits)
  qed
qed (simp add: option_list_def)

lemma fold_keep_max_None: "fold keep_max ics best = None \<longleftrightarrow> ics = [] \<and> best = None"
proof (induction ics arbitrary: best)
  case (Cons x ics)
  then show ?case by (cases best) simp_all
qed simp

lemma enumerate_keys_differ: "sorted_wrt (\<lambda>a b. choose_key a \<noteq> choose_key b) (enumerate n rows)"
proof -
  have "sorted_wrt (\<lambda>a b. fst a < fst b) (enumerate n rows)"
    using sorted_wrt_map [of "(<)" fst "enumerate n rows"] by simp
  then show ?thesis by (rule sorted_wrt_mono_rel [rotated]) (simp add: choose_key_def)
qed

text \<open>What is chosen is eligible; whatever else is eligible ranks lower, or the same and comes later.\<close>

lemma choose_row_best:
  assumes "choose_row r pin rows = Inr k"
  shows "k < length rows \<and> eligible pin (rows ! k)
    \<and> (\<forall>j < length rows. eligible pin (rows ! j) \<longrightarrow> co_rank (rows ! j) \<le> co_rank (rows ! k))
    \<and> (\<forall>j < k. eligible pin (rows ! j) \<longrightarrow> co_rank (rows ! j) < co_rank (rows ! k))"
proof -
  define ics where "ics = filter (\<lambda>ic. eligible pin (snd ic)) (enumerate 0 rows)"
  obtain c where fold: "fold keep_max ics None = Some (k, c)"
    using assms by (auto simp: choose_row_def ics_def split: option.splits)
  have "sorted_wrt (\<lambda>a b. choose_key a \<noteq> choose_key b) (option_list None @ ics)"
    using enumerate_keys_differ [of 0 rows] by (simp add: option_list_def ics_def sorted_wrt_filter)
  from fold_keep_max [OF fold this] have m: "(k, c) \<in> set ics" "\<forall>x \<in> set ics. choose_key x \<le> choose_key (k, c)"
    by (simp_all add: option_list_def)
  have mem: "(j, d) \<in> set ics \<longleftrightarrow> j < length rows \<and> d = rows ! j \<and> eligible pin d" for j d
    by (auto simp: ics_def in_set_enumerate_eq)
  have c: "k < length rows" "c = rows ! k" "eligible pin c" using m(1) mem by blast+
  have le: "(co_rank (rows ! j), - int j) \<le> (co_rank (rows ! k), - int k)" if "j < length rows" "eligible pin (rows ! j)" for j
    using m(2) mem [of j "rows ! j"] that c(2) by (force simp: choose_key_def)
  have "co_rank (rows ! j) \<le> co_rank (rows ! k)" if "j < length rows" "eligible pin (rows ! j)" for j
    using le [OF that] by (auto simp: less_eq_prod_def)
  moreover have "co_rank (rows ! j) < co_rank (rows ! k)" if "j < k" "eligible pin (rows ! j)" for j
    using le [of j] that c(1) by (auto simp: less_eq_prod_def)
  ultimately show ?thesis using c by simp
qed

lemma choose_row_none: "choose_row r pin rows = Inl x \<longleftrightarrow> x = NoEntry r (accel_name pin) rows \<and> (\<forall>c \<in> set rows. \<not> eligible pin c)"
proof -
  have "snd ` set (enumerate 0 rows) = set rows" by (metis list.set_map map_snd_enumerate)
  then have "filter (\<lambda>ic. eligible pin (snd ic)) (enumerate 0 rows) = [] \<longleftrightarrow> (\<forall>c \<in> set rows. \<not> eligible pin c)"
    unfolding filter_empty_conv by fastforce
  then show ?thesis
    using fold_keep_max_None [of "filter (\<lambda>ic. eligible pin (snd ic)) (enumerate 0 rows)" None]
    by (auto simp: choose_row_def split: option.splits)
qed


lemma choose_row_total: "choose_row r pin rows = Inl (NoEntry r (accel_name pin) rows) \<or> (\<exists>k. choose_row r pin rows = Inr k)"
  using choose_row_none [of r pin rows] by (cases "choose_row r pin rows") auto

text \<open>The head of a stable sort is the first of the elements with the least key.\<close>

lemma sort_key_first:
  assumes "\<forall>a \<in> set as. f x < f a" "\<forall>b \<in> set bs. f x \<le> f b"
  shows "\<exists>ys. sort_key f (as @ x # bs) = x # ys"
  using assms(1)
proof (induction as)
  case Nil
  have "\<forall>b \<in> set (sort_key f bs). f x \<le> f b" using assms(2) by simp
  then have "insort_key f x (sort_key f bs) = x # sort_key f bs" by (rule insort_is_Cons)
  then show ?case by simp
next
  case (Cons a as)
  then obtain ys where "sort_key f (as @ x # bs) = x # ys" by auto
  with Cons.prems show ?case by (simp add: not_le [symmetric])
qed

lemma sort_key_filter_first:
  assumes "k < length xs" "P (xs ! k)" "\<forall>j < length xs. P (xs ! j) \<longrightarrow> f (xs ! k) \<le> f (xs ! j)"
    and "\<forall>j < k. P (xs ! j) \<longrightarrow> f (xs ! k) < f (xs ! j)"
  shows "\<exists>ys. sort_key f (filter P xs) = xs ! k # ys"
proof -
  have split: "filter P xs = filter P (take k xs) @ xs ! k # filter P (drop (Suc k) xs)"
    using id_take_nth_drop [OF assms(1)] assms(2) by (metis filter.simps(2) filter_append)
  have "\<forall>a \<in> set (filter P (take k xs)). f (xs ! k) < f a"
    using assms(1,4) by (auto simp: in_set_conv_nth)
  moreover have "\<forall>b \<in> set (filter P (drop (Suc k) xs)). f (xs ! k) \<le> f b"
    using assms(3) by (auto simp: in_set_conv_nth)
  ultimately show ?thesis unfolding split by (rule sort_key_first)
qed

lemma missing_of_Nil: "missing_of ns reg = [] \<longleftrightarrow> list_all reg ns"
  by (auto simp: missing_of_def filter_empty_conv list_all_iff)

lemma add_needs_keeps: "set v \<subseteq> set (add_needs other rs v)"
  by (induction other rs v rule: add_needs.induct) auto

lemma video_needs_element: "video_element r e = Some x \<Longrightarrow> x \<in> set (video_needs r e)"
  using add_needs_keeps [of "[x]" "other_element r e" "ve_requires e"] by (simp add: video_needs_def needs_def)

lemma row_sel [simp]:
  "co_present (row r i a k el ms) \<longleftrightarrow> ms = []" "co_accel (row r i a k el ms) = a" "co_rank (row r i a k el ms) = k"
  "co_id (row r i a k el ms) = i" "co_element (row r i a k el ms) = el"
  by (simp_all add: row_def)

text \<open>What the rows of a role are made of: every entry that can be asked for, in the catalogue's order.\<close>

definition asked_videos :: "catalogue \<Rightarrow> role \<Rightarrow> selection_request \<Rightarrow> video_entry list" where
  "asked_videos cat r req =
     filter (\<lambda>e. request_carries entry_carries_video cat req (ve_codec e))
       (filter (\<lambda>e. \<not> ve_disabled e \<and> video_element r e \<noteq> None) (ct_video cat))"

definition role_pin :: "role \<Rightarrow> selection_request \<Rightarrow> accel" where
  "role_pin r req = (if r = RoleEncode then sr_encode req else sr_decode req)"

definition can_take :: "accel \<Rightarrow> role \<Rightarrow> registry \<Rightarrow> video_entry \<Rightarrow> bool" where
  "can_take pin r reg e \<longleftrightarrow>
     list_all reg (video_needs r e) \<and> (accel_name pin = None \<or> accel_name pin = Some (ve_accel e))"

lemma video_rows_asked:
  "video_rows cat r req reg =
     map (\<lambda>e. (e, row (''video.'' @ role_text r) (video_id e) (ve_accel e) (ve_rank e) (the (video_element r e))
                    (missing_of (video_needs r e) reg))) (asked_videos cat r req)"
  unfolding video_rows_def asked_videos_def by (rule refl)

lemma video_rows_nth:
  assumes "k < length (asked_videos cat r req)"
  shows "fst (video_rows cat r req reg ! k) = asked_videos cat r req ! k"
    and "eligible pin (snd (video_rows cat r req reg ! k)) \<longleftrightarrow> can_take pin r reg (asked_videos cat r req ! k)"
    and "co_rank (snd (video_rows cat r req reg ! k)) = ve_rank (asked_videos cat r req ! k)"
  using assms by (simp_all add: video_rows_asked eligible_def can_take_def missing_of_Nil)

lemma length_video_rows [simp]: "length (video_rows cat r req reg) = length (asked_videos cat r req)"
  by (simp add: video_rows_asked)

lemma pick_video_cases:
  assumes "pick_video cat r req reg seen = res"
  obtains (picked) seen' k where "res = Inr (chosen_video r (asked_videos cat r req ! k), seen')"
      "k < length (asked_videos cat r req)"
      "can_take (role_pin r req) r reg (asked_videos cat r req ! k)"
      "\<forall>j < length (asked_videos cat r req). can_take (role_pin r req) r reg (asked_videos cat r req ! j) \<longrightarrow>
         ve_rank (asked_videos cat r req ! j) \<le> ve_rank (asked_videos cat r req ! k)"
      "\<forall>j < k. can_take (role_pin r req) r reg (asked_videos cat r req ! j) \<longrightarrow>
         ve_rank (asked_videos cat r req ! j) < ve_rank (asked_videos cat r req ! k)"
  | (none) e where "res = Inl e" "\<forall>v \<in> set (asked_videos cat r req). \<not> can_take (role_pin r req) r reg v"
proof -
  define es where "es = asked_videos cat r req"
  define pin where "pin = role_pin r req"
  define rows where "rows = map snd (video_rows cat r req reg)"
  have len: "length rows = length es" by (simp add: rows_def es_def)
  have at: "eligible pin (rows ! j) \<longleftrightarrow> can_take pin r reg (es ! j)" "co_rank (rows ! j) = ve_rank (es ! j)"
      "fst (video_rows cat r req reg ! j) = es ! j" if "j < length es" for j
    using that video_rows_nth [where k = j and cat = cat and r = r and req = req and reg = reg] by (simp_all add: rows_def es_def pin_def)
  show thesis
  proof (cases "choose_row (''video.'' @ role_text r) pin rows")
    case (Inl x)
    then have "\<forall>v \<in> set es. \<not> can_take pin r reg v" using choose_row_none at(1) len by (metis in_set_conv_nth)
    moreover have "res = Inl x" using assms Inl by (simp add: pick_video_def Let_def rows_def pin_def role_pin_def)
    ultimately show thesis using none by (simp add: es_def pin_def)
  next
    case (Inr k)
    from choose_row_best [OF this] have k: "k < length es" "can_take pin r reg (es ! k)"
      "\<forall>j < length es. can_take pin r reg (es ! j) \<longrightarrow> ve_rank (es ! j) \<le> ve_rank (es ! k)"
      "\<forall>j < k. can_take pin r reg (es ! j) \<longrightarrow> ve_rank (es ! j) < ve_rank (es ! k)"
      using at len by auto
    have "res = Inr (chosen_video r (es ! k), seen @ with_chosen k rows)"
      using assms Inr at(3) [OF k(1)] by (simp add: pick_video_def Let_def rows_def pin_def role_pin_def)
    then show thesis using picked k by (simp add: es_def pin_def)
  qed
qed


text \<open>C39: the element that selection picks for a role is that of an entry of the catalogue that is not
  disabled, has an element for the role, whose codec the container carries, that is on the pinned
  hardware and has everything it needs installed; every other such entry ranks lower or, at the same
  rank, comes later. It fails only when there is no such entry.\<close>

theorem selection_is_best:
  "case pick_video cat r req reg seen of
     Inr (c, _) \<Rightarrow> (\<exists>k < length (asked_videos cat r req). let e = asked_videos cat r req ! k in
       c = chosen_video r e \<and> e \<in> set (ct_video cat) \<and> \<not> ve_disabled e \<and> video_element r e = Some (ch_element c)
       \<and> can_take (role_pin r req) r reg e
       \<and> (\<forall>j < length (asked_videos cat r req). can_take (role_pin r req) r reg (asked_videos cat r req ! j) \<longrightarrow>
            ve_rank (asked_videos cat r req ! j) < ve_rank e
            \<or> ve_rank (asked_videos cat r req ! j) = ve_rank e \<and> k \<le> j))
   | Inl _ \<Rightarrow> (\<forall>e \<in> set (asked_videos cat r req). \<not> can_take (role_pin r req) r reg e)"
proof -
  define es where "es = asked_videos cat r req"
  obtain res where "pick_video cat r req reg seen = res" by simp
  then show ?thesis
  proof (cases rule: pick_video_cases)
    case (picked seen' k)
    have in_es: "es ! k \<in> set es" using picked(2) by (simp add: es_def)
    then have "es ! k \<in> set (ct_video cat)" "\<not> ve_disabled (es ! k)" "video_element r (es ! k) \<noteq> None"
      by (auto simp: es_def asked_videos_def)
    moreover have "ve_rank (es ! j) < ve_rank (es ! k) \<or> ve_rank (es ! j) = ve_rank (es ! k) \<and> k \<le> j"
      if "j < length es" "can_take (role_pin r req) r reg (es ! j)" for j
      using picked(4,5) that unfolding es_def by (meson le_less linorder_not_le)
    ultimately show ?thesis
      using picked(1-3) \<open>pick_video cat r req reg seen = res\<close>
      by (auto simp: Let_def chosen_video_def es_def [symmetric] intro!: exI [of _ k])
  next
    case (none e)
    with \<open>pick_video cat r req reg seen = res\<close> show ?thesis by simp
  qed
qed

definition ex_video :: "string \<Rightarrow> string \<Rightarrow> string \<Rightarrow> int \<Rightarrow> video_entry" where
  "ex_video i a element k =
    \<lparr>ve_id = Some i, ve_codec = ''h264'', ve_accel = a, ve_rank = k, ve_encoder = Some element, ve_decoder = None,
     ve_convert_rank = None, ve_download = None, ve_parser = None, ve_profile = None, ve_memory = ''system'',
     ve_requires = [], ve_properties = [], ve_decode_properties = [], ve_arch_properties = [], ve_keyframe = None,
     ve_container = [], ve_license = Some ''LGPL'', ve_verified = [], ve_comment = None, ve_disabled = False\<rparr>"

definition ex_catalogue :: catalogue where
  "ex_catalogue =
    \<lparr>ct_video = [ex_video ''x264'' ''software'' ''x264enc'' 100, ex_video ''nv'' ''nvidia'' ''nvh264enc'' 300,
                 ex_video ''qsv'' ''qsv'' ''qsvh264enc'' 400],
     ct_audio = [], ct_graphics = [], ct_container = [], ct_programme_container = None\<rparr>"

definition ex_wants :: selection_request where
  "ex_wants = \<lparr>sr_container = None, sr_decode = AccelAuto, sr_encode = AccelAuto, sr_graphics = AccelAuto, sr_platform = ''linux-x86_64''\<rparr>"

definition ex_registry :: registry where
  "ex_registry f \<longleftrightarrow> f \<in> set [''x264enc'', ''nvh264enc'']"

lemma ex_asked: "asked_videos ex_catalogue RoleEncode ex_wants = ct_video ex_catalogue"
  by code_simp

lemma ex_can_take:
  "map (can_take (role_pin RoleEncode ex_wants) RoleEncode ex_registry) (ct_video ex_catalogue) = [True, True, False]"
  by code_simp

theorem selection_is_best_witness:
  "\<exists>seen. pick_video ex_catalogue RoleEncode ex_wants ex_registry [] =
     Inr (chosen_video RoleEncode (ex_video ''nv'' ''nvidia'' ''nvh264enc'' 300), seen)"
proof -
  define es where "es = ct_video ex_catalogue"
  define ok where "ok = can_take (role_pin RoleEncode ex_wants) RoleEncode ex_registry"
  have es: "length es = 3" "es ! 1 = ex_video ''nv'' ''nvidia'' ''nvh264enc'' 300"
    "ve_rank (es ! 0) = 100" "ve_rank (es ! 1) = 300" by (simp_all add: es_def ex_catalogue_def ex_video_def)
  have "map ok es = [True, True, False]" using ex_can_take unfolding ok_def es_def .
  then have ok: "ok (es ! 1)" "\<not> ok (es ! 2)" using es(1) by (metis (no_types) One_nat_def Suc_1 length_Cons list.size(3) nth_Cons_0 nth_Cons_Suc nth_map lessI numeral_3_eq_3 zero_less_Suc Suc_less_eq)+
  have one: "es ! 1 \<in> set es" using es(1) by simp
  note best = selection_is_best [of ex_catalogue RoleEncode ex_wants ex_registry "[]", unfolded ex_asked, folded es_def ok_def]
  show ?thesis
  proof (cases "pick_video ex_catalogue RoleEncode ex_wants ex_registry []")
    case (Inl x)
    with best one ok(1) show ?thesis by auto
  next
    case (Inr cs)
    with best obtain c seen k where cs: "cs = (c, seen)" and k: "k < 3" "c = chosen_video RoleEncode (es ! k)" "ok (es ! k)"
      "\<forall>j < 3. ok (es ! j) \<longrightarrow> ve_rank (es ! j) < ve_rank (es ! k) \<or> ve_rank (es ! j) = ve_rank (es ! k) \<and> k \<le> j"
      by (auto simp: Let_def es(1) split: prod.splits)
    have "k \<noteq> 2" using k(3) ok(2) by auto
    moreover have "k \<noteq> 0"
    proof
      assume "k = 0"
      with k(4) ok(1) es(3,4) show False by (auto dest!: spec [of _ 1])
    qed
    ultimately have "k = 1" using k(1) by simp
    then show ?thesis using Inr cs k(2) es(2) by simp
  qed
qed

text \<open>C40: the programme's encoder and the encoders the planner offers for renditions agree: the entry
  selection picks for the programme is the first of the planner's list whose codec the programme's
  container carries, and selection fails exactly when that list holds none.\<close>

theorem programme_encoder_heads_candidates:
  "case pick_video cat RoleEncode req reg seen of
     Inr (c, _) \<Rightarrow> (\<exists>e es. filter (\<lambda>e. request_carries entry_carries_video cat req (ve_codec e))
         (video_entries cat (sr_encode req) reg) = e # es \<and> c = chosen_video RoleEncode e)
   | Inl _ \<Rightarrow> filter (\<lambda>e. request_carries entry_carries_video cat req (ve_codec e))
         (video_entries cat (sr_encode req) reg) = []"
proof -
  define es where "es = asked_videos cat RoleEncode req"
  define pin where "pin = role_pin RoleEncode req"
  have pin: "pin = sr_encode req" by (simp add: pin_def role_pin_def)
  have inst: "installed reg (video_needs RoleEncode e) = list_all reg (video_needs RoleEncode e)" if "ve_encoder e \<noteq> None" for e
    using that video_needs_element [of RoleEncode e] by (auto simp: installed_def)
  have "filter (\<lambda>e. request_carries entry_carries_video cat req (ve_codec e)) (video_entries cat pin reg)
      = sort_key (\<lambda>e. - ve_rank e) (filter (can_take pin RoleEncode reg) es)"
    unfolding video_entries_def filter_sort es_def asked_videos_def filter_filter
    by (rule arg_cong [where f = "sort_key _"], rule filter_cong) (auto simp: can_take_def inst)
  note list = this [unfolded pin]
  obtain res where res: "pick_video cat RoleEncode req reg seen = res" by simp
  then show ?thesis
  proof (cases rule: pick_video_cases)
    case (picked seen' k)
    have "\<exists>ys. sort_key (\<lambda>e. - ve_rank e) (filter (can_take pin RoleEncode reg) es) = es ! k # ys"
      by (rule sort_key_filter_first) (use picked(2-5) in \<open>simp_all add: es_def pin_def\<close>)
    then show ?thesis using res picked(1) list by (auto simp: pin es_def)
  next
    case (none e)
    then have "filter (can_take pin RoleEncode reg) es = []" by (simp add: es_def pin_def filter_empty_conv)
    then show ?thesis using res none(1) list by (simp add: pin)
  qed
qed

subsection \<open>Laying catalogues over each other\<close>

lemma find_snoc: "List.find p (xs @ [x]) = (case List.find p xs of Some y \<Rightarrow> Some y | None \<Rightarrow> if p x then Some x else None)"
  by (induction xs) auto

lemma update_first_None: "update_first p f xs = None \<longleftrightarrow> (\<forall>x \<in> set xs. \<not> p x)"
  by (induction xs) auto

lemma find_update_first:
  assumes "update_first (\<lambda>x. key x = key item) (\<lambda>x. item) v = Some w"
  shows "List.find (\<lambda>x. key x = i) w = (if key item = i then Some item else List.find (\<lambda>x. key x = i) v)"
  using assms by (induction v arbitrary: w) (auto split: if_splits)

lemma find_replace_or_push:
  "List.find (\<lambda>x. key x = i) (replace_or_push key item v) =
     (if key item = i then Some item else List.find (\<lambda>x. key x = i) v)"
proof (cases "update_first (\<lambda>x. key x = key item) (\<lambda>x. item) v")
  case None
  then have "\<forall>x \<in> set v. key x \<noteq> key item" by (simp add: update_first_None)
  then have "List.find (\<lambda>x. key x = key item) v = None" by (auto simp: find_None_iff)
  then show ?thesis using None by (auto simp: replace_or_push_def find_snoc split: option.split)
next
  case (Some w)
  from find_update_first [OF this] show ?thesis by (simp add: replace_or_push_def Some)
qed

lemma find_fold_replace:
  "List.find (\<lambda>x. key x = i) (fold (replace_or_push key) over v) =
     (case List.find (\<lambda>x. key x = i) (rev over) of Some e \<Rightarrow> Some e | None \<Rightarrow> List.find (\<lambda>x. key x = i) v)"
proof (induction over arbitrary: v)
  case (Cons e over)
  then show ?case by (simp add: Cons.IH find_replace_or_push find_snoc split: option.split)
qed simp


text \<open>A catalogue laid over another one replaces it entry by entry: whatever id is asked for, in
  any of the four lists, the answer is the last entry of that id in the upper catalogue, and where it
  has none the answer of the lower one.\<close>

theorem overlay_looks_up_first:
  "find_video (overlay c over) i = (case List.find (\<lambda>e. video_id e = i) (rev (ct_video over)) of
       Some e \<Rightarrow> Some e | None \<Rightarrow> find_video c i)
   \<and> find_audio (overlay c over) i = (case List.find (\<lambda>e. audio_id e = i) (rev (ct_audio over)) of
       Some e \<Rightarrow> Some e | None \<Rightarrow> find_audio c i)
   \<and> find_graphics (overlay c over) i = (case List.find (\<lambda>e. graphics_id e = i) (rev (ct_graphics over)) of
       Some e \<Rightarrow> Some e | None \<Rightarrow> find_graphics c i)
   \<and> catalogue_container (overlay c over) i = (case List.find (\<lambda>e. ce_name e = i) (rev (ct_container over)) of
       Some e \<Rightarrow> Some e | None \<Rightarrow> catalogue_container c i)"
  unfolding find_video_def find_audio_def find_graphics_def catalogue_container_def overlay_def catalogue.simps
    find_fold_replace by simp

text \<open>Laying an architecture's properties over an entry a second time changes nothing, as the code says.\<close>

lemma put_all_map:
  assumes "tree_ok base"
  shows "tree_ok (put_all over base)" "map_of (put_all over base) = map_of base ++ map_of (rev over)"
proof -
  have "tree_ok (put_all over base) \<and> map_of (put_all over base) = map_of base ++ map_of (rev over)"
    using assms unfolding put_all_def
  proof (induction over arbitrary: base)
    case (Cons e over)
    obtain k v where e: "e = (k, v)" by fastforce
    from Cons.IH [OF tree_ok_put [OF Cons.prems, of k v]] show ?case
      by (auto simp: e map_of_tree_put [OF Cons.prems] map_add_def fun_eq_iff split: option.split)
  qed simp
  then show "tree_ok (put_all over base)" "map_of (put_all over base) = map_of base ++ map_of (rev over)" by blast+
qed

lemma map_add_twice: "m ++ m = m"
  by (auto simp: map_add_def split: option.split)

lemma resolve_arch_twice:
  assumes "tree_ok (ve_properties e)"
  shows "resolve_arch arch (resolve_arch arch e) = resolve_arch arch e"
proof (cases "map_of (ve_arch_properties e) arch")
  case (Some over)
  note one = put_all_map [OF assms, of over]
  have "put_all over (put_all over (ve_properties e)) = put_all over (ve_properties e)"
    using put_all_map [OF one(1), of over] one by (intro tree_ext) (simp_all add: map_add_assoc [symmetric] map_add_twice)
  then show ?thesis by (simp add: resolve_arch_def Some)
qed (simp add: resolve_arch_def)

subsection \<open>Units\<close>

text \<open>How much of the smallest unit of its family a unit is.\<close>

definition unit_size :: "int \<Rightarrow> string \<Rightarrow> int" where
  "unit_size fps u =
    (if u = ''kbit'' then 1000 else if u = ''mbit'' then 1000000 else if u = ''seconds'' then max fps 1 else 1)"

lemma known_family: "known_variable from = Some u \<Longrightarrow> unit_family u \<noteq> None"
  by (auto simp: known_variable_def UNITS_def unit_family_def split: if_splits)

lemma sdiv_nonneg: "0 \<le> x \<Longrightarrow> 0 < d \<Longrightarrow> x sdiv d = x div d" for x d :: int
  by (cases "x = 0") (simp_all add: signed_divide_int_def)

lemma same_of_three:
  assumes "(if a \<in> B then Some x else if a \<in> I then Some y else if a \<in> K then Some z else None)
      = (if b \<in> B then Some x else if b \<in> I then Some y else if b \<in> K then Some z else None)"
    and "(if a \<in> B then Some x else if a \<in> I then Some y else if a \<in> K then Some z else None) \<noteq> None"
    and "x \<noteq> y" "x \<noteq> z" "y \<noteq> z"
  shows "a \<in> B \<and> b \<in> B \<or> a \<in> I \<and> b \<in> I \<or> a \<in> K \<and> b \<in> K"
  using assms by (auto split: if_splits)

lemma same_family:
  assumes "unit_family a = unit_family b" "unit_family a \<noteq> None"
  obtains "a \<in> {''bit'', ''kbit'', ''mbit''}" "b \<in> {''bit'', ''kbit'', ''mbit''}"
  | "a \<in> {''frames'', ''seconds''}" "b \<in> {''frames'', ''seconds''}"
  | "a \<in> {''count'', ''raw''}" "b \<in> {''count'', ''raw''}"
proof -
  have ne: "''bitrate'' \<noteq> ''interval''" "''bitrate'' \<noteq> ''count''" "''interval'' \<noteq> ''count''" by simp_all
  from same_of_three [OF assms [unfolded unit_family_def] ne] show thesis by (elim disjE conjE) (rule that; assumption)+
qed

lemma two_of_three:
  assumes "a \<in> {p, q, r}" "b \<in> {p, q, r}" "a \<noteq> b"
  obtains "a = q" "b = p" | "a = q" "b = r" | "a = p" "b = q" | "a = p" "b = r" | "a = r" "b = q" | "a = r" "b = p"
  using assms by auto

lemma two_of_two:
  assumes "a \<in> {p, q}" "b \<in> {p, q}" "a \<noteq> b"
  obtains "a = q" "b = p" | "a = p" "b = q"
  using assms by auto

lemma convert_arms:
  "convert x u u fps = x"
  "convert x ''kbit'' ''bit'' fps = i64_saturating_mul x 1000"
  "convert x ''kbit'' ''mbit'' fps = x sdiv 1000"
  "convert x ''bit'' ''kbit'' fps = x sdiv 1000"
  "convert x ''bit'' ''mbit'' fps = x sdiv 1000000"
  "convert x ''mbit'' ''kbit'' fps = i64_saturating_mul x 1000"
  "convert x ''mbit'' ''bit'' fps = i64_saturating_mul x 1000000"
  "convert x ''seconds'' ''frames'' fps = i64_saturating_mul x (max fps 1)"
  "convert x ''frames'' ''seconds'' fps = x sdiv max fps 1"
  "convert x ''count'' ''raw'' fps = x"
  "convert x ''raw'' ''count'' fps = x"
  by (simp_all add: convert_def Let_def)

lemma unit_sizes:
  "unit_size fps ''bit'' = 1" "unit_size fps ''kbit'' = 1000" "unit_size fps ''mbit'' = 1000000"
  "unit_size fps ''frames'' = 1" "unit_size fps ''seconds'' = max fps 1" "unit_size fps ''count'' = 1" "unit_size fps ''raw'' = 1"
  by (simp_all add: unit_size_def)

lemma convert_units:
  assumes "unit_family a = unit_family b" "unit_family a \<noteq> None" "0 \<le> x" "x \<le> i64_max"
  shows "convert x a b fps = min i64_max (x * unit_size fps a div unit_size fps b)"
proof -
  have down: "x sdiv d = min i64_max (x div d)" if "0 < d" for d
    using that assms(3,4) zdiv_mono2 [of x 1 d] by (simp add: sdiv_nonneg)
  have up: "i64_saturating_mul x k = min i64_max (x * k)" if "0 < k" for k
  proof -
    have "0 \<le> x * k" using that assms(3) by simp
    then show ?thesis by (simp add: i64_saturating_mul_def i64_min_def i64_max_def)
  qed
  have same: "convert x u u fps = min i64_max (x * unit_size fps u div unit_size fps u)" for u
  proof -
    have "unit_size fps u \<noteq> 0" by (simp add: unit_size_def max_def)
    then show ?thesis using assms(4) by (simp add: convert_arms(1))
  qed
  have fine: "x * 1000000 div 1000 = x * 1000" "x * 1000 div 1000000 = x div 1000" by simp_all
  from assms(1,2) show ?thesis
  proof (cases rule: same_family)
    case 1
    show ?thesis
    proof (cases "a = b")
      case False
      show ?thesis using 1 False by (cases rule: two_of_three) (simp_all only: convert_arms unit_sizes fine up down zero_less_numeral mult_1_right div_by_1)
    qed (simp only: same)
  next
    case 2
    show ?thesis
    proof (cases "a = b")
      case False
      show ?thesis using 2 False
        by (cases rule: two_of_two) (simp_all only: convert_arms unit_sizes up [of "max fps 1"] down [of "max fps 1"] less_max_iff_disj
            zero_less_one simp_thms mult_1_right div_by_1)
    qed (simp only: same)
  next
    case 3
    show ?thesis
    proof (cases "a = b")
      case False
      show ?thesis using 3 False
        by (cases rule: two_of_two) (simp_all only: convert_arms unit_sizes mult_1_right div_by_1 min_absorb2 assms(4))
    qed (simp only: same)
  qed
qed

text \<open>A derived property that passes the check always reaches the element, as the value of its
  variable in the unit it names: so many of the smallest unit, divided down to whole ones and held to
  an \<open>i64\<close>.\<close>

theorem checked_property_converts:
  assumes "check_derived d = None" "\<And>from x. native v from = Some x \<Longrightarrow> 0 \<le> x \<and> x \<le> i64_max"
  shows "\<exists>x u y. native v (dv_from d) = Some x \<and> known_variable (dv_from d) = Some u
    \<and> set_one v name (PDerived d) = [SetInt name y]
    \<and> y = min i64_max (x * unit_size (vr_fps v) u div unit_size (vr_fps v) (dv_unit d))"
proof -
  obtain u where u: "known_variable (dv_from d) = Some u" and fam: "unit_family u = unit_family (dv_unit d)" "unit_family u \<noteq> None"
  proof -
    obtain w where w: "known_variable (dv_from d) = Some w" using assms(1) by (auto simp: check_derived_def split: option.splits)
    then have "unit_family w \<noteq> None" by (rule known_family)
    with assms(1) w show thesis using that [of w] by (auto simp: check_derived_def split: option.splits if_splits)
  qed
  obtain x where x: "native v (dv_from d) = Some x" using u by (auto simp: known_variable_def UNITS_def native_def split: if_splits)
  then have "0 \<le> x" "x \<le> i64_max" using assms(2) by blast+
  then have "convert x u (dv_unit d) (vr_fps v) = min i64_max (x * unit_size (vr_fps v) u div unit_size (vr_fps v) (dv_unit d))"
    using convert_units fam by blast
  then show ?thesis using assms(1) u x by (simp add: set_one_def resolve_def)
qed

theorem checked_property_converts_witness:
  "set_one (vars_default 8) ''bitrate'' (PDerived \<lparr>dv_unit = ''bit'', dv_from = ''video.bitrate_kbps''\<rparr>) = [SetInt ''bitrate'' 4000000]"
proof -
  have ok: "check_derived \<lparr>dv_unit = ''bit'', dv_from = ''video.bitrate_kbps''\<rparr> = None" by code_simp
  have small: "0 \<le> x \<and> x \<le> i64_max" if "native (vars_default 8) v = Some x" for v x
    using that by (auto simp: native_def vars_default_def i64_max_def split: if_splits)
  have "native (vars_default 8) ''video.bitrate_kbps'' = Some 4000" "known_variable ''video.bitrate_kbps'' = Some ''kbit''"
    by code_simp+
  with checked_property_converts [of "\<lparr>dv_unit = ''bit'', dv_from = ''video.bitrate_kbps''\<rparr>" "vars_default 8" "''bitrate''", OF ok small] show ?thesis
    by (simp add: unit_size_def i64_max_def)
qed

end
