(* ===== verification/Engine_Model.thy ===== *)
theory Engine_Model
  imports Governor Planner Maps
begin

text \<open>
  The governor's view of the machine as the planner's cost model
  (\<open>crates/godwinmix-core/src/render/model.rs\<close>): what the governor's profile says a piece of work costs,
  and what it has left on a device, with what the running plan already holds there given back.
\<close>

text \<open>\<open>HW_MAX_SIDE\<close> and \<open>AUDIO_CONVERT\<close> of \<open>model.rs\<close>.\<close>

definition HW_TRUSTED_SIDE :: u32 where "HW_TRUSTED_SIDE = 4096"

definition AUDIO_CONVERT :: u32 where "AUDIO_CONVERT = 5"

record governor_model =
  gm_governor :: governor
  gm_profile :: profile
  gm_slots :: "encoder_slot list"
  gm_audio :: "audio_codec list"
  gm_held :: "(string \<times> cost) list"

definition governor_model_new :: "governor \<Rightarrow> encoder_slot list \<Rightarrow> audio_codec list \<Rightarrow> (string \<times> cost) list \<Rightarrow> governor_model" where
  "governor_model_new g slots audio held =
    \<lparr>gm_governor = g, gm_profile = gv_profile g, gm_slots = slots, gm_audio = audio, gm_held = held\<rparr>"

text \<open>An encoder that calibration could not run is present but does not work.\<close>

definition gm_encoders :: "governor_model \<Rightarrow> encoder_slot list" where
  "gm_encoders m =
    (if \<not> is_calibrated (gm_profile m) then gm_slots m
     else filter (\<lambda>s. es_id s \<in> es_id ` set (all_encoders (gm_profile m))) (gm_slots m))"

definition gm_encode_cost :: "governor_model \<Rightarrow> video_shape \<Rightarrow> encoder_slot \<Rightarrow> cost option" where
  "gm_encode_cost m shape e =
    (if es_hardware e \<and> (HW_TRUSTED_SIDE < vs_width shape \<or> HW_TRUSTED_SIDE < vs_height shape) then None
     else Some (profile_encode_cost (gm_profile m) e shape))"

definition gm_audio_cost :: "governor_model \<Rightarrow> audio_shape \<Rightarrow> audio_work \<Rightarrow> cost option" where
  "gm_audio_cost m shape w =
    (case w of
       WEncode \<Rightarrow> if as_codec shape \<notin> set (gm_audio m) then None else Some (profile_audio_cost (gm_profile m) shape)
     | _ \<Rightarrow> Some (cost_default\<lparr>cpu_millicores := AUDIO_CONVERT, memory_mib := 1\<rparr>))"

definition gm_room :: "governor_model \<Rightarrow> string \<Rightarrow> room" where
  "gm_room m device =
    (let have_now = headroom (gm_governor m) (Some device);
         ours = (case map_of (gm_held m) device of Some c \<Rightarrow> c | None \<Rightarrow> cost_default)
     in \<lparr>rm_sessions =
           (if device_sessions have_now \<noteq> UNLIMITED
            then Some (saturating_add (device_sessions have_now) (device_sessions ours)) else None),
         rm_device_millis = Some (saturating_add (device_millis have_now) (device_millis ours))\<rparr>)"

definition governor_cost_model :: "governor_model \<Rightarrow> cost_model" where
  "governor_cost_model m =
    \<lparr>cm_encoders = gm_encoders m,
     cm_encode_cost = gm_encode_cost m,
     cm_scale_cost = profile_scale_cost (gm_profile m),
     cm_decode_cost = profile_decode_cost (gm_profile m),
     cm_audio_cost = gm_audio_cost m,
     cm_mux_cost = default_mux_cost,
     cm_room = gm_room m\<rparr>"

end
