(* ===== verification/Engine_Admit.thy ===== *)
theory Engine_Admit
  imports Engine_Model Presets
begin

text \<open>
  Asking the governor before a node starts (\<open>crates/godwinmix-core/src/render/admit.rs\<close>) and what a
  caller is told when the answer is no (\<open>refusal.rs\<close>). The JSON of \<open>data\<close> is serde's; the value it is
  made from is kept.
\<close>

subsection \<open>Refusals (\<open>refusal.rs\<close>)\<close>

datatype refusal_code = Safety | InvalidParams

record rendition_advice =
  ra_text :: string
  ra_request :: rendition_request

record rendition_refusal =
  rr_need :: cost
  rr_have :: cost
  rr_advice :: "rendition_advice list"

datatype refusal_data = PlanData plan_error | NoData | GovernorData rendition_refusal

record refusal =
  rf_code :: refusal_code
  rf_message :: string
  rf_data :: refusal_data

definition refusal_plan :: "plan_error \<Rightarrow> refusal" where
  "refusal_plan e = \<lparr>rf_code = InvalidParams, rf_message = error_text e, rf_data = PlanData e\<rparr>"

definition refusal_bad_choice :: "string \<Rightarrow> refusal" where
  "refusal_bad_choice message = \<lparr>rf_code = InvalidParams, rf_message = message, rf_data = NoData\<rparr>"

text \<open>A shape that fits, as the request to send instead; its bitrate is left to the planner.\<close>

definition offer_of :: "rendition_request \<Rightarrow> advice_fit \<Rightarrow> rendition_advice" where
  "offer_of asked f =
    (let video = (case rq_video asked of Some v \<Rightarrow> v | None \<Rightarrow> video_want_default)
     in \<lparr>ra_text = af_label f @ '' fits'',
         ra_request = asked\<lparr>rq_video := Some (video\<lparr>vw_codec := Some (es_codec (af_slot f)), vw_width := Some (af_width f),
           vw_height := Some (af_height f), vw_fps := Some (af_fps f), vw_bitrate_kbps := None\<rparr>)\<rparr>\<rparr>)"

definition refusal_governor :: "string \<Rightarrow> cost \<Rightarrow> cost \<Rightarrow> advice \<Rightarrow> rendition_request \<Rightarrow> refusal" where
  "refusal_governor what need room adv asked =
    \<lparr>rf_code = Safety,
     rf_message = ''The '' @ what @ '' was not started, so nothing on air drops a frame. '' @ ad_text adv,
     rf_data = GovernorData \<lparr>rr_need = need, rr_have = room, rr_advice = map (offer_of asked) (take 4 (ad_fits adv))\<rparr>\<rparr>"

subsection \<open>Admission of a node (\<open>admit.rs\<close>)\<close>

type_synonym rungs = "string \<rightharpoonup> u8"
type_synonym asked = "string \<rightharpoonup> rendition_request"

definition describe :: "node \<Rightarrow> string" where
  "describe n =
    (let who = join '', '' (nd_serves n) in
     case nd_kind n of
       Encode source shape e _ _ \<Rightarrow>
         show_word (vs_height shape) @ ''p'' @ show_word (fps_num (vs_fps shape) div max (fps_den (vs_fps shape)) 1) @ '' '' @
         video_name (vs_codec shape) @ '' rendition for '' @ who
     | Scale source w h _ _ _ _ _ _ _ \<Rightarrow> show_word w @ ''x'' @ show_word h @ '' scaling for '' @ who
     | AudioEncode _ _ _ \<Rightarrow> ''sound encode for '' @ who
     | _ \<Rightarrow> nd_id n @ '' for '' @ who)"

definition lowest_rung :: "rungs \<Rightarrow> string list \<Rightarrow> u8" where
  "lowest_rung rungs rs = (case List.map_filter rungs rs of [] \<Rightarrow> 0 | i # is \<Rightarrow> fold min is i)"

definition kind_of :: "node \<Rightarrow> rungs \<Rightarrow> kind" where
  "kind_of n rungs = (if is_encode (nd_kind n) then Rung (lowest_rung rungs (nd_serves n)) else OtherWork)"

text \<open>What admission asks for one node; nothing for a node that costs nothing.\<close>

definition ask_governor :: "governor \<Rightarrow> node \<Rightarrow> rungs \<Rightarrow> (admitted \<times> governor) option" where
  "ask_governor g n rungs =
    (case nd_kind n of
       Encode source shape e _ _ \<Rightarrow> Some (admit_encode g e shape (describe n) (kind_of n rungs))
     | _ \<Rightarrow>
         if cpu_millicores (nd_cost n) = 0 \<and> device_millis (nd_cost n) = 0 then None
         else Some (admit_claim g ((claim_new (describe n) (nd_cost n))\<lparr>cl_kind := kind_of n rungs\<rparr>)))"

definition admit_node :: "governor \<Rightarrow> node \<Rightarrow> rungs \<Rightarrow> asked \<Rightarrow> (refusal + ticket option) \<times> governor" where
  "admit_node g n rungs asked =
    (case ask_governor g n rungs of
       None \<Rightarrow> (Inr None, g)
     | Some (Granted t, g) \<Rightarrow> (Inr (Some t), g)
     | Some (Refused need room adv, g) \<Rightarrow>
         (Inl (refusal_governor (describe n) need room adv
                (case find_map asked (nd_serves n) of Some r \<Rightarrow> r | None \<Rightarrow> rendition_request_default)), g))"

end
