(* ===== verification/Render_Elements.thy ===== *)
theory Render_Elements
  imports Growth Catalogue_Select
begin

text \<open>
  What each node of a plan is in GStreamer (\<open>crates/godwinmix-core/src/render/elements.rs\<close>): the elements
  of its body with their names and settings. Whether an element can be made is GStreamer's answer, the
  predicate \<open>has\<close> of the environment; what an element does is outside the model. The byte and buffer
  limits of the head queue (\<open>gstutil::backstop\<close>) are left out.
\<close>

datatype caps = RawVideo int int int int | RawAudio int int

record element =
  el_factory :: string
  el_name :: string
  el_settings :: "setting list"
  el_caps :: "caps option"

datatype graph_error =
    CannotMake string string
  | NoCatalogueEncoder string
  | NamesNoElement string
  | NoAudioEncoderInstalled
  | AudioNamesNoElement
  | CannotAddOutlet string
  | NeverStarted string
  | NothingUpstream string
  | NotRunning string string
  | CannotLink string

record gst_env =
  gs_has :: "string \<Rightarrow> bool"
  gs_add :: "string \<Rightarrow> bool"
  gs_link :: "string \<Rightarrow> bool"
  gs_cpus :: int

definition make_element :: "gst_env \<Rightarrow> string \<Rightarrow> string \<Rightarrow> graph_error + element" where
  "make_element gs factory name =
    (if gs_has gs factory then Inr \<lparr>el_factory = factory, el_name = name, el_settings = [], el_caps = None\<rparr>
     else Inl (CannotMake factory name))"

definition set_all :: "setting list \<Rightarrow> element \<Rightarrow> element" where
  "set_all ss e = e\<lparr>el_settings := el_settings e @ ss\<rparr>"

text \<open>\<open>HEAD_SECS\<close> is one second; the time limit of a queue is in nanoseconds.\<close>

definition queue_time :: "gst_env \<Rightarrow> string \<Rightarrow> graph_error + element" where
  "queue_time gs name =
     and_then (make_element gs ''queue'' name) (\<lambda>e.
       Inr (set_all [SetInt ''max-size-time'' 1000000000, SetEnum ''leaky'' ''downstream''] e))"

definition capsfilter :: "gst_env \<Rightarrow> string \<Rightarrow> caps \<Rightarrow> graph_error + element" where
  "capsfilter gs name c = and_then (make_element gs ''capsfilter'' name) (\<lambda>e. Inr (e\<lparr>el_caps := Some c\<rparr>))"

text \<open>\<open>as i32\<close> reads the 32 bits as signed.\<close>

definition as_i32 :: "u32 \<Rightarrow> int" where
  "as_i32 w = sint w"

definition slug :: "string \<Rightarrow> string" where
  "slug i = map (\<lambda>c. if is_ascii_lowercase c \<or> is_ascii_digit c \<or> (65 :: int) \<le> of_char c \<and> (of_char c :: int) \<le> 90
                     then c else CHR ''-'') i"

definition parser :: "gst_env \<Rightarrow> string option \<Rightarrow> string \<Rightarrow> graph_error + element list" where
  "parser gs name element =
    (case name of
       Some p \<Rightarrow> if gs_has gs p
         then and_then (make_element gs p element) (\<lambda>e. Inr [set_all [SetInt ''config-interval'' (- 1)] e]) else Inr []
     | None \<Rightarrow> Inr [])"

text \<open>The encoder's own keyframe interval is a ceiling twice the ladder's.\<close>

definition saturating_double :: "u32 \<Rightarrow> u32" where
  "saturating_double w = (if uint w * 2 < 2 ^ 32 then w * 2 else - 1)"

definition video_encoder :: "gst_env \<Rightarrow> catalogue \<Rightarrow> string \<Rightarrow> video_shape \<Rightarrow> string \<Rightarrow> string option \<Rightarrow> graph_error + element" where
  "video_encoder gs cat i shape name preset =
    (case find_video cat i of
       None \<Rightarrow> Inl (NoCatalogueEncoder i)
     | Some entry \<Rightarrow>
        (case video_element RoleEncode entry of
           None \<Rightarrow> Inl (NamesNoElement i)
         | Some factory \<Rightarrow>
            and_then (make_element gs factory (name @ ''-enc'')) (\<lambda>e.
              let v = vars_for (gs_cpus gs) (shape\<lparr>vs_keyframe_ms := saturating_double (vs_keyframe_ms shape)\<rparr>) 0
              in Inr (set_all (apply_props (ve_properties entry) v @ apply_keyframe (ve_keyframe entry) v @
                        (case preset of Some p \<Rightarrow> [SetEnum ''speed-preset'' p] | None \<Rightarrow> [])) e))))"

definition audio_encoder :: "gst_env \<Rightarrow> catalogue \<Rightarrow> audio_shape \<Rightarrow> string \<Rightarrow> graph_error + (element \<times> element list)" where
  "audio_encoder gs cat shape name =
    (case List.find (\<lambda>e. audio_codec_named (ae_codec e) = Some (as_codec shape)) (audio_entries cat (gs_has gs)) of
       None \<Rightarrow> Inl NoAudioEncoderInstalled
     | Some entry \<Rightarrow>
        (case audio_element RoleEncode entry of
           None \<Rightarrow> Inl AudioNamesNoElement
         | Some factory \<Rightarrow>
            and_then (make_element gs factory (name @ ''-enc'')) (\<lambda>e.
              let v = (vars_default (gs_cpus gs))\<lparr>vr_audio_bitrate_kbps := uint (as_bitrate_kbps shape)\<rparr>
              in and_then (parser gs (ae_parser entry) (name @ ''-parse'')) (\<lambda>ps.
                   Inr (set_all (apply_props (ae_properties entry) v) e, ps)))))"

record body =
  bo_elements :: "element list"
  bo_encoder :: "element option"

text \<open>The kinds that have no elements of their own, but for the programme source on a GPU canvas.\<close>

fun bodiless :: "node_kind \<Rightarrow> bool" where
  "bodiless (Source _) = True"
| "bodiless (Mux _ _) = True"
| "bodiless (Copy _ _ _) = True"
| "bodiless (Decode _ _ _) = True"
| "bodiless _ = False"

definition skip_to_first :: "element \<Rightarrow> element" where
  "skip_to_first e = set_all [SetBool ''skip-to-first'' True] e"

definition download_elements :: "gst_env \<Rightarrow> graphics_choice \<Rightarrow> string \<Rightarrow> graph_error + element list" where
  "download_elements gs gfx name =
     and_then (case gx_download gfx of
                 Some d \<Rightarrow> if gs_has gs d then and_then (make_element gs d (name @ ''-download'')) (\<lambda>e. Inr [e]) else Inr []
               | None \<Rightarrow> Inr []) (\<lambda>ds.
     and_then (make_element gs ''videoconvert'' (name @ ''-conv'')) (\<lambda>c. Inr (ds @ [c])))"

definition scale_elements :: "gst_env \<Rightarrow> u32 \<Rightarrow> u32 \<Rightarrow> fps \<Rightarrow> string \<Rightarrow> graph_error + element list" where
  "scale_elements gs w h f name =
     and_then (make_element gs ''videoscale'' (name @ ''-scale'')) (\<lambda>s.
     and_then (make_element gs ''videorate'' (name @ ''-rate'')) (\<lambda>r.
     and_then (capsfilter gs (name @ ''-caps'')
         (RawVideo (as_i32 w) (as_i32 h) (as_i32 (fps_num f)) (as_i32 (max (fps_den f) 1)))) (\<lambda>c.
       Inr [s, skip_to_first r, c])))"

definition encode_elements :: "gst_env \<Rightarrow> catalogue \<Rightarrow> video_shape \<Rightarrow> encoder_slot \<Rightarrow> string \<Rightarrow> string option
    \<Rightarrow> graph_error + (element list \<times> element)" where
  "encode_elements gs cat shape slot name preset =
     and_then (video_encoder gs cat (es_id slot) shape name preset) (\<lambda>e.
     and_then (make_element gs ''videoconvert'' (name @ ''-conv'')) (\<lambda>c.
       case find_video cat (es_id slot) of
         None \<Rightarrow> Inl (NoCatalogueEncoder (es_id slot))
       | Some entry \<Rightarrow> and_then (parser gs (ve_parser entry) (name @ ''-parse'')) (\<lambda>ps. Inr ([c, e] @ ps, e))))"

definition convert_elements :: "gst_env \<Rightarrow> u8 \<Rightarrow> u32 \<Rightarrow> string \<Rightarrow> graph_error + element list" where
  "convert_elements gs channels rate name =
     and_then (make_element gs ''audioconvert'' (name @ ''-conv'')) (\<lambda>c.
     and_then (make_element gs ''audioresample'' (name @ ''-resample'')) (\<lambda>r.
     and_then (capsfilter gs (name @ ''-caps'') (RawAudio (as_i32 rate) (uint channels))) (\<lambda>f. Inr [c, r, f])))"

definition audio_encode_elements :: "gst_env \<Rightarrow> catalogue \<Rightarrow> audio_shape \<Rightarrow> string \<Rightarrow> graph_error + (element list \<times> element)" where
  "audio_encode_elements gs cat shape name =
     and_then (audio_encoder gs cat shape name) (\<lambda>(e, ps).
     and_then (make_element gs ''audioconvert'' (name @ ''-conv'')) (\<lambda>c.
     and_then (make_element gs ''audiorate'' (name @ ''-rate'')) (\<lambda>r. Inr ([c, skip_to_first r, e] @ ps, e))))"

definition node_body :: "gst_env \<Rightarrow> catalogue \<Rightarrow> graphics_choice \<Rightarrow> node_kind \<Rightarrow> string \<Rightarrow> string option
    \<Rightarrow> graph_error + body option" where
  "node_body gs cat gfx k name preset =
     and_then (queue_time gs (name @ ''-q'')) (\<lambda>head.
       let plain = (\<lambda>es. Inr (Some \<lparr>bo_elements = head # es, bo_encoder = None\<rparr>));
           coded = (\<lambda>(es, e). Inr (Some \<lparr>bo_elements = head # es, bo_encoder = Some e\<rparr>))
       in case k of
            Scale source w h f _ _ _ _ _ _ \<Rightarrow> and_then (scale_elements gs w h f name) plain
          | Encode source shape slot _ _ \<Rightarrow> and_then (encode_elements gs cat shape slot name preset) coded
          | AudioConvert source channels rate _ \<Rightarrow> and_then (convert_elements gs channels rate name) plain
          | AudioEncode source shape _ \<Rightarrow> and_then (audio_encode_elements gs cat shape name) coded
          | _ \<Rightarrow> if \<not> is_gpu gfx \<or> \<not> is_source k then Inr None
                 else and_then (download_elements gs gfx name) plain)"

end
