(* ===== verification/Render_Graph.thy ===== *)
theory Render_Graph
  imports Render_Elements Planner
begin

text \<open>
  A plan, running (\<open>crates/godwinmix-core/src/render/graph.rs\<close> and \<open>wiring.rs\<close>). A node has an outlet, a
  tee its consumers read, for as long as its id is in the plan, and a body that can be stopped and
  started under it. Unlinking and the change of state of elements are GStreamer's.
\<close>

datatype outlet = ProgrammeVideo | ProgrammeAudio | Tee string

record live =
  lv_elements :: "element list"
  lv_upstream :: outlet
  lv_align :: "u32 option"

record running_node =
  rn_outlet :: outlet
  rn_owned :: bool
  rn_body :: "live option"

record graph =
  gr_gfx :: graphics_choice
  gr_nodes :: "(string \<times> running_node) list"

definition graph_new :: "graphics_choice \<Rightarrow> graph" where
  "graph_new gfx = \<lparr>gr_gfx = gfx, gr_nodes = []\<rparr>"

definition graph_get :: "graph \<Rightarrow> string \<Rightarrow> running_node option" where
  "graph_get g i = map_of (gr_nodes g) i"

definition graph_put :: "string \<Rightarrow> running_node \<Rightarrow> graph \<Rightarrow> graph" where
  "graph_put i r g = g\<lparr>gr_nodes := hash_put i r (gr_nodes g)\<rparr>"

definition graph_outlet :: "graph \<Rightarrow> string \<Rightarrow> outlet option" where
  "graph_outlet g i = map_option rn_outlet (graph_get g i)"

fun is_audio :: "node_kind \<Rightarrow> bool" where
  "is_audio (AudioConvert _ _ _ _) = True"
| "is_audio (AudioEncode _ _ _) = True"
| "is_audio (Decode _ Audio _) = True"
| "is_audio (Copy _ Audio _) = True"
| "is_audio _ = False"

text \<open>The tee a node's body reads from.\<close>

definition node_upstream :: "graph \<Rightarrow> node \<Rightarrow> graph_error + outlet" where
  "node_upstream g n =
    (if is_source (nd_kind n) then Inr ProgrammeVideo
     else case nd_inputs n of
       [] \<Rightarrow> Inl (NothingUpstream (nd_id n))
     | i # _ \<Rightarrow>
         if starts_with ''source:'' i \<and> is_audio (nd_kind n) then Inr ProgrammeAudio
         else case graph_outlet g i of Some t \<Rightarrow> Inr t | None \<Rightarrow> Inl (NotRunning (nd_id n) i))"

text \<open>Adding a body and hanging it off the tee: the probe of an encode gets the plan's interval.\<close>

definition wire_up :: "gst_env \<Rightarrow> body \<Rightarrow> outlet \<Rightarrow> node \<Rightarrow> plan \<Rightarrow> graph_error + live" where
  "wire_up gs b up n p =
    (if gs_link gs (nd_id n)
     then Inr \<lparr>lv_elements = bo_elements b, lv_upstream = up,
               lv_align = (case (bo_encoder b, nd_kind n) of
                             (Some e, Encode source _ _ _ _) \<Rightarrow> Some (or_default DEFAULT_KEYFRAME_MS (pl_keyframe_ms p source))
                           | _ \<Rightarrow> None)\<rparr>
     else Inl (CannotLink (nd_id n)))"

definition node_name :: "string \<Rightarrow> string" where
  "node_name i = ''r-'' @ slug i"

definition graph_resume :: "gst_env \<Rightarrow> catalogue \<Rightarrow> node \<Rightarrow> plan \<Rightarrow> string option \<Rightarrow> graph \<Rightarrow> (graph_error + unit) \<times> graph" where
  "graph_resume gs cat n p preset g =
    (case graph_get g (nd_id n) of
       None \<Rightarrow> (Inl (NeverStarted (nd_id n)), g)
     | Some r \<Rightarrow>
        if rn_body r \<noteq> None \<or> \<not> rn_owned r then (Inr (), g)
        else case node_body gs cat (gr_gfx g) (nd_kind n) (node_name (nd_id n)) preset of
          Inl e \<Rightarrow> (Inl e, g)
        | Inr None \<Rightarrow> (Inr (), g)
        | Inr (Some b) \<Rightarrow>
           (case and_then (node_upstream g n) (\<lambda>up. wire_up gs b up n p) of
              Inl e \<Rightarrow> (Inl e, g)
            | Inr l \<Rightarrow> (Inr (), graph_put (nd_id n) (r\<lparr>rn_body := Some l\<rparr>) g)))"

definition graph_start :: "gst_env \<Rightarrow> catalogue \<Rightarrow> node \<Rightarrow> plan \<Rightarrow> string option \<Rightarrow> graph \<Rightarrow> (graph_error + unit) \<times> graph" where
  "graph_start gs cat n p preset g =
    (if graph_get g (nd_id n) \<noteq> None then graph_resume gs cat n p preset g
     else if is_source (nd_kind n) \<and> \<not> is_gpu (gr_gfx g)
     then (Inr (), graph_put (nd_id n) \<lparr>rn_outlet = ProgrammeVideo, rn_owned = False, rn_body = None\<rparr> g)
     else if \<not> gs_has gs ''tee'' then (Inl (CannotMake ''tee'' (node_name (nd_id n) @ ''-tee'')), g)
     else if \<not> gs_add gs (nd_id n) then (Inl (CannotAddOutlet (nd_id n)), g)
     else graph_resume gs cat n p preset
       (graph_put (nd_id n) \<lparr>rn_outlet = Tee (node_name (nd_id n) @ ''-tee''), rn_owned = True, rn_body = None\<rparr> g))"

definition graph_suspend :: "string \<Rightarrow> graph \<Rightarrow> graph" where
  "graph_suspend i g =
    (case graph_get g i of Some r \<Rightarrow> graph_put i (r\<lparr>rn_body := None\<rparr>) g | None \<Rightarrow> g)"

definition graph_stop :: "string \<Rightarrow> graph \<Rightarrow> graph" where
  "graph_stop i g = (let g = graph_suspend i g in g\<lparr>gr_nodes := hash_del i (gr_nodes g)\<rparr>)"

definition graph_stop_all :: "graph \<Rightarrow> graph" where
  "graph_stop_all g = fold graph_stop (keys_of (gr_nodes g)) g"

end
