(* ===== verification/Renditions.thy ===== *)
theory Renditions
  imports Engine_Admit Render_Graph Diff
begin

text \<open>
  The programme's renditions (\<open>crates/godwinmix-core/src/render/renditions.rs\<close>, \<open>apply.rs\<close>, \<open>shed.rs\<close>,
  \<open>book.rs\<close>, \<open>view.rs\<close>): which outputs asked for what, the plan that serves them all, the tickets the
  plan holds and the running graph. The governor is shared with whatever else runs on the machine and is
  part of the state; the catalogue and GStreamer are arguments. Times are in nanoseconds.
\<close>

subsection \<open>What the page sees (\<open>view.rs\<close>)\<close>

record plan_reason =
  pn_code :: string
  pn_text :: string

record plan_node_view =
  pv_id :: string
  pv_kind :: string
  pv_serves :: "string list"
  pv_encoder :: "string option"
  pv_reason :: "plan_reason option"
  pv_cost :: cost
  pv_shed :: "string option"

record device_total =
  dt_millis :: u32
  dt_sessions :: u32

record plan_view =
  vw_nodes :: "plan_node_view list"
  vw_cpu_millicores :: u32
  vw_devices :: "string \<rightharpoonup> device_total"
  vw_egress_kbps :: u32

definition plan_view_default :: plan_view where
  "plan_view_default = \<lparr>vw_nodes = [], vw_cpu_millicores = 0, vw_devices = Map.empty, vw_egress_kbps = 0\<rparr>"

fun kind_slug :: "node_kind \<Rightarrow> string" where
  "kind_slug (Source _) = ''source''"
| "kind_slug (Copy _ _ _) = ''copy''"
| "kind_slug (Decode _ _ _) = ''decode''"
| "kind_slug (Scale _ _ _ _ _ _ _ _ _ _) = ''scale''"
| "kind_slug (Encode _ _ _ _ _) = ''encode''"
| "kind_slug (AudioConvert _ _ _ _) = ''audio-convert''"
| "kind_slug (AudioEncode _ _ _) = ''audio-encode''"
| "kind_slug (Mux _ _) = ''mux''"

fun code_slug :: "reason_code \<Rightarrow> string" where
  "code_slug Hardware = ''hardware''"
| "code_slug SoftwareOnly = ''software-only''"
| "code_slug DeviceFull = ''device-full''"
| "code_slug ShapeUnsupported = ''shape-unsupported''"
| "code_slug Copied = ''copied''"
| "code_slug Transcoded = ''transcoded''"

text \<open>Why a node is stopped, and since when.\<close>

type_synonym shed_map = "(string \<times> string \<times> int) list"

type_synonym owners = "string \<rightharpoonup> string"

definition add_owner :: "owners \<Rightarrow> string \<Rightarrow> string list \<Rightarrow> string list" where
  "add_owner owners r out =
    (let owner = (case owners r of Some x \<Rightarrow> x | None \<Rightarrow> r) in if owner \<in> set out then out else out @ [owner])"

fun node_encoder :: "node_kind \<Rightarrow> string option" where
  "node_encoder (Encode _ _ e _ _) = Some (es_id e)"
| "node_encoder _ = None"

definition node_view :: "node \<Rightarrow> shed_map \<Rightarrow> owners \<Rightarrow> plan_node_view" where
  "node_view n shed owners =
    \<lparr>pv_id = nd_id n, pv_kind = kind_slug (nd_kind n), pv_serves = fold (add_owner owners) (nd_serves n) [],
     pv_encoder = node_encoder (nd_kind n),
     pv_reason = map_option (\<lambda>r. \<lparr>pn_code = code_slug (rs_code r), pn_text = rs_text r\<rparr>) (nd_reason n),
     pv_cost = nd_cost n, pv_shed = map_option fst (map_of shed (nd_id n))\<rparr>"

definition view_of :: "plan \<Rightarrow> shed_map \<Rightarrow> owners \<Rightarrow> plan_view" where
  "view_of p shed owners =
    \<lparr>vw_nodes = map (\<lambda>n. node_view n shed owners) (pl_nodes p),
     vw_cpu_millicores = cpu_millicores (pl_total p),
     vw_devices = (\<lambda>d. if d = CPU then None
       else map_option (\<lambda>c. \<lparr>dt_millis = device_millis c, dt_sessions = device_sessions c\<rparr>) (pl_cost p d)),
     vw_egress_kbps = egress_kbps (pl_total p)\<rparr>"

text \<open>One request's rung: the shapes and outlets of what its Mux reads.\<close>

record tap =
  tp_request :: string
  tp_rung :: nat
  tp_video :: "video_shape option"
  tp_audio :: "audio_shape option"
  tp_keyframe_ms :: u32
  tp_video_tee :: "outlet option"
  tp_audio_tee :: "outlet option"

definition tap_input :: "plan \<Rightarrow> graph \<Rightarrow> string \<Rightarrow> tap \<Rightarrow> tap" where
  "tap_input p g i t =
    (case map_option nd_kind (plan_node p i) of
       Some (Encode source shape e _ _) \<Rightarrow> t\<lparr>tp_video := Some shape, tp_video_tee := graph_outlet g i\<rparr>
     | Some (AudioEncode source shape _) \<Rightarrow> t\<lparr>tp_audio := Some shape, tp_audio_tee := graph_outlet g i\<rparr>
     | _ \<Rightarrow> t)"

subsection \<open>The state (\<open>renditions.rs\<close>)\<close>

definition PROGRAMME :: string where
  "PROGRAMME = ''programme''"

record shed_note =
  sn_what :: string
  sn_why :: string

record renditions =
  rd_governor :: governor
  rd_slots :: "encoder_slot list"
  rd_audio :: "audio_codec list"
  rd_graph :: graph
  rd_source :: stream_info
  rd_outputs :: "(string \<times> rendition_request list) list"
  rd_plan :: plan
  rd_tickets :: "(string \<times> ticket) list"
  rd_shed :: shed_map
  rd_shared :: plan_view
  rd_notes :: "shed_note list"
  rd_rungs :: rungs

definition renditions_new :: "governor \<Rightarrow> encoder_slot list \<Rightarrow> audio_codec list \<Rightarrow> graphics_choice \<Rightarrow> stream_info \<Rightarrow> renditions" where
  "renditions_new g slots audio gfx source =
    \<lparr>rd_governor = g, rd_slots = slots, rd_audio = audio, rd_graph = graph_new gfx, rd_source = source, rd_outputs = [],
     rd_plan = plan_default, rd_tickets = [], rd_shed = [], rd_shared = plan_view_default, rd_notes = [],
     rd_rungs = Map.empty\<rparr>"

text \<open>A ticket taken out of the map is dropped, which gives its share back; one put over another drops it.\<close>

definition drop_option :: "ticket option \<Rightarrow> governor \<Rightarrow> governor" where
  "drop_option t' g = (case t' of Some t \<Rightarrow> ticket_drop t g | None \<Rightarrow> g)"

definition drop_all :: "(string \<times> ticket) list \<Rightarrow> governor \<Rightarrow> governor" where
  "drop_all ts g = fold (\<lambda>e. ticket_drop (snd e)) ts g"

definition tickets_remove :: "string \<Rightarrow> renditions \<Rightarrow> renditions" where
  "tickets_remove i s =
     s\<lparr>rd_governor := drop_option (map_of (rd_tickets s) i) (rd_governor s), rd_tickets := hash_del i (rd_tickets s)\<rparr>"

definition tickets_insert :: "string \<Rightarrow> ticket \<Rightarrow> renditions \<Rightarrow> renditions" where
  "tickets_insert i t s =
     s\<lparr>rd_governor := drop_option (map_of (rd_tickets s) i) (rd_governor s), rd_tickets := hash_put i t (rd_tickets s)\<rparr>"

subsection \<open>The book of it (\<open>book.rs\<close>)\<close>

definition requests_of :: "renditions \<Rightarrow> string \<Rightarrow> string list" where
  "requests_of s output = concat (map (\<lambda>(i, rs). map rq_id rs) (filter (\<lambda>e. fst e = output) (rd_outputs s)))"

definition add_held :: "plan \<Rightarrow> string \<times> ticket \<Rightarrow> (string \<times> cost) list \<Rightarrow> (string \<times> cost) list" where
  "add_held p e out =
    (case plan_node p (fst e) of
       Some n \<Rightarrow>
         if nd_device n \<noteq> CPU
         then tree_put (nd_device n)
                (cost_plus (case map_of out (nd_device n) of Some c \<Rightarrow> c | None \<Rightarrow> cost_default) (tk_cost (snd e))) out
         else out
     | None \<Rightarrow> out)"

definition renditions_held :: "renditions \<Rightarrow> (string \<times> cost) list" where
  "renditions_held s = fold (add_held (rd_plan s)) (rd_tickets s) []"

definition owners_of :: "(string \<times> rendition_request list) list \<Rightarrow> owners" where
  "owners_of outputs = map_of (rev (concat (map (\<lambda>(i, rs). map (\<lambda>r. (rq_id r, i)) rs) outputs)))"

definition note_of :: "plan \<Rightarrow> string \<times> string \<times> int \<Rightarrow> shed_note option" where
  "note_of p e = map_option (\<lambda>n. \<lparr>sn_what = describe n, sn_why = fst (snd e)\<rparr>) (plan_node p (fst e))"

definition publish :: "renditions \<Rightarrow> renditions" where
  "publish s =
     s\<lparr>rd_shared := view_of (rd_plan s) (rd_shed s) (owners_of (rd_outputs s)),
       rd_notes := List.map_filter (note_of (rd_plan s)) (rd_shed s)\<rparr>"

definition view_tap :: "plan \<Rightarrow> graph \<Rightarrow> u32 option \<Rightarrow> string \<Rightarrow> nat \<Rightarrow> tap" where
  "view_tap p g keyframe rid rung =
    (let t = \<lparr>tp_request = rid, tp_rung = rung, tp_video = None, tp_audio = None,
              tp_keyframe_ms = or_default DEFAULT_KEYFRAME_MS keyframe, tp_video_tee = None, tp_audio_tee = None\<rparr>
     in case plan_output p rid of None \<Rightarrow> t | Some mux \<Rightarrow> fold (tap_input p g) (nd_inputs mux) t)"

text \<open>The programme is the only source, so the first interval of the plan is its own.\<close>

definition taps :: "renditions \<Rightarrow> string \<Rightarrow> tap list" where
  "taps s output =
    (case List.find (\<lambda>e. fst e = output) (rd_outputs s) of
       None \<Rightarrow> []
     | Some e \<Rightarrow> map (\<lambda>(k, r). view_tap (rd_plan s) (rd_graph s) (pl_keyframe_ms (rd_plan s) PROGRAMME) (rq_id r) k)
                  (enumerate 0 (snd e)))"

subsection \<open>One change (\<open>apply.rs\<close>)\<close>

definition rungs_of :: "(string \<times> rendition_request list) list \<Rightarrow> rungs" where
  "rungs_of outputs =
     map_of (rev (concat (map (\<lambda>(out, rs). map (\<lambda>(k, r). (rq_id r, word_of_nat (min k 255))) (enumerate 0 rs)) outputs)))"

text \<open>Every new or changed node is admitted, in the order given; a refusal drops what was granted.\<close>

fun admit_all :: "plan \<Rightarrow> rungs \<Rightarrow> asked \<Rightarrow> string list \<Rightarrow> (string \<times> ticket) list \<Rightarrow> governor
    \<Rightarrow> (refusal + (string \<times> ticket) list) \<times> governor" where
  "admit_all new rungs asked [] given g = (Inr given, g)"
| "admit_all new rungs asked (i # is) given g =
    (case admit_node g (the (plan_node new i)) rungs asked of
       (Inl e, g) \<Rightarrow> (Inl e, drop_all given g)
     | (Inr None, g) \<Rightarrow> admit_all new rungs asked is given g
     | (Inr (Some t), g) \<Rightarrow> admit_all new rungs asked is (hash_put i t given) g)"

definition admit_order :: "plan_diff \<Rightarrow> string list" where
  "admit_order d = sort_key (\<lambda>i. \<not> starts_with ''encode:'' i) (df_start d @ df_restart d)"

definition stop_id :: "string \<Rightarrow> renditions \<Rightarrow> renditions" where
  "stop_id i s = (tickets_remove i (s\<lparr>rd_graph := graph_stop i (rd_graph s)\<rparr>))\<lparr>rd_shed := tree_del i (rd_shed s)\<rparr>"

definition suspend_id :: "string \<Rightarrow> renditions \<Rightarrow> renditions" where
  "suspend_id i s = (tickets_remove i (s\<lparr>rd_graph := graph_suspend i (rd_graph s)\<rparr>))\<lparr>rd_shed := tree_del i (rd_shed s)\<rparr>"

text \<open>A node that will not start is logged; its ticket is kept.\<close>

definition start_granted :: "gst_env \<Rightarrow> catalogue \<Rightarrow> plan \<Rightarrow> (string \<rightharpoonup> ticket) \<Rightarrow> node \<Rightarrow> renditions \<Rightarrow> renditions" where
  "start_granted gs cat new given n s =
    (let t' = given (nd_id n);
         s = s\<lparr>rd_graph := snd (graph_start gs cat n new (Option.bind t' tk_preset) (rd_graph s))\<rparr>
     in case t' of Some t \<Rightarrow> tickets_insert (nd_id n) t s | None \<Rightarrow> s)"

definition all_requests :: "(string \<times> rendition_request list) list \<Rightarrow> request_list" where
  "all_requests outputs = concat (map (\<lambda>(i, rs). map (\<lambda>r. (PROGRAMME, r)) rs) outputs)"

definition plan_for :: "renditions \<Rightarrow> (string \<times> rendition_request list) list \<Rightarrow> plan_error + plan" where
  "plan_for s outputs =
     make_plan [(PROGRAMME, rd_source s)] (all_requests outputs)
       (governor_cost_model (governor_model_new (rd_governor s) (rd_slots s) (rd_audio s) (renditions_held s)))"

definition asked_for :: "(string \<times> rendition_request list) list \<Rightarrow> asked" where
  "asked_for outputs = map_of (rev (map (\<lambda>(i, r). (rq_id r, r)) (all_requests outputs)))"

text \<open>From the graph of the old plan to that of the new one, with the tickets that were granted.\<close>

definition switch_to :: "gst_env \<Rightarrow> catalogue \<Rightarrow> plan \<Rightarrow> (string \<times> ticket) list \<Rightarrow> renditions \<Rightarrow> renditions" where
  "switch_to gs cat new given s =
    (let d = diff (rd_plan s) new;
         s = fold stop_id (df_stop d) s;
         s = fold suspend_id (df_restart d) s
     in fold (start_granted gs cat new (map_of given))
          (filter (\<lambda>n. nd_id n \<in> set (df_start d) \<or> nd_id n \<in> set (df_restart d)) (pl_nodes new)) s)"

definition apply_outputs :: "gst_env \<Rightarrow> catalogue \<Rightarrow> (string \<times> rendition_request list) list \<Rightarrow> renditions
    \<Rightarrow> (refusal + unit) \<times> renditions" where
  "apply_outputs gs cat outputs s =
    (case plan_for s outputs of
       Inl e \<Rightarrow> (Inl (refusal_plan e), s)
     | Inr new \<Rightarrow>
        (case admit_all new (rungs_of outputs) (asked_for outputs) (admit_order (diff (rd_plan s) new)) [] (rd_governor s) of
           (Inl e, g) \<Rightarrow> (Inl e, s\<lparr>rd_governor := g\<rparr>)
         | (Inr given, g) \<Rightarrow>
             (Inr (), publish ((switch_to gs cat new given (s\<lparr>rd_governor := g\<rparr>))
                \<lparr>rd_outputs := outputs, rd_rungs := rungs_of outputs, rd_plan := new\<rparr>))))"

definition without_output :: "string \<Rightarrow> renditions \<Rightarrow> (string \<times> rendition_request list) list" where
  "without_output output s = filter (\<lambda>e. fst e \<noteq> output) (rd_outputs s)"

definition add_output :: "gst_env \<Rightarrow> catalogue \<Rightarrow> string \<Rightarrow> rendition_choice \<Rightarrow> renditions
    \<Rightarrow> (refusal + tap list option) \<times> renditions" where
  "add_output gs cat output choice s =
    (case expand output choice of
       Inl message \<Rightarrow> (Inl (refusal_bad_choice message), s)
     | Inr None \<Rightarrow> (Inr None, s)
     | Inr (Some requests) \<Rightarrow>
        (case apply_outputs gs cat (without_output output s @ [(output, requests)]) s of
           (Inl e, s) \<Rightarrow> (Inl e, s)
         | (Inr u, s) \<Rightarrow> (Inr (Some (taps s output)), s)))"

definition has_output :: "renditions \<Rightarrow> string \<Rightarrow> bool" where
  "has_output s output \<longleftrightarrow> output \<in> fst ` set (rd_outputs s)"

definition remove_output :: "gst_env \<Rightarrow> catalogue \<Rightarrow> string \<Rightarrow> renditions \<Rightarrow> renditions" where
  "remove_output gs cat output s =
     (if \<not> has_output s output then s else snd (apply_outputs gs cat (without_output output s) s))"

definition renditions_shutdown :: "renditions \<Rightarrow> renditions" where
  "renditions_shutdown s =
     s\<lparr>rd_graph := graph_stop_all (rd_graph s), rd_governor := drop_all (rd_tickets s) (rd_governor s), rd_tickets := []\<rparr>"

subsection \<open>A watchdog tick (\<open>shed.rs\<close>)\<close>

definition RESTORE_AFTER :: int where
  "RESTORE_AFTER = 10 * 1000000000"

definition node_holding :: "renditions \<Rightarrow> u64 \<Rightarrow> string option" where
  "node_holding s i = map_option fst (List.find (\<lambda>e. tk_id (snd e) = i) (rd_tickets s))"

text \<open>Only what is to be dropped is acted on.\<close>

definition shed_one :: "int \<Rightarrow> shed_step \<Rightarrow> renditions \<times> shed_note list \<Rightarrow> renditions \<times> shed_note list" where
  "shed_one now st sn =
    (case (sn, node_holding (fst sn) (ss_ticket st), ss_action st) of
       ((s, notes), Some i, DropWork) \<Rightarrow>
         (let s = tickets_remove i (s\<lparr>rd_graph := graph_suspend i (rd_graph s)\<rparr>)
          in (s\<lparr>rd_shed := tree_put i (ss_why st, now) (rd_shed s)\<rparr>,
              notes @ [\<lparr>sn_what = ss_what st, sn_why = ss_why st\<rparr>]))
     | _ \<Rightarrow> sn)"

text \<open>Admit and restart one node that has been down long enough.\<close>

definition restore_one :: "gst_env \<Rightarrow> catalogue \<Rightarrow> string \<Rightarrow> renditions \<times> string list \<Rightarrow> renditions \<times> string list" where
  "restore_one gs cat i sb =
    (case sb of (s, back) \<Rightarrow>
      (case plan_node (rd_plan s) i of
         None \<Rightarrow> (s\<lparr>rd_shed := tree_del i (rd_shed s)\<rparr>, back)
       | Some n \<Rightarrow>
          (case admit_node (rd_governor s) n (rd_rungs s) Map.empty of
             (Inl e, g) \<Rightarrow> (s\<lparr>rd_governor := g\<rparr>, back)
           | (Inr t', g) \<Rightarrow>
              (case graph_resume gs cat n (rd_plan s) (Option.bind t' tk_preset) (rd_graph s) of
                 (Inl e, gr) \<Rightarrow> (s\<lparr>rd_governor := drop_option t' g, rd_graph := gr\<rparr>, back)
               | (Inr u, gr) \<Rightarrow>
                  (let s = s\<lparr>rd_governor := g, rd_graph := gr\<rparr>;
                       s = (case t' of Some t \<Rightarrow> tickets_insert i t s | None \<Rightarrow> s)
                   in (s\<lparr>rd_shed := tree_del i (rd_shed s)\<rparr>, back @ [describe n]))))))"

definition restore_due :: "gst_env \<Rightarrow> catalogue \<Rightarrow> int \<Rightarrow> renditions \<Rightarrow> renditions \<times> string list" where
  "restore_due gs cat now s =
     fold (restore_one gs cat) (keys_of (filter (\<lambda>e. RESTORE_AFTER \<le> now - snd (snd e)) (rd_shed s))) (s, [])"

record tick =
  ti_shed :: "shed_note list"
  ti_restored :: "string list"

definition renditions_tick :: "gst_env \<Rightarrow> catalogue \<Rightarrow> int \<Rightarrow> renditions \<Rightarrow> tick \<times> renditions" where
  "renditions_tick gs cat now s =
    (let steps = governor_shed (rd_governor s);
         (s, notes) = fold (shed_one now) steps (s, []);
         (s, back) = (if steps = [] then restore_due gs cat now s else (s, []));
         s = (if notes \<noteq> [] \<or> back \<noteq> [] then publish s else s)
     in (\<lparr>ti_shed = notes, ti_restored = back\<rparr>, s))"

definition shed_reason :: "renditions \<Rightarrow> string \<Rightarrow> string option" where
  "shed_reason s output =
     find_map (\<lambda>(i, why, since).
       Option.bind (plan_node (rd_plan s) i) (\<lambda>n. if \<exists>r \<in> set (nd_serves n). r \<in> set (requests_of s output) then Some why else None))
       (rd_shed s)"

end
