(* ===== verification/Ledger.thy ===== *)
theory Ledger
  imports Renditions Governor_Run "HOL-Library.Multiset"
begin

text \<open>
  The engine's tickets against the governor's book. What the engine needs of a governor to keep account
  of what it holds is an interface, \<open>ledger\<close>: a relation between the tickets in hand and the governor
  that every answer to an admission and every dropped ticket keeps. Whatever satisfies it is kept by
  every operation of the renditions, whichever way they end.
\<close>

subsection \<open>Asking once\<close>

lemma ask_governor_cases:
  assumes "ask_governor g n rungs = Some (a, g')"
  obtains (claimed) c where "admit_claim g c = (a, g')"
  | (encoded) slot shape what k where "admit_encode g slot shape what k = (a, g')"
  using assms by (auto simp: ask_governor_def split: node_kind.split_asm if_split_asm)

text \<open>An encode is always asked for; a ticket or a refusal comes from the governor's own answer.\<close>

lemma admit_node_cases:
  assumes "admit_node g n rungs asked = (r, g')"
  obtains (free) "r = Inr None" "g' = g" "\<not> is_encode (nd_kind n)"
  | (grant) t where "r = Inr (Some t)" "ask_governor g n rungs = Some (Granted t, g')"
  | (refuse) e need room adv where "r = Inl e" "ask_governor g n rungs = Some (Refused need room adv, g')"
proof (cases "ask_governor g n rungs")
  case None
  moreover have "\<not> is_encode (nd_kind n)"
  proof
    assume "is_encode (nd_kind n)"
    then obtain source shape e pre bf where "nd_kind n = Encode source shape e pre bf" by (cases "nd_kind n") auto
    with None show False by (simp add: ask_governor_def)
  qed
  ultimately show thesis using assms free by (simp add: admit_node_def)
next
  case (Some x)
  obtain a h where x: "x = (a, h)" by (cases x)
  show thesis
  proof (cases a)
    case (Granted t)
    with assms Some x have "r = Inr (Some t)" "h = g'" by (auto simp: admit_node_def)
    with Some x Granted grant show thesis by blast
  next
    case (Refused need room adv)
    with assms Some x have "g' = h" "\<exists>e. r = Inl e" by (auto simp: admit_node_def)
    with Some x Refused refuse show thesis by blast
  qed
qed

lemma ask_governor_step:
  assumes "ask_governor g n rungs = Some (a, g')" "bk_next (gv_book g) \<noteq> - 1"
  shows "gstep g g'"
  using assms(1)
proof (cases rule: ask_governor_cases)
  case (claimed c)
  with assms(2) show ?thesis by (rule gstep.admit)
next
  case (encoded slot shape what k)
  with assms(2) show ?thesis by (rule gstep.encode)
qed

text \<open>How many numbers the governor has left to give.\<close>

definition numbers_left :: "nat \<Rightarrow> governor \<Rightarrow> bool" where
  "numbers_left k g \<longleftrightarrow> unat (bk_next (gv_book g)) + k < 2 ^ 64"

lemma numbers_left_mono: "numbers_left k g \<Longrightarrow> j \<le> k \<Longrightarrow> numbers_left j g"
  by (simp add: numbers_left_def)

lemma numbers_left_Suc: "numbers_left (Suc k) g \<Longrightarrow> bk_next (gv_book g) \<noteq> - 1"
  by (auto simp: numbers_left_def unsigned_minus_1_eq_mask mask_eq_exp_minus_1)

lemma admit_claim_left:
  assumes "admit_claim g c = (a, g')" "numbers_left (Suc k) g"
  shows "numbers_left k g'"
  using assms(1)
proof (cases rule: admit_claim_cases)
  case (asked r ans)
  with assms(2) show ?thesis by (simp add: numbers_left_def)
next
  case own
  then show ?thesis
  proof (cases rule: admit_local_cases)
    case (grant t)
    have "unat (bk_next (gv_book g) + 1) = unat (bk_next (gv_book g)) + 1"
      using assms(2) unat_add_no_wrap [of "bk_next (gv_book g)" 1] by (simp add: numbers_left_def)
    with grant assms(2) show ?thesis by (simp add: numbers_left_def book_insert_def)
  qed (use assms(2) in \<open>simp add: numbers_left_def\<close>)
qed

lemma ask_governor_left:
  assumes "ask_governor g n rungs = Some (a, g')" "numbers_left (Suc k) g"
  shows "numbers_left k g'"
  using assms(1)
proof (cases rule: ask_governor_cases)
  case (encoded slot shape what k)
  with assms(2) show ?thesis by (auto simp: admit_encode_def intro: admit_claim_left)
qed (use assms(2) in \<open>auto intro: admit_claim_left\<close>)

lemma admit_node_left:
  assumes "admit_node g n rungs asked = (r, g')" "numbers_left (Suc k) g"
  shows "numbers_left k g'"
  using assms(1)
proof (cases rule: admit_node_cases)
  case free
  with assms(2) show ?thesis by (simp add: numbers_left_def)
qed (use assms(2) in \<open>auto intro: ask_governor_left\<close>)

lemma numbers_left_drop [simp]: "numbers_left k (ticket_drop t g) = numbers_left k g"
  by (simp add: numbers_left_def ticket_drop_def release_def release_remote_def book_remove_def)

lemma numbers_left_drop_option [simp]: "numbers_left k (drop_option t' g) = numbers_left k g"
  by (simp add: drop_option_def split: option.split)

lemma numbers_left_drop_all [simp]: "numbers_left k (drop_all ts g) = numbers_left k g"
  by (induction ts arbitrary: g) (simp_all add: drop_all_def)

subsection \<open>What a change asks for\<close>

lemma admit_all_keys:
  assumes "admit_all new rungs asked is given g = (Inr gr, g')"
  shows "set (keys_of given) \<subseteq> set (keys_of gr) \<and> set (keys_of gr) \<subseteq> set is \<union> set (keys_of given) \<and>
    (hash_ok given \<longrightarrow> hash_ok gr) \<and> (\<forall>i \<in> set is. is_encode (nd_kind (the (plan_node new i))) \<longrightarrow> i \<in> set (keys_of gr))"
  using assms
proof (induction "is" arbitrary: given g)
  case (Cons i "is")
  obtain r h where a: "admit_node g (the (plan_node new i)) rungs asked = (r, h)" by fastforce
  from a show ?case
  proof (cases rule: admit_node_cases)
    case free
    with a Cons.prems have "admit_all new rungs asked is given g = (Inr gr, g')" by simp
    from Cons.IH [OF this] free(3) show ?thesis by auto
  next
    case (grant t)
    with a Cons.prems have "admit_all new rungs asked is (hash_put i t given) h = (Inr gr, g')" by simp
    from Cons.IH [OF this] show ?thesis by (auto simp: keys_hash_put hash_ok_put)
  next
    case (refuse e need room adv)
    with a Cons.prems show ?thesis by simp
  qed
qed simp

lemma admit_all_left:
  assumes "admit_all new rungs asked is given g = (r, g')" "numbers_left (length is + k) g"
  shows "numbers_left k g'"
  using assms
proof (induction "is" arbitrary: given g)
  case (Cons i "is")
  obtain x h where a: "admit_node g (the (plan_node new i)) rungs asked = (x, h)" by fastforce
  from a Cons.prems(2) have left: "numbers_left (length is + k) h" by (auto intro: admit_node_left)
  from left have k: "numbers_left k h" by (rule numbers_left_mono) simp
  show ?case
  proof (cases x)
    case (Inl e)
    with a Cons.prems(1) k show ?thesis by auto
  next
    case (Inr t')
    with a Cons.prems(1) Cons.IH [OF _ left] show ?thesis by (cases t') auto
  qed
qed simp

subsection \<open>The interface\<close>

lemma mset_hash_del: "hash_ok xs \<Longrightarrow> map_of xs i = Some t \<Longrightarrow> mset (map snd xs) = add_mset t (mset (map snd (hash_del i xs)))"
proof (induction xs)
  case (Cons e xs)
  show ?case
  proof (cases "fst e = i")
    case True
    with Cons.prems have "i \<notin> set (keys_of xs)" "snd e = t" by (auto simp: hash_ok_def)
    then have "hash_del i xs = xs" by (auto simp: hash_del_def filter_id_conv set_keys_of)
    with True \<open>snd e = t\<close> show ?thesis by (simp add: hash_del_def)
  next
    case False
    with Cons.prems have "map_of xs i = Some t" "hash_ok xs" by (auto simp: hash_ok_def)
    with Cons.IH False show ?thesis by (simp add: hash_del_def)
  qed
qed simp

lemma hash_del_fresh: "i \<notin> set (keys_of xs) \<Longrightarrow> hash_del i xs = xs"
  by (auto simp: hash_del_def filter_id_conv set_keys_of)

locale ledger =
  fixes owns :: "ticket list \<Rightarrow> governor \<Rightarrow> bool"
  assumes owns_perm: "mset ts = mset us \<Longrightarrow> owns ts g \<Longrightarrow> owns us g"
    and owns_drop: "owns (t # ts) g \<Longrightarrow> owns ts (ticket_drop t g)"
    and owns_grant: "owns ts g \<Longrightarrow> numbers_left 1 g \<Longrightarrow> ask_governor g n rungs = Some (Granted t, g') \<Longrightarrow> owns (t # ts) g'"
    and owns_refuse: "owns ts g \<Longrightarrow> numbers_left 1 g \<Longrightarrow> ask_governor g n rungs = Some (Refused need room adv, g') \<Longrightarrow>
      owns ts g'"
begin

lemma drop_all_owns: "owns (map snd gr @ ts) g \<Longrightarrow> owns ts (drop_all gr g)"
  by (induction gr arbitrary: g) (simp_all add: drop_all_def owns_drop)

lemma admit_all_owns:
  assumes "admit_all new rungs asked is given g = (r, g')" "owns (map snd given @ ts) g" "numbers_left (length is) g"
    "distinct is" "set is \<inter> set (keys_of given) = {}"
  shows "case r of Inl e \<Rightarrow> owns ts g' | Inr gr \<Rightarrow> owns (map snd gr @ ts) g'"
  using assms
proof (induction "is" arbitrary: given g)
  case (Cons i "is")
  obtain x h where a: "admit_node g (the (plan_node new i)) rungs asked = (x, h)" by fastforce
  from a Cons.prems(3) have left: "numbers_left (length is) h" by (auto intro: admit_node_left)
  from Cons.prems(3) have one: "numbers_left 1 g" by (rule numbers_left_mono) simp
  from a show ?case
  proof (cases rule: admit_node_cases)
    case free
    with a Cons.prems Cons.IH [OF _ _ left] show ?thesis by simp
  next
    case (grant t)
    have "i \<notin> set (keys_of given)" using Cons.prems(5) by simp
    then have "hash_put i t given = given @ [(i, t)]" by (simp add: hash_put_def hash_del_fresh)
    then have "mset (t # map snd given @ ts) = mset (map snd (hash_put i t given) @ ts)" by simp
    then have "owns (map snd (hash_put i t given) @ ts) h"
      using owns_grant [OF Cons.prems(2) one grant(2)] by (rule owns_perm)
    moreover have "set is \<inter> set (keys_of (hash_put i t given)) = {}" using Cons.prems(4,5) by (auto simp: keys_hash_put)
    ultimately show ?thesis using a grant Cons.prems Cons.IH [OF _ _ left] by simp
  next
    case (refuse e need room adv)
    from owns_refuse [OF Cons.prems(2) one refuse(2)] have "owns ts (drop_all given h)" by (rule drop_all_owns)
    with a refuse Cons.prems(1) show ?thesis by auto
  qed
qed auto

lemma tickets_remove_owns:
  assumes "hash_ok (rd_tickets s)" "owns (map snd (rd_tickets s) @ us) (rd_governor s)"
  shows "owns (map snd (rd_tickets (tickets_remove i s)) @ us) (rd_governor (tickets_remove i s))"
proof (cases "map_of (rd_tickets s) i")
  case None
  then have "hash_del i (rd_tickets s) = rd_tickets s" using map_of_keys [of "rd_tickets s" i] by (simp add: hash_del_fresh)
  with None assms(2) show ?thesis by (simp add: tickets_remove_def drop_option_def)
next
  case (Some t)
  have "mset (map snd (rd_tickets s) @ us) = mset (t # map snd (hash_del i (rd_tickets s)) @ us)"
    using mset_hash_del [OF assms(1) Some] by simp
  from owns_perm [OF this assms(2)] Some show ?thesis by (simp add: tickets_remove_def drop_option_def owns_drop)
qed

lemma tickets_insert_owns:
  assumes "hash_ok (rd_tickets s)" "owns (t # map snd (rd_tickets s) @ us) (rd_governor s)"
  shows "owns (map snd (rd_tickets (tickets_insert i t s)) @ us) (rd_governor (tickets_insert i t s))"
proof -
  have "owns (map snd (rd_tickets s) @ t # us) (rd_governor s)" using assms(2) by (rule owns_perm [rotated]) simp
  from tickets_remove_owns [OF assms(1) this]
  have "owns (map snd (hash_del i (rd_tickets s)) @ t # us) (rd_governor (tickets_insert i t s))"
    by (simp add: tickets_remove_def tickets_insert_def)
  then show ?thesis by (simp add: tickets_insert_def hash_put_def)
qed

end

end
