(* ===== verification/Graph_Run.thy ===== *)
theory Graph_Run
  imports Render_Graph Plans Maps
begin

text \<open>
  What the operations of the running graph do to it (\<open>Render_Graph\<close>): a node's outlet stays the same
  for as long as the node is there, so what hangs off it stays hung; a body is only ever put where the
  node's first input has its outlet.
\<close>

definition graph_ids :: "graph \<Rightarrow> string set" where
  "graph_ids g = dom (graph_get g)"

definition body_at :: "graph \<Rightarrow> string \<Rightarrow> live option" where
  "body_at g i = Option.bind (graph_get g i) rn_body"

definition no_body :: "running_node \<Rightarrow> running_node" where
  "no_body r = r\<lparr>rn_body := None\<rparr>"

lemma no_body_sel [simp]: "rn_outlet (no_body r) = rn_outlet r" "rn_owned (no_body r) = rn_owned r" "rn_body (no_body r) = None"
  by (simp_all add: no_body_def)

lemma no_body_twice [simp]: "no_body (no_body r) = no_body r"
  by (simp add: no_body_def)

lemma graph_get_put [simp]: "graph_get (graph_put i r g) = (graph_get g)(i \<mapsto> r)"
  by (simp add: graph_get_def graph_put_def map_of_hash_put fun_eq_iff)

lemma graph_put_gfx [simp]: "gr_gfx (graph_put i r g) = gr_gfx g"
  by (simp add: graph_put_def)

lemma graph_get_suspend: "graph_get (graph_suspend i g) j = (if j = i then map_option no_body (graph_get g i) else graph_get g j)"
  by (simp add: graph_suspend_def no_body_def split: option.split)

lemma graph_get_stop: "graph_get (graph_stop i g) = (graph_get g)(i := None)"
proof -
  have "graph_get (g\<lparr>gr_nodes := hash_del i (gr_nodes g)\<rparr>) = (graph_get g)(i := None)" for g
    by (simp add: graph_get_def map_of_hash_del fun_eq_iff)
  then show ?thesis by (auto simp: graph_stop_def Let_def graph_get_suspend fun_eq_iff)
qed

lemma graph_gfx [simp]: "gr_gfx (graph_suspend i g) = gr_gfx g" "gr_gfx (graph_stop i g) = gr_gfx g"
  by (simp_all add: graph_stop_def graph_suspend_def Let_def split: option.split)

lemma fold_graph_suspend:
  "graph_get (fold graph_suspend is g) j = (if j \<in> set is then map_option no_body (graph_get g j) else graph_get g j)"
  by (induction "is" arbitrary: g) (auto simp: graph_get_suspend option.map_comp comp_def)

lemma fold_graph_stop: "graph_get (fold graph_stop is g) j = (if j \<in> set is then None else graph_get g j)"
  by (induction "is" arbitrary: g) (auto simp: graph_get_stop)

lemma fold_graph_gfx [simp]: "gr_gfx (fold graph_suspend is g) = gr_gfx g" "gr_gfx (fold graph_stop is g) = gr_gfx g"
  by (induction "is" arbitrary: g) simp_all

lemma graph_stop_all_empty: "graph_get (graph_stop_all g) = Map.empty"
  by (auto simp: graph_stop_all_def fold_graph_stop fun_eq_iff) (simp add: graph_get_def map_of_eq_None_iff set_keys_of)

subsection \<open>Outlets stay\<close>

definition outlets_grow :: "graph \<Rightarrow> graph \<Rightarrow> bool" where
  "outlets_grow g g' \<longleftrightarrow> (\<forall>i t. graph_outlet g i = Some t \<longrightarrow> graph_outlet g' i = Some t)"

lemma outlets_grow_refl: "outlets_grow g g"
  by (simp add: outlets_grow_def)

lemma outlets_grow_trans: "outlets_grow g g' \<Longrightarrow> outlets_grow g' g'' \<Longrightarrow> outlets_grow g g''"
  by (simp add: outlets_grow_def)

lemma outlets_grow_fresh: "graph_get g i = None \<Longrightarrow> outlets_grow g (graph_put i r g)"
  by (auto simp: outlets_grow_def graph_outlet_def)

lemma outlets_grow_same: "graph_get g i = Some r \<Longrightarrow> rn_outlet r' = rn_outlet r \<Longrightarrow> outlets_grow g (graph_put i r' g)"
  by (auto simp: outlets_grow_def graph_outlet_def)

lemma upstream_Inr:
  "node_upstream g n = Inr u \<longleftrightarrow>
    (if is_source (nd_kind n) then u = ProgrammeVideo
     else (case nd_inputs n of [] \<Rightarrow> False
       | i # _ \<Rightarrow> if starts_with ''source:'' i \<and> is_audio (nd_kind n) then u = ProgrammeAudio
                 else graph_outlet g i = Some u))"
  by (auto simp: node_upstream_def split: list.split option.split)

lemma upstream_kept:
  assumes "node_upstream g n = Inr u" "\<And>i t. i \<in> set (nd_inputs n) \<Longrightarrow> graph_outlet g i = Some t \<Longrightarrow> graph_outlet g' i = Some t"
  shows "node_upstream g' n = Inr u"
  using assms unfolding upstream_Inr by (auto split: list.split_asm if_split_asm list.split)

lemma upstream_grow: "outlets_grow g g' \<Longrightarrow> node_upstream g n = Inr u \<Longrightarrow> node_upstream g' n = Inr u"
  using upstream_kept [of g n u g'] by (simp add: outlets_grow_def)

subsection \<open>Starting and resuming\<close>

lemma graph_resume_cases:
  assumes "graph_resume gs cat n p preset g = (e, g')"
  obtains (same) "g' = g"
  | (built) r l b where "graph_get g (nd_id n) = Some r" "rn_body r = None" "rn_owned r" "node_upstream g n = Inr (lv_upstream l)"
      "node_body gs cat (gr_gfx g) (nd_kind n) (node_name (nd_id n)) preset = Inr (Some b)" "lv_elements l = bo_elements b"
      "g' = graph_put (nd_id n) (r\<lparr>rn_body := Some l\<rparr>) g" "e = Inr ()"
proof (cases "g' = g")
  case False
  with assms obtain r b l up where l:
    "graph_get g (nd_id n) = Some r" "rn_body r = None" "rn_owned r"
    "node_body gs cat (gr_gfx g) (nd_kind n) (node_name (nd_id n)) preset = Inr (Some b)"
    "node_upstream g n = Inr up" "wire_up gs b up n p = Inr l" "g' = graph_put (nd_id n) (r\<lparr>rn_body := Some l\<rparr>) g" "e = Inr ()"
    by (auto simp: graph_resume_def split: option.splits if_split_asm sum.splits)
  from l(6) have "lv_upstream l = up" "lv_elements l = bo_elements b" by (auto simp: wire_up_def split: if_split_asm)
  with l built show thesis by blast
qed (use same in blast)

text \<open>What a start or a resume of \<open>n\<close> may do to a graph.\<close>

definition touched :: "node \<Rightarrow> graph \<Rightarrow> graph \<Rightarrow> bool" where
  "touched n g g' \<longleftrightarrow> outlets_grow g g' \<and> gr_gfx g' = gr_gfx g \<and> (\<forall>j. j \<noteq> nd_id n \<longrightarrow> graph_get g' j = graph_get g j) \<and>
     (\<forall>l. body_at g' (nd_id n) = Some l \<longrightarrow> body_at g (nd_id n) = Some l \<or> node_upstream g' n = Inr (lv_upstream l))"

lemma touched_refl: "touched n g g"
  by (simp add: touched_def outlets_grow_refl)

lemma touched_resume:
  assumes "graph_resume gs cat n p preset g = (e, g')"
  shows "touched n g g' \<and> graph_ids g' = graph_ids g"
  using assms
proof (cases rule: graph_resume_cases)
  case same
  then show ?thesis by (simp add: touched_refl)
next
  case (built r l b)
  have "outlets_grow g g'" using built(1,7) by (simp add: outlets_grow_same)
  moreover from this have "node_upstream g' n = Inr (lv_upstream l)" using built(4) by (rule upstream_grow)
  ultimately show ?thesis using built by (auto simp: touched_def body_at_def graph_ids_def)
qed

lemma touched_put:
  assumes "graph_get g (nd_id n) = None" "rn_body r = None"
  shows "touched n g (graph_put (nd_id n) r g)"
  using assms by (simp add: touched_def outlets_grow_fresh body_at_def)

lemma touched_trans:
  assumes "touched n g g'" "touched n g' g''"
  shows "touched n g g''"
proof -
  have grow: "outlets_grow g' g''" using assms(2) by (simp add: touched_def)
  have earlier: "body_at g' (nd_id n) = Some l \<or> node_upstream g'' n = Inr (lv_upstream l)" if "body_at g'' (nd_id n) = Some l" for l
    using assms(2) that by (simp add: touched_def)
  have "body_at g (nd_id n) = Some l \<or> node_upstream g'' n = Inr (lv_upstream l)" if "body_at g'' (nd_id n) = Some l" for l
    using earlier [OF that] assms(1) upstream_grow [OF grow] unfolding touched_def by blast
  moreover have "outlets_grow g g''" using assms(1) grow outlets_grow_trans by (auto simp: touched_def)
  moreover have "gr_gfx g'' = gr_gfx g" "\<forall>j. j \<noteq> nd_id n \<longrightarrow> graph_get g'' j = graph_get g j"
    using assms by (simp_all add: touched_def)
  ultimately show ?thesis by (simp add: touched_def)
qed

lemma touched_start:
  assumes "graph_start gs cat n p preset g = (e, g')"
  shows "touched n g g' \<and> graph_ids g' \<subseteq> insert (nd_id n) (graph_ids g)"
proof (cases "graph_get g (nd_id n)")
  case (Some r)
  with assms have "graph_resume gs cat n p preset g = (e, g')" by (simp add: graph_start_def)
  then show ?thesis using touched_resume by blast
next
  case None
  define put where "put r = graph_put (nd_id n) r g" for r
  define tee where "tee = \<lparr>rn_outlet = Tee (node_name (nd_id n) @ ''-tee''), rn_owned = True, rn_body = None\<rparr>"
  have put: "touched n g (put r) \<and> graph_ids (put r) = insert (nd_id n) (graph_ids g)" if "rn_body r = None" for r
    using touched_put [OF None that] by (simp add: put_def graph_ids_def)
  define prog where "prog = \<lparr>rn_outlet = ProgrammeVideo, rn_owned = False, rn_body = None\<rparr>"
  have "g' = g \<or> g' = put prog \<or> graph_resume gs cat n p preset (put tee) = (e, g')"
    using assms None unfolding graph_start_def put_def tee_def prog_def by (auto split: if_split_asm)
  then consider "g' = g" | "g' = put prog" | "graph_resume gs cat n p preset (put tee) = (e, g')" by blast
  then show ?thesis
  proof cases
    case 3
    from touched_resume [OF this] put [of tee] show ?thesis by (auto simp: tee_def intro: touched_trans)
  qed (use put [of prog] in \<open>auto simp: touched_refl prog_def\<close>)
qed

text \<open>Starting one node after another.\<close>

definition start_in :: "gst_env \<Rightarrow> catalogue \<Rightarrow> plan \<Rightarrow> (string \<Rightarrow> string option) \<Rightarrow> node \<Rightarrow> graph \<Rightarrow> graph" where
  "start_in gs cat p presets n g = snd (graph_start gs cat n p (presets (nd_id n)) g)"

lemma touched_start_in: "touched n g (start_in gs cat p presets n g) \<and> graph_ids (start_in gs cat p presets n g) \<subseteq> insert (nd_id n) (graph_ids g)"
  unfolding start_in_def by (rule touched_start) (rule prod.collapse [symmetric])

lemma fold_start_in:
  assumes "distinct (map nd_id ns)"
  shows "outlets_grow g (fold (start_in gs cat p presets) ns g) \<and> gr_gfx (fold (start_in gs cat p presets) ns g) = gr_gfx g \<and>
    graph_ids (fold (start_in gs cat p presets) ns g) \<subseteq> graph_ids g \<union> nd_id ` set ns \<and>
    (\<forall>j. j \<notin> nd_id ` set ns \<longrightarrow> graph_get (fold (start_in gs cat p presets) ns g) j = graph_get g j) \<and>
    (\<forall>n \<in> set ns. \<forall>l. body_at (fold (start_in gs cat p presets) ns g) (nd_id n) = Some l \<longrightarrow>
       body_at g (nd_id n) = Some l \<or> node_upstream (fold (start_in gs cat p presets) ns g) n = Inr (lv_upstream l))"
  using assms
proof (induction ns arbitrary: g)
  case Nil
  show ?case by (simp add: outlets_grow_refl)
next
  case (Cons n ns)
  define g1 where "g1 = start_in gs cat p presets n g"
  define g2 where "g2 = fold (start_in gs cat p presets) ns g1"
  have t: "touched n g g1" "graph_ids g1 \<subseteq> insert (nd_id n) (graph_ids g)" using touched_start_in by (simp_all add: g1_def)
  have i: "outlets_grow g1 g2" "gr_gfx g2 = gr_gfx g1" "graph_ids g2 \<subseteq> graph_ids g1 \<union> nd_id ` set ns"
    "\<And>j. j \<notin> nd_id ` set ns \<Longrightarrow> graph_get g2 j = graph_get g1 j"
    "\<And>m l. m \<in> set ns \<Longrightarrow> body_at g2 (nd_id m) = Some l \<Longrightarrow> body_at g1 (nd_id m) = Some l \<or> node_upstream g2 m = Inr (lv_upstream l)"
    using Cons.IH [of g1] Cons.prems unfolding g2_def by simp_all
  have new: "nd_id n \<notin> nd_id ` set ns" using Cons.prems by simp
  have "body_at g (nd_id m) = Some l \<or> node_upstream g2 m = Inr (lv_upstream l)"
    if "m \<in> set (n # ns)" "body_at g2 (nd_id m) = Some l" for m l
  proof (cases "m = n")
    case True
    then have "body_at g1 (nd_id n) = Some l" using that(2) i(4) [OF new] by (simp add: body_at_def)
    then show ?thesis using t(1) upstream_grow [OF i(1)] unfolding True touched_def by blast
  next
    case False
    then have m: "m \<in> set ns" using that(1) by simp
    then have "nd_id m \<noteq> nd_id n" using new by (metis image_eqI)
    then have "graph_get g1 (nd_id m) = graph_get g (nd_id m)" using t(1) by (simp add: touched_def)
    then show ?thesis using i(5) [OF m that(2)] by (simp add: body_at_def)
  qed
  moreover have "outlets_grow g g2" using t(1) i(1) outlets_grow_trans by (auto simp: touched_def)
  moreover have "graph_get g2 j = graph_get g j" if "j \<notin> nd_id ` set (n # ns)" for j
    using that i(4) [of j] t(1) by (simp add: touched_def)
  moreover have "gr_gfx g2 = gr_gfx g" using i(2) t(1) by (simp add: touched_def)
  moreover have "graph_ids g2 \<subseteq> graph_ids g \<union> nd_id ` set (n # ns)" using i(3) t(2) by auto
  moreover have "fold (start_in gs cat p presets) (n # ns) g = g2" by (simp add: g2_def g1_def)
  ultimately show ?case by auto
qed

subsection \<open>Every body hangs where the plan says\<close>

definition wired :: "plan \<Rightarrow> graph \<Rightarrow> bool" where
  "wired p g \<longleftrightarrow> (\<forall>n \<in> set (pl_nodes p). \<forall>l. body_at g (nd_id n) = Some l \<longrightarrow> node_upstream g n = Inr (lv_upstream l))"

lemma wired_touched:
  assumes "wired p g" "touched n g g'" "distinct (map nd_id (pl_nodes p))" "n \<in> set (pl_nodes p)"
  shows "wired p g'"
  unfolding wired_def
proof (intro ballI allI impI)
  fix m l assume m: "m \<in> set (pl_nodes p)" "body_at g' (nd_id m) = Some l"
  have up: "node_upstream g' m = Inr (lv_upstream l)" if "body_at g (nd_id m) = Some l"
    using that assms(1,2) m(1) upstream_grow by (auto simp: wired_def touched_def)
  show "node_upstream g' m = Inr (lv_upstream l)"
  proof (cases "nd_id m = nd_id n")
    case True
    then have "m = n" using assms(3,4) m(1) by (metis distinct_map inj_onD)
    then show ?thesis using up assms(2) m(2) by (auto simp: touched_def)
  next
    case False
    then show ?thesis using up assms(2) m(2) by (simp add: touched_def body_at_def)
  qed
qed

lemma wired_suspend:
  assumes "wired p g"
  shows "wired p (graph_suspend i g)"
proof -
  have o: "graph_outlet (graph_suspend i g) j = graph_outlet g j" for j
    by (simp add: graph_outlet_def graph_get_suspend option.map_comp comp_def)
  have "body_at g j = Some l" if "body_at (graph_suspend i g) j = Some l" for j l
    using that by (auto simp: body_at_def graph_get_suspend bind_eq_Some_conv split: if_split_asm)
  with assms show ?thesis unfolding wired_def using upstream_kept [of g _ _ "graph_suspend i g"] by (metis o)
qed

lemma wired_empty: "graph_get g = Map.empty \<Longrightarrow> wired p g"
  by (simp add: wired_def body_at_def)

end
