(* ===== verification/Renditions_Run.thy ===== *)
theory Renditions_Run
  imports Ledger Graph_Run
begin

text \<open>
  The renditions as a machine: the steps they take, that every step keeps the account of tickets
  (the lemmas of \<open>ledger\<close>), and the facts about one change that the invariants rest on.
\<close>

subsection \<open>One change\<close>

lemma diff_ids:
  assumes "distinct (map nd_id (pl_nodes new))"
  shows "distinct (df_start (diff old new) @ df_restart (diff old new))"
    "length (df_start (diff old new) @ df_restart (diff old new)) \<le> length (pl_nodes new)"
    "set (df_start (diff old new)) \<union> set (df_restart (diff old new)) \<subseteq> nd_id ` set (pl_nodes new)"
proof -
  let ?ns = "pl_nodes new"
  have apart: "\<not> changed old n" if "absent old n" for n using that by (simp add: absent_def changed_def)
  have "nd_id n \<noteq> nd_id m" if "n \<in> set ?ns" "m \<in> set ?ns" "absent old n" "changed old m" for n m
    using that apart by (auto simp: absent_def changed_def)
  then show "distinct (df_start (diff old new) @ df_restart (diff old new))"
    using assms by (auto simp: diff_sel distinct_map_filter)
  have "length (filter (absent old) xs) + length (filter (changed old) xs) \<le> length xs" for xs
    by (induction xs) (auto simp: apart)
  then show "length (df_start (diff old new) @ df_restart (diff old new)) \<le> length ?ns" by (simp add: diff_sel)
  show "set (df_start (diff old new)) \<union> set (df_restart (diff old new)) \<subseteq> nd_id ` set ?ns" by (auto simp: diff_sel)
qed

lemma admit_order_sel:
  "set (admit_order d) = set (df_start d) \<union> set (df_restart d)" "length (admit_order d) = length (df_start d @ df_restart d)"
  "distinct (admit_order d) = distinct (df_start d @ df_restart d)"
  by (simp_all add: admit_order_def)

text \<open>The nodes a change starts are those the diff says to start or restart.\<close>

definition starting :: "plan \<Rightarrow> plan \<Rightarrow> node list" where
  "starting old new =
     filter (\<lambda>n. nd_id n \<in> set (df_start (diff old new)) \<or> nd_id n \<in> set (df_restart (diff old new))) (pl_nodes new)"

lemma starting_ids:
  assumes "distinct (map nd_id (pl_nodes new))"
  shows "distinct (map nd_id (starting old new))"
    "nd_id ` set (starting old new) = set (df_start (diff old new)) \<union> set (df_restart (diff old new))"
  using assms diff_ids(3) [OF assms, of old] by (auto simp: starting_def distinct_map_filter)

lemma plan_for_ids:
  assumes "plan_for s outputs = Inr new"
  shows "distinct (map nd_id (pl_nodes new))" "inputs_first (pl_nodes new)"
  using make_plan_ids assms by (auto simp: plan_for_def)

definition change_fits :: "(string \<times> rendition_request list) list \<Rightarrow> renditions \<Rightarrow> bool" where
  "change_fits outputs s \<longleftrightarrow> (case plan_for s outputs of Inl e \<Rightarrow> True | Inr p \<Rightarrow> numbers_left (length (pl_nodes p)) (rd_governor s))"

text \<open>The ways a change ends.\<close>

lemma apply_outputs_cases:
  assumes "apply_outputs gs cat outputs s = (r, s')"
  obtains (no_plan) e where "r = Inl e" "s' = s" "\<And>p. plan_for s outputs \<noteq> Inr p"
  | (refused) new e g where "plan_for s outputs = Inr new" "r = Inl e" "s' = s\<lparr>rd_governor := g\<rparr>"
      "admit_all new (rungs_of outputs) (asked_for outputs) (admit_order (diff (rd_plan s) new)) [] (rd_governor s) = (Inl e, g)"
  | (applied) new gr g where "plan_for s outputs = Inr new" "r = Inr ()"
      "admit_all new (rungs_of outputs) (asked_for outputs) (admit_order (diff (rd_plan s) new)) [] (rd_governor s) = (Inr gr, g)"
      "s' = publish ((switch_to gs cat new gr (s\<lparr>rd_governor := g\<rparr>))
                \<lparr>rd_outputs := outputs, rd_rungs := rungs_of outputs, rd_plan := new\<rparr>)"
proof (cases "plan_for s outputs")
  case (Inl e)
  with assms no_plan show thesis by (auto simp: apply_outputs_def)
next
  case (Inr new)
  obtain x g where a: "admit_all new (rungs_of outputs) (asked_for outputs) (admit_order (diff (rd_plan s) new)) [] (rd_governor s)
      = (x, g)" by fastforce
  show thesis
  proof (cases x)
    case (Inl e)
    with assms Inr a refused show thesis by (auto simp: apply_outputs_def)
  next
    case (Inr gr)
    with assms \<open>plan_for s outputs = Inr new\<close> a applied show thesis by (auto simp: apply_outputs_def)
  qed
qed

lemma add_output_cases:
  assumes "add_output gs cat out choice s = (r, s')"
  obtains (unplanned) "s' = s" "\<And>rs. expand out choice \<noteq> Inr (Some rs)"
  | (planned) rs x where "expand out choice = Inr (Some rs)"
      "apply_outputs gs cat (without_output out s @ [(out, rs)]) s = (x, s')"
      "r = (case x of Inl e \<Rightarrow> Inl e | Inr u \<Rightarrow> Inr (Some (taps s' out)))"
proof (cases "expand out choice")
  case (Inl m)
  with assms unplanned show thesis by (auto simp: add_output_def)
next
  case (Inr o')
  show thesis
  proof (cases o')
    case None
    with assms Inr unplanned show thesis by (auto simp: add_output_def)
  next
    case (Some rs)
    with assms Inr planned show thesis by (auto simp: add_output_def split: prod.split_asm sum.split_asm)
  qed
qed

subsection \<open>Steps\<close>

text \<open>
  What an operation does with the tickets is what \<open>stop_id\<close>, \<open>suspend_id\<close>, \<open>start_granted\<close>, \<open>shed_one\<close>
  and \<open>restore_one\<close> do. GStreamer and the catalogue may answer differently at each step. A step that
  admits leaves the governor numbers to give.
\<close>

inductive rstep :: "renditions \<Rightarrow> renditions \<Rightarrow> bool" where
  add: "(\<And>rs. expand out choice = Inr (Some rs) \<Longrightarrow> change_fits (without_output out s @ [(out, rs)]) s) \<Longrightarrow>
    add_output gs cat out choice s = (r, s') \<Longrightarrow> rstep s s'"
| remove: "change_fits (without_output out s) s \<Longrightarrow> rstep s (remove_output gs cat out s)"
| tick: "numbers_left (length (rd_shed s)) (rd_governor s) \<Longrightarrow> renditions_tick gs cat now s = (t, s') \<Longrightarrow> rstep s s'"
| shutdown: "rstep s (renditions_shutdown s)"

text \<open>The same with whatever else uses the governor in between.\<close>

inductive shared_step :: "renditions \<Rightarrow> renditions \<Rightarrow> bool" where
  own: "rstep s s' \<Longrightarrow> shared_step s s'"
| other: "gstep (rd_governor s) g \<Longrightarrow> shared_step s (s\<lparr>rd_governor := g\<rparr>)"

inductive_cases rstepE: "rstep s s'"
inductive_cases shared_stepE: "shared_step s s'"

abbreviation rrun :: "renditions \<Rightarrow> renditions \<Rightarrow> bool" where
  "rrun \<equiv> rstep\<^sup>*\<^sup>*"

abbreviation shared_run :: "renditions \<Rightarrow> renditions \<Rightarrow> bool" where
  "shared_run \<equiv> shared_step\<^sup>*\<^sup>*"

subsection \<open>Every step keeps the account\<close>

definition accounted :: "(ticket list \<Rightarrow> governor \<Rightarrow> bool) \<Rightarrow> ticket list \<Rightarrow> renditions \<Rightarrow> bool" where
  "accounted owns us s \<longleftrightarrow> hash_ok (rd_tickets s) \<and> owns (map snd (rd_tickets s) @ us) (rd_governor s)"

lemma accounted_cong:
  "rd_tickets s' = rd_tickets s \<Longrightarrow> rd_governor s' = rd_governor s \<Longrightarrow> accounted owns us s' = accounted owns us s"
  by (simp add: accounted_def)

lemma fold_accounted:
  "(\<And>x s. accounted owns us s \<Longrightarrow> accounted owns us (f x s)) \<Longrightarrow> accounted owns us s \<Longrightarrow> accounted owns us (fold f xs s)"
  by (induction xs arbitrary: s) simp_all

lemma publish_sel [simp]:
  "rd_tickets (publish s) = rd_tickets s" "rd_governor (publish s) = rd_governor s" "rd_graph (publish s) = rd_graph s"
  "rd_shed (publish s) = rd_shed s" "rd_plan (publish s) = rd_plan s" "rd_outputs (publish s) = rd_outputs s"
  "rd_rungs (publish s) = rd_rungs s" "rd_source (publish s) = rd_source s"
  by (simp_all add: publish_def)

lemma tickets_remove_sel [simp]:
  "rd_tickets (tickets_remove i s) = hash_del i (rd_tickets s)" "rd_graph (tickets_remove i s) = rd_graph s"
  "rd_shed (tickets_remove i s) = rd_shed s" "rd_plan (tickets_remove i s) = rd_plan s"
  "rd_outputs (tickets_remove i s) = rd_outputs s" "rd_rungs (tickets_remove i s) = rd_rungs s"
  "rd_shared (tickets_remove i s) = rd_shared s" "rd_notes (tickets_remove i s) = rd_notes s"
  by (simp_all add: tickets_remove_def)

lemma tickets_insert_sel [simp]:
  "rd_tickets (tickets_insert i t s) = hash_put i t (rd_tickets s)" "rd_graph (tickets_insert i t s) = rd_graph s"
  "rd_shed (tickets_insert i t s) = rd_shed s" "rd_plan (tickets_insert i t s) = rd_plan s"
  "rd_outputs (tickets_insert i t s) = rd_outputs s" "rd_rungs (tickets_insert i t s) = rd_rungs s"
  "rd_shared (tickets_insert i t s) = rd_shared s" "rd_notes (tickets_insert i t s) = rd_notes s"
  by (simp_all add: tickets_insert_def)

lemma tickets_remove_graph: "rd_governor (tickets_remove i (s\<lparr>rd_graph := gr\<rparr>)) = rd_governor (tickets_remove i s)"
  by (simp add: tickets_remove_def)

lemma shed_one_cases:
  assumes "shed_one now st sn = sn'"
  obtains (skip) "sn' = sn"
  | (drop) i where "node_holding (fst sn) (ss_ticket st) = Some i"
      "sn' = ((tickets_remove i ((fst sn)\<lparr>rd_graph := graph_suspend i (rd_graph (fst sn))\<rparr>))
                \<lparr>rd_shed := tree_put i (ss_why st, now) (rd_shed (fst sn))\<rparr>,
              snd sn @ [\<lparr>sn_what = ss_what st, sn_why = ss_why st\<rparr>])"
proof (cases "\<exists>i. node_holding (fst sn) (ss_ticket st) = Some i \<and> ss_action st = DropWork")
  case True
  then obtain i where "node_holding (fst sn) (ss_ticket st) = Some i" "ss_action st = DropWork" by blast
  with assms drop show thesis by (cases sn) (simp add: shed_one_def Let_def)
next
  case False
  then have "shed_one now st sn = sn"
    by (cases sn) (auto simp: shed_one_def split: option.split shed_action.split)
  with assms skip show thesis by simp
qed

lemma restore_one_cases:
  assumes "restore_one gs cat i (s, notes) = (s', notes')"
  obtains (gone) "plan_node (rd_plan s) i = None" "s' = s\<lparr>rd_shed := tree_del i (rd_shed s)\<rparr>" "notes' = notes"
  | (refused) n e g where "plan_node (rd_plan s) i = Some n" "admit_node (rd_governor s) n (rd_rungs s) Map.empty = (Inl e, g)"
      "s' = s\<lparr>rd_governor := g\<rparr>" "notes' = notes"
  | (failed) n t' g e gr where "plan_node (rd_plan s) i = Some n"
      "admit_node (rd_governor s) n (rd_rungs s) Map.empty = (Inr t', g)"
      "graph_resume gs cat n (rd_plan s) (Option.bind t' tk_preset) (rd_graph s) = (Inl e, gr)"
      "s' = s\<lparr>rd_governor := drop_option t' g, rd_graph := gr\<rparr>" "notes' = notes"
  | (restored) n t' g gr where "plan_node (rd_plan s) i = Some n"
      "admit_node (rd_governor s) n (rd_rungs s) Map.empty = (Inr t', g)"
      "graph_resume gs cat n (rd_plan s) (Option.bind t' tk_preset) (rd_graph s) = (Inr (), gr)"
      "s' = (case t' of Some t \<Rightarrow> tickets_insert i t (s\<lparr>rd_governor := g, rd_graph := gr\<rparr>) | None \<Rightarrow> s\<lparr>rd_governor := g, rd_graph := gr\<rparr>)
              \<lparr>rd_shed := tree_del i (rd_shed s)\<rparr>"
      "notes' = notes @ [describe n]"
proof (cases "plan_node (rd_plan s) i")
  case None
  with assms gone show thesis by (simp add: restore_one_def)
next
  case (Some n)
  obtain x g where a: "admit_node (rd_governor s) n (rd_rungs s) Map.empty = (x, g)" by fastforce
  show thesis
  proof (cases x)
    case (Inl e)
    with assms Some a refused show thesis by (simp add: restore_one_def)
  next
    case (Inr t')
    obtain y gr where r: "graph_resume gs cat n (rd_plan s) (Option.bind t' tk_preset) (rd_graph s) = (y, gr)" by fastforce
    show thesis
    proof (cases y)
      case (Inl e)
      with assms Some a Inr r failed show thesis by (simp add: restore_one_def)
    next
      case (Inr u)
      with assms Some a \<open>x = Inr t'\<close> r restored show thesis by (cases t') (simp_all add: restore_one_def Let_def)
    qed
  qed
qed

lemma fold_restore_left:
  assumes "numbers_left (Suc k) (rd_governor (fst sb))"
  shows "numbers_left k (rd_governor (fst (restore_one gs cat i sb)))"
proof -
  obtain s names where sb: "sb = (s, names)" by (cases sb)
  obtain s' names' where r: "restore_one gs cat i (s, names) = (s', names')" by fastforce
  have left: "numbers_left k (rd_governor s)" using assms sb by (auto intro: numbers_left_mono)
  from r show ?thesis
  proof (cases rule: restore_one_cases)
    case (restored n t' g gr)
    then have "numbers_left k g" using assms sb by (auto intro: admit_node_left)
    with r restored show ?thesis by (cases t') (simp_all add: sb tickets_insert_def)
  qed (use assms sb r left in \<open>auto intro: admit_node_left\<close>)
qed

context ledger
begin

lemma remove_accounted: "accounted owns us s \<Longrightarrow> accounted owns us (tickets_remove i s)"
  using tickets_remove_owns [of s us i] by (simp add: accounted_def hash_ok_del)

lemma insert_accounted: "accounted owns (t # us) s \<Longrightarrow> accounted owns us (tickets_insert i t s)"
proof -
  assume a: "accounted owns (t # us) s"
  then have "owns (t # map snd (rd_tickets s) @ us) (rd_governor s)"
    by (auto simp: accounted_def intro: owns_perm [rotated])
  with a tickets_insert_owns show ?thesis by (simp add: accounted_def hash_ok_put)
qed

lemma stop_accounted: "accounted owns us s \<Longrightarrow> accounted owns us (stop_id i s)"
  using remove_accounted [of us "s\<lparr>rd_graph := graph_stop i (rd_graph s)\<rparr>" i]
  by (simp add: stop_id_def accounted_def tickets_remove_graph)

lemma suspend_accounted: "accounted owns us s \<Longrightarrow> accounted owns us (suspend_id i s)"
  using remove_accounted [of us "s\<lparr>rd_graph := graph_suspend i (rd_graph s)\<rparr>" i]
  by (simp add: suspend_id_def accounted_def tickets_remove_graph)

lemma start_all_accounted:
  assumes "accounted owns (map snd gr @ us) s" "hash_ok gr" "set (keys_of gr) \<subseteq> nd_id ` set ns" "distinct (map nd_id ns)"
  shows "accounted owns us (fold (start_granted gs cat new (map_of gr)) ns s)"
  using assms
proof (induction ns arbitrary: gr s)
  case Nil
  then show ?case by (cases gr) auto
next
  case (Cons n ns)
  define s1 where "s1 = s\<lparr>rd_graph := snd (graph_start gs cat n new (Option.bind (map_of gr (nd_id n)) tk_preset) (rd_graph s))\<rparr>"
  have a: "accounted owns (map snd gr @ us) s1" using Cons.prems(1) by (simp add: s1_def accounted_def)
  show ?case
  proof (cases "map_of gr (nd_id n)")
    case None
    then have "set (keys_of gr) \<subseteq> nd_id ` set ns"
      using Cons.prems(3) map_of_keys [of gr "nd_id n"] by auto
    with Cons.IH [OF a Cons.prems(2)] Cons.prems(4) None show ?thesis by (simp add: start_granted_def Let_def s1_def)
  next
    case (Some t)
    define gr1 where "gr1 = hash_del (nd_id n) gr"
    have "mset (map snd (rd_tickets s1) @ map snd gr @ us) = mset (map snd (rd_tickets s1) @ t # map snd gr1 @ us)"
      using mset_hash_del [OF Cons.prems(2) Some] by (simp add: gr1_def)
    from owns_perm [OF this] a have "accounted owns (t # map snd gr1 @ us) s1" by (simp add: accounted_def)
    then have s2: "accounted owns (map snd gr1 @ us) (tickets_insert (nd_id n) t s1)" by (rule insert_accounted)
    have "hash_ok gr1" "set (keys_of gr1) \<subseteq> nd_id ` set ns"
      using Cons.prems(2,3) by (auto simp: gr1_def hash_ok_del keys_hash_del)
    from Cons.IH [OF s2 this] Cons.prems(4)
    have ih: "accounted owns us (fold (start_granted gs cat new (map_of gr1)) ns (tickets_insert (nd_id n) t s1))" by simp
    have "start_granted gs cat new (map_of gr1) m = start_granted gs cat new (map_of gr) m" if "m \<in> set ns" for m
    proof -
      have "nd_id m \<noteq> nd_id n" using that Cons.prems(4) by (auto simp: image_iff)
      then show ?thesis by (simp add: gr1_def map_of_hash_del start_granted_def [abs_def])
    qed
    then have "fold (start_granted gs cat new (map_of gr1)) ns x = fold (start_granted gs cat new (map_of gr)) ns x" for x
      by (rule fold_cong [OF refl refl])
    moreover have "start_granted gs cat new (map_of gr) n s = tickets_insert (nd_id n) t s1"
      using Some by (simp add: start_granted_def s1_def)
    ultimately show ?thesis using ih by simp
  qed
qed

lemma switch_accounted:
  assumes "accounted owns (map snd gr @ us) s" "hash_ok gr" "distinct (map nd_id (pl_nodes new))"
    "set (keys_of gr) \<subseteq> set (admit_order (diff (rd_plan s) new))"
  shows "accounted owns us (switch_to gs cat new gr s)"
proof -
  let ?d = "diff (rd_plan s) new"
  define vs where "vs = map snd gr @ us"
  have a: "accounted owns vs s" using assms(1) by (simp add: vs_def)
  have "accounted owns vs (fold suspend_id (df_restart ?d) (fold stop_id (df_stop ?d) s))"
    using suspend_accounted stop_accounted a by (intro fold_accounted)
  moreover have "set (keys_of gr) \<subseteq> nd_id ` set (starting (rd_plan s) new)"
    using assms(4) by (simp add: starting_ids(2) [OF assms(3)] admit_order_sel)
  ultimately show ?thesis
    using start_all_accounted [OF _ assms(2) _ starting_ids(1) [OF assms(3)]] unfolding vs_def switch_to_def Let_def starting_def
    by blast
qed

lemma apply_accounted:
  assumes "apply_outputs gs cat outputs s = (r, s')" "change_fits outputs s" "accounted owns us s"
  shows "accounted owns us s'"
  using assms(1)
proof (cases rule: apply_outputs_cases)
  case (refused new e g)
  have dist: "distinct (map nd_id (pl_nodes new))" using plan_for_ids refused(1) by blast
  have "numbers_left (length (admit_order (diff (rd_plan s) new))) (rd_governor s)"
    using assms(2) refused(1) diff_ids(2) [OF dist] by (auto simp: change_fits_def admit_order_sel intro: numbers_left_mono)
  from admit_all_owns [OF refused(4) _ this] assms(3) diff_ids(1) [OF dist] show ?thesis
    by (simp add: refused(3) accounted_def admit_order_sel)
next
  case (applied new gr g)
  have dist: "distinct (map nd_id (pl_nodes new))" using plan_for_ids applied(1) by blast
  have left: "numbers_left (length (admit_order (diff (rd_plan s) new))) (rd_governor s)"
    using assms(2) applied(1) diff_ids(2) [OF dist] by (auto simp: change_fits_def admit_order_sel intro: numbers_left_mono)
  have keys: "hash_ok gr" "set (keys_of gr) \<subseteq> set (admit_order (diff (rd_plan s) new))"
    using admit_all_keys [OF applied(3)] by simp_all
  have "owns (map snd gr @ map snd (rd_tickets s) @ us) g"
    using admit_all_owns [OF applied(3) _ left, of "map snd (rd_tickets s) @ us"] assms(3) diff_ids(1) [OF dist]
    by (simp add: accounted_def admit_order_sel)
  then have "owns (map snd (rd_tickets s) @ map snd gr @ us) g" by (rule owns_perm [rotated]) simp
  then have "accounted owns (map snd gr @ us) (s\<lparr>rd_governor := g\<rparr>)" using assms(3) by (simp add: accounted_def)
  from switch_accounted [OF this keys(1) dist] keys(2)
  have "accounted owns us (switch_to gs cat new gr (s\<lparr>rd_governor := g\<rparr>))" by simp
  then show ?thesis by (simp add: applied(4) accounted_def)
qed (use assms(3) in simp)

lemma shed_accounted: "accounted owns us (fst sn) \<Longrightarrow> accounted owns us (fst (shed_one now st sn))"
proof -
  assume a: "accounted owns us (fst sn)"
  obtain sn' where r: "shed_one now st sn = sn'" by simp
  then show ?thesis
  proof (cases rule: shed_one_cases)
    case (drop i)
    with a remove_accounted [of us "fst sn" i] r show ?thesis by (simp add: accounted_def tickets_remove_graph)
  qed (use a r in simp)
qed

lemma restore_accounted:
  assumes "accounted owns us (fst sb)" "numbers_left 1 (rd_governor (fst sb))"
  shows "accounted owns us (fst (restore_one gs cat i sb))"
proof -
  obtain s names where sb: "sb = (s, names)" by (cases sb)
  obtain s' names' where r: "restore_one gs cat i (s, names) = (s', names')" by fastforce
  have a: "hash_ok (rd_tickets s)" "owns (map snd (rd_tickets s) @ us) (rd_governor s)" "numbers_left 1 (rd_governor s)"
    using assms by (simp_all add: sb accounted_def)
  have answer: "owns (case t' of Some t \<Rightarrow> t # map snd (rd_tickets s) @ us | None \<Rightarrow> map snd (rd_tickets s) @ us) g"
    if "admit_node (rd_governor s) n (rd_rungs s) Map.empty = (Inr t', g)" for n t' g
    using that a by (cases rule: admit_node_cases) (auto intro: owns_grant)
  have drop: "owns ts (drop_option t' g)" if "owns (case t' of Some t \<Rightarrow> t # ts | None \<Rightarrow> ts) g" for t' g ts
    using that by (cases t') (simp_all add: drop_option_def owns_drop)
  from r show ?thesis
  proof (cases rule: restore_one_cases)
    case (refused n e g)
    from refused(2) have "owns (map snd (rd_tickets s) @ us) g"
      by (cases rule: admit_node_cases) (use a in \<open>auto intro: owns_refuse\<close>)
    with r refused a(1) show ?thesis by (simp add: sb accounted_def)
  next
    case (failed n t' g e gr)
    with r a(1) drop [OF answer [OF failed(2)]] show ?thesis by (simp add: sb accounted_def)
  next
    case (restored n t' g gr)
    define s1 where "s1 = s\<lparr>rd_governor := g, rd_graph := gr\<rparr>"
    have "accounted owns us (case t' of Some t \<Rightarrow> tickets_insert i t s1 | None \<Rightarrow> s1)"
    proof (cases t')
      case (Some t)
      have "owns (map snd (rd_tickets s) @ t # us) g"
        using answer [OF restored(2)] by (rule owns_perm [rotated]) (simp add: Some)
      then show ?thesis using a(1) insert_accounted [of t us s1] by (simp add: Some accounted_def s1_def)
    qed (use answer [OF restored(2)] a(1) in \<open>simp add: accounted_def s1_def\<close>)
    with r restored(4) show ?thesis by (simp add: sb accounted_def s1_def split: option.split_asm)
  qed (use assms(1) r in \<open>simp_all add: sb accounted_def\<close>)
qed

lemma restores_accounted:
  assumes "accounted owns us (fst sb)" "numbers_left (length is) (rd_governor (fst sb))"
  shows "accounted owns us (fst (fold (restore_one gs cat) is sb))"
  using assms
proof (induction "is" arbitrary: sb)
  case (Cons i "is")
  have "numbers_left 1 (rd_governor (fst sb))" using Cons.prems(2) by (auto intro: numbers_left_mono)
  with Cons.IH [of "restore_one gs cat i sb"] restore_accounted [OF Cons.prems(1)] fold_restore_left Cons.prems(2)
  show ?case by simp
qed simp

lemma rstep_accounted:
  assumes "rstep s s'" "accounted owns us s"
  shows "accounted owns us s'"
  using assms
proof (induction rule: rstep.induct)
  case (add out choice s gs cat r s')
  from add(2) show ?case
  proof (cases rule: add_output_cases)
    case (planned rs x)
    with add apply_accounted show ?thesis by blast
  qed (use add in simp)
next
  case (remove out s gs cat)
  obtain x s' where "apply_outputs gs cat (without_output out s) s = (x, s')" by fastforce
  with remove apply_accounted show ?case by (simp add: remove_output_def)
next
  case (tick s gs cat now t s')
  define steps where "steps = governor_shed (rd_governor s)"
  obtain s1 ns where s1: "fold (shed_one now) steps (s, []) = (s1, ns)" by fastforce
  have "accounted owns us (fst (fold (shed_one now) steps (s, [])))"
    by (rule fold_invariant [where Q = "\<lambda>_. True"]) (use tick(3) in \<open>simp_all add: shed_accounted\<close>)
  then have a1: "accounted owns us s1" by (simp add: s1)
  obtain s2 bs where s2: "(if steps = [] then restore_due gs cat now s1 else (s1, [])) = (s2, bs)" by fastforce
  have a2: "accounted owns us s2"
  proof (cases "steps = []")
    case True
    then have "s1 = s" using s1 by simp
    have "length (keys_of (filter (\<lambda>e. RESTORE_AFTER \<le> now - snd (snd e)) (rd_shed s))) \<le> length (rd_shed s)"
      by (simp add: keys_of_def)
    with tick(1) have "numbers_left (length (keys_of (filter (\<lambda>e. RESTORE_AFTER \<le> now - snd (snd e)) (rd_shed s)))) (rd_governor s)"
      by (rule numbers_left_mono)
    with restores_accounted [of us "(s, [])"] tick(3)
    have "accounted owns us (fst (restore_due gs cat now s))" by (simp add: restore_due_def)
    with s2 True show ?thesis by (simp add: \<open>s1 = s\<close>)
  qed (use s2 a1 in simp)
  have "s' = (if ns \<noteq> [] \<or> bs \<noteq> [] then publish s2 else s2)"
    using tick(2) s1 s2 unfolding renditions_tick_def Let_def steps_def [symmetric] by (simp split: prod.split_asm)
  with a2 show ?case by (simp add: accounted_def)
next
  case (shutdown s)
  have "owns (map snd (rd_tickets s) @ us) (rd_governor s)" using shutdown by (simp add: accounted_def)
  from drop_all_owns [OF this] show ?case by (simp add: renditions_shutdown_def accounted_def)
qed

lemma rrun_accounted: "rrun s s' \<Longrightarrow> accounted owns us s \<Longrightarrow> accounted owns us s'"
  by (induction rule: rtranclp_induct) (auto dest: rstep_accounted)

end

end
