(* ===== verification/Renditions_State.thy ===== *)
theory Renditions_State
  imports Renditions_Run
begin

text \<open>
  What holds of the renditions at every moment (\<open>in_step\<close>): the graph runs nothing the plan does not
  have, every body reads the outlet its node's first input has, every running encode holds a ticket, and
  what was shed neither runs nor holds one. The page is shown the plan there is (\<open>published\<close>).
\<close>

definition plan_ids :: "plan \<Rightarrow> string set" where
  "plan_ids p = nd_id ` set (pl_nodes p)"

definition plan_sound :: "plan \<Rightarrow> bool" where
  "plan_sound p \<longleftrightarrow> distinct (map nd_id (pl_nodes p)) \<and> inputs_first (pl_nodes p)"

definition ticketed :: "renditions \<Rightarrow> bool" where
  "ticketed s \<longleftrightarrow> (\<forall>n \<in> set (pl_nodes (rd_plan s)). is_encode (nd_kind n) \<longrightarrow>
     body_at (rd_graph s) (nd_id n) \<noteq> None \<longrightarrow> nd_id n \<in> set (keys_of (rd_tickets s)))"

definition shed_idle :: "renditions \<Rightarrow> bool" where
  "shed_idle s \<longleftrightarrow> (\<forall>i \<in> set (keys_of (rd_shed s)). i \<notin> set (keys_of (rd_tickets s)) \<and> body_at (rd_graph s) i = None)"

definition in_step :: "renditions \<Rightarrow> bool" where
  "in_step s \<longleftrightarrow> hash_ok (rd_tickets s) \<and> tree_ok (rd_shed s) \<and> plan_sound (rd_plan s) \<and>
     graph_ids (rd_graph s) \<subseteq> plan_ids (rd_plan s) \<and> set (keys_of (rd_tickets s)) \<subseteq> plan_ids (rd_plan s) \<and>
     set (keys_of (rd_shed s)) \<subseteq> plan_ids (rd_plan s) \<and> wired (rd_plan s) (rd_graph s) \<and> ticketed s \<and> shed_idle s"

lemma in_step_cong:
  assumes "in_step s" "rd_tickets s' = rd_tickets s" "rd_shed s' = rd_shed s" "rd_plan s' = rd_plan s" "rd_graph s' = rd_graph s"
  shows "in_step s'"
  using assms by (simp add: in_step_def ticketed_def shed_idle_def)

lemma plan_sound_empty: "plan_sound plan_default"
  by (simp add: plan_sound_def plan_default_def)

lemma graph_new_empty: "graph_get (graph_new gfx) = Map.empty"
  by (simp add: graph_get_def graph_new_def fun_eq_iff)

lemma in_step_new: "in_step (renditions_new g slots audio gfx source)"
  using graph_new_empty [of gfx] plan_sound_empty
  by (simp add: in_step_def renditions_new_def graph_ids_def wired_empty ticketed_def shed_idle_def) (simp add: plan_default_def)

subsection \<open>Shedding\<close>

lemma body_suspend: "body_at (graph_suspend i g) j = (if j = i then None else body_at g j)"
  by (cases "graph_get g i") (simp_all add: body_at_def graph_get_suspend)

lemma ids_suspend: "graph_ids (graph_suspend i g) = graph_ids g"
  by (auto simp: graph_ids_def graph_get_suspend split: if_split_asm)

lemma node_holding_key: "node_holding s t = Some i \<Longrightarrow> i \<in> set (keys_of (rd_tickets s))"
  by (auto simp: node_holding_def set_keys_of dest!: find_Some_iff_first intro: rev_image_eqI)

lemma in_step_shed_one: "in_step (fst sn) \<Longrightarrow> in_step (fst (shed_one now st sn))"
proof -
  assume a: "in_step (fst sn)"
  define s where "s = fst sn"
  obtain sn' where r: "shed_one now st sn = sn'" by simp
  then show ?thesis
  proof (cases rule: shed_one_cases)
    case (drop i)
    then have "i \<in> plan_ids (rd_plan s)" using node_holding_key a by (auto simp: in_step_def s_def)
    then have "in_step ((tickets_remove i (s\<lparr>rd_graph := graph_suspend i (rd_graph s)\<rparr>))\<lparr>rd_shed := tree_put i (ss_why st, now) (rd_shed s)\<rparr>)"
      using a unfolding s_def [symmetric]
      by (auto simp: in_step_def ticketed_def shed_idle_def hash_ok_del tree_ok_put ids_suspend wired_suspend keys_hash_del
          set_tree_put body_suspend)
    with r drop show ?thesis by (simp add: s_def)
  qed (use a r in simp)
qed

subsection \<open>Bringing back\<close>

lemma plan_node_mem: "plan_node p i = Some n \<Longrightarrow> n \<in> set (pl_nodes p) \<and> nd_id n = i"
  by (auto simp: plan_node_def dest: find_Some_iff_first)

lemma in_step_restore:
  assumes "in_step (fst sb)"
  shows "in_step (fst (restore_one gs cat i sb))"
proof -
  obtain s names where sb: "sb = (s, names)" by (cases sb)
  have a: "in_step s" using assms by (simp add: sb)
  obtain s' names' where r: "restore_one gs cat i (s, names) = (s', names')" by fastforce
  from r have "in_step s'"
  proof (cases rule: restore_one_cases)
    case gone
    then show ?thesis using a by (auto simp: in_step_def ticketed_def shed_idle_def tree_ok_del keys_tree_del)
  next
    case (refused n e g)
    then show ?thesis using a by (auto intro: in_step_cong)
  next
    case (failed n t' g e gr)
    from failed(3) have "gr = rd_graph s" by (cases rule: graph_resume_cases) simp_all
    with failed a show ?thesis by (auto intro: in_step_cong)
  next
    case (restored n t' g gr)
    have n: "n \<in> set (pl_nodes (rd_plan s))" "nd_id n = i" using plan_node_mem [OF restored(1)] by simp_all
    have t: "touched n (rd_graph s) gr" "graph_ids gr = graph_ids (rd_graph s)" using touched_resume [OF restored(3)] by simp_all
    have sound: "distinct (map nd_id (pl_nodes (rd_plan s)))" using a by (simp add: in_step_def plan_sound_def)
    have w: "wired (rd_plan s) gr" using wired_touched [OF _ t(1) sound n(1)] a by (simp add: in_step_def)
    have b: "body_at gr j = body_at (rd_graph s) j" if "j \<noteq> i" for j using t(1) that n(2) by (simp add: touched_def body_at_def)
    have enc: "t' \<noteq> None" if "is_encode (nd_kind n)"
      using restored(2) that by (cases rule: admit_node_cases) simp_all
    have one: "m = n" if "m \<in> set (pl_nodes (rd_plan s))" "nd_id m = i" for m
      using that n sound by (metis distinct_map inj_onD)
    have i: "i \<in> plan_ids (rd_plan s)" using n by (auto simp: plan_ids_def)
    define ts where "ts = (case t' of Some t \<Rightarrow> hash_put i t (rd_tickets s) | None \<Rightarrow> rd_tickets s)"
    have ts: "hash_ok ts" "set (keys_of ts) = (if t' = None then {} else {i}) \<union> set (keys_of (rd_tickets s))"
      using a by (auto simp: ts_def in_step_def hash_ok_put keys_hash_put split: option.split)
    have s': "rd_tickets s' = ts" "rd_graph s' = gr" "rd_plan s' = rd_plan s" "rd_shed s' = tree_del i (rd_shed s)"
      using restored(4) by (simp_all add: ts_def split: option.split)
    have "ticketed s'"
      unfolding ticketed_def s'
    proof (intro ballI impI)
      fix m assume m: "m \<in> set (pl_nodes (rd_plan s))" "is_encode (nd_kind m)" "body_at gr (nd_id m) \<noteq> None"
      show "nd_id m \<in> set (keys_of ts)"
      proof (cases "nd_id m = i")
        case True
        with one m enc show ?thesis by (auto simp: ts(2))
      next
        case False
        with m b a show ?thesis by (auto simp: in_step_def ticketed_def ts(2))
      qed
    qed
    moreover have "shed_idle s'"
      unfolding shed_idle_def s' using a b by (auto simp: in_step_def shed_idle_def ts(2) keys_tree_del)
    moreover have "set (keys_of (rd_tickets s')) \<subseteq> plan_ids (rd_plan s)" using a i by (auto simp: s' ts(2) in_step_def)
    moreover have "tree_ok (rd_shed s')" "set (keys_of (rd_shed s')) \<subseteq> plan_ids (rd_plan s)"
      using a by (auto simp: s' in_step_def tree_ok_del keys_tree_del)
    ultimately show ?thesis using a w t(2) ts(1) by (simp add: in_step_def s')
  qed
  with r show ?thesis by (simp add: sb)
qed

lemma in_step_fold: "(\<And>x y. in_step (fst y) \<Longrightarrow> in_step (fst (f x y))) \<Longrightarrow> in_step (fst y) \<Longrightarrow> in_step (fst (fold f xs y))"
  by (induction xs arbitrary: y) simp_all

subsection \<open>Replanning\<close>

lemma stop_id_sel [simp]:
  "rd_graph (stop_id i s) = graph_stop i (rd_graph s)" "rd_tickets (stop_id i s) = hash_del i (rd_tickets s)"
  "rd_shed (stop_id i s) = tree_del i (rd_shed s)" "rd_plan (stop_id i s) = rd_plan s"
  by (simp_all add: stop_id_def)

lemma suspend_id_sel [simp]:
  "rd_graph (suspend_id i s) = graph_suspend i (rd_graph s)" "rd_tickets (suspend_id i s) = hash_del i (rd_tickets s)"
  "rd_shed (suspend_id i s) = tree_del i (rd_shed s)" "rd_plan (suspend_id i s) = rd_plan s"
  by (simp_all add: suspend_id_def)

lemma fold_stop_sel:
  "rd_graph (fold stop_id is s) = fold graph_stop is (rd_graph s)"
  "rd_tickets (fold stop_id is s) = filter (\<lambda>e. fst e \<notin> set is) (rd_tickets s)"
  "rd_shed (fold stop_id is s) = filter (\<lambda>e. fst e \<notin> set is) (rd_shed s)"
  by (induction "is" arbitrary: s) (simp_all add: hash_del_def tree_del_def conj_commute)

lemma fold_suspend_sel:
  "rd_graph (fold suspend_id is s) = fold graph_suspend is (rd_graph s)"
  "rd_tickets (fold suspend_id is s) = filter (\<lambda>e. fst e \<notin> set is) (rd_tickets s)"
  "rd_shed (fold suspend_id is s) = filter (\<lambda>e. fst e \<notin> set is) (rd_shed s)"
  by (induction "is" arbitrary: s) (simp_all add: hash_del_def tree_del_def conj_commute)

definition presets_of :: "(string \<rightharpoonup> ticket) \<Rightarrow> string \<Rightarrow> string option" where
  "presets_of gr i = Option.bind (gr i) tk_preset"

lemma start_granted_sel:
  "rd_graph (start_granted gs cat new gr n s) = start_in gs cat new (presets_of gr) n (rd_graph s)"
  "rd_shed (start_granted gs cat new gr n s) = rd_shed s"
  "set (keys_of (rd_tickets (start_granted gs cat new gr n s))) = set (keys_of (rd_tickets s)) \<union> ({nd_id n} \<inter> dom gr)"
  "hash_ok (rd_tickets s) \<Longrightarrow> hash_ok (rd_tickets (start_granted gs cat new gr n s))"
  by (auto simp: start_granted_def Let_def start_in_def presets_of_def keys_hash_put hash_ok_put split: option.split)

lemma fold_start_sel:
  "rd_graph (fold (start_granted gs cat new gr) ns s) = fold (start_in gs cat new (presets_of gr)) ns (rd_graph s)"
  "rd_shed (fold (start_granted gs cat new gr) ns s) = rd_shed s"
  "set (keys_of (rd_tickets (fold (start_granted gs cat new gr) ns s))) = set (keys_of (rd_tickets s)) \<union> (nd_id ` set ns \<inter> dom gr)"
  "hash_ok (rd_tickets s) \<Longrightarrow> hash_ok (rd_tickets (fold (start_granted gs cat new gr) ns s))"
  by (induction ns arbitrary: s) (auto simp: start_granted_sel)

text \<open>What is left of the graph of the old plan once what changes has been stopped.\<close>

definition settled :: "plan \<Rightarrow> plan \<Rightarrow> graph \<Rightarrow> graph" where
  "settled old new g = fold graph_suspend (df_restart (diff old new)) (fold graph_stop (df_stop (diff old new)) g)"

lemma switch_sel:
  "rd_graph (switch_to gs cat new gr s) =
     fold (start_in gs cat new (presets_of (map_of gr))) (starting (rd_plan s) new) (settled (rd_plan s) new (rd_graph s))"
  "rd_shed (switch_to gs cat new gr s) =
     filter (\<lambda>e. fst e \<notin> set (df_stop (diff (rd_plan s) new)) \<and> fst e \<notin> set (df_restart (diff (rd_plan s) new))) (rd_shed s)"
  "set (keys_of (rd_tickets (switch_to gs cat new gr s))) =
     set (keys_of (rd_tickets s)) - set (df_stop (diff (rd_plan s) new)) - set (df_restart (diff (rd_plan s) new))
     \<union> (nd_id ` set (starting (rd_plan s) new) \<inter> dom (map_of gr))"
  "hash_ok (rd_tickets s) \<Longrightarrow> hash_ok (rd_tickets (switch_to gs cat new gr s))"
proof -
  have keys: "set (keys_of (filter (\<lambda>e. fst e \<notin> A) xs)) = set (keys_of xs) - A" for A and xs :: "(string \<times> ticket) list"
    by (auto simp: set_keys_of)
  have ok: "hash_ok (filter P xs)" if "hash_ok xs" for P and xs :: "(string \<times> ticket) list"
    using that by (simp add: hash_ok_def keys_of_def distinct_map_filter)
  show "rd_graph (switch_to gs cat new gr s) =
     fold (start_in gs cat new (presets_of (map_of gr))) (starting (rd_plan s) new) (settled (rd_plan s) new (rd_graph s))"
    by (simp add: switch_to_def Let_def starting_def settled_def fold_start_sel fold_suspend_sel fold_stop_sel)
  show "rd_shed (switch_to gs cat new gr s) =
     filter (\<lambda>e. fst e \<notin> set (df_stop (diff (rd_plan s) new)) \<and> fst e \<notin> set (df_restart (diff (rd_plan s) new))) (rd_shed s)"
    by (simp add: switch_to_def Let_def fold_start_sel fold_suspend_sel fold_stop_sel)
  show "set (keys_of (rd_tickets (switch_to gs cat new gr s))) =
     set (keys_of (rd_tickets s)) - set (df_stop (diff (rd_plan s) new)) - set (df_restart (diff (rd_plan s) new))
     \<union> (nd_id ` set (starting (rd_plan s) new) \<inter> dom (map_of gr))"
    by (simp only: switch_to_def Let_def starting_def fold_start_sel fold_suspend_sel fold_stop_sel keys)
  show "hash_ok (rd_tickets s) \<Longrightarrow> hash_ok (rd_tickets (switch_to gs cat new gr s))"
    by (simp add: switch_to_def Let_def fold_start_sel fold_suspend_sel fold_stop_sel ok)
qed

text \<open>A node of the new plan that is not started was there before with the same work and inputs.\<close>

lemma starting_cases:
  assumes "n \<in> set (pl_nodes new)" "distinct (map nd_id (pl_nodes old))"
  obtains (started) "nd_id n \<in> nd_id ` set (starting old new)"
  | (keeps) was where "was \<in> set (pl_nodes old)" "nd_id was = nd_id n" "nd_kind was = nd_kind n" "nd_inputs was = nd_inputs n"
      "unchanged old n"
proof (cases "absent old n \<or> changed old n")
  case True
  then have "n \<in> set (starting old new)" using assms(1) by (auto simp: starting_def diff_sel)
  then show thesis using started by blast
next
  case False
  then obtain was where w: "by_id (pl_nodes old) (nd_id n) = Some was" "same_work was n"
    by (auto simp: absent_def changed_def split: option.split_asm)
  moreover from w have "unchanged old n" by (simp add: unchanged_def)
  ultimately show thesis using keeps by_id_Some [OF assms(2)] by (auto simp: same_work_def)
qed

lemma in_stop: "i \<in> set (df_stop (diff old new)) \<longleftrightarrow> i \<in> plan_ids old \<and> i \<notin> plan_ids new"
  by (auto simp: diff_sel absent_iff plan_ids_def)

lemma in_start: "i \<in> set (df_start (diff old new)) \<longleftrightarrow> i \<in> plan_ids new \<and> i \<notin> plan_ids old"
  by (auto simp: diff_sel absent_iff plan_ids_def)

lemma starting_restarts:
  assumes "distinct (map nd_id (pl_nodes new))" "i \<in> nd_id ` set (starting old new)" "i \<in> plan_ids old"
  shows "i \<in> set (df_restart (diff old new))"
proof -
  have "i \<in> set (df_start (diff old new)) \<or> i \<in> set (df_restart (diff old new))"
    using assms(2) unfolding starting_ids(2) [OF assms(1)] by (rule UnE) simp_all
  then show ?thesis using assms(3) by (simp add: in_start)
qed

lemma same_id:
  assumes "distinct (map nd_id ns)" "n \<in> set ns" "m \<in> set ns" "nd_id n = nd_id m"
  shows "n = m"
  using assms by (metis distinct_map inj_onD)

lemma unchanged_keeps:
  assumes "distinct (map nd_id (pl_nodes new))" "n \<in> set (pl_nodes new)" "unchanged old n"
  shows "nd_id n \<notin> set (df_restart (diff old new))" "nd_id n \<notin> set (df_stop (diff old new))"
    "nd_id n \<notin> nd_id ` set (starting old new)"
proof -
  show restart: "nd_id n \<notin> set (df_restart (diff old new))"
  proof
    assume "nd_id n \<in> set (df_restart (diff old new))"
    then obtain m where m: "m \<in> set (pl_nodes new)" "changed old m" "nd_id m = nd_id n" by (auto simp: diff_sel)
    then have "m = n" using same_id [OF assms(1)] assms(2) by blast
    with m(2) assms(3) show False by (simp add: changed_def unchanged_def split: option.split_asm)
  qed
  show "nd_id n \<notin> set (df_stop (diff old new))" using assms(2) by (simp add: in_stop plan_ids_def)
  have "nd_id n \<in> plan_ids old"
    using assms(3) absent_iff [of old n] by (auto simp: unchanged_def absent_def plan_ids_def split: option.split_asm)
  with starting_restarts [OF assms(1)] restart show "nd_id n \<notin> nd_id ` set (starting old new)" by blast
qed

lemma settled_get:
  "graph_get (settled old new g) j =
    (if j \<in> set (df_restart (diff old new)) then map_option no_body (if j \<in> set (df_stop (diff old new)) then None else graph_get g j)
     else if j \<in> set (df_stop (diff old new)) then None else graph_get g j)"
  by (simp add: settled_def fold_graph_suspend fold_graph_stop)

lemma settled_outlet:
  assumes "i \<in> plan_ids new" "graph_outlet g i = Some t"
  shows "graph_outlet (settled old new g) i = Some t"
  using assms by (auto simp: graph_outlet_def settled_get in_stop)

lemma inputs_known: "inputs_first ns \<Longrightarrow> n \<in> set ns \<Longrightarrow> set (nd_inputs n) \<subseteq> nd_id ` set ns"
proof -
  assume a: "inputs_first ns" "n \<in> set ns"
  then obtain k where k: "k < length ns" "n = ns ! k" by (metis in_set_conv_nth)
  with a(1) have "set (nd_inputs n) \<subseteq> nd_id ` set (take k ns)" by (simp add: inputs_first_def)
  also have "\<dots> \<subseteq> nd_id ` set ns" by (rule image_mono) (rule set_take_subset)
  finally show ?thesis .
qed

lemma wired_switch:
  assumes "wired old g" "plan_sound old" "plan_sound new" "graph_ids g \<subseteq> plan_ids old"
  shows "wired new (fold (start_in gs cat new presets) (starting old new) (settled old new g))" (is "wired new ?h")
  unfolding wired_def
proof (intro ballI allI impI)
  fix n l assume n: "n \<in> set (pl_nodes new)" "body_at ?h (nd_id n) = Some l"
  have sound: "distinct (map nd_id (pl_nodes old))" "distinct (map nd_id (pl_nodes new))" "inputs_first (pl_nodes new)"
    using assms(2,3) by (simp_all add: plan_sound_def)
  note f = fold_start_in [OF starting_ids(1) [OF sound(2), of old], of "settled old new g" gs cat new presets]
  have grow: "outlets_grow (settled old new g) ?h" using f by blast
  show "node_upstream ?h n = Inr (lv_upstream l)"
  proof (cases rule: starting_cases [OF n(1) sound(1)])
    case 1
    then obtain m where m: "m \<in> set (starting old new)" "nd_id m = nd_id n" by auto
    then have "m = n" using n(1) sound(2) by (auto simp: starting_def dest: inj_onD distinct_map [THEN iffD1, THEN conjunct2])
    have "body_at (settled old new g) (nd_id n) = None"
    proof (cases "absent old n")
      case True
      then have "graph_get g (nd_id n) = None" using assms(4) by (auto simp: absent_iff plan_ids_def graph_ids_def)
      then show ?thesis by (simp add: body_at_def settled_get)
    next
      case False
      then have "nd_id n \<in> plan_ids old" by (simp add: absent_iff plan_ids_def)
      with starting_restarts [OF sound(2) 1] have "nd_id n \<in> set (df_restart (diff old new))" .
      then show ?thesis by (cases "graph_get g (nd_id n)") (simp_all add: body_at_def settled_get)
    qed
    with f m(1) n(2) show ?thesis unfolding \<open>m = n\<close> by auto
  next
    case (2 was)
    have out: "nd_id n \<notin> nd_id ` set (starting old new)" by (rule unchanged_keeps(3) [OF sound(2) n(1) 2(5)])
    have "graph_get ?h (nd_id n) = graph_get (settled old new g) (nd_id n)" using f out by blast
    then have "body_at (settled old new g) (nd_id n) = Some l" using n(2) by (simp add: body_at_def)
    then have "body_at g (nd_id was) = Some l"
      by (auto simp: body_at_def settled_get 2(2) bind_eq_Some_conv split: if_split_asm)
    then have "node_upstream g was = Inr (lv_upstream l)" using assms(1) 2(1) by (simp add: wired_def)
    then have "node_upstream g n = Inr (lv_upstream l)" unfolding upstream_Inr 2(3,4) .
    then have "node_upstream (settled old new g) n = Inr (lv_upstream l)"
      by (rule upstream_kept) (use settled_outlet inputs_known [OF sound(3) n(1)] in \<open>auto simp: plan_ids_def\<close>)
    with grow show ?thesis by (rule upstream_grow)
  qed
qed

lemma in_step_apply:
  assumes "apply_outputs gs cat outputs s = (r, s')" "in_step s"
  shows "in_step s'"
  using assms(1)
proof (cases rule: apply_outputs_cases)
  case (refused new e g)
  with assms(2) show ?thesis by (auto intro: in_step_cong)
next
  case (applied new gr g)
  define s0 where "s0 = s\<lparr>rd_governor := g\<rparr>"
  define old where "old = rd_plan s"
  define t where "t = switch_to gs cat new gr s0"
  have a: "in_step s0" using assms(2) by (rule in_step_cong) (simp_all add: s0_def)
  have old: "rd_plan s0 = old" by (simp add: s0_def old_def)
  have sound: "plan_sound old" "plan_sound new"
    using a plan_for_ids [OF applied(1)] by (simp_all add: in_step_def old plan_sound_def)
  then have dist: "distinct (map nd_id (pl_nodes old))" "distinct (map nd_id (pl_nodes new))" by (simp_all add: plan_sound_def)
  have ids: "graph_ids (rd_graph s0) \<subseteq> plan_ids old" "set (keys_of (rd_tickets s0)) \<subseteq> plan_ids old"
    "set (keys_of (rd_shed s0)) \<subseteq> plan_ids old"
    using a by (simp_all add: in_step_def old)
  have g': "rd_graph t = fold (start_in gs cat new (presets_of (map_of gr))) (starting old new) (settled old new (rd_graph s0))"
    and sh: "rd_shed t = filter (\<lambda>e. fst e \<notin> set (df_stop (diff old new)) \<and> fst e \<notin> set (df_restart (diff old new))) (rd_shed s0)"
    and tk: "set (keys_of (rd_tickets t)) = set (keys_of (rd_tickets s0)) - set (df_stop (diff old new)) - set (df_restart (diff old new))
      \<union> (nd_id ` set (starting old new) \<inter> dom (map_of gr))"
    using switch_sel(1-3) [of gs cat new gr s0] by (simp_all add: t_def old)
  note f = fold_start_in [OF starting_ids(1) [OF dist(2), of old], of "settled old new (rd_graph s0)" gs cat new
      "presets_of (map_of gr)", folded g']
  have st: "nd_id ` set (starting old new) \<subseteq> plan_ids new" by (auto simp: starting_def plan_ids_def)
  have kept: "body_at (rd_graph t) i = body_at (rd_graph s0) i" "i \<notin> nd_id ` set (starting old new)"
    if "i \<notin> set (df_stop (diff old new))" "i \<notin> set (df_restart (diff old new))" "i \<in> plan_ids old" for i
  proof -
    show out: "i \<notin> nd_id ` set (starting old new)"
      using that starting_restarts [OF dist(2)] by blast
    with f that show "body_at (rd_graph t) i = body_at (rd_graph s0) i" by (simp add: body_at_def settled_get)
  qed
  have "i \<in> plan_ids old" if "graph_get (rd_graph s0) i = Some x" for i x
    using ids(1) that by (auto simp: graph_ids_def)
  then have "graph_ids (settled old new (rd_graph s0)) \<subseteq> plan_ids new"
    by (auto simp: graph_ids_def settled_get in_stop split: if_split_asm)
  then have "graph_ids (rd_graph t) \<subseteq> plan_ids new" using f st by blast
  moreover have "set (keys_of (rd_tickets t)) \<subseteq> plan_ids new" using ids(2) st by (auto simp: tk in_stop)
  moreover have keys: "set (keys_of (rd_shed t)) =
      set (keys_of (rd_shed s0)) - set (df_stop (diff old new)) - set (df_restart (diff old new))"
    by (auto simp: sh set_keys_of)
  then have "set (keys_of (rd_shed t)) \<subseteq> plan_ids new" using ids(3) by (auto simp: in_stop)
  moreover have "wired new (rd_graph t)"
    unfolding g' using a sound ids(1) by (intro wired_switch) (simp_all add: in_step_def old)
  moreover have "hash_ok (rd_tickets t)" using a switch_sel(4) by (simp add: t_def in_step_def)
  moreover have "tree_ok (rd_shed t)"
    using a by (simp add: sh in_step_def tree_ok_def keys_of_def sorted_wrt_filter filter_map [symmetric, unfolded comp_def])
      (simp add: sorted_wrt_map sorted_wrt_filter)
  moreover have "nd_id n \<in> set (keys_of (rd_tickets t))"
    if n: "n \<in> set (pl_nodes new)" "is_encode (nd_kind n)" "body_at (rd_graph t) (nd_id n) \<noteq> None" for n
  proof (cases rule: starting_cases [OF n(1) dist(1)])
    case 1
    then have "nd_id n \<in> set (admit_order (diff old new))" by (simp add: starting_ids(2) [OF dist(2)] admit_order_sel)
    moreover have "the (plan_node new (nd_id n)) = n" using plan_node_distinct [OF dist(2) n(1)] by simp
    ultimately have "nd_id n \<in> set (keys_of gr)"
      using admit_all_keys [OF applied(3)] n(2) by (auto simp: old_def)
    then have "nd_id n \<in> dom (map_of gr)" using map_of_keys [of gr] by blast
    with 1 show ?thesis by (simp add: tk)
  next
    case (2 was)
    have keep: "nd_id n \<notin> set (df_stop (diff old new))" "nd_id n \<notin> set (df_restart (diff old new))" "nd_id n \<in> plan_ids old"
      using unchanged_keeps [OF dist(2) n(1) 2(5)] 2(1,2) by (auto simp: plan_ids_def intro: rev_image_eqI)
    with kept n(3) have "body_at (rd_graph s0) (nd_id n) \<noteq> None" by simp
    then have "nd_id n \<in> set (keys_of (rd_tickets s0))"
      using a 2 n(2) by (auto simp: in_step_def ticketed_def old)
    with keep show ?thesis by (simp add: tk)
  qed
  then have "\<forall>n \<in> set (pl_nodes new). is_encode (nd_kind n) \<longrightarrow> body_at (rd_graph t) (nd_id n) \<noteq> None \<longrightarrow>
      nd_id n \<in> set (keys_of (rd_tickets t))" by blast
  moreover have "shed_idle t"
    unfolding shed_idle_def
  proof
    fix i assume i: "i \<in> set (keys_of (rd_shed t))"
    then have "i \<notin> set (df_stop (diff old new))" "i \<notin> set (df_restart (diff old new))" "i \<in> plan_ids old" "i \<in> set (keys_of (rd_shed s0))"
      using ids(3) by (auto simp: keys)
    with kept [of i] a show "i \<notin> set (keys_of (rd_tickets t)) \<and> body_at (rd_graph t) i = None"
      by (auto simp: tk in_step_def shed_idle_def)
  qed
  ultimately have "in_step (t\<lparr>rd_outputs := outputs, rd_rungs := rungs_of outputs, rd_plan := new\<rparr>)"
    using sound(2) by (simp add: in_step_def ticketed_def shed_idle_def)
  then show ?thesis using applied(4) by (simp add: t_def s0_def in_step_cong)
qed (use assms(2) in simp)

subsection \<open>Every step\<close>

lemma in_step_tick:
  assumes "renditions_tick gs cat now s = (t, s')" "in_step s"
  shows "in_step s'"
proof -
  define steps where "steps = governor_shed (rd_governor s)"
  obtain s1 ns where s1: "fold (shed_one now) steps (s, []) = (s1, ns)" by fastforce
  have a1: "in_step s1"
    using in_step_fold [of "shed_one now" "(s, [])" steps] in_step_shed_one assms(2) by (simp add: s1)
  obtain s2 bs where s2: "(if steps = [] then restore_due gs cat now s1 else (s1, [])) = (s2, bs)" by fastforce
  have "in_step (fst (restore_due gs cat now s1))"
    unfolding restore_due_def by (rule in_step_fold) (simp_all add: in_step_restore a1)
  with s2 a1 have a2: "in_step s2" by (auto split: if_split_asm)
  have "s' = (if ns \<noteq> [] \<or> bs \<noteq> [] then publish s2 else s2)"
    using assms(1) s1 s2 unfolding renditions_tick_def Let_def steps_def [symmetric] by (simp split: prod.split_asm)
  with a2 show ?thesis by (simp add: in_step_cong)
qed

lemma in_step_shutdown: "in_step s \<Longrightarrow> in_step (renditions_shutdown s)"
  using graph_stop_all_empty [of "rd_graph s"]
  by (simp add: in_step_def renditions_shutdown_def graph_ids_def wired_empty ticketed_def shed_idle_def body_at_def)

lemma in_step_rstep: "rstep s s' \<Longrightarrow> in_step s \<Longrightarrow> in_step s'"
proof (induction rule: rstep.induct)
  case (add out choice s gs cat r s')
  from add(2) show ?case
    by (cases rule: add_output_cases) (use add in_step_apply in blast)+
next
  case (remove out s gs cat)
  then show ?case using in_step_apply [OF prod.collapse [symmetric]] by (simp add: remove_output_def)
next
  case (tick s gs cat now t s')
  then show ?case using in_step_tick by blast
qed (rule in_step_shutdown)

lemma in_step_shared_run: "shared_run s s' \<Longrightarrow> in_step s \<Longrightarrow> in_step s'"
proof (induction rule: rtranclp_induct)
  case (step y z)
  from step(2) show ?case
  proof cases
    case own
    with step in_step_rstep show ?thesis by blast
  next
    case (other g)
    with step in_step_cong [of y] show ?thesis by simp
  qed
qed

subsection \<open>What the page is shown\<close>

definition published :: "renditions \<Rightarrow> bool" where
  "published s \<longleftrightarrow> rd_shared s = view_of (rd_plan s) (rd_shed s) (owners_of (rd_outputs s)) \<and>
     rd_notes s = List.map_filter (note_of (rd_plan s)) (rd_shed s)"

lemma published_publish: "published (publish s)"
  by (simp add: published_def publish_def)

lemma published_cong:
  assumes "published s" "rd_shared s' = rd_shared s" "rd_notes s' = rd_notes s" "rd_plan s' = rd_plan s" "rd_shed s' = rd_shed s"
    "rd_outputs s' = rd_outputs s"
  shows "published s'"
  using assms by (simp add: published_def)

lemma published_new: "published (renditions_new g slots audio gfx source)"
  by (simp add: published_def renditions_new_def view_of_def plan_view_default_def plan_default_def cost_default_def
      List.map_filter_def cong: if_cong)

lemma published_apply:
  assumes "apply_outputs gs cat outputs s = (r, s')" "published s"
  shows "published s'"
  using assms(1)
proof (cases rule: apply_outputs_cases)
  case (refused new e g)
  with assms(2) show ?thesis by (auto intro: published_cong)
next
  case (applied new gr g)
  then show ?thesis by (simp add: published_publish)
qed (use assms(2) in simp)

text \<open>A tick that noted nothing and brought nothing back changed nothing that is shown.\<close>

lemma shed_fold_published:
  assumes "fold (shed_one now) sts (s, ns) = (s1, ns1)"
  shows "(\<exists>m. ns1 = ns @ m) \<and> (ns1 = ns \<longrightarrow> s1 = s)"
  using assms
proof (induction sts arbitrary: s ns)
  case (Cons st sts)
  obtain t ms where t: "shed_one now st (s, ns) = (t, ms)" by fastforce
  with Cons.prems have "fold (shed_one now) sts (t, ms) = (s1, ns1)" by simp
  note ih = Cons.IH [OF this]
  from t show ?case
  proof (cases rule: shed_one_cases)
    case skip
    with ih show ?thesis by simp
  next
    case (drop i)
    with ih show ?thesis by auto
  qed
qed simp

lemma restore_published:
  assumes "restore_one gs cat i (s, ns) = (s1, ns1)" "in_step s" "i \<in> set (keys_of (rd_shed s))"
  shows "(\<exists>m. ns1 = ns @ m) \<and> (ns1 = ns \<longrightarrow> published s \<longrightarrow> published s1 \<and> rd_shed s1 = rd_shed s)"
  using assms(1)
proof (cases rule: restore_one_cases)
  case gone
  have "i \<in> plan_ids (rd_plan s)" using assms(2,3) by (auto simp: in_step_def)
  then obtain n where "n \<in> set (pl_nodes (rd_plan s))" "nd_id n = i" by (auto simp: plan_ids_def)
  with gone(1) assms(2) plan_node_distinct [of "rd_plan s" n] show ?thesis by (simp add: in_step_def plan_sound_def)
qed (auto intro: published_cong)

lemma keys_restore: "set (keys_of (rd_shed s)) - {i} \<subseteq> set (keys_of (rd_shed (fst (restore_one gs cat i (s, ns)))))"
proof -
  obtain s1 ns1 where r: "restore_one gs cat i (s, ns) = (s1, ns1)" by fastforce
  from r show ?thesis
    by (cases rule: restore_one_cases) (use r in \<open>auto simp: keys_tree_del split: option.split_asm\<close>)
qed

lemma restore_fold_published:
  assumes "fold (restore_one gs cat) is (s, ns) = (s1, ns1)" "in_step s" "set is \<subseteq> set (keys_of (rd_shed s))" "distinct is"
  shows "(\<exists>m. ns1 = ns @ m) \<and> (ns1 = ns \<longrightarrow> published s \<longrightarrow> published s1)"
  using assms
proof (induction "is" arbitrary: s ns)
  case (Cons i "is")
  obtain t ms where t: "restore_one gs cat i (s, ns) = (t, ms)" by fastforce
  with Cons.prems(1) have f: "fold (restore_one gs cat) is (t, ms) = (s1, ns1)" by simp
  have one: "(\<exists>m. ms = ns @ m) \<and> (ms = ns \<longrightarrow> published s \<longrightarrow> published t \<and> rd_shed t = rd_shed s)"
    using restore_published [OF t] Cons.prems(2,3) by simp
  have "in_step t" using in_step_restore [of "(s, ns)" gs cat i] Cons.prems(2) by (simp add: t)
  moreover have "set is \<subseteq> set (keys_of (rd_shed t))"
    using keys_restore [of s i gs cat ns] Cons.prems(3,4) by (auto simp: t)
  ultimately have "(\<exists>m. ns1 = ms @ m) \<and> (ns1 = ms \<longrightarrow> published t \<longrightarrow> published s1)"
    using Cons.IH [OF f] Cons.prems(4) by simp
  with one show ?case by auto
qed simp

lemma published_tick:
  assumes "renditions_tick gs cat now s = (t, s')" "in_step s" "published s"
  shows "published s'"
proof -
  define steps where "steps = governor_shed (rd_governor s)"
  obtain s1 ns where s1: "fold (shed_one now) steps (s, []) = (s1, ns)" by fastforce
  have shed: "ns = [] \<longrightarrow> s1 = s" using shed_fold_published [OF s1] by simp
  obtain s2 bs where s2: "(if steps = [] then restore_due gs cat now s1 else (s1, [])) = (s2, bs)" by fastforce
  have "published s2" if "ns = []" "bs = []"
  proof (cases "steps = []")
    case True
    with s1 s2 have r: "restore_due gs cat now s = (s2, bs)" by simp
    have "set (keys_of (filter (\<lambda>e. RESTORE_AFTER \<le> now - snd (snd e)) (rd_shed s))) \<subseteq> set (keys_of (rd_shed s))"
      by (auto simp: set_keys_of)
    moreover have "distinct (keys_of (filter (\<lambda>e. RESTORE_AFTER \<le> now - snd (snd e)) (rd_shed s)))"
      using assms(2) tree_ok_distinct [of "rd_shed s"] unfolding keys_of_def by (intro distinct_map_filter) (simp add: in_step_def keys_of_def)
    ultimately show ?thesis using restore_fold_published [OF r [unfolded restore_due_def] assms(2)] that(2) assms(3) by simp
  next
    case False
    with s2 that shed assms(3) show ?thesis by simp
  qed
  moreover have "s' = (if ns \<noteq> [] \<or> bs \<noteq> [] then publish s2 else s2)"
    using assms(1) s1 s2 unfolding renditions_tick_def Let_def steps_def [symmetric] by (simp split: prod.split_asm)
  ultimately show ?thesis by (auto simp: published_publish)
qed

lemma published_rstep: "rstep s s' \<Longrightarrow> in_step s \<Longrightarrow> published s \<Longrightarrow> published s'"
proof (induction rule: rstep.induct)
  case (add out choice s gs cat r s')
  from add(2) show ?case
    by (cases rule: add_output_cases) (use add published_apply in blast)+
next
  case (remove out s gs cat)
  then show ?case using published_apply [OF prod.collapse [symmetric]] by (simp add: remove_output_def)
next
  case (tick s gs cat now t s')
  then show ?case using published_tick by blast
next
  case (shutdown s)
  from shutdown(2) show ?case by (rule published_cong) (simp_all add: renditions_shutdown_def)
qed

lemma published_shared_run: "shared_run s s' \<Longrightarrow> in_step s \<Longrightarrow> published s \<Longrightarrow> published s'"
proof (induction rule: rtranclp_induct)
  case (step y z)
  have a: "in_step y" "published y" using step in_step_shared_run by blast+
  from step(2) show ?case
  proof cases
    case own
    with a published_rstep show ?thesis by blast
  next
    case (other g)
    with a(2) published_cong [of y] show ?thesis by simp
  qed
qed

end
