(* ===== verification/Renditions_Live.thy ===== *)
theory Renditions_Live
  imports Renditions_State
begin

text \<open>
  That what is planned runs: where GStreamer makes what it is asked for, every node of the plan has its
  outlet and, unless the governor had it shed, its body. Nodes are started in the order of the plan, so
  what a body reads is there before it.
\<close>

subsection \<open>What has a body\<close>

definition needs_body :: "graphics_choice \<Rightarrow> node_kind \<Rightarrow> bool" where
  "needs_body gfx k \<longleftrightarrow> \<not> bodiless k \<or> (is_source k \<and> is_gpu gfx)"

lemma bodiless_source: "is_source k \<Longrightarrow> bodiless k"
  by (cases k) simp_all

lemma node_body_none: "node_body gs cat gfx k name pre = Inr x \<Longrightarrow> x \<noteq> None \<longleftrightarrow> needs_body gfx k"
  by (cases k) (auto simp: node_body_def needs_body_def Let_def and_then_Inr_iff split: prod.split_asm if_split_asm)

lemma node_body_None: "node_body gs cat gfx k name pre = Inr None \<Longrightarrow> \<not> needs_body gfx k"
  using node_body_none [of gs cat gfx k name pre None] by simp

definition can_make :: "gst_env \<Rightarrow> catalogue \<Rightarrow> graphics_choice \<Rightarrow> plan \<Rightarrow> bool" where
  "can_make gs cat gfx p \<longleftrightarrow> gs_has gs ''tee'' \<and>
     (\<forall>n \<in> set (pl_nodes p). gs_add gs (nd_id n) \<and> gs_link gs (nd_id n) \<and>
        (\<forall>pre. \<exists>b. node_body gs cat gfx (nd_kind n) (node_name (nd_id n)) pre = Inr b))"

definition runs_node :: "graphics_choice \<Rightarrow> string set \<Rightarrow> node \<Rightarrow> running_node \<Rightarrow> bool" where
  "runs_node gfx down n r \<longleftrightarrow> rn_owned r = (\<not> is_source (nd_kind n) \<or> is_gpu gfx) \<and>
     (needs_body gfx (nd_kind n) \<longrightarrow> nd_id n \<notin> down \<longrightarrow> rn_body r \<noteq> None)"

definition all_up :: "plan \<Rightarrow> graph \<Rightarrow> string set \<Rightarrow> bool" where
  "all_up p g down \<longleftrightarrow> (\<forall>n \<in> set (pl_nodes p). \<exists>r. graph_get g (nd_id n) = Some r \<and> runs_node (gr_gfx g) down n r)"

subsection \<open>One node\<close>

lemma needs_owned: "needs_body gfx k \<Longrightarrow> \<not> is_source k \<or> is_gpu gfx"
  by (auto simp: needs_body_def bodiless_source)

lemma upstream_there:
  assumes "is_source (nd_kind n) \<or> nd_inputs n \<noteq> []" "set (nd_inputs n) \<subseteq> graph_ids g"
  shows "\<exists>u. node_upstream g n = Inr u"
  using assms by (cases "nd_inputs n") (auto simp: node_upstream_def graph_ids_def graph_outlet_def)

lemma resume_up:
  assumes "graph_get g (nd_id n) = Some r" "rn_owned r = (\<not> is_source (nd_kind n) \<or> is_gpu (gr_gfx g))"
    "gs_link gs (nd_id n)" "\<exists>b. node_body gs cat (gr_gfx g) (nd_kind n) (node_name (nd_id n)) pre = Inr b"
    "needs_body (gr_gfx g) (nd_kind n) \<Longrightarrow> is_source (nd_kind n) \<or> nd_inputs n \<noteq> []" "set (nd_inputs n) \<subseteq> graph_ids g"
  shows "\<exists>r'. graph_get (snd (graph_resume gs cat n p pre g)) (nd_id n) = Some r' \<and> runs_node (gr_gfx g) {} n r'"
proof (cases "rn_body r \<noteq> None \<or> \<not> rn_owned r")
  case True
  then show ?thesis using assms(1,2) needs_owned by (auto simp: graph_resume_def runs_node_def)
next
  case False
  obtain b where b: "node_body gs cat (gr_gfx g) (nd_kind n) (node_name (nd_id n)) pre = Inr b" using assms(4) by blast
  show ?thesis
  proof (cases b)
    case None
    then have "\<not> needs_body (gr_gfx g) (nd_kind n)" using node_body_none [OF b] by simp
    then show ?thesis using assms(1,2) b None False by (simp add: graph_resume_def runs_node_def)
  next
    case (Some bd)
    then have "needs_body (gr_gfx g) (nd_kind n)" using node_body_none [OF b] by simp
    then obtain u where "node_upstream g n = Inr u" using upstream_there assms(5,6) by blast
    then show ?thesis using assms(1-3) b Some False by (simp add: graph_resume_def wire_up_def runs_node_def)
  qed
qed

definition owned_right :: "graphics_choice \<Rightarrow> node \<Rightarrow> running_node option \<Rightarrow> bool" where
  "owned_right gfx n o' \<longleftrightarrow> (\<forall>r. o' = Some r \<longrightarrow> rn_owned r = (\<not> is_source (nd_kind n) \<or> is_gpu gfx))"

lemma start_up:
  assumes "owned_right (gr_gfx g) n (graph_get g (nd_id n))"
    "gs_has gs ''tee''" "gs_add gs (nd_id n)" "gs_link gs (nd_id n)"
    "\<exists>b. node_body gs cat (gr_gfx g) (nd_kind n) (node_name (nd_id n)) pre = Inr b"
    "needs_body (gr_gfx g) (nd_kind n) \<Longrightarrow> is_source (nd_kind n) \<or> nd_inputs n \<noteq> []" "set (nd_inputs n) \<subseteq> graph_ids g"
  shows "\<exists>r. graph_get (snd (graph_start gs cat n p pre g)) (nd_id n) = Some r \<and> runs_node (gr_gfx g) {} n r"
proof (cases "graph_get g (nd_id n)")
  case (Some r)
  then show ?thesis using resume_up [OF Some _ assms(4,5,6,7)] assms(1) by (simp add: graph_start_def owned_right_def)
next
  case None
  show ?thesis
  proof (cases "is_source (nd_kind n) \<and> \<not> is_gpu (gr_gfx g)")
    case True
    then show ?thesis using None needs_owned by (auto simp: graph_start_def runs_node_def)
  next
    case False
    define t where "t = \<lparr>rn_outlet = Tee (node_name (nd_id n) @ ''-tee''), rn_owned = True, rn_body = None\<rparr>"
    have "set (nd_inputs n) \<subseteq> graph_ids (graph_put (nd_id n) t g)" using assms(7) by (auto simp: graph_ids_def)
    with resume_up [of "graph_put (nd_id n) t g" n t gs cat pre p] assms(4-6) False
    show ?thesis using None assms(2,3) False unfolding graph_start_def t_def by (simp only: if_False if_True not_not simp_thms) simp
  qed
qed

subsection \<open>In the order of the plan\<close>

fun fed_from :: "string set \<Rightarrow> node list \<Rightarrow> bool" where
  "fed_from A [] \<longleftrightarrow> True"
| "fed_from A (n # ns) \<longleftrightarrow> set (nd_inputs n) \<subseteq> A \<and> fed_from (insert (nd_id n) A) ns"

lemma fed_from_append: "fed_from A (ns @ [n]) \<longleftrightarrow> fed_from A ns \<and> set (nd_inputs n) \<subseteq> A \<union> nd_id ` set ns"
  by (induction ns arbitrary: A) auto

lemma inputs_first_fed: "inputs_first ns \<Longrightarrow> fed_from {} ns"
proof (induction ns rule: rev_induct)
  case (snoc n ns)
  have "inputs_first ns" using snoc.prems by (auto simp: inputs_first_def nth_append less_Suc_eq split: if_split_asm)
  moreover have "set (nd_inputs n) \<subseteq> nd_id ` set ns" using snoc.prems by (auto simp: inputs_first_def nth_append dest!: spec [of _ "length ns"])
  ultimately show ?case using snoc.IH by (simp add: fed_from_append)
qed simp

lemma fed_from_filter:
  "fed_from A ns \<Longrightarrow> A \<subseteq> B \<Longrightarrow> (\<And>n. n \<in> set ns \<Longrightarrow> \<not> P n \<Longrightarrow> nd_id n \<in> B) \<Longrightarrow> fed_from B (filter P ns)"
proof (induction ns arbitrary: A B)
  case (Cons n ns)
  show ?case
  proof (cases "P n")
    case True
    have "fed_from (insert (nd_id n) B) (filter P ns)"
      by (rule Cons.IH [of "insert (nd_id n) A"]) (use Cons.prems in auto)
    with True Cons.prems show ?thesis by auto
  next
    case False
    have "fed_from B (filter P ns)"
      by (rule Cons.IH [of "insert (nd_id n) A"]) (use Cons.prems False in auto)
    with False show ?thesis by simp
  qed
qed simp

lemma fed_from_mono: "fed_from A ns \<Longrightarrow> A \<subseteq> B \<Longrightarrow> fed_from B ns"
  using fed_from_filter [of A ns B "\<lambda>_. True"] by simp

definition startable :: "gst_env \<Rightarrow> catalogue \<Rightarrow> graphics_choice \<Rightarrow> node \<Rightarrow> bool" where
  "startable gs cat gfx n \<longleftrightarrow> gs_add gs (nd_id n) \<and> gs_link gs (nd_id n) \<and>
     (\<forall>pre. \<exists>b. node_body gs cat gfx (nd_kind n) (node_name (nd_id n)) pre = Inr b) \<and>
     (needs_body gfx (nd_kind n) \<longrightarrow> is_source (nd_kind n) \<or> nd_inputs n \<noteq> [])"

lemma outlets_grow_ids: "outlets_grow g g' \<Longrightarrow> graph_ids g \<subseteq> graph_ids g'"
  by (fastforce simp: outlets_grow_def graph_ids_def graph_outlet_def)

lemma starts_up:
  assumes "distinct (map nd_id ns)" "fed_from (graph_ids g) ns" "gs_has gs ''tee''" "\<forall>n \<in> set ns. startable gs cat (gr_gfx g) n"
    "\<forall>n \<in> set ns. owned_right (gr_gfx g) n (graph_get g (nd_id n))"
  shows "\<forall>n \<in> set ns. \<exists>r. graph_get (fold (start_in gs cat p presets) ns g) (nd_id n) = Some r \<and> runs_node (gr_gfx g) {} n r"
  using assms
proof (induction ns arbitrary: g)
  case (Cons n ns)
  define g1 where "g1 = start_in gs cat p presets n g"
  have t: "touched n g g1" using touched_start_in by (simp add: g1_def)
  have up: "\<exists>r. graph_get g1 (nd_id n) = Some r \<and> runs_node (gr_gfx g) {} n r"
    unfolding g1_def start_in_def by (rule start_up) (use Cons.prems in \<open>auto simp: startable_def\<close>)
  have gfx: "gr_gfx g1 = gr_gfx g" and same: "\<And>j. j \<noteq> nd_id n \<Longrightarrow> graph_get g1 j = graph_get g j"
    and ids: "graph_ids g \<subseteq> graph_ids g1"
    using t outlets_grow_ids by (auto simp: touched_def)
  have new: "nd_id n \<notin> nd_id ` set ns" using Cons.prems(1) by simp
  have others: "nd_id m \<noteq> nd_id n" if "m \<in> set ns" for m using that new by (metis image_eqI)
  have "fed_from (insert (nd_id n) (graph_ids g)) ns" using Cons.prems(2) by simp
  then have "fed_from (graph_ids g1) ns" by (rule fed_from_mono) (use ids up in \<open>auto simp: graph_ids_def\<close>)
  then have "\<forall>m \<in> set ns. \<exists>r. graph_get (fold (start_in gs cat p presets) ns g1) (nd_id m) = Some r \<and> runs_node (gr_gfx g) {} m r"
    using Cons.IH [of g1] Cons.prems gfx same others by simp
  moreover have "graph_get (fold (start_in gs cat p presets) ns g1) (nd_id n) = graph_get g1 (nd_id n)"
    using fold_start_in [of ns g1 gs cat p presets] Cons.prems(1) new by simp
  ultimately show ?case using up by (simp add: g1_def)
qed simp

subsection \<open>One plan after another\<close>

definition plan_named :: "plan \<Rightarrow> bool" where
  "plan_named p \<longleftrightarrow> (\<forall>n \<in> set (pl_nodes p). named n)"

lemma plan_for_named:
  assumes "plan_for s outputs = Inr p"
  shows "plan_named p"
proof -
  obtain m where "make_plan [(PROGRAMME, rd_source s)] (all_requests outputs) m = Inr p" using assms by (simp add: plan_for_def)
  then obtain rungs b where "plan_inv rungs b" "pl_nodes p = bd_nodes b" using make_plan_built finish_sel(1) by metis
  then show ?thesis by (simp add: plan_named_def plan_inv_def)
qed

lemma named_source: "named n \<Longrightarrow> is_source (nd_kind n) \<longleftrightarrow> starts_with ''source:'' (nd_id n)"
  by (cases "nd_kind n") (auto simp: named_def id_defs starts_with_def split: if_split_asm)

lemma needs_inputs: "named n \<Longrightarrow> needs_body gfx (nd_kind n) \<Longrightarrow> is_source (nd_kind n) \<or> nd_inputs n \<noteq> []"
  by (cases "nd_kind n") (auto simp: named_def needs_body_def)

lemma all_up_switch:
  assumes "all_up old g down" "graph_ids g \<subseteq> plan_ids old" "plan_sound old" "plan_sound new" "plan_named old" "plan_named new"
    "can_make gs cat (gr_gfx g) new" "\<And>i. i \<in> down \<Longrightarrow> i \<notin> set (df_stop (diff old new)) \<Longrightarrow> i \<notin> set (df_restart (diff old new)) \<Longrightarrow> i \<in> down'"
  shows "all_up new (fold (start_in gs cat new presets) (starting old new) (settled old new g)) down'" (is "all_up new ?h down'")
proof -
  let ?g1 = "settled old new g"
  have dist: "distinct (map nd_id (pl_nodes old))" "distinct (map nd_id (pl_nodes new))" and first: "inputs_first (pl_nodes new)"
    using assms(3,4) by (simp_all add: plan_sound_def)
  have gfx: "gr_gfx ?g1 = gr_gfx g" by (simp add: settled_def)
  have keeps: "\<exists>r. graph_get ?g1 (nd_id n) = Some r \<and> runs_node (gr_gfx g) down' n r"
    if n: "n \<in> set (pl_nodes new)" "nd_id n \<notin> nd_id ` set (starting old new)" for n
  proof (cases rule: starting_cases [OF n(1) dist(1)])
    case 1
    with n(2) show ?thesis by blast
  next
    case (2 was)
    from unchanged_keeps [OF dist(2) n(1) 2(5)] have same: "graph_get ?g1 (nd_id n) = graph_get g (nd_id was)"
      by (simp add: settled_get 2(2))
    from assms(1) 2(1) obtain r where "graph_get g (nd_id was) = Some r" "runs_node (gr_gfx g) down was r" by (auto simp: all_up_def)
    with same assms(8) [of "nd_id n"] unchanged_keeps [OF dist(2) n(1) 2(5)] 2(2,3) show ?thesis by (auto simp: runs_node_def)
  qed
  have "fed_from (graph_ids ?g1) (starting old new)"
    unfolding starting_def
  proof (rule fed_from_filter [OF inputs_first_fed [OF first]])
    fix n assume n: "n \<in> set (pl_nodes new)"
      "\<not> (nd_id n \<in> set (df_start (diff old new)) \<or> nd_id n \<in> set (df_restart (diff old new)))"
    then have "nd_id n \<notin> nd_id ` set (starting old new)" by (simp add: starting_ids(2) [OF dist(2)])
    with keeps n(1) show "nd_id n \<in> graph_ids ?g1" by (auto simp: graph_ids_def)
  qed simp
  moreover have "\<forall>n \<in> set (starting old new). startable gs cat (gr_gfx ?g1) n"
    using assms(6,7) needs_inputs by (auto simp: starting_def startable_def can_make_def plan_named_def gfx)
  moreover have "\<forall>n \<in> set (starting old new). owned_right (gr_gfx ?g1) n (graph_get ?g1 (nd_id n))"
    unfolding owned_right_def gfx
  proof (intro ballI allI impI)
    fix n r assume n: "n \<in> set (starting old new)" "graph_get ?g1 (nd_id n) = Some r"
    from n(2) obtain q where q: "graph_get g (nd_id n) = Some q" "rn_owned r = rn_owned q"
      by (auto simp: settled_get split: if_split_asm)
    then have "nd_id n \<in> plan_ids old" using assms(2) by (auto simp: graph_ids_def)
    then obtain m where m: "m \<in> set (pl_nodes old)" "nd_id m = nd_id n" by (auto simp: plan_ids_def)
    then have "rn_owned q = (\<not> is_source (nd_kind m) \<or> is_gpu (gr_gfx g))"
      using assms(1) q(1) by (auto simp: all_up_def runs_node_def)
    moreover have "is_source (nd_kind m) = is_source (nd_kind n)"
      using named_source assms(5,6) m n(1) by (simp add: plan_named_def starting_def)
    ultimately show "rn_owned r = (\<not> is_source (nd_kind n) \<or> is_gpu (gr_gfx g))" using q(2) by simp
  qed
  ultimately have up: "\<forall>n \<in> set (starting old new). \<exists>r. graph_get ?h (nd_id n) = Some r \<and> runs_node (gr_gfx g) {} n r"
    using starts_up [OF starting_ids(1) [OF dist(2), of old], of ?g1 gs cat new presets] assms(7) by (simp add: can_make_def gfx)
  note f = fold_start_in [OF starting_ids(1) [OF dist(2), of old], of ?g1 gs cat new presets]
  show ?thesis
    unfolding all_up_def
  proof
    fix n assume n: "n \<in> set (pl_nodes new)"
    show "\<exists>r. graph_get ?h (nd_id n) = Some r \<and> runs_node (gr_gfx ?h) down' n r"
    proof (cases "nd_id n \<in> nd_id ` set (starting old new)")
      case True
      then obtain m where m: "m \<in> set (starting old new)" "nd_id m = nd_id n" by auto
      then have "m = n" using same_id [OF dist(2)] n by (auto simp: starting_def)
      with up m f gfx show ?thesis by (auto simp: runs_node_def)
    next
      case False
      with f keeps [OF n False] gfx show ?thesis by simp
    qed
  qed
qed

subsection \<open>Runs where everything can be made\<close>

text \<open>
  A change is made where GStreamer and the catalogue serve the plan it leads to; a tick may come at any
  time and find anything; others may use the governor.
\<close>

definition served :: "gst_env \<Rightarrow> catalogue \<Rightarrow> (string \<times> rendition_request list) list \<Rightarrow> renditions \<Rightarrow> bool" where
  "served gs cat outputs s \<longleftrightarrow> (case plan_for s outputs of Inl e \<Rightarrow> True | Inr p \<Rightarrow> can_make gs cat (gr_gfx (rd_graph s)) p)"

inductive able_step :: "renditions \<Rightarrow> renditions \<Rightarrow> bool" where
  able_add: "(\<And>rs. expand out choice = Inr (Some rs) \<Longrightarrow> served gs cat (without_output out s @ [(out, rs)]) s) \<Longrightarrow>
    add_output gs cat out choice s = (r, s') \<Longrightarrow> able_step s s'"
| able_remove: "served gs cat (without_output out s) s \<Longrightarrow> able_step s (remove_output gs cat out s)"
| able_tick: "renditions_tick gs cat now s = (t, s') \<Longrightarrow> able_step s s'"
| able_other: "able_step s (s\<lparr>rd_governor := g\<rparr>)"

abbreviation able_run :: "renditions \<Rightarrow> renditions \<Rightarrow> bool" where
  "able_run \<equiv> able_step\<^sup>*\<^sup>*"

definition shed_ids :: "renditions \<Rightarrow> string set" where
  "shed_ids s = set (keys_of (rd_shed s))"

definition lively :: "renditions \<Rightarrow> bool" where
  "lively s \<longleftrightarrow> in_step s \<and> plan_named (rd_plan s) \<and> all_up (rd_plan s) (rd_graph s) (shed_ids s)"

lemma lively_cong:
  assumes "lively s" "rd_tickets s' = rd_tickets s" "rd_shed s' = rd_shed s" "rd_plan s' = rd_plan s" "rd_graph s' = rd_graph s"
  shows "lively s'"
  using assms in_step_cong [of s s'] by (simp add: lively_def shed_ids_def)

lemma lively_new: "lively (renditions_new g slots audio gfx source)"
  using in_step_new [of g slots audio gfx source]
  by (simp add: lively_def plan_named_def all_up_def) (simp add: renditions_new_def plan_default_def)

lemma lively_apply:
  assumes "apply_outputs gs cat outputs s = (r, s')" "lively s" "served gs cat outputs s"
  shows "lively s'"
  using assms(1)
proof (cases rule: apply_outputs_cases)
  case (refused new e g)
  with assms(2) show ?thesis by (auto intro: lively_cong)
next
  case (applied new gr g)
  define s0 where "s0 = s\<lparr>rd_governor := g\<rparr>"
  have a: "in_step s" "plan_named (rd_plan s)" "all_up (rd_plan s) (rd_graph s) (shed_ids s)" using assms(2) by (simp_all add: lively_def)
  have s0: "rd_plan s0 = rd_plan s" "rd_graph s0 = rd_graph s" "rd_shed s0 = rd_shed s" by (simp_all add: s0_def)
  have s': "rd_plan s' = new" "rd_graph s' = rd_graph (switch_to gs cat new gr s0)" "rd_shed s' = rd_shed (switch_to gs cat new gr s0)"
    using applied(4) by (simp_all add: s0_def)
  have "in_step s'" using in_step_apply assms(1) a(1) .
  moreover have "plan_named new" using plan_for_named applied(1) .
  moreover have "all_up new (rd_graph s') (shed_ids s')"
    unfolding s'(2) switch_sel(1) s0
  proof (rule all_up_switch [OF a(3) _ _ _ a(2) \<open>plan_named new\<close>])
    show "graph_ids (rd_graph s) \<subseteq> plan_ids (rd_plan s)" "plan_sound (rd_plan s)" using a(1) by (simp_all add: in_step_def)
    show "plan_sound new" using plan_for_ids [OF applied(1)] by (simp add: plan_sound_def)
    show "can_make gs cat (gr_gfx (rd_graph s)) new" using assms(3) applied(1) by (simp add: served_def)
    show "i \<in> shed_ids s'" if "i \<in> shed_ids s" "i \<notin> set (df_stop (diff (rd_plan s) new))" "i \<notin> set (df_restart (diff (rd_plan s) new))" for i
      using that by (auto simp: shed_ids_def s'(3) switch_sel(2) s0 set_keys_of)
  qed
  ultimately show ?thesis by (simp add: lively_def s'(1))
qed (use assms(2) in simp)

lemma lively_shed_one: "lively (fst sn) \<Longrightarrow> lively (fst (shed_one now st sn))"
proof -
  assume a: "lively (fst sn)"
  define s where "s = fst sn"
  obtain sn' where r: "shed_one now st sn = sn'" by simp
  then show ?thesis
  proof (cases rule: shed_one_cases)
    case (drop i)
    have "all_up (rd_plan s) (graph_suspend i (rd_graph s)) (insert i (shed_ids s))"
      using a unfolding s_def [symmetric] by (fastforce simp: lively_def all_up_def runs_node_def graph_get_suspend)
    moreover have "in_step (fst (shed_one now st sn))" using a in_step_shed_one by (simp add: lively_def)
    ultimately show ?thesis
      using a r drop by (simp add: lively_def shed_ids_def set_tree_put s_def [symmetric])
  qed (use a r in simp)
qed

lemma lively_restore:
  assumes "lively (fst sb)"
  shows "lively (fst (restore_one gs cat i sb))"
proof -
  obtain s names where sb: "sb = (s, names)" by (cases sb)
  have a: "in_step s" "plan_named (rd_plan s)" "all_up (rd_plan s) (rd_graph s) (shed_ids s)" using assms by (simp_all add: lively_def sb)
  obtain s' names' where r: "restore_one gs cat i (s, names) = (s', names')" by fastforce
  have step: "in_step s'" using in_step_restore [of sb gs cat i] a(1) r by (simp add: sb)
  from r have "all_up (rd_plan s') (rd_graph s') (shed_ids s') \<and> rd_plan s' = rd_plan s"
  proof (cases rule: restore_one_cases)
    case gone
    then have "i \<notin> plan_ids (rd_plan s)"
      using plan_node_distinct [of "rd_plan s"] a(1) by (auto simp: plan_ids_def in_step_def plan_sound_def)
    with a(3) gone show ?thesis by (auto simp: all_up_def runs_node_def shed_ids_def keys_tree_del plan_ids_def image_iff)
  next
    case (refused n e g)
    then show ?thesis using a(3) by (simp add: shed_ids_def)
  next
    case (failed n t' g e gr)
    from failed(3) have "gr = rd_graph s" by (cases rule: graph_resume_cases) simp_all
    with failed a(3) show ?thesis by (simp add: shed_ids_def)
  next
    case (restored n t' g gr)
    have n: "n \<in> set (pl_nodes (rd_plan s))" "nd_id n = i" using plan_node_mem [OF restored(1)] by simp_all
    have t: "touched n (rd_graph s) gr" using touched_resume [OF restored(3)] by simp
    obtain q where q: "graph_get (rd_graph s) i = Some q" "rn_owned q = (\<not> is_source (nd_kind n) \<or> is_gpu (gr_gfx (rd_graph s)))"
      using a(3) n by (auto simp: all_up_def runs_node_def)
    have here: "\<exists>q'. graph_get gr i = Some q' \<and> runs_node (gr_gfx (rd_graph s)) {} n q'"
      using restored(3) q n(2) needs_owned
      by (auto simp: graph_resume_def runs_node_def dest: node_body_None split: option.split_asm if_split_asm sum.split_asm)
    have s': "rd_plan s' = rd_plan s" "rd_graph s' = gr" "shed_ids s' = shed_ids s - {i}"
      using restored(4) by (auto simp: shed_ids_def keys_tree_del split: option.split_asm)
    have "\<exists>q'. graph_get gr (nd_id m) = Some q' \<and> runs_node (gr_gfx gr) (shed_ids s - {i}) m q'"
      if m: "m \<in> set (pl_nodes (rd_plan s))" for m
    proof (cases "nd_id m = i")
      case True
      then have "m = n" using same_id [OF _ m n(1)] n(2) a(1) by (simp add: in_step_def plan_sound_def)
      with here n(2) t show ?thesis by (auto simp: runs_node_def touched_def)
    next
      case False
      with a(3) m t n(2) show ?thesis by (auto simp: all_up_def runs_node_def touched_def)
    qed
    then show ?thesis by (simp add: all_up_def s')
  qed
  then have "all_up (rd_plan s') (rd_graph s') (shed_ids s')" "rd_plan s' = rd_plan s" by blast+
  with step a(2) r show ?thesis by (simp only: lively_def sb fst_conv simp_thms)
qed

lemma lively_fold: "(\<And>x y. lively (fst y) \<Longrightarrow> lively (fst (f x y))) \<Longrightarrow> lively (fst y) \<Longrightarrow> lively (fst (fold f xs y))"
  by (induction xs arbitrary: y) simp_all

lemma lively_tick:
  assumes "renditions_tick gs cat now s = (t, s')" "lively s"
  shows "lively s'"
proof -
  define sts where "sts = governor_shed (rd_governor s)"
  obtain s1 ns where s1: "fold (shed_one now) sts (s, []) = (s1, ns)" by fastforce
  have a1: "lively s1" using lively_fold [of "shed_one now" "(s, [])" sts] lively_shed_one assms(2) by (simp add: s1)
  obtain s2 bs where s2: "(if sts = [] then restore_due gs cat now s1 else (s1, [])) = (s2, bs)" by fastforce
  have "lively (fst (restore_due gs cat now s1))"
    unfolding restore_due_def by (rule lively_fold) (simp_all add: lively_restore a1)
  with s2 a1 have a2: "lively s2" by (auto split: if_split_asm)
  have "s' = (if ns \<noteq> [] \<or> bs \<noteq> [] then publish s2 else s2)"
    using assms(1) s1 s2 unfolding renditions_tick_def Let_def sts_def [symmetric] by (simp split: prod.split_asm)
  with a2 show ?thesis by (simp add: lively_cong)
qed

lemma lively_able: "able_step s s' \<Longrightarrow> lively s \<Longrightarrow> lively s'"
proof (induction rule: able_step.induct)
  case (able_add out choice gs cat s r s')
  from able_add(2) show ?case
    by (cases rule: add_output_cases) (use able_add lively_apply in blast)+
next
  case (able_remove gs cat out s)
  then show ?case using lively_apply [OF prod.collapse [symmetric]] by (simp add: remove_output_def)
next
  case (able_tick gs cat now s t s')
  then show ?case using lively_tick by blast
next
  case (able_other s g)
  then show ?case by (simp add: lively_cong)
qed

lemma lively_able_run: "able_run s s' \<Longrightarrow> lively s \<Longrightarrow> lively s'"
  by (induction rule: rtranclp_induct) (auto dest: lively_able)

end
