(* ===== verification/Renditions_Books.thy ===== *)
theory Renditions_Books
  imports Renditions_Run
begin

text \<open>
  The two accounts the renditions keep, as interpretations of \<open>ledger\<close>: that a governor whose promises
  fit its machine stays one, and that the book of a governor with no station is what others hold in it
  and one entry for each ticket in hand, so nothing leaks and nothing is given back twice.
\<close>

subsection \<open>Within the machine\<close>

definition in_line :: "ticket list \<Rightarrow> governor \<Rightarrow> bool" where
  "in_line ts g \<longleftrightarrow> sized g \<and> kept_within g"

lemma ask_governor_in_line:
  "in_line ts g \<Longrightarrow> numbers_left 1 g \<Longrightarrow> ask_governor g n rungs = Some (a, g') \<Longrightarrow> in_line us g'"
  using gstep_kept_within [OF ask_governor_step [of g n rungs a g']] numbers_left_Suc [of 0 g] by (simp add: in_line_def)

interpretation line: ledger in_line
proof unfold_locales
  fix t ts g assume "in_line (t # ts) g"
  then show "in_line ts (ticket_drop t g)"
    using gstep_kept_within [OF gstep.drop_ticket [of g t]] by (simp add: in_line_def)
next
  fix ts us g assume "mset ts = mset us" "in_line ts g"
  then show "in_line us g" by (simp add: in_line_def)
qed (rule ask_governor_in_line; assumption)+

lemma shared_run_in_line:
  assumes "shared_run s s'" "hash_ok (rd_tickets s)" "sized (rd_governor s)" "kept_within (rd_governor s)"
  shows "sized (rd_governor s') \<and> kept_within (rd_governor s')"
proof -
  have "accounted in_line [] s'"
    using assms(1)
  proof (induction rule: rtranclp_induct)
    case base
    then show ?case using assms(2-) by (simp add: accounted_def in_line_def)
  next
    case (step y z)
    from step(2) show ?case
    proof cases
      case own
      with step.IH line.rstep_accounted show ?thesis by blast
    next
      case (other g)
      with step.IH gstep_kept_within show ?thesis by (auto simp: accounted_def in_line_def)
    qed
  qed
  then show ?thesis by (simp add: accounted_def in_line_def)
qed

subsection \<open>A ticket for every entry\<close>

text \<open>
  The book holds the entries \<open>B\<close> of others and one for each of the tickets; the rest of the governor
  is that of \<open>M\<close>.
\<close>

definition numbers_of :: "ticket list \<Rightarrow> u64 set" where
  "numbers_of ts = tk_id ` set ts"

definition holds :: "governor \<Rightarrow> (u64 \<times> held) list \<Rightarrow> ticket list \<Rightarrow> governor \<Rightarrow> bool" where
  "holds M B ts g \<longleftrightarrow> numbered (gv_book g) \<and> gv_remote g = None \<and> g\<lparr>gv_book := book_default\<rparr> = M \<and>
     distinct (map tk_id ts) \<and> (\<forall>t \<in> set ts. \<not> tk_remote t) \<and> numbers_of ts \<subseteq> set (book_ids (gv_book g)) \<and>
     filter (\<lambda>e. fst e \<notin> numbers_of ts) (bk_held (gv_book g)) = B"

lemma numbers_of_simps [simp]: "numbers_of [] = {}" "numbers_of (t # ts) = insert (tk_id t) (numbers_of ts)"
  by (simp_all add: numbers_of_def)

lemma holds_start:
  "numbered (gv_book g) \<Longrightarrow> gv_remote g = None \<Longrightarrow> holds (g\<lparr>gv_book := book_default\<rparr>) (bk_held (gv_book g)) [] g"
  by (simp add: holds_def numbers_of_def)

lemma filter_insort_out: "\<not> P (k, h) \<Longrightarrow> filter P (insort_key fst (k, h) xs) = filter P xs"
  by (induction xs) auto

lemma holds_drop:
  assumes "holds M B (t # ts) g"
  shows "holds M B ts (ticket_drop t g)"
proof -
  define b where "b = gv_book g"
  have h: "numbered b" "distinct (map tk_id (t # ts))" "\<not> tk_remote t" "numbers_of (t # ts) \<subseteq> set (book_ids b)"
    "filter (\<lambda>e. fst e \<notin> numbers_of (t # ts)) (bk_held b) = B"
    using assms by (simp_all add: holds_def b_def)
  have new: "tk_id t \<notin> numbers_of ts" using h(2) by (simp add: numbers_of_def)
  have g': "ticket_drop t g = g\<lparr>gv_book := book_remove (tk_id t) b\<rparr>" using h(3) by (simp add: ticket_drop_def release_def b_def)
  have ids: "book_ids (book_remove (tk_id t) b) = filter (\<lambda>i. i \<noteq> tk_id t) (book_ids b)"
    by (simp add: book_ids_def book_remove_def filter_map comp_def)
  have "filter (\<lambda>e. fst e \<notin> numbers_of ts) (bk_held (book_remove (tk_id t) b)) = B"
    using h(5) by (simp add: book_remove_def conj_commute)
  moreover have "numbers_of ts \<subseteq> set (book_ids (book_remove (tk_id t) b))" using h(4) new by (auto simp: ids)
  ultimately show ?thesis using assms numbered_remove [OF h(1)] unfolding g' holds_def by simp
qed

lemma holds_grant:
  assumes "holds M B ts g" "numbers_left 1 g" "admit_local g c = (a, g')"
  shows "case a of Granted t \<Rightarrow> holds M B (t # ts) g' | Refused _ _ _ \<Rightarrow> holds M B ts g'"
  using assms(3)
proof (cases rule: admit_local_cases)
  case (grant t)
  define b where "b = gv_book g"
  define h where "h = held_of (tk_id t) (placed (gv_profile g) c)"
  have num: "numbered b" "bk_next b \<noteq> - 1" using assms(1) numbers_left_Suc [of 0 g] assms(2) by (simp_all add: holds_def b_def)
  have i: "tk_id t = bk_next b + 1" using grant(2) by (simp add: b_def)
  have fresh: "tk_id t \<notin> set (book_ids b)" using numbered_next(1) [OF num] by (simp add: i book_get_None book_ids_def)
  have book: "gv_book g' = book_insert (tk_id t) h (b\<lparr>bk_next := tk_id t\<rparr>)" using grant(6) by (simp add: h_def b_def)
  have held: "bk_held (gv_book g') = insort_key fst (tk_id t, h) (bk_held b)"
    using fresh by (simp add: book book_insert_def filter_key_id book_ids_def)
  have ids: "set (book_ids (gv_book g')) = insert (tk_id t) (set (book_ids b))" by (auto simp: book_ids_def held set_insort_key)
  have sub: "numbers_of ts \<subseteq> set (book_ids b)" using assms(1) by (simp add: holds_def b_def)
  have "numbered (gv_book g')" using numbered_grant [OF num i] by (simp add: book h_def)
  moreover have "filter (\<lambda>e. fst e \<notin> numbers_of (t # ts)) (bk_held (gv_book g')) = B"
  proof -
    have "filter (\<lambda>e. fst e \<notin> numbers_of (t # ts)) (bk_held (gv_book g')) = filter (\<lambda>e. fst e \<notin> numbers_of (t # ts)) (bk_held b)"
      unfolding held by (rule filter_insort_out) simp
    also have "\<dots> = filter (\<lambda>e. fst e \<notin> numbers_of ts) (bk_held b)"
    proof (rule filter_cong [OF refl])
      fix e assume "e \<in> set (bk_held b)"
      then have "fst e \<in> set (book_ids b)" by (simp add: book_ids_def)
      with fresh show "(fst e \<notin> numbers_of (t # ts)) = (fst e \<notin> numbers_of ts)" by auto
    qed
    finally show ?thesis using assms(1) by (simp add: holds_def b_def)
  qed
  moreover have "distinct (map tk_id (t # ts))" using assms(1) fresh sub by (auto simp: holds_def numbers_of_def)
  ultimately show ?thesis
    using assms(1) grant(1,4,6) ids sub by (auto simp: holds_def numbers_of_def)
qed (use assms(1) in simp)

lemma ask_governor_local:
  assumes "ask_governor g n rungs = Some (a, g')" "gv_remote g = None"
  shows "\<exists>c. admit_local g c = (a, g')"
  using assms(1)
proof (cases rule: ask_governor_cases)
  case (encoded slot shape what k)
  with assms(2) show ?thesis by (auto simp: admit_encode_def admit_claim_def)
qed (use assms(2) in \<open>auto simp: admit_claim_def\<close>)

interpretation books: ledger "holds M B" for M B
proof unfold_locales
  fix ts us g assume "mset ts = mset us" "holds M B ts g"
  moreover from this(1) have "distinct (map tk_id ts) = distinct (map tk_id us)"
    by (metis mset_eq_imp_distinct_iff mset_map)
  moreover have "set us = set ts" using \<open>mset ts = mset us\<close> by (metis mset_eq_setD)
  then have "numbers_of us = numbers_of ts" by (simp add: numbers_of_def)
  ultimately show "holds M B us g" using \<open>set us = set ts\<close> by (simp add: holds_def)
next
  fix ts g n rungs t g'
  assume "holds M B ts g" "numbers_left 1 g" "ask_governor g n rungs = Some (Granted t, g')"
  then show "holds M B (t # ts) g'" using ask_governor_local [of g n rungs "Granted t" g'] holds_grant
    by (fastforce simp: holds_def)
next
  fix ts g n rungs need room adv g'
  assume "holds M B ts g" "numbers_left 1 g" "ask_governor g n rungs = Some (Refused need room adv, g')"
  then show "holds M B ts g'" using ask_governor_local [of g n rungs "Refused need room adv" g'] holds_grant
    by (fastforce simp: holds_def)
qed (rule holds_drop)

lemma governor_book_ext:
  assumes "g\<lparr>gv_book := b\<rparr> = h\<lparr>gv_book := b\<rparr>" "bk_held (gv_book g) = bk_held (gv_book h)"
  shows "h\<lparr>gv_book := (gv_book h)\<lparr>bk_next := bk_next (gv_book g)\<rparr>\<rparr> = g"
proof -
  have "(gv_book h)\<lparr>bk_next := bk_next (gv_book g)\<rparr> = gv_book g" using assms(2) by simp
  moreover have "h\<lparr>gv_book := gv_book g\<rparr> = (h\<lparr>gv_book := b\<rparr>)\<lparr>gv_book := gv_book g\<rparr>" by simp
  moreover have "\<dots> = g" unfolding assms(1) [symmetric] by simp
  ultimately show ?thesis by simp
qed

text \<open>A refusal leaves the governor's book as it was; only numbers were used up.\<close>

lemma admit_all_refused:
  assumes "admit_all new rungs asked is [] g = (Inl e, g')" "numbers_left (length is) g" "distinct is"
    "numbered (gv_book g)" "gv_remote g = None"
  shows "g' = g\<lparr>gv_book := (gv_book g)\<lparr>bk_next := bk_next (gv_book g')\<rparr>\<rparr>"
proof -
  have "holds (g\<lparr>gv_book := book_default\<rparr>) (bk_held (gv_book g)) [] g'"
    using books.admit_all_owns [OF assms(1), of _ _ "[]"] holds_start [OF assms(4,5)] assms(2,3) by simp
  then have "g'\<lparr>gv_book := book_default\<rparr> = g\<lparr>gv_book := book_default\<rparr>" "bk_held (gv_book g') = bk_held (gv_book g)"
    by (simp_all add: holds_def numbers_of_def)
  from governor_book_ext [OF this] show ?thesis by simp
qed

text \<open>When all is stopped, what others hold is all there is.\<close>

lemma shutdown_holds:
  assumes "accounted (holds M B) [] s"
  shows "holds M B [] (rd_governor (renditions_shutdown s))"
  using books.rstep_accounted [OF rstep.shutdown assms] by (simp add: accounted_def renditions_shutdown_def)

end
