(* ===== verification/Example_Renditions.thy ===== *)
theory Example_Renditions
  imports Renditions_Live Renditions_Books Example_Plan
begin

text \<open>
  A programme, a machine and a list of encoders for the witnesses: one output that asks for sound alone,
  on a machine where everything can be made, and the same on an uplink too narrow for it.
\<close>

subsection \<open>One output\<close>

definition ex_programme :: stream_info where
  "ex_programme = stream_info_default\<lparr>si_video := Some ex_shape, si_audio := Some ex_sound\<rparr>"

definition ex_aac :: audio_entry where
  "ex_aac =
    \<lparr>ae_id = Some ''aac'', ae_codec = ''aac'', ae_accel = ''software'', ae_rank = 100, ae_encoder = Some ''avenc_aac'',
     ae_decoder = None, ae_parser = None, ae_requires = [], ae_properties = [], ae_container = [], ae_license = None,
     ae_max_channels = None, ae_priming_delay_ms = None, ae_verified = [], ae_comment = None, ae_disabled = False\<rparr>"

definition ex_codecs :: catalogue where
  "ex_codecs = \<lparr>ct_video = [], ct_audio = [ex_aac], ct_graphics = [], ct_container = [], ct_programme_container = None\<rparr>"

definition ex_gst :: gst_env where
  "ex_gst = \<lparr>gs_has = (\<lambda>f. True), gs_add = (\<lambda>i. True), gs_link = (\<lambda>i. True), gs_cpus = 8\<rparr>"

definition ex_gfx :: graphics_choice where
  "ex_gfx = \<lparr>gx_id = ''cpu'', gx_accel = ''software'', gx_rank = 0, gx_compositor = ''compositor'', gx_convert = ''videoconvert'',
     gx_upload = None, gx_download = None, gx_memory = ''system'', gx_why = []\<rparr>"

definition ex_box :: "governor_config \<Rightarrow> governor" where
  "ex_box cfg = with_machine cfg uncalibrated 32 65536"

definition ex_idle :: "governor_config \<Rightarrow> renditions" where
  "ex_idle cfg = renditions_new (ex_box cfg) [] [Aac] ex_gfx ex_programme"

definition ex_sound_only :: rendition_choice where
  "ex_sound_only = RequestChoice (rendition_request_default\<lparr>rq_no_video := True, rq_audio := Some audio_want_default\<rparr>)"

definition ex_sound_rq :: rendition_request where
  "ex_sound_rq = rendition_request_default\<lparr>rq_id := ''a'', rq_no_video := True, rq_audio := Some audio_want_default\<rparr>"

lemma ex_expand: "expand ''a'' ex_sound_only = Inr (Some [ex_sound_rq])"
  by code_simp

lemma ex_sound_plan:
  "(case plan_for (ex_idle governor_config_default) [(''a'', [ex_sound_rq])] of
      Inr p \<Rightarrow> Some (map (\<lambda>n. (nd_id n, nd_kind n)) (pl_nodes p)) | Inl e \<Rightarrow> None) =
   Some [(''source:programme'', Source ''programme''),
     (''aencode:programme:aac:2ch48000:128k'',
       AudioEncode ''programme'' \<lparr>as_codec = Aac, as_channels = 2, as_sample_rate = 48000, as_bitrate_kbps = 128\<rparr> 0),
     (''mux:a'', Mux ''a'' Flv)]"
  by code_simp

definition ex_sounding :: renditions where
  "ex_sounding = snd (add_output ex_gst ex_codecs ''a'' ex_sound_only (ex_idle governor_config_default))"

subsection \<open>An uplink too narrow\<close>

definition ex_narrow :: governor_config where
  "ex_narrow = governor_config_default\<lparr>gc_uplink_kbps := Some 100\<rparr>"

lemma ex_narrow_plan:
  "(case plan_for (ex_idle ex_narrow) [(''a'', [ex_sound_rq])] of Inr p \<Rightarrow> length (pl_nodes p) = 3 | Inl e \<Rightarrow> True)"
  by code_simp

text \<open>The sound encode is granted, then the Mux, which sends it, is refused.\<close>

lemma ex_narrow_refused:
  "(case add_output ex_gst ex_codecs ''a'' ex_sound_only (ex_idle ex_narrow) of
      (Inl e, s) \<Rightarrow> rf_code e = Safety \<and> bk_next (gv_book (rd_governor s)) = 1 | (Inr t, s) \<Rightarrow> False)"
  by code_simp

end
