(* ===== verification/Keyframes.thy ===== *)
theory Keyframes
  imports Prelude
begin

text \<open>
  Keyframes at the same running times on every encoder of a ladder
  (\<open>crates/godwinmix-core/src/render/keyframes.rs\<close>): the index of the interval a timestamp falls in, and
  the probe in front of an encoder that asks for a keyframe whenever the index changes.
\<close>

definition keyframe_slot :: "u64 \<Rightarrow> u32 \<Rightarrow> u64" where
  "keyframe_slot pts_ns interval_ms = (pts_ns + 500000) div (ucast (max interval_ms 1) * 1000000)"

text \<open>
  What the probe does with one buffer: the running time is the buffer's own where the segment gives
  none, a buffer with no timestamp passes, and the request carries the index cut to 32 bits. The probe
  keeps the last index, which starts at \<open>u64::MAX\<close>.
\<close>

record keyframe_request =
  kq_timestamp :: u64
  kq_running_time :: u64
  kq_count :: u32

definition probe_start :: u64 where
  "probe_start = - 1"

definition keyframe_probe :: "u32 \<Rightarrow> (u64 \<times> u64 option) option \<Rightarrow> u64 \<Rightarrow> keyframe_request option \<times> u64" where
  "keyframe_probe interval_ms buffer final =
    (case buffer of
       None \<Rightarrow> (None, final)
     | Some (pts, running) \<Rightarrow>
        (let t = (case running of Some r \<Rightarrow> r | None \<Rightarrow> pts);
             n = keyframe_slot t interval_ms
         in (if n = final then None
             else Some \<lparr>kq_timestamp = pts, kq_running_time = t, kq_count = ucast n\<rparr>, n)))"

text \<open>The frames that go by an encoder from when its probe is put in.\<close>

fun probe_run :: "u32 \<Rightarrow> (u64 \<times> u64 option) option list \<Rightarrow> u64 \<Rightarrow> keyframe_request option list" where
  "probe_run interval_ms [] final = []"
| "probe_run interval_ms (b # bs) final =
    (case keyframe_probe interval_ms b final of (q, final) \<Rightarrow> q # probe_run interval_ms bs final)"

end
