(* ===== verification/Renditions_Properties.thy ===== *)
theory Renditions_Properties
  imports Example_Renditions Keyframes
begin

text \<open>
  The properties of the running renditions: what holds after any run of changes, ticks and other users
  of the governor, what a refused change leaves, what is left when all is stopped, and that the
  keyframes of a ladder are asked for on the same frames.
\<close>

subsection \<open>The example as a run\<close>

lemma ex_sound_new:
  obtains p where "plan_for (ex_idle governor_config_default) [(''a'', [ex_sound_rq])] = Inr p"
    "map (\<lambda>n. (nd_id n, nd_kind n)) (pl_nodes p) = [(''source:programme'', Source ''programme''),
     (''aencode:programme:aac:2ch48000:128k'',
       AudioEncode ''programme'' \<lparr>as_codec = Aac, as_channels = 2, as_sample_rate = 48000, as_bitrate_kbps = 128\<rparr> 0),
     (''mux:a'', Mux ''a'' Flv)]"
  using ex_sound_plan by (cases "plan_for (ex_idle governor_config_default) [(''a'', [ex_sound_rq])]") auto

lemma ex_nothing_out: "without_output ''a'' (ex_idle cfg) @ [(''a'', [ex_sound_rq])] = [(''a'', [ex_sound_rq])]"
  by (simp add: without_output_def ex_idle_def renditions_new_def)

lemma ex_first_number: "bk_next (gv_book (rd_governor (ex_idle cfg))) = 0"
  by (simp add: ex_idle_def renditions_new_def ex_box_def with_machine_def book_default_def)

lemma ex_sound_fits: "change_fits (without_output ''a'' (ex_idle governor_config_default) @ [(''a'', [ex_sound_rq])])
    (ex_idle governor_config_default)"
proof -
  from ex_sound_new obtain p where p: "plan_for (ex_idle governor_config_default) [(''a'', [ex_sound_rq])] = Inr p"
    "map (\<lambda>n. (nd_id n, nd_kind n)) (pl_nodes p) = [(''source:programme'', Source ''programme''),
     (''aencode:programme:aac:2ch48000:128k'',
       AudioEncode ''programme'' \<lparr>as_codec = Aac, as_channels = 2, as_sample_rate = 48000, as_bitrate_kbps = 128\<rparr> 0),
     (''mux:a'', Mux ''a'' Flv)]" by blast
  from arg_cong [where f = length, OF p(2)] have "length (pl_nodes p) = 3" by simp
  with p(1) show ?thesis by (simp add: change_fits_def ex_nothing_out numbers_left_def ex_first_number)
qed

lemma ex_sounding_step: "rstep (ex_idle governor_config_default) ex_sounding"
proof (rule rstep.add)
  show "change_fits (without_output ''a'' (ex_idle governor_config_default) @ [(''a'', rs)]) (ex_idle governor_config_default)"
    if "expand ''a'' ex_sound_only = Inr (Some rs)" for rs
    using that ex_sound_fits ex_expand by simp
  show "add_output ex_gst ex_codecs ''a'' ex_sound_only (ex_idle governor_config_default) =
      (fst (add_output ex_gst ex_codecs ''a'' ex_sound_only (ex_idle governor_config_default)), ex_sounding)"
    by (simp add: ex_sounding_def)
qed

lemma ex_shared: "shared_run (ex_idle governor_config_default) ex_sounding"
  using ex_sounding_step shared_step.own by blast

subsection \<open>What holds at every moment\<close>

text \<open>C16: after any run of outputs added and removed, watchdog ticks and shutdowns, with the governor
  used by others in between, and whatever GStreamer and the catalogue answered: the graph has no node
  the plan does not have, every body reads the outlet of its node's first input, no encode runs without
  a ticket, and what was shed neither runs nor holds one.\<close>

theorem renditions_stay_in_step:
  assumes "shared_run (renditions_new g slots audio gfx source) s"
  shows "graph_ids (rd_graph s) \<subseteq> plan_ids (rd_plan s) \<and> wired (rd_plan s) (rd_graph s) \<and> ticketed s \<and> shed_idle s"
  using in_step_shared_run [OF assms in_step_new] by (simp add: in_step_def)

lemma renditions_stay_in_step_witness:
  "graph_ids (rd_graph ex_sounding) \<subseteq> plan_ids (rd_plan ex_sounding) \<and> wired (rd_plan ex_sounding) (rd_graph ex_sounding)
    \<and> ticketed ex_sounding \<and> shed_idle ex_sounding"
  using renditions_stay_in_step [OF ex_shared [unfolded ex_idle_def]] .

text \<open>What the control plane is shown is the plan that runs: at every moment of such a run the shared
  view is the view of the current plan with what is shed and whose request each node serves, and the shed
  notes are those of what is shed.\<close>

theorem page_sees_the_plan:
  assumes "shared_run (renditions_new g slots audio gfx source) s"
  shows "rd_shared s = view_of (rd_plan s) (rd_shed s) (owners_of (rd_outputs s))
    \<and> rd_notes s = List.map_filter (note_of (rd_plan s)) (rd_shed s)"
  using published_shared_run [OF assms in_step_new published_new] by (simp add: published_def)

lemma page_sees_the_plan_witness:
  "rd_shared ex_sounding = view_of (rd_plan ex_sounding) (rd_shed ex_sounding) (owners_of (rd_outputs ex_sounding))"
  using page_sees_the_plan [OF ex_shared [unfolded ex_idle_def]] by blast

text \<open>C20: the engine never makes the governor promise more than the machine has: from a governor within
  its line, every state a run of the renditions reaches, with others admitting and releasing in between,
  has one within its line in processor, memory, devices and uplink.\<close>

theorem engine_never_overcommits:
  assumes "shared_run (renditions_new g slots audio gfx source) s" "sized g" "kept_within g"
  shows "cpu_within (rd_governor s) \<and> memory_within (rd_governor s) \<and> devices_within (rd_governor s) \<and> uplink_within (rd_governor s)"
proof -
  have "kept_within (rd_governor s)"
    using shared_run_in_line [OF assms(1)] assms(2,3) by (simp add: renditions_new_def)
  then show ?thesis by (simp add: kept_within_def)
qed

lemma ex_box_kept: "sized (ex_box cfg) \<and> kept_within (ex_box cfg)"
proof -
  have "sized (ex_box cfg)" by (simp add: ex_box_def sized_def with_machine_def max_def)
  then show ?thesis using kept_within_start by (simp add: ex_box_def)
qed

lemma engine_never_overcommits_witness:
  "cpu_within (rd_governor ex_sounding) \<and> memory_within (rd_governor ex_sounding) \<and> devices_within (rd_governor ex_sounding)
    \<and> uplink_within (rd_governor ex_sounding)"
  using engine_never_overcommits [OF ex_shared [unfolded ex_idle_def]] ex_box_kept by blast

subsection \<open>A refused change, and the end\<close>

text \<open>C19: a change that is refused, by the planner or by the governor, half way through its admissions or
  at the first, leaves everything as it was: the outputs, the plan, the tickets, what is shed, the graph
  and what is shown, and in the governor's book every entry; only numbers may have been used up.\<close>

theorem refused_change_leaves_no_trace:
  assumes "add_output gs cat out choice s = (Inl e, s')" "gv_remote (rd_governor s) = None" "numbered (gv_book (rd_governor s))"
    "\<And>rs. expand out choice = Inr (Some rs) \<Longrightarrow> change_fits (without_output out s @ [(out, rs)]) s"
  shows "s' = s\<lparr>rd_governor := (rd_governor s)\<lparr>gv_book := (gv_book (rd_governor s))
    \<lparr>bk_next := bk_next (gv_book (rd_governor s'))\<rparr>\<rparr>\<rparr>"
  using assms(1)
proof (cases rule: add_output_cases)
  case (planned rs x)
  from planned(2) show ?thesis
  proof (cases rule: apply_outputs_cases)
    case (refused new e g)
    have dist: "distinct (map nd_id (pl_nodes new))" using plan_for_ids(1) [OF refused(1)] .
    have "numbers_left (length (pl_nodes new)) (rd_governor s)" using assms(4) [OF planned(1)] refused(1) by (simp add: change_fits_def)
    from numbers_left_mono [OF this diff_ids(2) [OF dist, of "rd_plan s"]]
    have "numbers_left (length (admit_order (diff (rd_plan s) new))) (rd_governor s)" by (simp only: admit_order_sel)
    from admit_all_refused [OF refused(4) this _ assms(3,2)] show ?thesis
      using refused(3) diff_ids(1) [OF dist] by (simp add: admit_order_sel)
  qed (use planned(3) in simp_all)
qed simp

lemma refused_change_leaves_no_trace_witness:
  "\<exists>e s'. add_output ex_gst ex_codecs ''a'' ex_sound_only (ex_idle ex_narrow) = (Inl e, s') \<and> rf_code e = Safety \<and>
     bk_next (gv_book (rd_governor s')) = 1 \<and> rd_outputs s' = [] \<and> bk_held (gv_book (rd_governor s')) = []"
proof -
  obtain e s' where r: "add_output ex_gst ex_codecs ''a'' ex_sound_only (ex_idle ex_narrow) = (Inl e, s')"
    "rf_code e = Safety" "bk_next (gv_book (rd_governor s')) = 1"
    using ex_narrow_refused
    by (cases "add_output ex_gst ex_codecs ''a'' ex_sound_only (ex_idle ex_narrow)"; cases "fst (add_output ex_gst ex_codecs ''a'' ex_sound_only (ex_idle ex_narrow))") auto
  have alone: "gv_remote (rd_governor (ex_idle ex_narrow)) = None" "numbered (gv_book (rd_governor (ex_idle ex_narrow)))"
    using ex_box_kept [of ex_narrow] by (simp_all add: ex_idle_def renditions_new_def kept_within_def) (simp add: ex_box_def with_machine_def)
  have fits: "change_fits (without_output ''a'' (ex_idle ex_narrow) @ [(''a'', rs)]) (ex_idle ex_narrow)"
    if "expand ''a'' ex_sound_only = Inr (Some rs)" for rs
    using that ex_expand ex_narrow_plan
    by (auto simp: ex_nothing_out change_fits_def numbers_left_def ex_first_number split: sum.split sum.split_asm)
  note same = refused_change_leaves_no_trace [OF r(1) alone fits]
  have "rd_outputs s' = rd_outputs (ex_idle ex_narrow)" using arg_cong [where f = rd_outputs, OF same] by simp
  moreover have "bk_held (gv_book (rd_governor s')) = bk_held (gv_book (rd_governor (ex_idle ex_narrow)))"
    using arg_cong [where f = "\<lambda>s. bk_held (gv_book (rd_governor s))", OF same] by simp
  ultimately show ?thesis using r by (simp add: ex_idle_def renditions_new_def ex_box_def with_machine_def book_default_def)
qed

text \<open>C18: the engine gives back all it took, and nothing else: after any run of its own operations on a
  governor with no station, the tickets it holds are in the governor's book under numbers of their own,
  the rest of the book and of the governor is what it started with, and after a shutdown the book has
  just the entries it had at the start.\<close>

theorem shutdown_gives_everything_back:
  assumes "rrun (renditions_new g slots audio gfx source) s" "gv_remote g = None" "numbered (gv_book g)"
  shows "numbers_of (map snd (rd_tickets s)) \<subseteq> set (book_ids (gv_book (rd_governor s)))
    \<and> distinct (map tk_id (map snd (rd_tickets s)))
    \<and> filter (\<lambda>e. fst e \<notin> numbers_of (map snd (rd_tickets s))) (bk_held (gv_book (rd_governor s))) = bk_held (gv_book g)
    \<and> bk_held (gv_book (rd_governor (renditions_shutdown s))) = bk_held (gv_book g)
    \<and> (rd_governor (renditions_shutdown s))\<lparr>gv_book := gv_book g\<rparr> = g"
proof -
  define h where "h = holds (g\<lparr>gv_book := book_default\<rparr>) (bk_held (gv_book g))"
  have "accounted h [] (renditions_new g slots audio gfx source)"
    using holds_start [OF assms(3,2)] by (simp add: accounted_def renditions_new_def h_def)
  then have a: "accounted h [] s" using books.rrun_accounted [OF assms(1)] by (simp add: h_def)
  then have now: "h (map snd (rd_tickets s)) (rd_governor s)" by (simp add: accounted_def)
  from shutdown_holds a have e: "h [] (rd_governor (renditions_shutdown s))" by (simp add: h_def)
  then have same: "(rd_governor (renditions_shutdown s))\<lparr>gv_book := book_default\<rparr> = g\<lparr>gv_book := book_default\<rparr>"
    by (simp add: h_def holds_def)
  have "(rd_governor (renditions_shutdown s))\<lparr>gv_book := gv_book g\<rparr>
      = ((rd_governor (renditions_shutdown s))\<lparr>gv_book := book_default\<rparr>)\<lparr>gv_book := gv_book g\<rparr>" by simp
  also have "\<dots> = g" unfolding same by simp
  finally show ?thesis using now e by (simp add: h_def holds_def comp_def)
qed

lemma shutdown_gives_everything_back_witness: "bk_held (gv_book (rd_governor (renditions_shutdown ex_sounding))) = []"
proof -
  have run: "rrun (renditions_new (ex_box governor_config_default) [] [Aac] ex_gfx ex_programme) ex_sounding"
    using ex_sounding_step by (simp add: ex_idle_def r_into_rtranclp)
  have "gv_remote (ex_box governor_config_default) = None" "numbered (gv_book (ex_box governor_config_default))"
    "bk_held (gv_book (ex_box governor_config_default)) = []"
    using ex_box_kept [of governor_config_default] by (simp_all add: kept_within_def) (simp_all add: ex_box_def with_machine_def book_default_def)
  with shutdown_gives_everything_back [OF run] show ?thesis by simp
qed

subsection \<open>What is planned runs\<close>

text \<open>C17: where GStreamer makes what it is asked for and the catalogue has the encoders, everything planned
  runs: after any run of changes, ticks that shed and bring back, and other users of the governor, every
  node of the plan has its outlet, and every node that has a body is running it, unless it is shed.\<close>

theorem planned_runs:
  assumes "able_run (renditions_new g slots audio gfx source) s"
  shows "all_up (rd_plan s) (rd_graph s) (shed_ids s)"
  using lively_able_run [OF assms lively_new] by (simp add: lively_def)

lemma ex_can_make:
  assumes "plan_for (ex_idle governor_config_default) [(''a'', [ex_sound_rq])] = Inr p"
  shows "can_make ex_gst ex_codecs ex_gfx p"
proof -
  define ks where "ks = [Source ''programme'',
      AudioEncode ''programme'' \<lparr>as_codec = Aac, as_channels = 2, as_sample_rate = 48000, as_bitrate_kbps = 128\<rparr> 0, Mux ''a'' Flv]"
  from ex_sound_new assms have "map (\<lambda>n. (nd_id n, nd_kind n)) (pl_nodes p) = [(''source:programme'', Source ''programme''),
     (''aencode:programme:aac:2ch48000:128k'',
       AudioEncode ''programme'' \<lparr>as_codec = Aac, as_channels = 2, as_sample_rate = 48000, as_bitrate_kbps = 128\<rparr> 0),
     (''mux:a'', Mux ''a'' Flv)]" by auto
  from arg_cong [where f = "map snd", OF this] have kinds: "map nd_kind (pl_nodes p) = ks" by (simp add: ks_def comp_def)
  have "audio_entries ex_codecs (\<lambda>f. True) = [ex_aac] \<and> audio_codec_named (ae_codec ex_aac) = Some Aac" by code_simp
  then have aac: "audio_entries ex_codecs (\<lambda>f. True) = [ex_aac]" "audio_codec_named (ae_codec ex_aac) = Some Aac"
    "ae_encoder ex_aac = Some ''avenc_aac''" "ae_parser ex_aac = None" by (simp_all add: ex_aac_def)
  have "\<exists>b. node_body ex_gst ex_codecs ex_gfx k name pre = Inr b" if "k \<in> set ks" for k name pre
    using that by (auto simp: ks_def node_body_def queue_time_def make_element_def ex_gst_def Let_def audio_encode_elements_def
        audio_encoder_def aac parser_def is_gpu_def ex_gfx_def)
  moreover have "nd_kind n \<in> set ks" if "n \<in> set (pl_nodes p)" for n using that kinds [symmetric] by simp
  moreover have "gs_has ex_gst ''tee''" "gs_add ex_gst i" "gs_link ex_gst i" for i by (simp_all add: ex_gst_def)
  ultimately show ?thesis by (simp add: can_make_def)
qed

lemma planned_runs_witness: "all_up (rd_plan ex_sounding) (rd_graph ex_sounding) (shed_ids ex_sounding)"
proof -
  have "able_step (ex_idle governor_config_default) ex_sounding"
  proof (rule able_step.able_add)
    have "gr_gfx (rd_graph (ex_idle governor_config_default)) = ex_gfx" by (simp add: ex_idle_def renditions_new_def graph_new_def)
    then show "served ex_gst ex_codecs (without_output ''a'' (ex_idle governor_config_default) @ [(''a'', rs)]) (ex_idle governor_config_default)"
      if "expand ''a'' ex_sound_only = Inr (Some rs)" for rs
      using that ex_expand ex_can_make by (auto simp: ex_nothing_out served_def split: sum.split)
    show "add_output ex_gst ex_codecs ''a'' ex_sound_only (ex_idle governor_config_default) =
        (fst (add_output ex_gst ex_codecs ''a'' ex_sound_only (ex_idle governor_config_default)), ex_sounding)"
      by (simp add: ex_sounding_def)
  qed
  then have "able_run (renditions_new (ex_box governor_config_default) [] [Aac] ex_gfx ex_programme) ex_sounding"
    by (simp add: ex_idle_def r_into_rtranclp)
  then show ?thesis by (rule planned_runs)
qed

subsection \<open>Keyframes\<close>

lemma probe_run_length [simp]: "length (probe_run m bs x) = length bs"
  by (induction bs arbitrary: x) (simp_all split: prod.split)

text \<open>When a frame of a stream of \<open>num / den\<close> frames a second is due, and a time less than half a millisecond off it.\<close>

definition on_frame :: "int \<Rightarrow> int \<Rightarrow> int \<Rightarrow> u64 \<Rightarrow> bool" where
  "on_frame num den n t \<longleftrightarrow> \<bar>num * uint t - n * den * 1000000000\<bar> < 500000 * num \<and> uint t + 500000 < 2 ^ 64"

definition frame_time :: "u64 \<times> u64 option \<Rightarrow> u64" where
  "frame_time b = (case snd b of Some r \<Rightarrow> r | None \<Rightarrow> fst b)"

lemma keyframe_probe_frame:
  "keyframe_probe m (Some b) x =
    (if keyframe_slot (frame_time b) m = x then None
     else Some \<lparr>kq_timestamp = fst b, kq_running_time = frame_time b, kq_count = ucast (keyframe_slot (frame_time b) m)\<rparr>,
     keyframe_slot (frame_time b) m)"
  by (cases b; cases "snd b") (simp_all add: keyframe_probe_def frame_time_def Let_def)

lemma slot_of_frame:
  assumes "0 < den" "0 < num" "num \<le> 1000 * den" "0 < k" "num * uint m = 1000 * den * k" "on_frame num den n t"
  shows "uint (keyframe_slot t m) = n div k"
proof -
  define I where "I = uint m * 1000000"
  define a where "a = uint t + 500000"
  have m: "0 < uint m" using assms(1,2,4,5) by (metis mult_pos_pos zero_less_mult_pos zero_less_numeral)
  have "1 \<le> m" using m by (simp add: word_le_def)
  then have "max m 1 = m" by (rule max_absorb1)
  moreover have "uint (ucast m * 1000000 :: u64) = I"
  proof -
    have "uint m < 2 ^ 32" using uint_bounded [of m] by simp
    then have "uint (ucast m :: u64) * uint (1000000 :: u64) < 2 ^ 64" by (simp add: uint_up_ucast is_up)
    then show ?thesis by (subst uint_mult_lem [THEN iffD1]) (simp_all add: uint_up_ucast is_up I_def)
  qed
  moreover have "uint (t + 500000) = a"
    using assms(6) by (subst uint_add_lem [THEN iffD1]) (simp_all add: on_frame_def a_def)
  ultimately have slot: "uint (keyframe_slot t m) = a div I" by (simp add: keyframe_slot_def uint_div)
  define e where "e = n * den * 1000000000"
  have I: "num * I = k * (den * 1000000000)" using assms(5) by (simp add: I_def algebra_simps)
  have near: "e < num * a" "num * a < e + den * 1000000000"
    using assms(3,6) by (auto simp: on_frame_def a_def e_def abs_less_iff algebra_simps)
  have n: "n = n div k * k + n mod k" "0 \<le> n mod k" "n mod k \<le> k - 1" using assms(4) pos_mod_bound [OF assms(4), of n] by simp_all
  have D: "0 < den * 1000000000" using assms(1) by simp
  have "num * (I * (n div k)) = n div k * k * (den * 1000000000)" using I by (simp add: mult.assoc [symmetric] mult.commute)
  also have "\<dots> \<le> n * (den * 1000000000)" using n D by (intro mult_right_mono) linarith+
  also have "\<dots> < num * a" using near(1) by (simp add: e_def mult.assoc)
  finally have low: "I * (n div k) < a" using assms(2) by simp
  have "num * a < n * (den * 1000000000) + den * 1000000000" using near(2) by (simp add: e_def mult.assoc)
  also have "\<dots> = (n + 1) * (den * 1000000000)" by (simp only: distrib_right mult_1)
  also have "\<dots> \<le> (n div k * k + k) * (den * 1000000000)" using n D by (intro mult_right_mono) linarith+
  also have "\<dots> = num * (I * (n div k + 1))"
  proof -
    have "(n div k * k + k) * (den * 1000000000) = (n div k + 1) * (k * (den * 1000000000))"
      by (simp only: distrib_right mult_1_left mult.assoc)
    also have "\<dots> = (n div k + 1) * (num * I)" using I by simp
    also have "\<dots> = num * (I * (n div k + 1))" by (simp only: mult.commute mult.left_commute)
    finally show ?thesis .
  qed
  finally have high: "a < I * (n div k + 1)" using assms(2) by simp
  have "a div I = n div k" by (rule int_div_pos_eq [of a I _ "a - I * (n div k)"]) (use low high in \<open>auto simp: distrib_left\<close>)
  then show ?thesis using slot by simp
qed

lemma div_steps:
  assumes "0 < (k :: int)"
  shows "(n + 1) div k \<noteq> n div k \<longleftrightarrow> k dvd n + 1"
proof -
  define q r where "q = n div k" and "r = n mod k"
  have n: "n = k * q + r" "0 \<le> r" "r < k" using assms by (simp_all add: q_def r_def)
  show ?thesis
  proof (cases "r + 1 = k")
    case True
    then have "n + 1 = k * (q + 1)" using n(1) by (simp add: distrib_left)
    then show ?thesis using assms by (simp add: q_def [symmetric])
  next
    case False
    then have "n + 1 = k * q + (r + 1)" "0 \<le> r + 1" "r + 1 < k" using n by simp_all
    then have "(n + 1) div k = q" "(n + 1) mod k = r + 1" using int_div_pos_eq int_mod_pos_eq by blast+
    then show ?thesis using n(2) by (simp add: q_def [symmetric] dvd_eq_mod_eq_0)
  qed
qed

lemma probe_nth:
  assumes "Suc i < length bs"
  shows "map_option kq_count (probe_run m (map Some bs) x ! Suc i) =
    (let s = keyframe_slot (frame_time (bs ! Suc i)) m in if s = keyframe_slot (frame_time (bs ! i)) m then None else Some (ucast s))"
  using assms
proof (induction bs arbitrary: i x)
  case (Cons b bs)
  then obtain c cs where bs: "bs = c # cs" by (cases bs) auto
  show ?case
  proof (cases i)
    case 0
    then show ?thesis by (simp add: bs keyframe_probe_frame Let_def)
  next
    case (Suc j)
    then show ?thesis using Cons by (simp split: prod.split)
  qed
qed simp

text \<open>C21: two rungs of a ladder ask for keyframes on the same frames, the ones at each multiple of the
  interval: where an interval is a whole number \<open>k\<close> of frames, at a thousand frames a second at most, and
  each rung sees every frame at a time of its own less than half a millisecond off the time the frame is
  due, whatever each probe saw before, the probes ask on just the frames numbered by a multiple of \<open>k\<close>, after
  the first they see, and with the same count.\<close>

theorem keyframes_align:
  assumes "0 < den" "0 < num" "num \<le> 1000 * den" "0 < k" "num * uint m = 1000 * den * k" "length cs = length bs"
    and frames: "\<And>i. i < length bs \<Longrightarrow> on_frame num den (n + int i) (frame_time (bs ! i)) \<and> on_frame num den (n + int i) (frame_time (cs ! i))"
    and i: "0 < i" "i < length bs"
  shows "(probe_run m (map Some bs) x ! i \<noteq> None \<longleftrightarrow> k dvd n + int i)
    \<and> map_option kq_count (probe_run m (map Some cs) y ! i) = map_option kq_count (probe_run m (map Some bs) x ! i)"
proof -
  obtain j where j: "i = Suc j" using i(1) by (cases i) auto
  have slot: "uint (keyframe_slot (frame_time (bs ! l)) m) = (n + int l) div k"
    "uint (keyframe_slot (frame_time (cs ! l)) m) = (n + int l) div k" if "l < length bs" for l
    using frames [OF that] by (simp_all add: slot_of_frame [OF assms(1-5)])
  have same: "keyframe_slot (frame_time (bs ! l)) m = keyframe_slot (frame_time (cs ! l)) m" if "l < length bs" for l
    using slot [OF that] by (simp add: word_uint_eq_iff)
  have "keyframe_slot (frame_time (bs ! i)) m \<noteq> keyframe_slot (frame_time (bs ! j)) m \<longleftrightarrow> k dvd n + int j + 1"
  proof -
    have "uint (keyframe_slot (frame_time (bs ! i)) m) = (n + int j + 1) div k" using slot(1) [OF i(2)] by (simp add: j ac_simps)
    moreover have "uint (keyframe_slot (frame_time (bs ! j)) m) = (n + int j) div k" using slot(1) [of j] i(2) by (simp add: j)
    ultimately show ?thesis unfolding word_uint_eq_iff using div_steps [OF assms(4), of "n + int j"] by simp
  qed
  moreover have "(probe_run m (map Some bs) x ! i \<noteq> None) = (map_option kq_count (probe_run m (map Some bs) x ! i) \<noteq> None)" by simp
  moreover have "map_option kq_count (probe_run m (map Some bs) x ! i) =
      (let s = keyframe_slot (frame_time (bs ! i)) m in if s = keyframe_slot (frame_time (bs ! j)) m then None else Some (ucast s))"
    using probe_nth [of j bs m x] i(2) unfolding j .
  moreover have "map_option kq_count (probe_run m (map Some cs) y ! i) = map_option kq_count (probe_run m (map Some bs) x ! i)"
    using probe_nth [of j bs m x] probe_nth [of j cs m y] i(2) assms(6) same [of i] same [of j] unfolding j by simp
  moreover have "k dvd n + int i \<longleftrightarrow> k dvd n + int j + 1" by (simp add: j ac_simps)
  ultimately show ?thesis by (simp only: Let_def) auto
qed

text \<open>Thirty frames a second, a keyframe a second: frame sixty a nanosecond short on one rung.\<close>

lemma keyframes_align_witness:
  "probe_run 1000 (map Some [(1966666666, None), (1999999999, None)]) probe_start ! 1 \<noteq> None"
proof -
  let ?bs = "[(1966666666, None), (1999999999, None)] :: (u64 \<times> u64 option) list" and ?cs = "[(1966666667, None), (2000000000, None)] :: (u64 \<times> u64 option) list"
  have "on_frame 30 1 (59 + int i) (frame_time (?bs ! i)) \<and> on_frame 30 1 (59 + int i) (frame_time (?cs ! i))" if "i < length ?bs" for i
    using that by (auto simp: less_Suc_eq on_frame_def frame_time_def)
  from keyframes_align [OF _ _ _ _ _ _ this, where k = 30 and m = 1000 and i = 1] show ?thesis by simp
qed

end
