(* ===== verification/Engine_Status.thy ===== *)
theory Engine_Status
  imports Renditions
begin

text \<open>
  What the control plane asks of the renditions (\<open>crates/godwinmix-core/src/render/status.rs\<close>): a choice
  priced on this machine, the built in presets with what each costs here or why it cannot be made, and
  the governor as it stands. The stamp of a calibration (when and under what key it was taken, and on how
  many cores), whether one is running and how many cores the machine has now are arguments.
\<close>

subsection \<open>Prices\<close>

definition price :: "governor \<Rightarrow> encoder_slot list \<Rightarrow> audio_codec list \<Rightarrow> stream_info \<Rightarrow> rendition_choice \<Rightarrow> string + cost" where
  "price g slots audio source choice =
    (case expand ''preset'' choice of
       Inl message \<Rightarrow> Inl message
     | Inr None \<Rightarrow> Inr cost_default
     | Inr (Some rs) \<Rightarrow>
        (case make_plan [(PROGRAMME, source)] (map (\<lambda>r. (PROGRAMME, r)) rs)
                (governor_cost_model (governor_model_new g slots audio [])) of
           Inl e \<Rightarrow> Inl (error_text e)
         | Inr p \<Rightarrow> Inr (pl_total p)))"

definition priced :: "governor \<Rightarrow> encoder_slot list \<Rightarrow> audio_codec list \<Rightarrow> stream_info \<Rightarrow> rendition_preset \<Rightarrow> rendition_preset" where
  "priced g slots audio source p =
    (case price g slots audio source (PresetChoice (ps_id p)) of
       Inr c \<Rightarrow> p\<lparr>ps_cost := Some c\<rparr>
     | Inl why \<Rightarrow> p\<lparr>ps_available := False, ps_why := Some why\<rparr>)"

definition presets_here :: "governor \<Rightarrow> encoder_slot list \<Rightarrow> audio_codec list \<Rightarrow> stream_info \<Rightarrow> rendition_preset list" where
  "presets_here g slots audio source = map (priced g slots audio source) builtin"

subsection \<open>The governor as it stands\<close>

record cpu_use =
  cu_cores :: u32
  cu_used_millicores :: u32
  cu_room_millicores :: u32
  cu_measured_millicores :: "u32 option"

record device_status =
  dv_id :: string
  dv_kind :: string
  dv_used_millis :: u32
  dv_room_millis :: u32
  dv_sessions_used :: u32
  dv_sessions_max :: "u32 option"

record governor_status =
  gt_calibrated_at :: "u64 option"
  gt_fingerprint :: "string option"
  gt_calibrating :: bool
  gt_cpu :: cpu_use
  gt_devices :: "device_status list"
  gt_egress_kbps :: u32
  gt_ingress_kbps :: u32
  gt_shed :: "shed_note list"

record cal_stamp =
  st_taken_unix :: u64
  st_fingerprint :: string
  st_cores :: u32

definition add_device :: "string \<Rightarrow> string list \<Rightarrow> string list" where
  "add_device d ds = (if d \<in> set ds then ds else ds @ [d])"

definition device_status_of :: "governor \<Rightarrow> string \<Rightarrow> device_status" where
  "device_status_of g d =
    (let mine = filter (\<lambda>h. hl_device h = Some d) (governor_held g);
         used = foldl (\<lambda>(m, s) h. (m + device_millis (hl_cost h), s + device_sessions (hl_cost h))) (0, 0) mine;
         room = headroom g (Some d)
     in \<lparr>dv_id = d, dv_kind = d, dv_used_millis = fst used, dv_room_millis = device_millis room, dv_sessions_used = snd used,
         dv_sessions_max = session_limit (gv_profile g) d\<rparr>)"

definition governor_status_of :: "governor \<Rightarrow> encoder_slot list \<Rightarrow> cal_stamp \<Rightarrow> bool \<Rightarrow> u32 \<Rightarrow> shed_note list \<Rightarrow> governor_status" where
  "governor_status_of g slots stamp calibrating cores_now notes =
    (let held = governor_held g;
         committed = foldl (\<lambda>a h. cost_plus a (hl_cost h)) cost_default held;
         l = governor_load g;
         used = (if 0 < ld_samples l then max (ld_own_millicores l) (cpu_millicores committed) else cpu_millicores committed);
         devices = fold add_device (List.map_filter es_device slots @ List.map_filter hl_device held) (profile_devices (gv_profile g))
     in \<lparr>gt_calibrated_at = (if is_calibrated (gv_profile g) then Some (st_taken_unix stamp) else None),
         gt_fingerprint = (if is_calibrated (gv_profile g) then Some (st_fingerprint stamp) else None),
         gt_calibrating = calibrating,
         gt_cpu = \<lparr>cu_cores = max (st_cores stamp) cores_now, cu_used_millicores = used,
                   cu_room_millicores = cpu_millicores (headroom g None), cu_measured_millicores = None\<rparr>,
         gt_devices = map (device_status_of g) devices,
         gt_egress_kbps = (if egress_kbps committed = UNLIMITED then 0 else egress_kbps committed),
         gt_ingress_kbps = 0,
         gt_shed = notes\<rparr>)"

text \<open>
  What it reports of a device is the book: what \<open>on_device\<close> sums. The sessions it shows as the most a
  device has are the profile's, where admission (\<open>limit_on\<close>) goes by the configuration first.
\<close>

lemma device_status_book:
  "(dv_used_millis (device_status_of g d), dv_sessions_used (device_status_of g d)) = on_device (gv_book g) d"
  by (simp add: device_status_of_def Let_def on_device_def governor_held_def)

lemma status_limit_not_configured:
  "dv_sessions_max (device_status_of g d) = limit_on g d \<longleftrightarrow>
     (case sessions_on (gv_config g) d of None \<Rightarrow> True | Some l \<Rightarrow> session_limit (gv_profile g) d = Some l)"
  by (auto simp: device_status_of_def Let_def limit_on_def split: option.split)

end
