(* ===== verification/Clock.thy ===== *)
theory Clock
  imports Prelude Float64
begin

text \<open>
  Times. An \<open>Instant\<close> is a count of nanoseconds on the process's clock and a \<open>Duration\<close> a number of
  nanoseconds; both are unbounded here, since a clock that runs out of its 64 bit seconds is outside
  what the code considers. The histories the code keeps are lists of instants, oldest first.
\<close>

type_synonym instant = int
type_synonym duration = int

definition since :: "instant \<Rightarrow> instant \<Rightarrow> duration" where
  "since now t = max 0 (now - t)"

definition secs :: "int \<Rightarrow> duration" where
  "secs s = s * 1000000000"

text \<open>\<open>as_millis() as u64\<close>.\<close>

definition millis :: "duration \<Rightarrow> u64" where
  "millis d = word_of_int (d div 1000000)"

definition of_millis :: "u64 \<Rightarrow> duration" where
  "of_millis w = uint w * 1000000"

text \<open>\<open>Duration::from_secs_f64\<close> rounds to the nanosecond, ties to even.\<close>

definition from_secs_f64 :: "f64 \<Rightarrow> duration" where
  "from_secs_f64 s = half_even (s * 1000000000)"

lemma since_le: "t \<le> now \<Longrightarrow> since now t = now - t"
  by (simp add: since_def)

lemma since_nonneg [simp]: "0 \<le> since now t"
  by (simp add: since_def)

text \<open>The milliseconds read off a time never say more than has passed.\<close>

lemma millis_le: "0 \<le> d \<Longrightarrow> of_millis (millis d) \<le> d"
proof -
  assume "0 \<le> d"
  then have "uint (millis d) \<le> d div 1000000"
    by (simp add: millis_def uint_word_of_int zmod_le_nonneg_dividend pos_imp_zdiv_nonneg_iff)
  then show ?thesis by (simp add: of_millis_def)
qed

lemma millis_exact: "0 \<le> d \<Longrightarrow> d < 1000000 * 2 ^ 64 \<Longrightarrow> uint (millis d) = d div 1000000"
  by (simp add: millis_def uint_word_of_int pos_imp_zdiv_nonneg_iff)

lemma millis_reached: "0 \<le> d \<Longrightarrow> w \<le> millis d \<Longrightarrow> of_millis w \<le> d"
  using millis_le [of d] by (simp add: of_millis_def word_le_def)

subsection \<open>Histories\<close>

text \<open>Dropping from the front what is too old keeps, of a sorted history, just what is recent.\<close>

lemma recent_suffix:
  assumes "sorted ts"
  shows "dropWhile (\<lambda>t. d \<le> since now t) ts = filter (\<lambda>t. since now t < d) ts"
  using assms
proof (induction ts)
  case (Cons t ts)
  have "since now u < d" if "u \<in> set ts" "since now t < d" for u
    using that Cons.prems by (auto simp: since_def)
  then have "filter (\<lambda>t. since now t < d) ts = ts" if "since now t < d" using that by (simp add: filter_id_conv)
  with Cons show ?case by (auto simp: not_le)
qed simp

end
