(* ===== verification/Safety.thy ===== *)
theory Safety
  imports Text Clock
begin

text \<open>
  The rules that stand in front of a take (\<open>crates/godwinmix-core/src/safety.rs\<close>): a minimum hold, a
  rate limit, a flash guard and the watchdog on the operator. A method that takes the lock is one step
  of the guard; the clock is an argument. Of a token only its name, whether it is an agent's and its
  own numbers are read.
\<close>

subsection \<open>The numbers\<close>

definition FLASH_SEPARATION_MS :: u64 where "FLASH_SEPARATION_MS = 360"
definition FLASH_SEPARATION_MS_60HZ :: u64 where "FLASH_SEPARATION_MS_60HZ = 334"
definition FLASHES_PER_SECOND :: nat where "FLASHES_PER_SECOND = 3"
definition FLASH_LUMINANCE_CD_M2 :: f64 where "FLASH_LUMINANCE_CD_M2 = 20"
definition FLASH_AREA_FRACTION :: f64 where "FLASH_AREA_FRACTION = 1 / 4"
definition AGENT_MIN_HOLD_MS :: u64 where "AGENT_MIN_HOLD_MS = 8000"
definition AGENT_MAX_TAKES_PER_MINUTE :: u32 where "AGENT_MAX_TAKES_PER_MINUTE = 12"

datatype silence_action = SilenceAlert | SilenceHold | SilenceSlate | SilenceFallback string

definition silence_text :: "silence_action \<Rightarrow> string" where
  "silence_text a = (case a of SilenceAlert \<Rightarrow> ''alert'' | SilenceHold \<Rightarrow> ''hold'' | SilenceSlate \<Rightarrow> ''slate''
     | SilenceFallback i \<Rightarrow> ''fallback:'' @ i)"

definition silence_parse :: "string \<Rightarrow> string + silence_action" where
  "silence_parse t =
    (let word = trim t in
     if word = ''alert'' then Inr SilenceAlert else if word = ''hold'' then Inr SilenceHold
     else if word = ''slate'' then Inr SilenceSlate
     else case strip_prefix ''fallback:'' word of
       Some i \<Rightarrow> if trim i \<noteq> [] then Inr (SilenceFallback (trim i)) else Inl t
     | None \<Rightarrow> Inl t)"

record safety_config =
  sc_min_hold_ms :: u64
  sc_max_takes_per_minute :: u32
  sc_flash_guard :: bool
  sc_silence_after_secs :: u64
  sc_silence_action :: silence_action

definition safety_config_default :: safety_config where
  "safety_config_default = \<lparr>sc_min_hold_ms = 0, sc_max_takes_per_minute = 120, sc_flash_guard = True,
     sc_silence_after_secs = 120, sc_silence_action = SilenceAlert\<rparr>"

record token_safety =
  ts_min_hold_ms :: "u64 option"
  ts_max_takes_per_minute :: "u32 option"
  ts_flash_guard :: "bool option"

record token =
  to_id :: string
  to_agent :: bool
  to_safety :: "token_safety option"

record limits =
  lm_min_hold_ms :: u64
  lm_max_takes_per_minute :: u32
  lm_flash_guard :: bool

definition or_this :: "'a option \<Rightarrow> 'a \<Rightarrow> 'a" where
  "or_this x d = (case x of Some v \<Rightarrow> v | None \<Rightarrow> d)"

definition tighten :: "limits \<Rightarrow> token_safety \<Rightarrow> limits" where
  "tighten mine over =
    \<lparr>lm_min_hold_ms = (case ts_min_hold_ms over of None \<Rightarrow> lm_min_hold_ms mine | Some v \<Rightarrow> max v (lm_min_hold_ms mine)),
     lm_max_takes_per_minute =
       (case ts_max_takes_per_minute over of None \<Rightarrow> lm_max_takes_per_minute mine | Some v \<Rightarrow> min v (lm_max_takes_per_minute mine)),
     lm_flash_guard = (lm_flash_guard mine \<or> or_this (ts_flash_guard over) False)\<rparr>"

definition for_token :: "safety_config \<Rightarrow> token \<Rightarrow> limits" where
  "for_token c t =
    (let mine = \<lparr>lm_min_hold_ms = sc_min_hold_ms c, lm_max_takes_per_minute = sc_max_takes_per_minute c,
                lm_flash_guard = sc_flash_guard c\<rparr>;
         mine = (if to_agent t
                 then mine\<lparr>lm_min_hold_ms := max (lm_min_hold_ms mine) AGENT_MIN_HOLD_MS,
                           lm_max_takes_per_minute := min (lm_max_takes_per_minute mine) AGENT_MAX_TAKES_PER_MINUTE\<rparr>
                 else mine)
     in case to_safety t of
          None \<Rightarrow> mine
        | Some over \<Rightarrow>
            if to_agent t then tighten mine over
            else \<lparr>lm_min_hold_ms = or_this (ts_min_hold_ms over) (lm_min_hold_ms mine),
                  lm_max_takes_per_minute = or_this (ts_max_takes_per_minute over) (lm_max_takes_per_minute mine),
                  lm_flash_guard = or_this (ts_flash_guard over) (lm_flash_guard mine)\<rparr>)"

subsection \<open>The guard\<close>

record take_history =
  th_takes :: "instant list"
  th_last_take :: "instant option"
  th_flashes :: "instant list"
  th_operator :: "string option"
  th_last_call :: "instant option"
  th_silent :: bool
  th_luma_observed :: bool

record guard =
  gd_cfg :: safety_config
  gd_fps :: u32
  gd_state :: take_history

definition take_history_default :: take_history where
  "take_history_default = \<lparr>th_takes = [], th_last_take = None, th_flashes = [], th_operator = None, th_last_call = None,
     th_silent = False, th_luma_observed = False\<rparr>"

definition guard_new :: "safety_config \<Rightarrow> u32 \<Rightarrow> guard" where
  "guard_new c fps = \<lparr>gd_cfg = c, gd_fps = fps, gd_state = take_history_default\<rparr>"

definition guard_set_config :: "safety_config \<Rightarrow> guard \<Rightarrow> guard" where
  "guard_set_config c g = g\<lparr>gd_cfg := c\<rparr>"

definition flash_separation_ms :: "guard \<Rightarrow> u64" where
  "flash_separation_ms g = (if 50 \<le> gd_fps g then FLASH_SEPARATION_MS_60HZ else FLASH_SEPARATION_MS)"

definition trim_flashes :: "instant \<Rightarrow> take_history \<Rightarrow> take_history" where
  "trim_flashes now h =
    (let fs = dropWhile (\<lambda>t. secs 2 \<le> since now t) (th_flashes h) in h\<lparr>th_flashes := drop (length fs - 16) fs\<rparr>)"

definition forget_before :: "instant \<Rightarrow> take_history \<Rightarrow> take_history" where
  "forget_before now h = trim_flashes now (h\<lparr>th_takes := dropWhile (\<lambda>t. secs 60 \<le> since now t) (th_takes h)\<rparr>)"

subsection \<open>Refusals\<close>

record hold_button =
  hb_label :: string
  hb_key :: string
  hb_value :: int
  hb_applies :: string

record take_refusal =
  tr_rule :: string
  tr_retry_after_ms :: u64
  tr_message :: string
  tr_action :: "hold_button option"

text \<open>Milliseconds as a person reads them.\<close>

definition seconds_text :: "u64 \<Rightarrow> string" where
  "seconds_text ms =
    (let tenths = (uint ms + 99) div 100
     in if tenths mod 10 = 0 then show_int (tenths div 10) @ '' s''
        else show_int (tenths div 10) @ ''.'' @ show_int (tenths mod 10) @ '' s'')"

definition silence_refusal :: "guard \<Rightarrow> take_refusal" where
  "silence_refusal g =
    \<lparr>tr_rule = ''operator_silence'', tr_retry_after_ms = 0,
     tr_message = ''the programme is held: '' @ [CHR 0x27] @ or_this (th_operator (gd_state g)) ''nobody'' @
       [CHR 0x27] @ '' made the last take and then made no call for '' @ show_word (sc_silence_after_secs (gd_cfg g)) @
       '' seconds, so on_operator_silence took over. Any call from a token releases the hold; call program.get and then take again.'',
     tr_action = None\<rparr>"

definition hold_refusal :: "token \<Rightarrow> u64 \<Rightarrow> u64 \<Rightarrow> take_refusal" where
  "hold_refusal t held hold =
    (let left = hold - held in
     \<lparr>tr_rule = ''min_hold'', tr_retry_after_ms = left,
      tr_message =
        (if to_agent t
         then ''the shot on air has been up for '' @ show_word held @ '' ms and an agent holds a shot for '' @ show_word hold @
           '' ms, so there are '' @ show_word left @ '' ms left. Wait '' @ show_word left @ '' ms and take again.''
         else ''the shot on air has been up for '' @ seconds_text held @ '' and this mixer holds every shot for '' @
           seconds_text hold @ '', so wait '' @ seconds_text left @
           '' and take again. The hold is Least time between takes in Settings (safety.min_hold_ms), and a change to it applies at once.''),
      tr_action = (if to_agent t then None
        else Some \<lparr>hb_label = ''Turn the hold off'', hb_key = ''safety.min_hold_ms'', hb_value = 0, hb_applies = ''live''\<rparr>)\<rparr>)"

definition rate_refusal :: "nat \<Rightarrow> u32 \<Rightarrow> u64 \<Rightarrow> take_refusal" where
  "rate_refusal made allowed left =
    \<lparr>tr_rule = ''rate_limit'', tr_retry_after_ms = left,
     tr_message = show_int (int made) @ '' takes have been made in the last minute and this core allows '' @ show_word allowed @
       '', so there are '' @ show_word left @ '' ms left. Wait '' @ show_word left @ '' ms and take again.'',
     tr_action = None\<rparr>"

definition flash_message :: "string \<Rightarrow> u64 \<Rightarrow> take_refusal" where
  "flash_message why left =
    \<lparr>tr_rule = ''flash_guard'', tr_retry_after_ms = left,
     tr_message = why @ '' There are '' @ show_word left @ '' ms left. Wait '' @ show_word left @ '' ms and take again.'',
     tr_action = None\<rparr>"

text \<open>How long until an instant is the given milliseconds old, one at least.\<close>

definition left_of :: "u64 \<Rightarrow> instant \<Rightarrow> instant \<Rightarrow> u64" where
  "left_of ms now t = max (saturating_sub ms (millis (since now t))) 1"

definition flash_refusal :: "guard \<Rightarrow> instant \<Rightarrow> take_refusal option" where
  "flash_refusal g now =
    (case rev (th_flashes (gd_state g)) of
       [] \<Rightarrow> None
     | final # _ \<Rightarrow>
        (let separation = flash_separation_ms g;
             age = millis (since now final);
             recent = filter (\<lambda>f. since now f < secs 1) (th_flashes (gd_state g))
         in if age < separation
            then Some (flash_message (''the last cut changed the picture'' @ [CHR 0x27] @ ''s brightness sharply, and ITU-R BT.1702-3 holds such a cut ''
                   @ show_word separation @ '' ms from the next one.'') (separation - age))
            else if FLASHES_PER_SECOND \<le> length recent
            then (case recent of [] \<Rightarrow> None
                  | oldest # _ \<Rightarrow> Some (flash_message (''there have already been '' @ show_int (int (length recent)) @
                      '' sharp changes of brightness in the last second, which is the most ITU-R BT.1702-3 allows.'')
                      (left_of 1000 now oldest)))
            else None))"

subsection \<open>May this token take now\<close>

definition held_back :: "limits \<Rightarrow> token \<Rightarrow> instant \<Rightarrow> bool \<Rightarrow> take_history \<Rightarrow> take_refusal option" where
  "held_back ls t now min_hold h =
    (case (if min_hold then th_last_take h else None) of
       Some final \<Rightarrow>
         if millis (since now final) < lm_min_hold_ms ls
         then Some (hold_refusal t (millis (since now final)) (lm_min_hold_ms ls)) else None
     | None \<Rightarrow> None)"

definition check_inner :: "token \<Rightarrow> instant \<Rightarrow> bool \<Rightarrow> guard \<Rightarrow> take_refusal option \<times> guard" where
  "check_inner t now min_hold g =
    (let ls = for_token (gd_cfg g) t;
         h = forget_before now (gd_state g);
         g = g\<lparr>gd_state := h\<rparr>
     in (if th_silent h then Some (silence_refusal g)
         else case held_back ls t now min_hold h of
           Some r \<Rightarrow> Some r
         | None \<Rightarrow>
             if unat (lm_max_takes_per_minute ls) \<le> length (th_takes h)
             then Some (rate_refusal (length (th_takes h)) (lm_max_takes_per_minute ls)
                    (left_of 60000 now (case th_takes h of [] \<Rightarrow> now | oldest # _ \<Rightarrow> oldest)))
             else if lm_flash_guard ls then flash_refusal g now else None, g))"

definition check_at :: "token \<Rightarrow> instant \<Rightarrow> guard \<Rightarrow> take_refusal option \<times> guard" where
  "check_at t now g = check_inner t now True g"

definition check_revert :: "token \<Rightarrow> instant \<Rightarrow> guard \<Rightarrow> take_refusal option \<times> guard" where
  "check_revert t now g = check_inner t now False g"

definition record_at :: "string \<Rightarrow> instant \<Rightarrow> guard \<Rightarrow> guard" where
  "record_at i now g =
    (let h = forget_before now (gd_state g)
     in g\<lparr>gd_state := h\<lparr>th_takes := th_takes h @ [now], th_last_take := Some now, th_operator := Some i,
            th_last_call := Some now, th_silent := False\<rparr>\<rparr>)"

definition note_call :: "string \<Rightarrow> instant \<Rightarrow> guard \<Rightarrow> guard" where
  "note_call i now g =
    (let h = gd_state g;
         h = (if th_operator h = Some i then h\<lparr>th_last_call := Some now\<rparr> else h)
     in g\<lparr>gd_state := h\<lparr>th_silent := False\<rparr>\<rparr>)"

definition note_flash :: "instant \<Rightarrow> guard \<Rightarrow> guard" where
  "note_flash now g =
     g\<lparr>gd_state := trim_flashes now ((gd_state g)\<lparr>th_flashes := th_flashes (gd_state g) @ [now]\<rparr>)\<rparr>"

definition set_luma_observed :: "bool \<Rightarrow> guard \<Rightarrow> guard" where
  "set_luma_observed b g = g\<lparr>gd_state := (gd_state g)\<lparr>th_luma_observed := b\<rparr>\<rparr>"

definition silent_operator :: "instant \<Rightarrow> guard \<Rightarrow> string option" where
  "silent_operator now g =
    (let h = gd_state g in
     if th_silent h then None
     else case (th_last_call h, th_operator h) of
       (Some final, Some who) \<Rightarrow> if secs (uint (sc_silence_after_secs (gd_cfg g))) \<le> since now final then Some who else None
     | _ \<Rightarrow> None)"

definition arm_silence :: "bool \<Rightarrow> instant \<Rightarrow> guard \<Rightarrow> guard" where
  "arm_silence hold now g = g\<lparr>gd_state := (gd_state g)\<lparr>th_last_call := Some now, th_silent := hold\<rparr>\<rparr>"

subsection \<open>What a flash is\<close>

text \<open>\<open>powf(2.4)\<close> is the library's and is the argument \<open>gamma\<close>.\<close>

definition luminance_cd_m2 :: "(f64 \<Rightarrow> f64) \<Rightarrow> u8 \<Rightarrow> f64" where
  "luminance_cd_m2 gamma luma8 = f_mul 100 (gamma (max 0 (min 1 (f_div (f_sub (f_of luma8) 16) 219))))"

definition is_flash :: "(f64 \<Rightarrow> f64) \<Rightarrow> u8 list \<Rightarrow> u8 list \<Rightarrow> bool" where
  "is_flash gamma before after \<longleftrightarrow>
     length before = length after \<and> before \<noteq> [] \<and>
     FLASH_AREA_FRACTION < f_div (of_nat (length (filter (\<lambda>(a, b).
         FLASH_LUMINANCE_CD_M2 \<le> \<bar>f_sub (luminance_cd_m2 gamma a) (luminance_cd_m2 gamma b)\<bar>) (zip before after))))
       (of_nat (length before))"

end
