(* ===== verification/Safety_Run.thy ===== *)
theory Safety_Run
  imports Safety
begin

text \<open>
  What the guard remembers. \<open>guarded g ts fs t\<close> holds of a guard that any calls can have led to, in any
  order and from any callers on a clock that does not go back, with every take recorded (\<open>ts\<close>), every
  flash noted (\<open>fs\<close>) and the time of the latest call. The two queues of the guard are cut short; what
  was cut is shown not to matter to any answer.
\<close>

inductive guarded :: "guard \<Rightarrow> instant list \<Rightarrow> instant list \<Rightarrow> instant \<Rightarrow> bool" where
  fresh: "guarded (guard_new c fps) [] [] t"
| checked: "guarded g ts fs t \<Longrightarrow> t \<le> now \<Longrightarrow> guarded (snd (check_inner k now hold g)) ts fs now"
| recorded: "guarded g ts fs t \<Longrightarrow> t \<le> now \<Longrightarrow> guarded (record_at i now g) (ts @ [now]) fs now"
| flashed: "guarded g ts fs t \<Longrightarrow> t \<le> now \<Longrightarrow> guarded (note_flash now g) ts (fs @ [now]) now"
| called: "guarded g ts fs t \<Longrightarrow> t \<le> now \<Longrightarrow> guarded (note_call i now g) ts fs now"
| armed: "guarded g ts fs t \<Longrightarrow> t \<le> now \<Longrightarrow> guarded (arm_silence hold now g) ts fs now"
| configured: "guarded g ts fs t \<Longrightarrow> guarded (guard_set_config c g) ts fs t"
| observed: "guarded g ts fs t \<Longrightarrow> guarded (set_luma_observed b g) ts fs t"

text \<open>A queue that has lost of a history only what is at least \<open>d\<close> old.\<close>

definition recalls :: "duration \<Rightarrow> instant \<Rightarrow> instant list \<Rightarrow> instant list \<Rightarrow> bool" where
  "recalls d t ts queue \<longleftrightarrow> (\<exists>old. ts = old @ queue \<and> (\<forall>u \<in> set old. d \<le> t - u))"

text \<open>One that may also have lost newer ones, but then holds the \<open>k\<close> newest.\<close>

definition recalls_last :: "nat \<Rightarrow> duration \<Rightarrow> instant \<Rightarrow> instant list \<Rightarrow> instant list \<Rightarrow> bool" where
  "recalls_last k d t ts queue \<longleftrightarrow> recalls d t ts queue \<or> (\<exists>old. ts = old @ queue) \<and> k \<le> length queue"

lemma recalls_later: "recalls d t ts queue \<Longrightarrow> t \<le> now \<Longrightarrow> recalls d now ts queue"
  unfolding recalls_def by force

lemma recalls_last_later: "recalls_last k d t ts queue \<Longrightarrow> t \<le> now \<Longrightarrow> recalls_last k d now ts queue"
  unfolding recalls_last_def using recalls_later by blast

lemma recalls_append: "recalls d t ts queue \<Longrightarrow> recalls d t (ts @ us) (queue @ us)"
  by (auto simp: recalls_def)

lemma recalls_last_append: "recalls_last k d t ts queue \<Longrightarrow> recalls_last k d t (ts @ us) (queue @ us)"
  unfolding recalls_last_def using recalls_append by fastforce

lemma recalls_drop:
  assumes "recalls d now ts queue" "\<forall>u \<in> set ts. u \<le> now"
  shows "recalls d now ts (dropWhile (\<lambda>t. d \<le> since now t) queue)"
proof -
  obtain old where old: "ts = old @ queue" "\<forall>u \<in> set old. d \<le> now - u" using assms(1) by (auto simp: recalls_def)
  let ?out = "takeWhile (\<lambda>t. d \<le> since now t) queue"
  have "ts = (old @ ?out) @ dropWhile (\<lambda>t. d \<le> since now t) queue" by (simp add: old(1))
  moreover have "d \<le> now - u" if "u \<in> set (old @ ?out)" for u
  proof (cases "u \<in> set old")
    case False
    then have "u \<in> set ?out" using that by simp
    from set_takeWhileD [OF this] have "u \<in> set queue" "d \<le> since now u" by simp_all
    then show ?thesis using assms(2) old(1) by (simp add: since_le)
  qed (use old(2) in blast)
  ultimately show ?thesis unfolding recalls_def by blast
qed

lemma recalls_last_drop:
  assumes "recalls_last k d now ts queue" "\<forall>u \<in> set ts. u \<le> now" "sorted ts"
  shows "recalls_last k d now ts (dropWhile (\<lambda>t. d \<le> since now t) queue)"
proof (cases "recalls d now ts queue")
  case True
  then show ?thesis using recalls_drop assms(2) unfolding recalls_last_def by blast
next
  case False
  then obtain old where old: "ts = old @ queue" "k \<le> length queue" using assms(1) by (auto simp: recalls_last_def)
  show ?thesis
  proof (cases queue)
    case Nil
    with old assms(1) show ?thesis by simp
  next
    case (Cons q qs)
    show ?thesis
    proof (cases "d \<le> since now q")
      case True
      then have "d \<le> now - u" if "u \<in> set old" for u
        using that assms(2,3) old(1) Cons by (auto simp: sorted_append since_le)
      then have "recalls d now ts queue" unfolding recalls_def using old(1) by blast
      then show ?thesis using False by blast
    qed (use assms(1) Cons in simp)
  qed
qed

lemma recalls_last_cap:
  assumes "recalls_last k d now ts queue"
  shows "recalls_last k d now ts (drop (length queue - k) queue)"
proof (cases "k < length queue")
  case True
  from assms obtain old where "ts = old @ queue" by (auto simp: recalls_last_def recalls_def)
  then have "ts = (old @ take (length queue - k) queue) @ drop (length queue - k) queue" by simp
  moreover have "k \<le> length (drop (length queue - k) queue)" using True by simp
  ultimately show ?thesis unfolding recalls_last_def by blast
qed (use assms in simp)

text \<open>What such a queue answers of the recent past is what the history answers.\<close>

lemma recalls_recent:
  assumes "recalls d t ts queue" "t \<le> now" "e \<le> d"
  shows "filter (\<lambda>u. now - u < e) queue = filter (\<lambda>u. now - u < e) ts"
proof -
  obtain old where old: "ts = old @ queue" "\<forall>u \<in> set old. d \<le> t - u" using assms(1) by (auto simp: recalls_def)
  then have "filter (\<lambda>u. now - u < e) old = []" using assms(2,3) by (force simp: filter_empty_conv)
  then show ?thesis by (simp add: old(1))
qed

lemma recalls_last_few:
  assumes "recalls_last k d t ts queue" "t \<le> now" "e \<le> d" "sorted ts" "j \<le> k"
    "length (filter (\<lambda>u. now - u < e) queue) < j"
  shows "length (filter (\<lambda>u. now - u < e) ts) < j"
proof (cases "recalls d t ts queue")
  case True
  then show ?thesis using recalls_recent [OF _ assms(2,3)] assms(6) by metis
next
  case False
  then obtain old where old: "ts = old @ queue" "k \<le> length queue" using assms(1) by (auto simp: recalls_last_def)
  have "filter (\<lambda>u. now - u < e) queue \<noteq> queue" using assms(5,6) old(2) by (metis leD le_trans)
  then obtain q where "q \<in> set queue" "e \<le> now - q" by (metis filter_True not_le)
  then have "e \<le> now - u" if "u \<in> set old" for u using that assms(4) old(1) by (force simp: sorted_append)
  then have "filter (\<lambda>u. now - u < e) old = []" by (force simp: filter_empty_conv)
  then show ?thesis using assms(6) old(1) by simp
qed

subsection \<open>The invariant\<close>

definition remembers :: "guard \<Rightarrow> instant list \<Rightarrow> instant list \<Rightarrow> instant \<Rightarrow> bool" where
  "remembers g ts fs t \<longleftrightarrow>
     sorted ts \<and> sorted fs \<and> (\<forall>u \<in> set ts \<union> set fs. u \<le> t) \<and>
     recalls (secs 60) t ts (th_takes (gd_state g)) \<and>
     recalls_last 16 (secs 2) t fs (th_flashes (gd_state g)) \<and>
     th_last_take (gd_state g) = (if ts = [] then None else Some (last ts))"

lemma remembers_later: "remembers g ts fs t \<Longrightarrow> t \<le> now \<Longrightarrow> remembers g ts fs now"
  unfolding remembers_def using recalls_later recalls_last_later by force

lemma trim_flashes_sel [simp]:
  "th_takes (trim_flashes now h) = th_takes h" "th_last_take (trim_flashes now h) = th_last_take h"
  "th_silent (trim_flashes now h) = th_silent h"
  by (simp_all add: trim_flashes_def Let_def)

lemma forget_before_sel [simp]:
  "th_takes (forget_before now h) = dropWhile (\<lambda>t. secs 60 \<le> since now t) (th_takes h)"
  "th_last_take (forget_before now h) = th_last_take h" "th_silent (forget_before now h) = th_silent h"
  by (simp_all add: forget_before_def)

lemma trim_flashes_recalls:
  assumes "recalls_last 16 (secs 2) now fs (th_flashes h)" "\<forall>u \<in> set fs. u \<le> now" "sorted fs"
  shows "recalls_last 16 (secs 2) now fs (th_flashes (trim_flashes now h))"
  using recalls_last_cap [OF recalls_last_drop [OF assms]] by (simp add: trim_flashes_def Let_def)

lemma remembers_forget:
  assumes "remembers g ts fs now"
  shows "remembers (g\<lparr>gd_state := forget_before now (gd_state g)\<rparr>) ts fs now"
proof -
  have "recalls (secs 60) now ts (dropWhile (\<lambda>t. secs 60 \<le> since now t) (th_takes (gd_state g)))"
    using assms by (intro recalls_drop) (auto simp: remembers_def)
  moreover have "recalls_last 16 (secs 2) now fs (th_flashes (forget_before now (gd_state g)))"
    using assms unfolding forget_before_def by (intro trim_flashes_recalls) (auto simp: remembers_def)
  ultimately show ?thesis using assms by (simp add: remembers_def)
qed

lemma snd_check_inner: "snd (check_inner k now hold g) = g\<lparr>gd_state := forget_before now (gd_state g)\<rparr>"
  by (simp add: check_inner_def Let_def)

lemma guarded_remembers: "guarded g ts fs t \<Longrightarrow> remembers g ts fs t"
proof (induction rule: guarded.induct)
  case (fresh c fps t)
  show ?case by (simp add: remembers_def guard_new_def take_history_default_def recalls_def recalls_last_def)
next
  case (checked g ts fs t now k hold)
  then show ?case by (simp add: snd_check_inner remembers_forget [OF remembers_later])
next
  case (recorded g ts fs t now i)
  from remembers_forget [OF remembers_later [OF recorded(3,2)]]
  have "remembers (g\<lparr>gd_state := forget_before now (gd_state g)\<rparr>) ts fs now" .
  then show ?case by (auto simp: remembers_def record_at_def Let_def sorted_append intro: recalls_append)
next
  case (flashed g ts fs t now)
  from remembers_later [OF flashed(3,2)] have r: "remembers g ts fs now" .
  have "recalls_last 16 (secs 2) now (fs @ [now])
      (th_flashes (trim_flashes now ((gd_state g)\<lparr>th_flashes := th_flashes (gd_state g) @ [now]\<rparr>)))"
    using r by (intro trim_flashes_recalls) (auto simp: remembers_def sorted_append intro: recalls_last_append)
  with r show ?case by (auto simp: remembers_def note_flash_def sorted_append)
next
  case (called g ts fs t now i)
  from remembers_later [OF called(3,2)] show ?case by (auto simp: remembers_def note_call_def Let_def)
next
  case (armed g ts fs t now hold)
  from remembers_later [OF armed(3,2)] show ?case by (simp add: remembers_def arm_silence_def)
qed (simp_all add: remembers_def guard_set_config_def set_luma_observed_def)

subsection \<open>Takes one at a time\<close>

text \<open>
  A take is a check, then the cut, then a record (\<open>methods/program.rs\<close>), and nothing holds the guard in
  between, so two takes checked before either is recorded each see a history without the other. Where
  takes come one at a time, whoever makes them, each is checked and recorded before the next is checked;
  refused asks, flashes, calls, the watchdog and new configurations come between takes as they will. The
  events are every take, with its token, whether it is an undo and whether the core had the flash guard
  on, and every flash noted, in the order they came.
\<close>

datatype desk_event = Took token bool bool instant | Flashed instant

definition took_times :: "desk_event list \<Rightarrow> instant list" where
  "took_times es = concat (map (\<lambda>e. case e of Took _ _ _ u \<Rightarrow> [u] | Flashed _ \<Rightarrow> []) es)"

definition flash_times :: "desk_event list \<Rightarrow> instant list" where
  "flash_times es = concat (map (\<lambda>e. case e of Took _ _ _ _ \<Rightarrow> [] | Flashed u \<Rightarrow> [u]) es)"

lemma desk_times [simp]:
  "took_times [] = []" "took_times (Took k undo on u # es) = u # took_times es" "took_times (Flashed u # es) = took_times es"
  "took_times (es @ fs) = took_times es @ took_times fs"
  "flash_times [] = []" "flash_times (Took k undo on u # es) = flash_times es" "flash_times (Flashed u # es) = u # flash_times es"
  "flash_times (es @ fs) = flash_times es @ flash_times fs"
  by (simp_all add: took_times_def flash_times_def)

lemma desk_times_set: "Took k undo on u \<in> set es \<Longrightarrow> u \<in> set (took_times es)" "Flashed u \<in> set es \<Longrightarrow> u \<in> set (flash_times es)"
  by (force simp: took_times_def flash_times_def)+

inductive in_turn :: "guard \<Rightarrow> desk_event list \<Rightarrow> instant \<Rightarrow> bool" where
  turn_fresh: "in_turn (guard_new c fps) [] t"
| turn_taken: "in_turn g es t \<Longrightarrow> t \<le> asked \<Longrightarrow> check_inner k asked (\<not> undo) g = (None, g') \<Longrightarrow> asked \<le> now \<Longrightarrow>
    in_turn (record_at (to_id k) now g') (es @ [Took k undo (sc_flash_guard (gd_cfg g)) now]) now"
| turn_refused: "in_turn g es t \<Longrightarrow> t \<le> now \<Longrightarrow> in_turn (snd (check_inner k now hold g)) es now"
| turn_flashed: "in_turn g es t \<Longrightarrow> t \<le> now \<Longrightarrow> in_turn (note_flash now g) (es @ [Flashed now]) now"
| turn_called: "in_turn g es t \<Longrightarrow> t \<le> now \<Longrightarrow> in_turn (note_call i now g) es now"
| turn_armed: "in_turn g es t \<Longrightarrow> t \<le> now \<Longrightarrow> in_turn (arm_silence hold now g) es now"
| turn_configured: "in_turn g es t \<Longrightarrow> in_turn (guard_set_config c g) es t"
| turn_observed: "in_turn g es t \<Longrightarrow> in_turn (set_luma_observed b g) es t"

lemma in_turn_guarded: "in_turn g es t \<Longrightarrow> guarded g (took_times es) (flash_times es) t"
proof (induction rule: in_turn.induct)
  case (turn_taken g es t asked k undo g' now)
  have "guarded g' (took_times es) (flash_times es) asked"
    using guarded.checked [OF turn_taken.IH turn_taken.hyps(2), of k "\<not> undo"] turn_taken.hyps(3) by simp
  from guarded.recorded [OF this turn_taken.hyps(4)] show ?case by simp
qed (auto intro: guarded.intros)

text \<open>Behind every take of such a run stands a check that passed when just the takes before it were recorded.\<close>

lemma in_turn_checked:
  assumes "in_turn g es t" "es = before @ Took k undo on u # after"
  shows "\<exists>h h' s asked. guarded h (took_times before) (flash_times before) s \<and> s \<le> asked \<and> asked \<le> u \<and>
    check_inner k asked (\<not> undo) h = (None, h') \<and> on = sc_flash_guard (gd_cfg h)"
  using assms
proof (induction arbitrary: after rule: in_turn.induct)
  case (turn_taken g es t asked k' undo' g' now)
  show ?case
  proof (cases after rule: rev_cases)
    case Nil
    then have "es = before" "k' = k" "undo' = undo" "on = sc_flash_guard (gd_cfg g)" "now = u" using turn_taken.prems by auto
    then show ?thesis using in_turn_guarded [OF turn_taken.hyps(1)] turn_taken.hyps(2-4) by blast
  next
    case (snoc after' e)
    then show ?thesis using turn_taken.prems turn_taken.IH by simp
  qed
next
  case (turn_flashed g es t now)
  show ?case
  proof (cases after rule: rev_cases)
    case (snoc after' e)
    then show ?thesis using turn_flashed.prems turn_flashed.IH by simp
  qed (use turn_flashed.prems in simp)
qed auto

end
