(* ===== verification/Safety_Properties.thy ===== *)
theory Safety_Properties
  imports Safety_Run
begin

text \<open>
  What the guard in front of a take promises: that takes are rationed, that an agent is held to the
  floor of its kind whatever its token and the configuration say, and that waiting is enough.
\<close>

subsection \<open>What a check that passes says\<close>

lemma sorted_last: "sorted xs \<Longrightarrow> x \<in> set xs \<Longrightarrow> x \<le> last xs"
  by (induction xs) auto


lemma flash_refusal_None:
  assumes "flash_refusal g now = None" "th_flashes (gd_state g) \<noteq> []"
  shows "flash_separation_ms g \<le> millis (since now (last (th_flashes (gd_state g))))"
    "length (filter (\<lambda>f. since now f < secs 1) (th_flashes (gd_state g))) < FLASHES_PER_SECOND"
proof -
  let ?fs = "th_flashes (gd_state g)"
  obtain rest where "rev ?fs = last ?fs # rest" using assms(2) by (metis rev_rev_ident rev.simps(2) append_butlast_last_id rev_append singleton_rev_conv append_Cons append_Nil)
  with assms(1) show "flash_separation_ms g \<le> millis (since now (last ?fs))"
    by (auto simp: flash_refusal_def Let_def split: if_split_asm)
  from \<open>rev ?fs = last ?fs # rest\<close> assms(1) show "length (filter (\<lambda>f. since now f < secs 1) ?fs) < FLASHES_PER_SECOND"
    by (auto simp: flash_refusal_def Let_def FLASHES_PER_SECOND_def split: if_split_asm list.split_asm)
qed

lemma check_passes:
  assumes "check_inner k now hold g = (None, g')"
  shows "hold \<Longrightarrow> th_last_take (gd_state g) = Some u \<Longrightarrow> lm_min_hold_ms (for_token (gd_cfg g) k) \<le> millis (since now u)"
    "length (dropWhile (\<lambda>t. secs 60 \<le> since now t) (th_takes (gd_state g))) < unat (lm_max_takes_per_minute (for_token (gd_cfg g) k))"
    "lm_flash_guard (for_token (gd_cfg g) k) \<Longrightarrow> flash_refusal g' now = None"
    "\<not> th_silent (gd_state g)"
  using assms
  by (auto simp: check_inner_def Let_def held_back_def split: if_split_asm option.split_asm)

lemma rationed:
  assumes g: "guarded g ts fs t" and later: "t \<le> now" and check: "check_inner k now hold g = (None, g')"
  defines "ls \<equiv> for_token (gd_cfg g) k"
  shows "hold \<Longrightarrow> u \<in> set ts \<Longrightarrow> of_millis (lm_min_hold_ms ls) \<le> now - u"
    and "length (filter (\<lambda>u. now - u < secs 60) ts) < unat (lm_max_takes_per_minute ls)"
    and "lm_flash_guard ls \<Longrightarrow> f \<in> set fs \<Longrightarrow> of_millis (flash_separation_ms g) \<le> now - f"
    and "lm_flash_guard ls \<Longrightarrow> length (filter (\<lambda>f. now - f < secs 1) fs) < FLASHES_PER_SECOND"
proof -
  have r: "remembers g ts fs now" using guarded_remembers [OF g] later by (rule remembers_later)
  then have past: "u \<le> now" if "u \<in> set ts \<union> set fs" for u using that by (auto simp: remembers_def)
  show "of_millis (lm_min_hold_ms ls) \<le> now - u" if "hold" "u \<in> set ts"
  proof -
    have final: "th_last_take (gd_state g) = Some (last ts)" using r that(2) by (auto simp: remembers_def)
    have "u \<le> last ts" using r that(2) sorted_last [of ts u] by (simp add: remembers_def)
    moreover have "of_millis (lm_min_hold_ms ls) \<le> since now (last ts)"
      using check_passes(1) [OF check that(1) final] by (simp add: ls_def millis_reached)
    moreover have "last ts \<le> now" using past that(2) by (metis Un_iff last_in_set list.set(1) empty_iff)
    ultimately show ?thesis by (simp add: since_le)
  qed
  have "filter (\<lambda>t. since now t < secs 60) (th_takes (gd_state g)) = filter (\<lambda>u. now - u < secs 60) (th_takes (gd_state g))"
    using r by (intro filter_cong) (auto simp: remembers_def recalls_def since_def secs_def)
  moreover have "sorted (th_takes (gd_state g))" using r by (auto simp: remembers_def recalls_def sorted_append)
  ultimately show "length (filter (\<lambda>u. now - u < secs 60) ts) < unat (lm_max_takes_per_minute ls)"
    using check_passes(2) [OF check] recalls_recent [of "secs 60" now ts "th_takes (gd_state g)" now "secs 60"] r
    by (simp add: ls_def recent_suffix remembers_def)
  have r': "remembers g' ts fs now"
    using remembers_forget [OF r] snd_check_inner [of k now hold g] check by simp
  have same: "flash_separation_ms g' = flash_separation_ms g"
    using snd_check_inner [of k now hold g] check by (simp add: flash_separation_ms_def)
  let ?qs = "th_flashes (gd_state g')"
  have q: "recalls_last 16 (secs 2) now fs ?qs" "sorted fs" using r' by (simp_all add: remembers_def)
  show "of_millis (flash_separation_ms g) \<le> now - f" if guarding: "lm_flash_guard ls" and f: "f \<in> set fs"
  proof (cases "?qs = []")
    case True
    with q f have "secs 2 \<le> now - f" by (auto simp: recalls_last_def recalls_def)
    moreover have "of_millis (flash_separation_ms g) \<le> secs 2"
      by (simp add: flash_separation_ms_def of_millis_def secs_def FLASH_SEPARATION_MS_def FLASH_SEPARATION_MS_60HZ_def)
    ultimately show ?thesis by simp
  next
    case False
    from q(1) obtain old where old: "fs = old @ ?qs" by (auto simp: recalls_last_def recalls_def)
    have final: "last fs = last ?qs" "f \<le> last fs"
      using False arg_cong [OF old, of last] sorted_last [OF q(2) f] by simp_all
    have "of_millis (flash_separation_ms g) \<le> since now (last ?qs)"
      using flash_refusal_None(1) [OF check_passes(3) [OF check] False] guarding millis_reached by (simp add: ls_def same)
    moreover have "last fs \<in> set fs" using old False by (metis append_is_Nil_conv last_in_set)
    ultimately show ?thesis using final past by (simp add: since_le)
  qed
  show "length (filter (\<lambda>f. now - f < secs 1) fs) < FLASHES_PER_SECOND" if guarding: "lm_flash_guard ls"
  proof -
    have "set ?qs \<subseteq> set fs" using q(1) by (auto simp: recalls_last_def recalls_def)
    then have "filter (\<lambda>f. since now f < secs 1) ?qs = filter (\<lambda>f. now - f < secs 1) ?qs"
      using past by (intro filter_cong) (auto simp: since_le)
    then have "length (filter (\<lambda>f. now - f < secs 1) ?qs) < FLASHES_PER_SECOND"
      using flash_refusal_None(2) [OF check_passes(3) [OF check]] guarding by (cases "?qs = []") (simp_all add: ls_def FLASHES_PER_SECOND_def)
    then show ?thesis using recalls_last_few [OF q(1) order_refl _ q(2)] by (simp add: secs_def FLASHES_PER_SECOND_def)
  qed
qed

subsection \<open>Takes are rationed\<close>

text \<open>A desk where one take was made, for the witnesses.\<close>

definition ex_agent :: token where
  "ex_agent = \<lparr>to_id = ''studio-agent'', to_agent = True,
     to_safety = Some \<lparr>ts_min_hold_ms = Some 0, ts_max_takes_per_minute = Some 1000, ts_flash_guard = Some False\<rparr>\<rparr>"


definition ex_desk :: guard where
  "ex_desk = record_at ''studio-agent'' 0 (guard_new safety_config_default 30)"

lemma ex_desk_guarded: "guarded ex_desk [0] [] 0"
  using guarded.recorded [OF guarded.fresh, of 0 0] by (simp add: ex_desk_def)

lemma ex_agent_limits:
  "for_token safety_config_default ex_agent = \<lparr>lm_min_hold_ms = 8000, lm_max_takes_per_minute = 12, lm_flash_guard = True\<rparr>"
  by code_simp

lemma ex_desk_sel: "gd_cfg ex_desk = safety_config_default" "flash_separation_ms ex_desk = 360"
  by (simp_all add: ex_desk_def record_at_def Let_def guard_new_def flash_separation_ms_def FLASH_SEPARATION_MS_def)

lemma ex_desk_passes: "check_at ex_agent (secs 9) ex_desk = (None, snd (check_at ex_agent (secs 9) ex_desk))"
proof -
  have "fst (check_at ex_agent (secs 9) ex_desk) = None" by code_simp
  then show ?thesis by (metis prod.collapse)
qed

text \<open>C22: takes are rationed: whenever a check lets a token take, whatever was asked of the guard before and
  by whom, every take recorded so far is at least the token's hold old, fewer takes than its limit were
  recorded in the last minute, and where the flash guard is on for it every flash noted is at least the
  separation of ITU-R BT.1702-3 old and fewer than three were noted in the last second.\<close>

theorem takes_are_rationed:
  assumes "guarded g ts fs t" "t \<le> now" "check_at k now g = (None, g')"
  shows "(\<forall>u \<in> set ts. of_millis (lm_min_hold_ms (for_token (gd_cfg g) k)) \<le> now - u)
    \<and> length (filter (\<lambda>u. now - u < secs 60) ts) < unat (lm_max_takes_per_minute (for_token (gd_cfg g) k))
    \<and> (lm_flash_guard (for_token (gd_cfg g) k) \<longrightarrow>
         (\<forall>f \<in> set fs. of_millis (flash_separation_ms g) \<le> now - f)
         \<and> length (filter (\<lambda>f. now - f < secs 1) fs) < FLASHES_PER_SECOND)"
  using rationed [OF assms(1,2) assms(3) [unfolded check_at_def]] by blast

lemma takes_are_rationed_witness:
  "of_millis 8000 \<le> secs 9 - 0 \<and> length (filter (\<lambda>u. secs 9 - u < secs 60) [0]) < 12"
  using takes_are_rationed [OF ex_desk_guarded _ ex_desk_passes] by (simp add: ex_desk_sel ex_agent_limits secs_def)


text \<open>Two checks of an agent before either take is recorded both pass, so nothing like this holds of takes at once.\<close>

lemma takes_at_once_pass:
  "fst (check_at ex_agent 0 (snd (check_at ex_agent 0 (guard_new safety_config_default 30)))) = None"
  by code_simp




subsection \<open>Waiting is enough\<close>





lemma refused_for_hold:
  "map_option tr_rule (fst (check_at k now g)) = Some ''min_hold'' \<longleftrightarrow>
     \<not> th_silent (gd_state g) \<and> (\<exists>u. th_last_take (gd_state g) = Some u \<and>
       millis (since now u) < lm_min_hold_ms (for_token (gd_cfg g) k))"
proof -
  have other: "flash_refusal h now \<noteq> Some r" if "tr_rule r = ''min_hold''" for r h
    using that by (auto simp: flash_refusal_def Let_def flash_message_def split: list.split)
  show ?thesis
    by (auto simp: check_at_def check_inner_def Let_def held_back_def hold_refusal_def rate_refusal_def silence_refusal_def
        other split: option.split dest: other)
qed

lemma hold_refused:
  assumes "check_at k now g = (Some r, g')" "tr_rule r = ''min_hold''"
  obtains u where "th_last_take (gd_state g) = Some u" "millis (since now u) < lm_min_hold_ms (for_token (gd_cfg g) k)"
    "tr_retry_after_ms r = lm_min_hold_ms (for_token (gd_cfg g) k) - millis (since now u)"
proof -
  have "map_option tr_rule (fst (check_at k now g)) = Some ''min_hold''" using assms by simp
  then obtain u where u: "\<not> th_silent (gd_state g)" "th_last_take (gd_state g) = Some u"
    "millis (since now u) < lm_min_hold_ms (for_token (gd_cfg g) k)"
    unfolding refused_for_hold by blast
  with assms(1) have "r = hold_refusal k (millis (since now u)) (lm_min_hold_ms (for_token (gd_cfg g) k))"
    by (simp add: check_at_def check_inner_def Let_def held_back_def)
  with that [OF u(2,3)] show thesis by (simp add: hold_refusal_def Let_def)
qed

lemma ms_less: "(x :: int) div 1000000 < h \<longleftrightarrow> x < h * 1000000"
proof -
  have "x = x div 1000000 * 1000000 + x mod 1000000" "0 \<le> x mod 1000000" "x mod 1000000 < 1000000" by simp_all
  then show ?thesis by linarith
qed

text \<open>A take refused for the hold is told how long to wait: at any time up to a whole millisecond short
  of the \<open>retry_after_ms\<close> it was given the hold still refuses it, and from then on it does not.\<close>

theorem hold_tells_how_long:
  assumes "guarded g ts fs t" "t \<le> now" "check_at k now g = (Some r, g')" "tr_rule r = ''min_hold''"
    "now \<le> later" "later - last ts < 1000000 * 2 ^ 64"
  shows "(later \<le> now + of_millis (tr_retry_after_ms r) - 1000000 \<longrightarrow>
      map_option tr_rule (fst (check_at k later g')) = Some ''min_hold'')
    \<and> (now + of_millis (tr_retry_after_ms r) \<le> later \<longrightarrow>
      map_option tr_rule (fst (check_at k later g')) \<noteq> Some ''min_hold'')"
proof -
  obtain u where u: "th_last_take (gd_state g) = Some u" "millis (since now u) < lm_min_hold_ms (for_token (gd_cfg g) k)"
    "tr_retry_after_ms r = lm_min_hold_ms (for_token (gd_cfg g) k) - millis (since now u)"
    using hold_refused [OF assms(3,4)] .
  let ?hold = "lm_min_hold_ms (for_token (gd_cfg g) k)"
  have m: "remembers g ts fs now" using guarded_remembers [OF assms(1)] assms(2) by (rule remembers_later)
  then have final: "u = last ts" "u \<le> now" using u(1) by (auto simp: remembers_def split: if_split_asm)
  have held: "uint (millis (since now u)) = (now - u) div 1000000" "uint (millis (since later u)) = (later - u) div 1000000"
    using final assms(5,6) by (simp_all add: since_le millis_exact)
  have retry: "of_millis (tr_retry_after_ms r) = (uint ?hold - uint (millis (since now u))) * 1000000"
    using u(2,3) by (simp add: of_millis_def uint_minus_simple_alt [THEN iffD1] less_imp_le uint_sub_lem [THEN iffD1] word_less_def)
  have g': "g' = g\<lparr>gd_state := forget_before now (gd_state g)\<rparr>"
    using assms(3) snd_check_inner [of k now True g] by (simp add: check_at_def)
  have again: "map_option tr_rule (fst (check_at k later g')) = Some ''min_hold'' \<longleftrightarrow> millis (since later u) < ?hold"
  proof -
    have "map_option tr_rule (fst (check_at k now g)) = Some ''min_hold''" using assms(3,4) by simp
    then have "\<not> th_silent (gd_state g)" unfolding refused_for_hold by blast
    then show ?thesis using u(1) unfolding g' refused_for_hold by simp
  qed
  have "map_option tr_rule (fst (check_at k later g')) = Some ''min_hold''"
    if "later \<le> now + of_millis (tr_retry_after_ms r) - 1000000"
  proof -
    have "later - u \<le> (now - u) + (uint ?hold - (now - u) div 1000000 - 1) * 1000000"
      using that unfolding retry held(1) by (simp add: algebra_simps)
    moreover have "now - u < ((now - u) div 1000000 + 1) * 1000000" unfolding ms_less [symmetric] by simp
    ultimately have "(later - u) div 1000000 < uint ?hold" unfolding ms_less by (simp add: algebra_simps)
    then show ?thesis unfolding again word_less_def held(2) .
  qed
  moreover have "map_option tr_rule (fst (check_at k later g')) \<noteq> Some ''min_hold''" if "now + of_millis (tr_retry_after_ms r) \<le> later"
  proof -
    have "(now - u) + (uint ?hold - (now - u) div 1000000) * 1000000 \<le> later - u"
      using that unfolding retry held(1) by (simp add: algebra_simps)
    moreover have "(now - u) div 1000000 * 1000000 \<le> now - u" using ms_less [of "now - u" "(now - u) div 1000000"] by simp
    ultimately have "\<not> (later - u) div 1000000 < uint ?hold" unfolding ms_less by (simp add: algebra_simps)
    then show ?thesis unfolding again word_less_def held(2) .
  qed
  ultimately show ?thesis by blast
qed

lemma hold_tells_how_long_witness:
  "\<exists>r. fst (check_at ex_agent (secs 1) ex_desk) = Some r \<and> tr_retry_after_ms r = 7000 \<and>
     map_option tr_rule (fst (check_at ex_agent (secs 8) (snd (check_at ex_agent (secs 1) ex_desk)))) \<noteq> Some ''min_hold''"
proof -
  have "map_option (\<lambda>r. (tr_rule r, tr_retry_after_ms r)) (fst (check_at ex_agent (secs 1) ex_desk)) = Some (''min_hold'', 7000)"
    by code_simp
  then obtain r where r: "check_at ex_agent (secs 1) ex_desk = (Some r, snd (check_at ex_agent (secs 1) ex_desk))"
    "tr_rule r = ''min_hold''" "tr_retry_after_ms r = 7000" by (cases "check_at ex_agent (secs 1) ex_desk") auto
  have "0 \<le> secs 1" "secs 1 \<le> secs 8" "secs 8 - last [0] < 1000000 * 2 ^ 64" by (simp_all add: secs_def)
  from hold_tells_how_long [OF ex_desk_guarded this(1) r(1,2) this(2,3)]
  have "map_option tr_rule (fst (check_at ex_agent (secs 8) (snd (check_at ex_agent (secs 1) ex_desk)))) \<noteq> Some ''min_hold''"
    by (simp add: secs_def of_millis_def r(3))
  moreover have "fst (check_at ex_agent (secs 1) ex_desk) = Some r" using r(1) by (metis fst_conv)
  ultimately show ?thesis using r(3) by blast
qed

subsection \<open>A silent operator\<close>

text \<open>
  Every call of the control plane notes itself before it is handled (\<open>control/call.rs\<close>), a take like any
  other, so the hold for a silent operator is lifted by the very take it should refuse.
\<close>

lemma a_take_lifts_the_hold: "map_option tr_rule (fst (check_at k now (note_call i now g))) \<noteq> Some ''operator_silence''"
proof -
  have other: "flash_refusal h now \<noteq> Some r" if "tr_rule r = ''operator_silence''" for r h
    using that by (auto simp: flash_refusal_def Let_def flash_message_def split: list.split)
  have "\<not> th_silent (gd_state (note_call i now g))" by (simp add: note_call_def Let_def)
  then show ?thesis
    by (auto simp: check_at_def check_inner_def Let_def held_back_def hold_refusal_def rate_refusal_def
        split: option.split dest: other)
qed

text \<open>The words of the configuration read back.\<close>

lemma silence_parse_text:
  assumes "\<And>i. a = SilenceFallback i \<Longrightarrow> i \<noteq> [] \<and> trim i = i"
  shows "silence_parse (silence_text a) = Inr a"
proof (cases a)
  case (SilenceFallback i)
  then have i: "i \<noteq> []" "trim i = i" using assms by auto
  then have "\<not> is_blank (last i)" using trim_idle [of i] by simp
  then have "trim (''fallback:'' @ i) = ''fallback:'' @ i" using i(1) by (intro trim_plain) (simp_all add: is_blank_def)
  moreover have "strip_prefix ''fallback:'' (''fallback:'' @ i) = Some i" by (rule strip_prefix_append)
  ultimately show ?thesis using i SilenceFallback by (simp add: silence_parse_def silence_text_def)
qed (simp_all add: silence_text_def silence_parse_def, code_simp+)

end
