(* ===== verification/Backup.thy ===== *)
theory Backup
  imports Text Clock
begin

text \<open>
  A backup that takes over when a source goes down, as it stands in the configuration and on the wire
  (\<open>crates/godwinmix-protocol/src/backup.rs\<close>), and the checks a rule passes before anything acts on it
  (\<open>backup/check.rs\<close>). Seconds are finite: \<open>NaN\<close> and the infinities, which \<open>check\<close> refuses, are not values
  of \<open>f64\<close> here. A refusal is named by what it says; its JSON is not modelled.
\<close>

definition MAX_WAIT_SECS :: f64 where "MAX_WAIT_SECS = 3600"
definition MAX_TRANSITION_MS :: u64 where "MAX_TRANSITION_MS = 10000"

datatype return_mode = ReturnAuto | ReturnManual

record on_loss =
  ol_backup :: string
  ol_after_secs :: f64
  ol_transition :: string
  ol_duration_ms :: "u64 option"
  ol_returns :: return_mode
  ol_return_after_secs :: f64

definition on_loss_to :: "string \<Rightarrow> on_loss" where
  "on_loss_to backup = \<lparr>ol_backup = backup, ol_after_secs = 3, ol_transition = ''fade'', ol_duration_ms = None,
     ol_returns = ReturnAuto, ol_return_after_secs = 5\<rparr>"

definition transition_name :: "on_loss \<Rightarrow> string" where
  "transition_name r =
    (let name = map to_lower (trim (ol_transition r)) in if name = '''' \<or> name = ''dissolve'' then ''fade'' else name)"

datatype backup_phase = Ready | Lost | OnBackup | Returning | MainBack

record backup_state =
  bu_phase :: backup_phase
  bu_showing :: "string option"
  bu_lost_ms :: "u64 option"
  bu_switch_in_ms :: "u64 option"
  bu_return_in_ms :: "u64 option"
  bu_warning :: "string option"
  bu_never_live :: bool

subsection \<open>The checks\<close>

datatype backup_problem =
    NoBackup string
  | OwnBackup string
  | UnknownBackup string string "string list"
  | BadWait string string f64
  | LongTransition string
  | Stinger string
  | BackupLoop string "string list"

definition wait_ok :: "f64 \<Rightarrow> bool" where
  "wait_ok s \<longleftrightarrow> 0 \<le> s \<and> s \<le> MAX_WAIT_SECS"

definition check_one :: "string \<Rightarrow> on_loss \<Rightarrow> string list \<Rightarrow> backup_problem + unit" where
  "check_one i r ids =
    (let backup = trim (ol_backup r) in
     if backup = [] then Inl (NoBackup i)
     else if backup = i then Inl (OwnBackup i)
     else if backup \<notin> set ids then Inl (UnknownBackup i backup (filter (\<lambda>s. s \<noteq> i) ids))
     else if \<not> wait_ok (ol_after_secs r) then Inl (BadWait i ''after_secs'' (ol_after_secs r))
     else if \<not> wait_ok (ol_return_after_secs r) then Inl (BadWait i ''return_after_secs'' (ol_return_after_secs r))
     else if (case ol_duration_ms r of Some ms \<Rightarrow> MAX_TRANSITION_MS < ms | None \<Rightarrow> False) then Inl (LongTransition i)
     else if transition_name r = ''stinger'' then Inl (Stinger i)
     else Inr ())"

definition rule_of :: "(string \<times> on_loss) list \<Rightarrow> string \<Rightarrow> string option" where
  "rule_of rules i = map_option (\<lambda>e. trim (ol_backup (snd e))) (List.find (\<lambda>e. fst e = i) rules)"

text \<open>
  The walk of \<open>loop_from\<close>: \<open>path\<close> is what was pushed and \<open>cur\<close> the next step. The body runs while \<open>path\<close>
  holds at most as many sources as there are rules, so their difference is its measure.
\<close>

function walk_backups :: "(string \<times> on_loss) list \<Rightarrow> string \<Rightarrow> string \<Rightarrow> string list \<Rightarrow> string list option" where
  "walk_backups rules start cur path =
    (if length path \<le> length rules
     then if cur = start then Some (path @ [cur])
          else if cur \<in> set path then None
          else (case rule_of rules cur of None \<Rightarrow> None | Some next \<Rightarrow> walk_backups rules start next (path @ [cur]))
     else None)"
  by pat_completeness auto
termination
  by (relation "measure (\<lambda>(rules, start, cur, path). Suc (length rules) - length path)") auto

declare walk_backups.simps [simp del]

definition loop_from :: "string \<Rightarrow> (string \<times> on_loss) list \<Rightarrow> string list option" where
  "loop_from start rules = Option.bind (rule_of rules start) (\<lambda>cur. walk_backups rules start cur [start])"

definition find_loop :: "(string \<times> on_loss) list \<Rightarrow> backup_problem option" where
  "find_loop rules =
     find_map (\<lambda>e. map_option (BackupLoop (fst e)) (loop_from (fst e) rules)) (rev rules)"

definition check_rules :: "(string \<times> on_loss) list \<Rightarrow> string list \<Rightarrow> backup_problem + unit" where
  "check_rules rules ids =
     and_then (try_map (\<lambda>e. check_one (fst e) (snd e) ids) rules) (\<lambda>_.
       case find_loop rules of Some p \<Rightarrow> Inl p | None \<Rightarrow> Inr ())"

end
