(* ===== verification/Failover.thy ===== *)
theory Failover
  imports Backup Maps
begin

text \<open>
  Backups: which source stands in for which, and when (\<open>crates/godwinmix-core/src/failover.rs\<close>,
  \<open>failover/watch.rs\<close>, \<open>failover/state.rs\<close>, \<open>failover/operator.rs\<close>). What the board asks of the mixer
  about a source, the trait \<open>Liveness\<close>, is the record of its methods.
\<close>

definition BACKUP_GRACE :: duration where "BACKUP_GRACE = secs 2"

record liveness =
  li_live :: "string \<Rightarrow> bool"
  li_down :: "string \<Rightarrow> bool"
  li_live_within :: "string \<Rightarrow> duration \<Rightarrow> bool"
  li_unconnected_for :: "string \<Rightarrow> duration option"

subsection \<open>One source's clock (\<open>watch.rs\<close>)\<close>

datatype backup_step = Engage | Return

record watch =
  wa_down_since :: "instant option"
  wa_up_since :: "instant option"
  wa_engaged :: "instant option"
  wa_stay :: bool
  wa_ever_live :: bool
  wa_never_live :: bool

definition watch_default :: watch where
  "watch_default = \<lparr>wa_down_since = None, wa_up_since = None, wa_engaged = None, wa_stay = False, wa_ever_live = False,
     wa_never_live = False\<rparr>"

record source_look =
  lk_live :: bool
  lk_down :: bool
  lk_unconnected :: "duration option"
  lk_connect_wait :: duration

definition wait_of :: "f64 \<Rightarrow> duration" where
  "wait_of s = from_secs_f64 (max 0 (min s MAX_WAIT_SECS))"

definition or_set :: "'a option \<Rightarrow> 'a \<Rightarrow> 'a" where
  "or_set x d = (case x of Some v \<Rightarrow> v | None \<Rightarrow> d)"

text \<open>Back to the source itself, whoever asked.\<close>

definition disengage :: "watch \<Rightarrow> watch" where
  "disengage w = w\<lparr>wa_engaged := None, wa_up_since := None, wa_stay := False\<rparr>"

text \<open>How long it has been on its first connection, while it is not live.\<close>

definition first_wait :: "source_look \<Rightarrow> duration option" where
  "first_wait l = (if lk_live l then None else lk_unconnected l)"

text \<open>Neither live nor down: still given time to connect, or not known.\<close>

definition undecided :: "source_look \<Rightarrow> bool" where
  "undecided l \<longleftrightarrow> \<not> lk_live l \<and> \<not> lk_down l \<and>
     (case first_wait l of None \<Rightarrow> True | Some waited \<Rightarrow> waited < lk_connect_wait l)"

text \<open>When an outage first seen now began; an instant before the clock's zero cannot be named.\<close>

definition outage_began :: "source_look \<Rightarrow> instant \<Rightarrow> instant" where
  "outage_began l now =
    (case first_wait l of Some waited \<Rightarrow> if waited \<le> now then now - waited else now | None \<Rightarrow> now)"

definition watch_step :: "on_loss \<Rightarrow> source_look \<Rightarrow> instant \<Rightarrow> watch \<Rightarrow> backup_step option \<times> watch" where
  "watch_step r l now w =
    (if undecided l then (None, w)
     else let w = w\<lparr>wa_ever_live := (wa_ever_live w \<or> lk_live l)\<rparr>;
              w = w\<lparr>wa_never_live := (first_wait l \<noteq> None \<and> \<not> wa_ever_live w)\<rparr>
       in if lk_live l
          then let w = w\<lparr>wa_down_since := None\<rparr> in
            (if wa_engaged w = None then (None, w)
             else let up = or_set (wa_up_since w) now;
                      w = w\<lparr>wa_up_since := Some up\<rparr>
               in if ol_returns r = ReturnAuto \<and> \<not> wa_stay w \<and> wait_of (ol_return_after_secs r) \<le> since now up
                  then (Some Return, disengage w) else (None, w))
          else let w = w\<lparr>wa_up_since := None\<rparr>;
                   down = or_set (wa_down_since w) (outage_began l now);
                   w = w\<lparr>wa_down_since := Some down\<rparr>
            in if wa_engaged w = None \<and> wait_of (ol_after_secs r) \<le> since now down
               then (Some Engage, w\<lparr>wa_engaged := Some now\<rparr>) else (None, w))"

definition watch_engaged :: "watch \<Rightarrow> bool" where
  "watch_engaged w \<longleftrightarrow> wa_engaged w \<noteq> None"

definition watch_phase :: "on_loss \<Rightarrow> watch \<Rightarrow> backup_phase" where
  "watch_phase r w =
    (if \<not> watch_engaged w then if wa_down_since w = None then Ready else Lost
     else if wa_down_since w \<noteq> None then OnBackup
     else if wa_up_since w = None then OnBackup
     else if ol_returns r = ReturnAuto \<and> \<not> wa_stay w then Returning
     else MainBack)"

definition switch_in :: "on_loss \<Rightarrow> instant \<Rightarrow> watch \<Rightarrow> duration option" where
  "switch_in r now w =
    (if watch_engaged w then None
     else map_option (\<lambda>down. max 0 (wait_of (ol_after_secs r) - since now down)) (wa_down_since w))"

definition return_in :: "on_loss \<Rightarrow> instant \<Rightarrow> watch \<Rightarrow> duration option" where
  "return_in r now w =
    (if watch_phase r w \<noteq> Returning then None
     else map_option (\<lambda>up. max 0 (wait_of (ol_return_after_secs r) - since now up)) (wa_up_since w))"

definition watch_lost_for :: "instant \<Rightarrow> watch \<Rightarrow> duration option" where
  "watch_lost_for now w = map_option (since now) (wa_down_since w)"

subsection \<open>The board (\<open>failover.rs\<close>)\<close>

record entry =
  en_rule :: "on_loss option"
  en_watch :: watch
  en_showing :: "string option"
  en_leaving :: "string option"

definition entry_default :: entry where
  "entry_default = \<lparr>en_rule = None, en_watch = watch_default, en_showing = None, en_leaving = None\<rparr>"

record board =
  bd_entries :: "(string \<times> entry) list"
  bd_connect_wait :: duration

definition board_default :: board where
  "board_default = \<lparr>bd_entries = [], bd_connect_wait = 0\<rparr>"

abbreviation entry_at :: "board \<Rightarrow> string \<Rightarrow> entry option" where
  "entry_at b i \<equiv> map_of (bd_entries b) i"

definition put_entry :: "string \<Rightarrow> entry \<Rightarrow> board \<Rightarrow> board" where
  "put_entry i e b = b\<lparr>bd_entries := tree_put i e (bd_entries b)\<rparr>"

definition adopt :: "string \<Rightarrow> on_loss option \<Rightarrow> board \<Rightarrow> board" where
  "adopt i rule b =
    (if entry_at b i \<noteq> None then b
     else case rule of Some r \<Rightarrow> put_entry i (entry_default\<lparr>en_rule := Some r\<rparr>) b | None \<Rightarrow> b)"

definition set_rule :: "string \<Rightarrow> on_loss option \<Rightarrow> board \<Rightarrow> board" where
  "set_rule i rule b =
    (let e = or_set (entry_at b i) entry_default;
         e = (if rule = None \<and> watch_engaged (en_watch e)
              then e\<lparr>en_watch := disengage (en_watch e), en_leaving := Some ''cleared''\<rparr> else e)
     in put_entry i (e\<lparr>en_rule := rule\<rparr>) b)"

definition forget :: "string \<Rightarrow> board \<Rightarrow> board" where
  "forget i b = b\<lparr>bd_entries := tree_del i (bd_entries b)\<rparr>"

definition rule_at :: "board \<Rightarrow> string \<Rightarrow> on_loss option" where
  "rule_at b i = Option.bind (entry_at b i) en_rule"

definition board_rules :: "board \<Rightarrow> (string \<times> on_loss) list" where
  "board_rules b = List.map_filter (\<lambda>(i, e). map_option (Pair i) (en_rule e)) (bd_entries b)"

definition busy :: "board \<Rightarrow> bool" where
  "busy b \<longleftrightarrow> (\<exists>e \<in> set (map snd (bd_entries b)). en_rule e \<noteq> None \<or> en_showing e \<noteq> None)"

definition stand_in :: "board \<Rightarrow> string \<Rightarrow> string option" where
  "stand_in b i = Option.bind (entry_at b i) en_showing"

definition look_at :: "board \<Rightarrow> liveness \<Rightarrow> string \<Rightarrow> source_look" where
  "look_at b live i = \<lparr>lk_live = li_live live i, lk_down = li_down live i, lk_unconnected = li_unconnected_for live i,
     lk_connect_wait = bd_connect_wait b\<rparr>"

definition entry_step :: "source_look \<Rightarrow> instant \<Rightarrow> entry \<Rightarrow> backup_step option \<times> entry" where
  "entry_step l now e =
    (case en_rule e of
       None \<Rightarrow> (None, e)
     | Some r \<Rightarrow>
        (case watch_step r l now (en_watch e) of
           (s, w) \<Rightarrow> (s, e\<lparr>en_watch := w, en_leaving := (if s = Some Return then Some ''returned'' else en_leaving e)\<rparr>)))"

definition board_step :: "instant \<Rightarrow> liveness \<Rightarrow> board \<Rightarrow> (string \<times> backup_step) list \<times> board" where
  "board_step now live b =
    (let moved = map (\<lambda>(i, e). (i, entry_step (look_at b live i) now e)) (bd_entries b)
     in (List.map_filter (\<lambda>(i, s, e). map_option (Pair i) s) moved,
         b\<lparr>bd_entries := map (\<lambda>(i, s, e). (i, e)) moved\<rparr>))"

definition phases :: "board \<Rightarrow> backup_phase list" where
  "phases b = List.map_filter (\<lambda>(i, e). map_option (\<lambda>r. watch_phase r (en_watch e)) (en_rule e)) (bd_entries b)"

definition board_engaged :: "board \<Rightarrow> string \<Rightarrow> bool" where
  "board_engaged b i = (case entry_at b i of Some e \<Rightarrow> watch_engaged (en_watch e) | None \<Rightarrow> False)"

subsection \<open>What the operator can say (\<open>operator.rs\<close>)\<close>

definition release_backup :: "string \<Rightarrow> board \<Rightarrow> (string + unit) \<times> board" where
  "release_backup i b =
    (case entry_at b i of
       Some e \<Rightarrow>
         if watch_engaged (en_watch e)
         then (Inr (), put_entry i (e\<lparr>en_watch := disengage (en_watch e), en_leaving := Some ''operator''\<rparr>) b)
         else (Inl (i @ '' is not on its backup, so there is nothing to return from.''), b)
     | None \<Rightarrow> (Inl (i @ '' is not on its backup, so there is nothing to return from.''), b))"

definition stay_on_backup :: "string \<Rightarrow> board \<Rightarrow> (string + unit) \<times> board" where
  "stay_on_backup i b =
    (case entry_at b i of
       Some e \<Rightarrow>
         if watch_engaged (en_watch e)
         then (Inr (), put_entry i (e\<lparr>en_watch := (en_watch e)\<lparr>wa_stay := True\<rparr>\<rparr>) b)
         else (Inl (i @ '' is not on its backup, so there is nothing to stay on.''), b)
     | None \<Rightarrow> (Inl (i @ '' is not on its backup, so there is nothing to stay on.''), b))"

subsection \<open>Which backup is drawn (\<open>state.rs\<close>)\<close>

record swap =
  sw_source :: string
  sw_from :: "string option"
  sw_to :: "string option"

text \<open>The backups of a source in the order they are tried; each step adds a backup some rule names.\<close>

definition backups_named :: "board \<Rightarrow> string set" where
  "backups_named b = set (List.map_filter (\<lambda>e. map_option (\<lambda>r. trim (ol_backup r)) (en_rule (snd e))) (bd_entries b))"

lemma in_map_filter: "y \<in> set (List.map_filter f xs) \<longleftrightarrow> (\<exists>x \<in> set xs. f x = Some y)"
  by (force simp: List.map_filter_def)

lemma rule_at_named: "rule_at b cur = Some r \<Longrightarrow> trim (ol_backup r) \<in> backups_named b"
proof -
  assume "rule_at b cur = Some r"
  then obtain e where "entry_at b cur = Some e" "en_rule e = Some r" by (auto simp: rule_at_def bind_eq_Some_conv)
  then show ?thesis using map_of_SomeD by (force simp: backups_named_def in_map_filter)
qed

function chain_from :: "board \<Rightarrow> string \<Rightarrow> string \<Rightarrow> string list \<Rightarrow> string list" where
  "chain_from b i cur chain =
    (case rule_at b cur of
       None \<Rightarrow> chain
     | Some r \<Rightarrow>
         (let next = trim (ol_backup r) in
          if next = i \<or> next \<in> set chain then chain else chain_from b i next (chain @ [next])))"
  by pat_completeness auto
termination
proof (relation "measure (\<lambda>(b, i, cur, chain). card (backups_named b - set chain))")
  fix b i cur chain r "next"
  assume r: "rule_at b cur = Some r" "next = trim (ol_backup r)" "\<not> (next = i \<or> next \<in> set chain)"
  have "next \<in> backups_named b" using rule_at_named r by simp
  moreover have "finite (backups_named b)" by (simp add: backups_named_def)
  ultimately have "card (backups_named b - set (chain @ [next])) < card (backups_named b - set chain)"
    using r(3) by (intro psubset_card_mono) auto
  then show "((b, i, next, chain @ [next]), (b, i, cur, chain)) \<in> measure (\<lambda>(b, i, cur, chain). card (backups_named b - set chain))"
    by simp
qed simp

declare chain_from.simps [simp del]

definition backup_chain :: "board \<Rightarrow> string \<Rightarrow> string list" where
  "backup_chain b i = chain_from b i i []"

definition target :: "board \<Rightarrow> string \<Rightarrow> liveness \<Rightarrow> string option" where
  "target b i live =
    (case entry_at b i of
       None \<Rightarrow> None
     | Some e \<Rightarrow>
         if en_rule e = None \<or> \<not> watch_engaged (en_watch e) then None
         else let chain = backup_chain b i in
           (case en_showing e of
              Some now \<Rightarrow>
                if now \<in> set chain \<and> li_live_within live now BACKUP_GRACE then Some now
                else List.find (li_live live) chain
            | None \<Rightarrow> List.find (li_live live) chain))"

definition cover :: "board \<Rightarrow> string \<Rightarrow> liveness \<Rightarrow> string option" where
  "cover b i live = List.find (li_live live) (backup_chain b i)"

definition changes :: "board \<Rightarrow> liveness \<Rightarrow> swap list" where
  "changes b live =
     List.map_filter (\<lambda>(i, e). let t = target b i live in
       if t \<noteq> en_showing e then Some \<lparr>sw_source = i, sw_from = en_showing e, sw_to = t\<rparr> else None) (bd_entries b)"

definition shown :: "string \<Rightarrow> string option \<Rightarrow> board \<Rightarrow> string option \<times> board" where
  "shown i t b =
    (case entry_at b i of
       None \<Rightarrow> (None, b)
     | Some e \<Rightarrow>
         if en_showing e \<noteq> None \<and> t = None
         then (Some (or_set (en_leaving e) ''backup_down''), put_entry i (e\<lparr>en_showing := t, en_leaving := None\<rparr>) b)
         else (None, put_entry i (e\<lparr>en_showing := t\<rparr>) b))"

definition never_live :: "board \<Rightarrow> string \<Rightarrow> bool" where
  "never_live b i =
    (case entry_at b i of Some e \<Rightarrow> wa_never_live (en_watch e) \<and> wa_down_since (en_watch e) \<noteq> None | None \<Rightarrow> False)"

definition lost_for :: "board \<Rightarrow> string \<Rightarrow> instant \<Rightarrow> duration option" where
  "lost_for b i now = Option.bind (entry_at b i) (\<lambda>e. watch_lost_for now (en_watch e))"

definition backup_warning :: "board \<Rightarrow> string \<Rightarrow> backup_phase \<Rightarrow> bool \<Rightarrow> liveness \<Rightarrow> string option" where
  "backup_warning b i phase showing live =
     Option.bind (rule_at b i) (\<lambda>r.
       if phase \<in> {OnBackup, Returning, MainBack} \<and> \<not> showing
       then Some (ol_backup r @ '', the backup, has no picture either, so '' @ i @ [CHR 0x27] @
              ''s last frame or the slate is on air. Take another source, or pick a backup that is live.'')
       else if phase \<in> {Ready, Lost} \<and> cover b i live = None
       then Some (ol_backup r @ '', the backup, has no picture, so it could not stand in for '' @ i @
              '' now. Pick a backup that is live.'')
       else None)"

definition state_of :: "board \<Rightarrow> string \<Rightarrow> instant \<Rightarrow> liveness \<Rightarrow> backup_state option" where
  "state_of b i now live =
     Option.bind (entry_at b i) (\<lambda>e. Option.bind (en_rule e) (\<lambda>r.
       let w = en_watch e; phase = watch_phase r w
       in Some \<lparr>bu_phase = phase, bu_showing = en_showing e, bu_lost_ms = map_option millis (watch_lost_for now w),
            bu_switch_in_ms = map_option millis (switch_in r now w), bu_return_in_ms = map_option millis (return_in r now w),
            bu_warning = backup_warning b i phase (en_showing e \<noteq> None) live,
            bu_never_live = (phase \<noteq> Ready \<and> never_live b i)\<rparr>))"

end
