(* ===== verification/Stand_Ins.thy ===== *)
theory Stand_Ins
  imports Failover
begin

text \<open>
  The mixer's side of backups (\<open>crates/godwinmix-core/src/mixer/failover.rs\<close> and \<open>failover/commands.rs\<close>,
  \<open>draw.rs\<close>): what it answers about a source, when it draws what the board asks for, and what a caller can
  do. Of the mixer only what the board reads is kept: each source's state and clock, the sources still
  being probed, and when one that would not start was first tried. The transition a swap runs over, the
  compositor and the events are not modelled; that one is running is an argument.
\<close>

datatype source_state = Connecting | Live | Stalled | Failed

record source_slot =
  sl_id :: string
  sl_state :: source_state
  sl_live_at :: "instant option"
  sl_added_at :: "instant option"

record mixer_view =
  mx_sources :: "source_slot list"
  mx_pending :: "string list"
  mx_first_tried :: "string \<Rightarrow> instant option"
  mx_unstarted :: "string list"

definition slot_of_id :: "mixer_view \<Rightarrow> string \<Rightarrow> source_slot option" where
  "slot_of_id m i = List.find (\<lambda>s. sl_id s = i) (mx_sources m)"

definition seen_live :: "mixer_view \<Rightarrow> string \<Rightarrow> bool" where
  "seen_live m i = (case slot_of_id m i of Some s \<Rightarrow> sl_state s = Live | None \<Rightarrow> False)"

definition seen_down :: "mixer_view \<Rightarrow> string \<Rightarrow> bool" where
  "seen_down m i =
    (case slot_of_id m i of
       Some s \<Rightarrow>
         (case sl_state s of
            Live \<Rightarrow> False
          | Failed \<Rightarrow> \<not> (sl_live_at s = None \<and> mx_first_tried m i \<noteq> None)
          | Stalled \<Rightarrow> True
          | Connecting \<Rightarrow> sl_live_at s \<noteq> None)
     | None \<Rightarrow> i \<notin> set (mx_pending m) \<and> mx_first_tried m i = None)"

definition seen_live_within :: "mixer_view \<Rightarrow> instant \<Rightarrow> string \<Rightarrow> duration \<Rightarrow> bool" where
  "seen_live_within m now i grace \<longleftrightarrow>
     seen_live m i \<or>
     (case Option.bind (slot_of_id m i) sl_live_at of Some t \<Rightarrow> since now t < grace | None \<Rightarrow> False)"

definition seen_unconnected_for :: "mixer_view \<Rightarrow> instant \<Rightarrow> string \<Rightarrow> duration option" where
  "seen_unconnected_for m now i =
    (let slot = slot_of_id m i in
     if Option.bind slot sl_live_at \<noteq> None then None
     else case mx_first_tried m i of
       Some t \<Rightarrow> Some (since now t)
     | None \<Rightarrow> map_option (since now) (Option.bind slot sl_added_at))"

definition seen :: "mixer_view \<Rightarrow> instant \<Rightarrow> liveness" where
  "seen m now = \<lparr>li_live = seen_live m, li_down = seen_down m, li_live_within = seen_live_within m now,
     li_unconnected_for = seen_unconnected_for m now\<rparr>"

subsection \<open>Drawing\<close>

definition draw_swap :: "swap \<Rightarrow> board \<Rightarrow> board" where
  "draw_swap c b = snd (shown (sw_source c) (sw_to c) b)"

definition swap_stand_ins :: "liveness \<Rightarrow> bool \<Rightarrow> board \<Rightarrow> board" where
  "swap_stand_ins live crossing b =
    (let cs = changes b live in if cs = [] \<or> crossing then b else fold draw_swap cs b)"

definition failover_tick :: "duration \<Rightarrow> instant \<Rightarrow> liveness \<Rightarrow> bool \<Rightarrow> board \<Rightarrow> board" where
  "failover_tick connect_wait now live crossing b =
    (if \<not> busy b then b
     else swap_stand_ins live crossing (snd (board_step now live (b\<lparr>bd_connect_wait := connect_wait\<rparr>))))"

text \<open>A source as it is drawn, and how long its last frame stays up.\<close>

definition stand_in_for :: "board \<Rightarrow> string \<Rightarrow> string" where
  "stand_in_for b i = (case stand_in b i of Some s \<Rightarrow> s | None \<Rightarrow> i)"

definition FREEZE_HOLD :: duration where "FREEZE_HOLD = secs 45"

definition hold_for :: "board \<Rightarrow> string \<Rightarrow> duration" where
  "hold_for b i =
    (case rule_at b i of
       None \<Rightarrow> FREEZE_HOLD
     | Some r \<Rightarrow> max FREEZE_HOLD (wait_of (ol_after_secs r) + secs 1))"

subsection \<open>What a caller can do\<close>

datatype backup_command = SetRule string "on_loss option" | ReturnNow string | StayOn string

datatype command_error = NoPictureYet string | NotOnBackup string | NoSuchSource string | RuleRefused backup_problem

definition known_ids :: "mixer_view \<Rightarrow> string list" where
  "known_ids m = dedup (sort (map sl_id (mx_sources m) @ mx_pending m @ mx_unstarted m))"

definition set_on_loss :: "mixer_view \<Rightarrow> instant \<Rightarrow> bool \<Rightarrow> string \<Rightarrow> on_loss option \<Rightarrow> board \<Rightarrow> (command_error + unit) \<times> board" where
  "set_on_loss m now crossing i rule b =
    (let ids = known_ids m in
     if i \<notin> set ids then (Inl (NoSuchSource i), b)
     else case (case rule of
                  None \<Rightarrow> Inr ()
                | Some r \<Rightarrow> check_rules (filter (\<lambda>e. fst e \<noteq> i) (board_rules b) @ [(i, r)]) ids) of
            Inl p \<Rightarrow> (Inl (RuleRefused p), b)
          | Inr u \<Rightarrow> (Inr (), swap_stand_ins (seen m now) crossing (set_rule i rule b)))"

fun run_backup_command :: "mixer_view \<Rightarrow> instant \<Rightarrow> bool \<Rightarrow> backup_command \<Rightarrow> board \<Rightarrow> (command_error + unit) \<times> board" where
  "run_backup_command m now crossing (SetRule i rule) b = set_on_loss m now crossing i rule b"
| "run_backup_command m now crossing (ReturnNow i) b =
    (if board_engaged b i \<and> \<not> seen_live m i then (Inl (NoPictureYet i), b)
     else case release_backup i b of
       (Inl e, b) \<Rightarrow> (Inl (NotOnBackup i), b)
     | (Inr u, b) \<Rightarrow> (Inr (), swap_stand_ins (seen m now) crossing b))"
| "run_backup_command m now crossing (StayOn i) b =
    (case stay_on_backup i b of (Inl e, b) \<Rightarrow> (Inl (NotOnBackup i), b) | (Inr u, b) \<Rightarrow> (Inr (), b))"

end
