(* ===== verification/Failover_Run.thy ===== *)
theory Failover_Run
  imports Stand_Ins
begin

text \<open>
  What holds of every board a run reaches, what drawing changes does to a board, and the walk along a
  chain of backups. What the board relies on of the mixer's answers is the interface \<open>live_view\<close>; it is
  interpreted on \<open>seen\<close>, the answers of the mixer.
\<close>

subsection \<open>The chain\<close>

definition backs :: "board \<Rightarrow> string \<Rightarrow> string \<Rightarrow> bool" where
  "backs b x y \<longleftrightarrow> (\<exists>r. rule_at b x = Some r \<and> trim (ol_backup r) = y)"

lemma chain_from_distinct:
  "distinct chain \<Longrightarrow> i \<notin> set chain \<Longrightarrow> distinct (chain_from b i cur chain) \<and> i \<notin> set (chain_from b i cur chain)"
proof (induction b i cur chain rule: chain_from.induct)
  case (1 b i cur chain)
  show ?case
  proof (cases "rule_at b cur")
    case None
    then show ?thesis using 1(2,3) by (simp add: chain_from.simps [of b i cur])
  next
    case (Some r)
    show ?thesis
    proof (cases "trim (ol_backup r) = i \<or> trim (ol_backup r) \<in> set chain")
      case True
      then show ?thesis using 1(2,3) Some by (simp add: chain_from.simps [of b i cur] Let_def)
    next
      case False
      then have "distinct (chain @ [trim (ol_backup r)])" "i \<notin> set (chain @ [trim (ol_backup r)])" using 1(2,3) by auto
      from 1(1) [OF Some refl False this] show ?thesis using Some False by (simp add: chain_from.simps [of b i cur] Let_def)
    qed
  qed
qed

lemma chain_distinct: "distinct (backup_chain b i)" "i \<notin> set (backup_chain b i)"
  using chain_from_distinct [of "[]" i b i] by (simp_all add: backup_chain_def)

text \<open>Each source of a chain backs the one before it.\<close>

fun linked :: "board \<Rightarrow> string list \<Rightarrow> bool" where
  "linked b (x # y # zs) \<longleftrightarrow> backs b x y \<and> linked b (y # zs)"
| "linked b zs \<longleftrightarrow> True"

lemma linked_snoc: "linked b (xs @ [x]) \<Longrightarrow> backs b x y \<Longrightarrow> linked b (xs @ [x, y])"
  by (induction xs rule: induct_list012) auto

text \<open>A chain ends where there is no rule, or where the next backup is one already in it.\<close>

lemma chain_from_ends:
  assumes "linked b (i # chain)" "cur = last (i # chain)"
  shows "linked b (i # chain_from b i cur chain) \<and>
    (rule_at b (last (i # chain_from b i cur chain)) = None \<or>
     (\<exists>y \<in> set (i # chain_from b i cur chain). backs b (last (i # chain_from b i cur chain)) y))"
  using assms
proof (induction b i cur chain rule: chain_from.induct)
  case (1 b i cur chain)
  show ?case
  proof (cases "rule_at b cur")
    case None
    then have "chain_from b i cur chain = chain" by (simp add: chain_from.simps [of b i cur])
    with None 1(2,3) show ?thesis by simp
  next
    case (Some r)
    let ?y = "trim (ol_backup r)"
    have y: "backs b cur ?y" using Some by (simp add: backs_def)
    show ?thesis
    proof (cases "?y = i \<or> ?y \<in> set chain")
      case True
      then have same: "chain_from b i cur chain = chain" using Some by (simp add: chain_from.simps [of b i cur] Let_def)
      have "?y \<in> set (i # chain)" using True by auto
      with y have "\<exists>y \<in> set (i # chain). backs b (last (i # chain)) y" unfolding 1(3) by blast
      with 1(2) show ?thesis unfolding same by blast
    next
      case False
      have "i # chain = butlast (i # chain) @ [cur]" using 1(3) append_butlast_last_id [of "i # chain"] by simp
      then have "linked b (i # chain @ [?y])"
        using linked_snoc [of b "butlast (i # chain)" cur ?y] 1(2) y by (metis append_Cons append_assoc append_Nil)
      moreover have "?y = last (i # chain @ [?y])" by simp
      ultimately show ?thesis using 1(1) [OF Some refl False] Some False
        by (simp only: chain_from.simps [of b i cur] Let_def option.case if_False)
    qed
  qed
qed

lemma chain_cong: "(\<And>j. rule_at b j = rule_at c j) \<Longrightarrow> chain_from b i cur chain = chain_from c i cur chain"
proof (induction b i cur chain rule: chain_from.induct)
  case (1 b i cur chain)
  then show ?case by (subst (1 2) chain_from.simps) (auto simp: Let_def split: option.split)
qed

subsection \<open>Drawing\<close>

lemma entry_at_put [simp]: "tree_ok (bd_entries b) \<Longrightarrow> entry_at (put_entry i e b) j = (if j = i then Some e else entry_at b j)"
  by (simp add: put_entry_def map_of_tree_put)

lemma tree_ok_put_entry [simp]: "tree_ok (bd_entries b) \<Longrightarrow> tree_ok (bd_entries (put_entry i e b))"
  by (simp add: put_entry_def tree_ok_put)

definition drawn :: "string option \<Rightarrow> entry \<Rightarrow> entry" where
  "drawn t e = (if en_showing e \<noteq> None \<and> t = None then e\<lparr>en_showing := t, en_leaving := None\<rparr> else e\<lparr>en_showing := t\<rparr>)"

lemma drawn_sel [simp]: "en_rule (drawn t e) = en_rule e" "en_watch (drawn t e) = en_watch e" "en_showing (drawn t e) = t"
  by (simp_all add: drawn_def)

lemma draw_swap_at:
  assumes "tree_ok (bd_entries b)"
  shows "entry_at (draw_swap c b) j = (if j = sw_source c then map_option (drawn (sw_to c)) (entry_at b j) else entry_at b j)"
    "tree_ok (bd_entries (draw_swap c b))"
  using assms by (auto simp: draw_swap_def shown_def drawn_def split: option.split)

lemma draw_swaps_at:
  assumes "tree_ok (bd_entries b)" "distinct (map sw_source cs)"
  shows "entry_at (fold draw_swap cs b) j =
      (case List.find (\<lambda>c. sw_source c = j) cs of Some c \<Rightarrow> map_option (drawn (sw_to c)) (entry_at b j) | None \<Rightarrow> entry_at b j)
    \<and> tree_ok (bd_entries (fold draw_swap cs b))"
  using assms
proof (induction cs arbitrary: b)
  case (Cons c cs)
  have "List.find (\<lambda>c. sw_source c = j) cs = None" if "sw_source c = j" 
    using Cons.prems(2) that unfolding find_None_iff by (auto simp: image_iff)
  with Cons.IH [OF draw_swap_at(2) [OF Cons.prems(1)], of c] Cons.prems show ?case
    by (auto simp: draw_swap_at(1) split: option.split)
qed simp

definition swap_of :: "board \<Rightarrow> liveness \<Rightarrow> string \<times> entry \<Rightarrow> swap option" where
  "swap_of b live x = (if target b (fst x) live \<noteq> en_showing (snd x)
     then Some \<lparr>sw_source = fst x, sw_from = en_showing (snd x), sw_to = target b (fst x) live\<rparr> else None)"

lemma changes_swap_of: "changes b live = List.map_filter (swap_of b live) (bd_entries b)"
  unfolding changes_def by (rule arg_cong2 [where f = List.map_filter]) (auto simp: swap_of_def Let_def fun_eq_iff)

lemma map_filter_Cons: "List.map_filter f (x # xs) = (case f x of Some y \<Rightarrow> y # List.map_filter f xs | None \<Rightarrow> List.map_filter f xs)"
  by (simp add: List.map_filter_def split: option.split)

lemma swap_of_source: "swap_of b live x = Some c \<Longrightarrow> sw_source c = fst x"
  by (auto simp: swap_of_def split: if_split_asm)

lemma changes_find:
  assumes "distinct (keys_of es)"
  shows "distinct (map sw_source (List.map_filter (swap_of b live) es)) \<and>
    List.find (\<lambda>c. sw_source c = j) (List.map_filter (swap_of b live) es) =
      Option.bind (map_of es j) (\<lambda>e. swap_of b live (j, e))"
  using assms
proof (induction es)
  case Nil
  then show ?case by (simp add: List.map_filter_def)
next
  case (Cons x es)
  have out: "sw_source c \<noteq> fst x" if "c \<in> set (List.map_filter (swap_of b live) es)" for c
  proof -
    from that obtain e where "e \<in> set es" "swap_of b live e = Some c" by (auto simp: in_map_filter)
    then have "fst e \<in> set (keys_of es)" "sw_source c = fst e" by (auto simp: set_keys_of dest: swap_of_source)
    then show ?thesis using Cons.prems by auto
  qed
  then have "List.find (\<lambda>c. sw_source c = fst x) (List.map_filter (swap_of b live) es) = None" by (simp add: find_None_iff)
  moreover have "swap_of b live (fst x, snd x) = swap_of b live x" by simp
  moreover have "sw_source c \<notin> sw_source ` set (List.map_filter (swap_of b live) es)" if "swap_of b live x = Some c" for c
    using out swap_of_source [OF that] by (metis (no_types) imageE)
  moreover have "distinct (keys_of es)" using Cons.prems by simp
  note IH = Cons.IH [OF this]
  ultimately show ?case
  proof (cases "swap_of b live x")
    case None
    with IH \<open>List.find _ _ = None\<close> show ?thesis by (cases x) (auto simp: map_filter_Cons)
  next
    case (Some c)
    with IH \<open>List.find _ _ = None\<close> swap_of_source [OF Some] \<open>\<And>c. swap_of b live x = Some c \<Longrightarrow> _\<close>
    show ?thesis by (cases x) (auto simp: map_filter_Cons)
  qed
qed

text \<open>Drawing every change makes each source's stand in its target, and touches nothing else.\<close>

lemma drawn_board:
  fixes live :: liveness
  assumes "tree_ok (bd_entries b)"
  defines "c \<equiv> fold draw_swap (changes b live) b"
  shows "tree_ok (bd_entries c)" "stand_in c i = target b i live" "rule_at c i = rule_at b i"
    "board_engaged c i = board_engaged b i" "map_option en_watch (entry_at c i) = map_option en_watch (entry_at b i)"
    "entry_at c i = None \<longleftrightarrow> entry_at b i = None"
proof -
  note find = changes_find [OF tree_ok_distinct [OF assms(1)], of b live, folded changes_swap_of]
  note at = draw_swaps_at [OF assms(1) conjunct1 [OF find], of i, folded c_def]
  have eq: "entry_at c i = map_option (\<lambda>e. if target b i live = en_showing e then e else drawn (target b i live) e) (entry_at b i)"
    using at find [of i] by (cases "entry_at b i") (auto simp: swap_of_def)
  show "tree_ok (bd_entries c)" using at by blast
  have "target b i live = None" if "entry_at b i = None" using that by (simp add: target_def)
  then show "stand_in c i = target b i live" by (cases "entry_at b i") (auto simp: stand_in_def eq)
  show "rule_at c i = rule_at b i" "board_engaged c i = board_engaged b i"
    "map_option en_watch (entry_at c i) = map_option en_watch (entry_at b i)" "entry_at c i = None \<longleftrightarrow> entry_at b i = None"
    by (cases "entry_at b i"; auto simp: rule_at_def board_engaged_def eq)+
qed

subsection \<open>What the board relies on\<close>

text \<open>A source that delivers now has delivered lately, and is not down.\<close>

locale live_view =
  fixes live :: liveness
  assumes live_lately: "li_live live i \<Longrightarrow> li_live_within live i d"
    and live_not_down: "li_live live i \<Longrightarrow> \<not> li_down live i"
begin

lemma target_in_chain:
  assumes "target b i live = Some t"
  shows "t \<in> set (backup_chain b i)" "li_live_within live t BACKUP_GRACE" "board_engaged b i" "t \<noteq> i"
proof -
  from assms obtain e where e: "entry_at b i = Some e" "watch_engaged (en_watch e)" by (auto simp: target_def split: option.split_asm if_split_asm)
  then show "board_engaged b i" by (simp add: board_engaged_def)
  have found: "x \<in> set (backup_chain b i) \<and> li_live live x" if "List.find (li_live live) (backup_chain b i) = Some x" for x
    using find_Some_iff_first [OF that] .
  have "t \<in> set (backup_chain b i) \<and> li_live_within live t BACKUP_GRACE"
    using assms e by (auto simp: target_def Let_def dest!: found intro: live_lately split: option.split_asm if_split_asm)
  then show "t \<in> set (backup_chain b i)" "li_live_within live t BACKUP_GRACE" by blast+
  then show "t \<noteq> i" using chain_distinct(2) by metis
qed

lemma target_covers:
  assumes "board_engaged b i" "rule_at b i \<noteq> None" "s \<in> set (backup_chain b i)" "li_live live s"
  shows "target b i live \<noteq> None"
proof -
  have "List.find (li_live live) (backup_chain b i) \<noteq> None" using assms(3,4) by (auto simp: find_None_iff)
  moreover obtain e where "entry_at b i = Some e" "en_rule e \<noteq> None" "watch_engaged (en_watch e)"
    using assms(1,2) by (auto simp: board_engaged_def rule_at_def split: option.split_asm)
  ultimately show ?thesis by (auto simp: target_def Let_def split: option.split)
qed

text \<open>A target that is drawn stays the target: nothing swaps twice.\<close>

lemma target_settled:
  assumes "tree_ok (bd_entries b)"
  shows "target (fold draw_swap (changes b live) b) i live = target b i live"
proof -
  let ?c = "fold draw_swap (changes b live) b"
  note d = drawn_board [OF assms, of live]
  have chain: "backup_chain ?c i = backup_chain b i" unfolding backup_chain_def by (rule chain_cong) (rule d(3))
  show ?thesis
  proof (cases "entry_at ?c i")
    case None
    then show ?thesis using d(6) [of i] by (simp add: target_def)
  next
    case (Some e)
    then obtain e0 where e0: "entry_at b i = Some e0" using d(6) [of i] by auto
    have same: "en_rule e = en_rule e0" "en_watch e = en_watch e0" "en_showing e = target b i live"
      using d(2,3,5) [of i] Some e0 by (simp_all add: rule_at_def stand_in_def)
    show ?thesis
    proof (cases "target b i live")
      case None
      then show ?thesis using Some e0 same
        by (auto simp: target_def chain Let_def split: if_split_asm option.split_asm)
    next
      case (Some t)
      note t = target_in_chain [OF Some]
      have "en_rule e0 \<noteq> None" "watch_engaged (en_watch e0)" using Some e0 by (auto simp: target_def split: if_split_asm)
      then show ?thesis using \<open>entry_at ?c i = Some e\<close> same Some t(1,2) by (simp add: target_def chain Let_def)
    qed
  qed
qed

lemma changes_settled:
  assumes "tree_ok (bd_entries b)"
  shows "changes (fold draw_swap (changes b live) b) live = []"
proof -
  let ?c = "fold draw_swap (changes b live) b"
  have "target ?c i live = en_showing e" if "(i, e) \<in> set (bd_entries ?c)" for i e
  proof -
    have "distinct (map fst (bd_entries ?c))" using drawn_board(1) [OF assms] tree_ok_distinct keys_of_def by metis
    then have "entry_at ?c i = Some e" using that by (rule map_of_is_SomeI)
    then have "stand_in ?c i = en_showing e" by (simp add: stand_in_def)
    then show ?thesis using drawn_board(2) [OF assms] target_settled [OF assms] by metis
  qed
  then have none: "swap_of ?c live x = None" if "x \<in> set (bd_entries ?c)" for x
    using that by (cases x) (simp add: swap_of_def)
  then have "filter (\<lambda>x. swap_of ?c live x \<noteq> None) (bd_entries ?c) = []" by (simp add: filter_empty_conv)
  then show ?thesis by (simp add: changes_swap_of List.map_filter_def)
qed

end

interpretation seen: live_view "seen m now" for m now
  by unfold_locales (auto simp: seen_def seen_live_within_def seen_live_def seen_down_def split: option.split_asm option.split)

subsection \<open>Runs\<close>

inductive board_run :: "board \<Rightarrow> bool" where
  empty: "board_run board_default"
| adopted: "board_run b \<Longrightarrow> board_run (adopt i rule b)"
| forgotten: "board_run b \<Longrightarrow> board_run (forget i b)"
| ticked: "board_run b \<Longrightarrow> board_run (failover_tick connect_wait now (seen m now) crossing b)"
| commanded: "board_run b \<Longrightarrow> board_run (snd (run_backup_command m now crossing c b))"
| drawn: "board_run b \<Longrightarrow> board_run (swap_stand_ins (seen m now) crossing b)"

lemma tree_ok_entries: "map fst xs = map fst ys \<Longrightarrow> tree_ok xs = tree_ok ys"
  by (simp add: tree_ok_def keys_of_def)

lemma board_step_keys: "tree_ok (bd_entries b) \<Longrightarrow> tree_ok (bd_entries (snd (board_step now live b)))"
proof -
  have "map fst (bd_entries (snd (board_step now live b))) = map fst (bd_entries b)"
    by (simp add: board_step_def Let_def comp_def case_prod_beta)
  then show "tree_ok (bd_entries b) \<Longrightarrow> ?thesis" using tree_ok_entries by metis
qed

lemma swap_stand_ins_keys: "tree_ok (bd_entries b) \<Longrightarrow> tree_ok (bd_entries (swap_stand_ins live crossing b))"
  using drawn_board(1) by (simp add: swap_stand_ins_def Let_def)

lemma command_keys: "tree_ok (bd_entries b) \<Longrightarrow> tree_ok (bd_entries (snd (run_backup_command m now crossing c b)))"
proof (cases c)
  case (SetRule i rule)
  then show "tree_ok (bd_entries b) \<Longrightarrow> ?thesis"
    by (auto simp: set_on_loss_def Let_def set_rule_def intro: swap_stand_ins_keys split: sum.split)
next
  case (ReturnNow i)
  then show "tree_ok (bd_entries b) \<Longrightarrow> ?thesis"
    by (auto simp: release_backup_def intro!: swap_stand_ins_keys split: option.split sum.split)
next
  case (StayOn i)
  then show "tree_ok (bd_entries b) \<Longrightarrow> ?thesis"
    by (auto simp: stay_on_backup_def split: option.split)
qed

lemma board_run_ok: "board_run b \<Longrightarrow> tree_ok (bd_entries b)"
proof (induction rule: board_run.induct)
  case (ticked b connect_wait now m crossing)
  then show ?case by (auto simp: failover_tick_def intro!: swap_stand_ins_keys board_step_keys)
qed (auto simp: board_default_def adopt_def forget_def tree_ok_del intro: command_keys swap_stand_ins_keys split: option.split)

end
