(* ===== verification/Backup_Loops.thy ===== *)
theory Backup_Loops
  imports Failover_Run "HOL-Library.Transitive_Closure_Table"
begin

text \<open>
  The check of a set of rules against loops: the bounded walk of \<open>loop_from\<close> finds a loop exactly when
  following backups can come back to where it began. What was accepted so has chains that run to
  their end.
\<close>

definition backs_in :: "(string \<times> on_loss) list \<Rightarrow> string \<Rightarrow> string \<Rightarrow> bool" where
  "backs_in rules x y \<longleftrightarrow> rule_of rules x = Some y"

lemma rule_of_key: "rule_of rules x = Some y \<Longrightarrow> x \<in> set (map fst rules)"
  by (auto simp: rule_of_def dest: find_Some_iff_first)

lemma walk_sound: "walk_backups rules start cur path = Some p \<Longrightarrow> (backs_in rules)\<^sup>*\<^sup>* cur start"
proof (induction rules start cur path rule: walk_backups.induct)
  case (1 rules start cur path)
  from 1(2) show ?case
  proof (subst (asm) walk_backups.simps, simp split: if_split_asm option.split_asm)
    fix "next"
    assume a: "length path \<le> length rules" "cur \<noteq> start" "cur \<notin> set path" "rule_of rules cur = Some next"
      "walk_backups rules start next (path @ [cur]) = Some p"
    from 1(1) [OF a(1,2,3,4,5)] a(4) show "(backs_in rules)\<^sup>*\<^sup>* cur start"
      by (meson backs_in_def converse_rtranclp_into_rtranclp)
  qed
qed

lemma walk_finds:
  assumes "rtrancl_path (backs_in rules) cur xs start" "distinct (cur # xs)"
    "(set (cur # xs) - {start}) \<inter> set path = {}" "length path + length xs \<le> length rules"
  shows "walk_backups rules start cur path \<noteq> None"
  using assms
proof (induction arbitrary: path rule: rtrancl_path.induct)
  case (base x)
  then show ?case by (simp add: walk_backups.simps)
next
  case (step x y ys z)
  have "z \<in> set (y # ys)" using step(2) by (induction rule: rtrancl_path.induct) auto
  then have "x \<noteq> z" using step(4) by auto
  moreover have "x \<notin> set path" using step(5) \<open>x \<noteq> z\<close> by auto
  moreover have "rule_of rules x = Some y" using step(1) by (simp add: backs_in_def)
  moreover have "walk_backups rules z y (path @ [x]) \<noteq> None"
    using step(4,5,6) by (intro step.IH) auto
  ultimately show ?case using step(6) by (simp add: walk_backups.simps [of rules z x])
qed

lemma path_keys:
  assumes "rtrancl_path (backs_in rules) x xs y" "backs_in rules y z"
  shows "set (x # xs) \<subseteq> set (map fst rules)"
  using assms by (induction rule: rtrancl_path.induct) (auto simp: backs_in_def dest: rule_of_key)

text \<open>No loop is found just when no source can be reached from itself.\<close>

lemma find_loop_None: "find_loop rules = None \<longleftrightarrow> (\<forall>x. \<not> (backs_in rules)\<^sup>+\<^sup>+ x x)"
proof
  assume none: "find_loop rules = None"
  show "\<forall>x. \<not> (backs_in rules)\<^sup>+\<^sup>+ x x"
  proof (intro allI notI)
    fix x
    assume "(backs_in rules)\<^sup>+\<^sup>+ x x"
    then obtain a where a: "backs_in rules x a" "(backs_in rules)\<^sup>*\<^sup>* a x" by (meson tranclpD)
    then obtain xs0 where "rtrancl_path (backs_in rules) a xs0 x" by (auto simp: rtranclp_eq_rtrancl_path)
    then obtain xs where xs: "rtrancl_path (backs_in rules) a xs x" "distinct (a # xs)" by (rule rtrancl_path_distinct)
    have "card (set (a # xs)) \<le> card (set (map fst rules))" using path_keys [OF xs(1) a(1)] by (intro card_mono) auto
    then have len: "length (a # xs) \<le> length rules"
      using distinct_card [OF xs(2)] card_length [of "map fst rules"] by simp
    have "walk_backups rules x a [x] \<noteq> None" using xs len by (intro walk_finds) auto
    then have found: "loop_from x rules \<noteq> None" using a(1) by (simp add: loop_from_def backs_in_def)
    from rule_of_key a(1) have "x \<in> fst ` set rules" by (simp add: backs_in_def)
    then obtain r where "(x, r) \<in> set rules" by force
    with none found show False by (force simp: find_loop_def find_map_None)
  qed
next
  assume acyclic: "\<forall>x. \<not> (backs_in rules)\<^sup>+\<^sup>+ x x"
  have "loop_from x rules = None" for x
  proof (rule ccontr)
    assume "loop_from x rules \<noteq> None"
    then obtain a p where "rule_of rules x = Some a" "walk_backups rules x a [x] = Some p"
      by (auto simp: loop_from_def bind_eq_Some_conv)
    then have "(backs_in rules)\<^sup>+\<^sup>+ x x" using walk_sound [of rules x a "[x]" p] by (simp add: backs_in_def rtranclp_into_tranclp2)
    then show False using acyclic by blast
  qed
  then show "find_loop rules = None" by (simp add: find_loop_def find_map_None)
qed

subsection \<open>The rules of a board\<close>

lemma rule_of_board:
  assumes "tree_ok (bd_entries b)"
  shows "rule_of (board_rules b) x = map_option (\<lambda>r. trim (ol_backup r)) (rule_at b x)"
proof -
  have "List.find (\<lambda>e. fst e = x) (List.map_filter (\<lambda>(i, e). map_option (Pair i) (en_rule e)) es) =
      map_option (Pair x) (Option.bind (map_of es x) en_rule)" if "distinct (keys_of es)" for es
    using that
  proof (induction es)
    case Nil
    then show ?case by (simp add: List.map_filter_def)
  next
    case (Cons a es)
    then show ?case
      by (cases a) (auto simp: map_filter_Cons find_None_iff in_map_filter set_keys_of image_iff split: option.split)
  qed
  from this [OF tree_ok_distinct [OF assms]] show ?thesis
    by (simp add: rule_of_def board_rules_def rule_at_def option.map_comp comp_def)
qed

lemma backs_in_board: "tree_ok (bd_entries b) \<Longrightarrow> backs_in (board_rules b) = backs b"
  by (auto simp: fun_eq_iff backs_in_def backs_def rule_of_board)

text \<open>Everything along a linked list is reached from its head.\<close>

lemma linked_reach: "linked b (x # xs) \<Longrightarrow> y \<in> set (x # xs) \<Longrightarrow> (backs b)\<^sup>*\<^sup>* y (last (x # xs))"
proof (induction xs arbitrary: x y)
  case (Cons z zs)
  have tail: "linked b (z # zs)" "backs b x z" using Cons.prems(1) by auto
  have z: "(backs b)\<^sup>*\<^sup>* z (last (z # zs))" by (rule Cons.IH [OF tail(1)]) simp
  show ?case
  proof (cases "y = x")
    case True
    then show ?thesis using converse_rtranclp_into_rtranclp [OF tail(2) z] by simp
  next
    case False
    then show ?thesis using Cons.IH [OF tail(1)] Cons.prems(2) by auto
  qed
qed simp

lemma chain_ends:
  assumes "\<forall>x. \<not> (backs b)\<^sup>+\<^sup>+ x x"
  shows "linked b (i # backup_chain b i)" "rule_at b (last (i # backup_chain b i)) = None"
proof -
  have "linked b [i]" "i = last [i]" by simp_all
  from chain_from_ends [OF this]
  have ends: "linked b (i # backup_chain b i)"
    "rule_at b (last (i # backup_chain b i)) = None \<or> (\<exists>y \<in> set (i # backup_chain b i). backs b (last (i # backup_chain b i)) y)"
    by (simp_all add: backup_chain_def)
  then show "linked b (i # backup_chain b i)" by blast
  show "rule_at b (last (i # backup_chain b i)) = None"
  proof (rule ccontr)
    assume "rule_at b (last (i # backup_chain b i)) \<noteq> None"
    with ends(2) obtain y where y: "y \<in> set (i # backup_chain b i)" "backs b (last (i # backup_chain b i)) y" by blast
    with linked_reach [OF ends(1) y(1)] have "(backs b)\<^sup>+\<^sup>+ (last (i # backup_chain b i)) (last (i # backup_chain b i))"
      by (meson rtranclp_into_tranclp2)
    then show False using assms by blast
  qed
qed

end
