(* ===== verification/Failover_Properties.thy ===== *)
theory Failover_Properties
  imports Backup_Loops
begin

text \<open>
  What backups promise: rules that are accepted never loop and commands keep it so, a source is given up
  after the wait of its rule and taken back after the other, what stands in is a backup that delivers,
  and what a caller cannot do changes nothing.
\<close>

subsection \<open>Rules\<close>

lemma check_rules_accepts:
  "check_rules rules ids = Inr () \<longleftrightarrow> (\<forall>(i, r) \<in> set rules. check_one i r ids = Inr ()) \<and> (\<forall>x. \<not> (backs_in rules)\<^sup>+\<^sup>+ x x)"
proof -
  have "(\<exists>ys. try_map f rules = Inr ys) \<longleftrightarrow> (\<forall>x \<in> set rules. f x = Inr ())" for f :: "_ \<Rightarrow> backup_problem + unit"
  proof (induction rules)
    case (Cons x xs)
    then show ?case by (cases "f x") (auto simp: and_then_Inr_iff)
  qed simp
  then show ?thesis
    using find_loop_None [of rules] by (cases "find_loop rules") (auto simp: check_rules_def and_then_Inr_iff case_prod_beta)
qed

text \<open>C28: a set of rules is accepted just when every rule is sound on its own and following backups never
  comes back to where it began: the walk, which gives up after as many steps as there are rules, misses
  no loop and reports none that is not there.\<close>

theorem accepted_rules_never_loop:
  "check_rules rules ids = Inr () \<longleftrightarrow>
     list_all (\<lambda>(i, r). check_one i r ids = Inr ()) rules \<and> \<not> (\<exists>x. (\<lambda>x y. rule_of rules x = Some y)\<^sup>+\<^sup>+ x x)"
proof -
  have "backs_in rules = (\<lambda>x y. rule_of rules x = Some y)" by (simp add: backs_in_def fun_eq_iff)
  then show ?thesis by (simp add: check_rules_accepts list_all_iff)
qed

lemma backs_set_rule:
  assumes "tree_ok (bd_entries b)"
  shows "backs (set_rule i rule b) x y \<longleftrightarrow> (if x = i then map_option (\<lambda>r. trim (ol_backup r)) rule = Some y else backs b x y)"
  using assms by (auto simp: backs_def rule_at_def set_rule_def Let_def)

lemma rule_at_shown: "tree_ok (bd_entries b) \<Longrightarrow> rule_at (swap_stand_ins live crossing b) x = rule_at b x"
  using drawn_board(3) [of b live x] by (simp add: swap_stand_ins_def Let_def)

lemma backs_shown: "tree_ok (bd_entries b) \<Longrightarrow> backs (swap_stand_ins live crossing b) = backs b"
  by (simp add: backs_def fun_eq_iff rule_at_shown)

lemma backs_with_rule:
  assumes "tree_ok (bd_entries b)"
  shows "backs_in (filter (\<lambda>e. fst e \<noteq> i) (board_rules b) @ [(i, r)]) = backs (set_rule i (Some r) b)"
proof -
  have "List.find (\<lambda>e. fst e = x) (filter (\<lambda>e. fst e \<noteq> i) rules) = (if x = i then None else List.find (\<lambda>e. fst e = x) rules)"
    for x and rules :: "(string \<times> on_loss) list"
    by (induction rules) auto
  moreover have "List.find P (xs @ ys) = (case List.find P xs of None \<Rightarrow> List.find P ys | Some v \<Rightarrow> Some v)"
    for P :: "string \<times> on_loss \<Rightarrow> bool" and xs ys
    by (induction xs) auto
  ultimately have "rule_of (filter (\<lambda>e. fst e \<noteq> i) (board_rules b) @ [(i, r)]) x =
      (if x = i then Some (trim (ol_backup r)) else rule_of (board_rules b) x)" for x
    by (auto simp: rule_of_def split: option.split)
  then show ?thesis
    using backs_in_board [OF assms] by (auto simp: backs_in_def backs_set_rule [OF assms] fun_eq_iff)
qed

lemma fewer_backs: "(\<And>x y. R x y \<Longrightarrow> S x y) \<Longrightarrow> \<forall>x. \<not> S\<^sup>+\<^sup>+ x x \<Longrightarrow> \<forall>x. \<not> R\<^sup>+\<^sup>+ x x"
proof -
  assume less: "\<And>x y. R x y \<Longrightarrow> S x y"
  have "S\<^sup>+\<^sup>+ x y" if "R\<^sup>+\<^sup>+ x y" for x y using that by induction (auto intro: less tranclp.intros)
  then show "\<forall>x. \<not> S\<^sup>+\<^sup>+ x x \<Longrightarrow> \<forall>x. \<not> R\<^sup>+\<^sup>+ x x" by blast
qed

lemma rule_at_released: "tree_ok (bd_entries b) \<Longrightarrow> rule_at (snd (release_backup i b)) x = rule_at b x"
  "tree_ok (bd_entries b) \<Longrightarrow> rule_at (snd (stay_on_backup i b)) x = rule_at b x"
  by (auto simp: release_backup_def stay_on_backup_def rule_at_def split: option.split)

lemma backs_released: "tree_ok (bd_entries b) \<Longrightarrow> backs (snd (release_backup i b)) = backs b"
  "tree_ok (bd_entries b) \<Longrightarrow> backs (snd (stay_on_backup i b)) = backs b"
  by (simp_all add: backs_def fun_eq_iff rule_at_released)

lemma tree_ok_released: "tree_ok (bd_entries b) \<Longrightarrow> tree_ok (bd_entries (snd (release_backup i b)))"
  by (auto simp: release_backup_def split: option.split)






lemma set_on_loss_acyclic:
  assumes ok: "tree_ok (bd_entries b)" and no_loop: "\<forall>x. \<not> (backs b)\<^sup>+\<^sup>+ x x"
  shows "\<forall>x. \<not> (backs (snd (set_on_loss m now crossing i rule b)))\<^sup>+\<^sup>+ x x"
proof (cases "fst (set_on_loss m now crossing i rule b)")
  case (Inl e)
  then have "snd (set_on_loss m now crossing i rule b) = b"
    by (auto simp: set_on_loss_def Let_def split: if_split_asm sum.split_asm)
  then show ?thesis using no_loop by simp
next
  case (Inr u)
  then have eq: "snd (set_on_loss m now crossing i rule b) = swap_stand_ins (seen m now) crossing (set_rule i rule b)"
    by (auto simp: set_on_loss_def Let_def split: if_split_asm sum.split_asm)
  have ok': "tree_ok (bd_entries (set_rule i rule b))" using ok by (simp add: set_rule_def Let_def)
  show ?thesis
  proof (cases rule)
    case None
    then show ?thesis unfolding eq backs_shown [OF ok'] by (intro fewer_backs [OF _ no_loop]) (auto simp: backs_set_rule [OF ok] split: if_split_asm)
  next
    case (Some r)
    with Inr have "check_rules (filter (\<lambda>e. fst e \<noteq> i) (board_rules b) @ [(i, r)]) (known_ids m) = Inr ()"
      by (auto simp: set_on_loss_def Let_def split: if_split_asm sum.split_asm)
    then have "find_loop (filter (\<lambda>e. fst e \<noteq> i) (board_rules b) @ [(i, r)]) = None"
      by (auto simp: check_rules_def and_then_Inr_iff split: option.split_asm)
    then show ?thesis unfolding find_loop_None backs_with_rule [OF ok] eq backs_shown [OF ok'] unfolding Some .
  qed
qed

lemma command_acyclic:
  assumes ok: "tree_ok (bd_entries b)" and no_loop: "\<forall>x. \<not> (backs b)\<^sup>+\<^sup>+ x x"
  shows "\<forall>x. \<not> (backs (snd (run_backup_command m now crossing c b)))\<^sup>+\<^sup>+ x x"
proof (cases c)
  case (SetRule i rule)
  then show ?thesis using set_on_loss_acyclic [OF assms] by simp
next
  case (ReturnNow i)
  have "backs (snd (run_backup_command m now crossing c b)) = backs b"
    using backs_released(1) [OF ok, of i] backs_shown [OF tree_ok_released [OF ok, of i]]
    by (auto simp: ReturnNow release_backup_def split: option.split)
  then show ?thesis using no_loop by simp
next
  case (StayOn i)
  have "backs (snd (run_backup_command m now crossing c b)) = backs b"
    using backs_released(2) [OF ok, of i] by (auto simp: StayOn split: prod.split sum.split)
  then show ?thesis using no_loop by simp
qed

subsection \<open>A desk for the witnesses\<close>

text \<open>Two sources: \<open>main\<close>, which stopped five seconds in, and its backup \<open>spare\<close>, which delivers.\<close>

definition ex_view :: mixer_view where
  "ex_view = \<lparr>mx_sources = [\<lparr>sl_id = ''main'', sl_state = Stalled, sl_live_at = Some (secs 5), sl_added_at = Some 0\<rparr>,
       \<lparr>sl_id = ''spare'', sl_state = Live, sl_live_at = Some (secs 20), sl_added_at = Some 0\<rparr>],
     mx_pending = [], mx_first_tried = (\<lambda>_. None), mx_unstarted = []\<rparr>"

definition ex_asked :: backup_command where
  "ex_asked = SetRule ''main'' (Some (on_loss_to ''spare''))"

definition ex_ruled :: board where
  "ex_ruled = snd (run_backup_command ex_view (secs 6) False ex_asked board_default)"

lemma ex_ruled_entries: "bd_entries ex_ruled = [(''main'', entry_default\<lparr>en_rule := Some (on_loss_to ''spare'')\<rparr>)]"
  by code_simp

subsection \<open>Commands\<close>

text \<open>C27: no command makes a loop: where the rules of a board have none, whatever a caller then asks leaves
  them without, and the backups of every source run to a source with no rule of its own, none of them
  twice and none left out.\<close>

theorem commands_never_loop:
  assumes "board_run b" "find_loop (board_rules b) = None" "c = snd (run_backup_command m now crossing what b)"
  shows "find_loop (board_rules c) = None \<and> distinct (i # backup_chain c i) \<and> linked c (i # backup_chain c i)
    \<and> rule_at c (last (i # backup_chain c i)) = None"
proof -
  have ok: "tree_ok (bd_entries b)" "tree_ok (bd_entries c)"
    using board_run_ok [OF assms(1)] board_run_ok [OF board_run.commanded [OF assms(1)]] assms(3) by simp_all
  have "\<forall>x. \<not> (backs b)\<^sup>+\<^sup>+ x x" using assms(2) unfolding find_loop_None backs_in_board [OF ok(1)] .
  then have no_loop: "\<forall>x. \<not> (backs c)\<^sup>+\<^sup>+ x x" unfolding assms(3) by (rule command_acyclic [OF ok(1)])
  then have "find_loop (board_rules c) = None" unfolding find_loop_None backs_in_board [OF ok(2)] .
  then show ?thesis using chain_ends [OF no_loop] chain_distinct(1) [of c i] chain_distinct(2) [of i c] by simp
qed

lemma commands_never_loop_witness: "find_loop (board_rules ex_ruled) = None \<and> backup_chain ex_ruled ''main'' = [''spare'']"
proof
  have "find_loop (board_rules board_default) = None" by code_simp
  from commands_never_loop [OF board_run.empty this ex_ruled_def] show "find_loop (board_rules ex_ruled) = None" by blast
  show "backup_chain ex_ruled ''main'' = [''spare'']"
    by (simp add: backup_chain_def chain_from.simps rule_at_def ex_ruled_entries on_loss_to_def trim_def is_blank_def)
qed



subsection \<open>Who stands in\<close>

lemma chain_of_drawn: "tree_ok (bd_entries b) \<Longrightarrow> backup_chain (swap_stand_ins live crossing b) i = backup_chain b i"
  unfolding backup_chain_def by (rule chain_cong) (rule rule_at_shown)

text \<open>C25: whenever stand-ins are drawn, what stands in for a source is one of its backups, never itself, that
  delivers or did so two seconds ago, and only while the source is given up; a source that is given up
  and has a backup that delivers does not stay without one; and drawing again changes nothing.\<close>

theorem stand_ins_deliver:
  assumes "board_run b" "c = swap_stand_ins (seen m now) False b"
  shows "(stand_in c i = Some t \<longrightarrow>
        board_engaged c i \<and> t \<noteq> i \<and> t \<in> set (backup_chain c i) \<and> seen_live_within m now t (secs 2))
    \<and> (board_engaged c i \<and> rule_at c i \<noteq> None \<and> (\<exists>s \<in> set (backup_chain c i). seen_live m s) \<longrightarrow> stand_in c i \<noteq> None)
    \<and> swap_stand_ins (seen m now) False c = c"
proof -
  note ok = board_run_ok [OF assms(1)]
  have c: "c = fold draw_swap (changes b (seen m now)) b" by (simp add: assms(2) swap_stand_ins_def Let_def)
  note d = drawn_board [OF ok, of "seen m now", folded c]
  have chain: "backup_chain c i = backup_chain b i" unfolding assms(2) by (rule chain_of_drawn [OF ok])
  have sel: "li_live_within (seen m now) = seen_live_within m now" "li_live (seen m now) = seen_live m" by (simp_all add: seen_def)
  have "stand_in c i = Some t \<Longrightarrow> board_engaged c i \<and> t \<noteq> i \<and> t \<in> set (backup_chain c i) \<and> seen_live_within m now t (secs 2)"
    using seen.target_in_chain [of b i m now t] d(2,4) [of i] chain by (simp add: sel BACKUP_GRACE_def)
  moreover have "board_engaged c i \<and> rule_at c i \<noteq> None \<and> (\<exists>s \<in> set (backup_chain c i). seen_live m s) \<Longrightarrow> stand_in c i \<noteq> None"
    using seen.target_covers [of b i _ m now] d(2,3,4) [of i] chain by (auto simp: sel)
  moreover have "swap_stand_ins (seen m now) False c = c"
    using seen.changes_settled [OF ok, of m now] by (simp add: swap_stand_ins_def Let_def c [symmetric])
  ultimately show ?thesis by blast
qed

text \<open>Four seconds after \<open>main\<close> was first seen to have stopped, \<open>spare\<close> is drawn for it.\<close>

definition ex_ticked :: board where
  "ex_ticked = failover_tick (secs 20) (secs 6) (seen ex_view (secs 6)) False ex_ruled"

definition ex_given_up :: board where
  "ex_given_up = failover_tick (secs 20) (secs 10) (seen ex_view (secs 10)) True ex_ticked"

lemma ex_given_up_run: "board_run ex_given_up"
  unfolding ex_given_up_def ex_ticked_def ex_ruled_def by (intro board_run.intros)

lemma ex_given_up_drawn: "stand_in (swap_stand_ins (seen ex_view (secs 10)) False ex_given_up) ''main'' = Some ''spare''"
  by code_simp

lemma stand_ins_deliver_witness:
  "board_engaged (swap_stand_ins (seen ex_view (secs 10)) False ex_given_up) ''main'' \<and> seen_live_within ex_view (secs 10) ''spare'' (secs 2)"
  using stand_ins_deliver [OF ex_given_up_run refl, of ex_view "secs 10" "''main''" "''spare''"] ex_given_up_drawn by simp

subsection \<open>When\<close>

text \<open>
  The clock of a source against its history: every look so far, and those since it was given up, newest
  first. An outage is dated by the first look that found it, and the wait for a picture starts with the
  first look that saw one; a look that decides nothing says nothing.
\<close>

fun outage :: "(instant \<times> source_look) list \<Rightarrow> instant option" where
  "outage [] = None"
| "outage ((t, l) # ls) =
    (if lk_live l then None else if undecided l then outage ls else Some (or_set (outage ls) (outage_began l t)))"

fun picture :: "(instant \<times> source_look) list \<Rightarrow> instant option" where
  "picture [] = None"
| "picture ((t, l) # ls) =
    (if lk_live l then Some (or_set (picture ls) t) else if undecided l then picture ls else None)"

inductive watched :: "watch \<Rightarrow> (instant \<times> source_look) list \<Rightarrow> (instant \<times> source_look) list \<Rightarrow> bool" where
  fresh: "watched watch_default [] []"
| looked: "watched w ls es \<Longrightarrow> watch_step r l now w = (s, w') \<Longrightarrow>
    watched w' ((now, l) # ls) (if watch_engaged w \<and> s = None then (now, l) # es else [])"
| left: "watched w ls es \<Longrightarrow> watched (disengage w) ls []"
| stayed: "watched w ls es \<Longrightarrow> watched (w\<lparr>wa_stay := True\<rparr>) ls es"

lemma live_decided [simp]: "lk_live l \<Longrightarrow> \<not> undecided l"
  by (simp add: undecided_def)

lemma watched_history: "watched w ls es \<Longrightarrow> wa_down_since w = outage ls \<and> wa_up_since w = picture es \<and> (wa_engaged w = None \<longrightarrow> es = [])"
proof (induction rule: watched.induct)
  case (looked w ls es r l now s w')
  then show ?case
    by (auto simp: watch_step_def Let_def disengage_def watch_engaged_def or_set_def split: if_split_asm)
qed (auto simp: watch_default_def disengage_def)

text \<open>C26: a source is given up exactly when it is not on its backup, the look finds it lost, and the outage
  is at least the wait of its rule old; it is taken back exactly when it is on its backup, has a picture
  again, returns by itself and was not told to stay, and has had one at every look that decided anything
  for at least the wait of the rule: what the clock keeps is what its history says.\<close>

theorem clock_follows_history:
  assumes "watched w ls es"
  shows "(fst (watch_step r l now w) = Some Engage \<longleftrightarrow>
        \<not> watch_engaged w \<and> \<not> undecided l \<and>
        (\<exists>began. outage ((now, l) # ls) = Some began \<and> wait_of (ol_after_secs r) \<le> since now began))
    \<and> (fst (watch_step r l now w) = Some Return \<longleftrightarrow>
        watch_engaged w \<and> lk_live l \<and> ol_returns r = ReturnAuto \<and> \<not> wa_stay w \<and>
        (\<exists>up. picture ((now, l) # es) = Some up \<and> wait_of (ol_return_after_secs r) \<le> since now up))"
  using watched_history [OF assms] by (auto simp: watch_step_def Let_def watch_engaged_def)

definition ex_lost :: source_look where
  "ex_lost = \<lparr>lk_live = False, lk_down = True, lk_unconnected = None, lk_connect_wait = secs 20\<rparr>"

lemma ex_watched: "watched (snd (watch_step (on_loss_to ''spare'') ex_lost (secs 6) watch_default)) [(secs 6, ex_lost)] []"
  using watched.looked [OF watched.fresh prod.collapse [symmetric], of "on_loss_to ''spare''" ex_lost "secs 6"]
  by (simp add: watch_engaged_def watch_default_def)

lemma ex_lost_engages:
  "fst (watch_step (on_loss_to ''spare'') ex_lost (secs 9) (snd (watch_step (on_loss_to ''spare'') ex_lost (secs 6) watch_default))) = Some Engage"
  by code_simp

lemma clock_follows_history_witness: "\<exists>began. outage [(secs 9, ex_lost), (secs 6, ex_lost)] = Some began \<and> wait_of 3 \<le> since (secs 9) began"
  using clock_follows_history [OF ex_watched, of "on_loss_to ''spare''" ex_lost "secs 9"] ex_lost_engages
  by (simp add: on_loss_to_def)

lemma outage_began_at:
  assumes "outage ls = Some began"
  shows "\<exists>newer t l older. ls = newer @ (t, l) # older \<and> began = outage_began l t \<and> \<not> undecided l \<and>
    list_all (\<lambda>(t, l). \<not> lk_live l) (newer @ [(t, l)])"
  using assms
proof (induction ls rule: outage.induct)
  case (2 t l ls)
  have lost: "\<not> lk_live l" using 2(3) by (auto split: if_split_asm)
  show ?case
  proof (cases "undecided l \<or> outage ls \<noteq> None")
    case True
    then have "outage ls = Some began" using 2(3) lost by (auto simp: or_set_def split: if_split_asm)
    then obtain newer t0 l0 older where "ls = newer @ (t0, l0) # older \<and> began = outage_began l0 t0 \<and> \<not> undecided l0 \<and>
        list_all (\<lambda>(t, l). \<not> lk_live l) (newer @ [(t0, l0)])"
      using 2(1,2) lost by (cases "undecided l") blast+
    then show ?thesis using lost by (intro exI [of _ "(t, l) # newer"] exI [of _ t0] exI [of _ l0] exI [of _ older]) simp
  next
    case False
    then show ?thesis using 2(3) lost by (intro exI [of _ "[]"] exI [of _ t] exI [of _ l] exI [of _ ls]) (auto simp: or_set_def)
  qed
qed simp

text \<open>No source is given up early: when it is, a look that found it lost dates the outage at least the
  wait of its rule ago, and no look since then saw a picture.\<close>

theorem no_source_given_up_early:
  assumes "watched w ls es" "fst (watch_step r l now w) = Some Engage"
  shows "\<exists>newer t0 l0 older. (now, l) # ls = newer @ (t0, l0) # older \<and> \<not> undecided l0
    \<and> list_all (\<lambda>(t, k). \<not> lk_live k) (newer @ [(t0, l0)]) \<and> wait_of (ol_after_secs r) \<le> since now (outage_began l0 t0)"
proof -
  from assms watched_history [OF assms(1)] obtain began
    where "outage ((now, l) # ls) = Some began" "wait_of (ol_after_secs r) \<le> since now began"
    by (auto simp: watch_step_def Let_def split: if_split_asm)
  then show ?thesis using outage_began_at by blast
qed

lemma no_source_given_up_early_witness:
  "\<exists>newer t0 l0 older. [(secs 9, ex_lost), (secs 6, ex_lost)] = newer @ (t0, l0) # older \<and> wait_of 3 \<le> since (secs 9) (outage_began l0 t0)"
  using no_source_given_up_early [OF ex_watched ex_lost_engages] by (simp add: on_loss_to_def) blast

end
