(* ===== verification/Hls_Params.thy ===== *)
theory Hls_Params
  imports Catalogue
begin

text \<open>
  What an HLS output was asked for (\<open>crates/godwinmix-core/src/hls/params.rs\<close> and \<open>access.rs\<close>): how long
  a segment and a part are, how much of the past is kept, what is served and to whom. A TOML table is a
  map from keys to values; a float is a finite one, and a refusal is named by the key it is about and the range it gives.
\<close>

datatype toml_value = TBool bool | TInt int | TFloat f64 | TText string | TOther

type_synonym toml_table = "string \<Rightarrow> toml_value option"

datatype hls_segments = Cmaf | Ts | CmafAndTs

datatype hls_access = Keyed | Open | OpenPublic

record hls_params =
  hp_segment_ms :: u32
  hp_part_ms :: u32
  hp_window_s :: u32
  hp_segments :: hls_segments
  hp_access :: hls_access

definition hls_params_default :: hls_params where
  "hls_params_default = \<lparr>hp_segment_ms = 2000, hp_part_ms = 0, hp_window_s = 30, hp_segments = Cmaf, hp_access = Keyed\<rparr>"

definition PART_MS :: u32 where "PART_MS = 333"

datatype params_refusal =
    NotBool string toml_value
  | NotWhole string toml_value
  | NotWord string toml_value
  | NotOneOf string string
  | PublicKeyed
  | SegmentRange u32
  | PartRange u32 u32
  | WindowRange u32 u32

definition div_up :: "'a::len word \<Rightarrow> 'a word \<Rightarrow> 'a word" where
  "div_up a b = a div b + (if a mod b = 0 then 0 else 1)"

subsection \<open>What is served and to whom (\<open>access.rs\<close>)\<close>

definition serves_cmaf :: "hls_segments \<Rightarrow> bool" where "serves_cmaf s \<longleftrightarrow> s \<noteq> Ts"
definition serves_ts :: "hls_segments \<Rightarrow> bool" where "serves_ts s \<longleftrightarrow> s \<noteq> Cmaf"

definition param_word :: "toml_table \<Rightarrow> string \<Rightarrow> params_refusal + string option" where
  "param_word t k =
    (case t k of
       None \<Rightarrow> Inr None
     | Some (TText s) \<Rightarrow> Inr (Some (map to_lower (trim s)))
     | Some v \<Rightarrow> Inl (NotWord k v))"

definition param_flag :: "toml_table \<Rightarrow> string \<Rightarrow> params_refusal + bool option" where
  "param_flag t k =
    (case t k of None \<Rightarrow> Inr None | Some (TBool b) \<Rightarrow> Inr (Some b) | Some v \<Rightarrow> Inl (NotBool k v))"

definition segments_of :: "string option \<Rightarrow> params_refusal + hls_segments" where
  "segments_of w =
    (if w = None \<or> w = Some ''cmaf'' then Inr Cmaf
     else if w = Some ''ts'' then Inr Ts
     else if w = Some ''both'' then Inr CmafAndTs
     else Inl (NotOneOf ''segments'' (the w)))"

definition access_of :: "string option \<Rightarrow> bool \<Rightarrow> params_refusal + hls_access" where
  "access_of w public =
    (if w = None \<or> w = Some ''keyed'' then (if public then Inl PublicKeyed else Inr Keyed)
     else if w = Some ''open'' then Inr (if public then OpenPublic else Open)
     else Inl (NotOneOf ''access'' (the w)))"

definition access_from_params :: "toml_table \<Rightarrow> params_refusal + hls_segments \<times> hls_access" where
  "access_from_params t =
     and_then (param_word t ''segments'') (\<lambda>w.
     and_then (segments_of w) (\<lambda>s.
     and_then (param_flag t ''open_public'') (\<lambda>public.
     and_then (param_word t ''access'') (\<lambda>w.
     and_then (access_of w (public = Some True)) (\<lambda>a. Inr (s, a))))))"

text \<open>An address: four octets, or eight groups of sixteen bits.\<close>

datatype ip = V4 u8 u8 u8 u8 | V6 "16 word" "16 word" "16 word" "16 word" "16 word" "16 word" "16 word" "16 word"

definition is_local4 :: "u8 \<Rightarrow> u8 \<Rightarrow> bool" where
  "is_local4 a b \<longleftrightarrow> a = 127 \<or> a = 10 \<or> (a = 172 \<and> 16 \<le> b \<and> b \<le> 31) \<or> (a = 192 \<and> b = 168) \<or> (a = 169 \<and> b = 254) \<or>
     (a = 100 \<and> 64 \<le> b \<and> b < 128)"

fun is_local :: "ip \<Rightarrow> bool" where
  "is_local (V4 a b c d) = is_local4 a b"
| "is_local (V6 a b c d e f g h) =
    (if [a, b, c, d, e, f] = [0, 0, 0, 0, 0, 0xFFFF] then is_local4 (ucast (drop_bit 8 g)) (ucast (take_bit 8 g))
     else [a, b, c, d, e, f, g, h] = [0, 0, 0, 0, 0, 0, 0, 1] \<or> and a 0xFE00 = 0xFC00 \<or> and a 0xFFC0 = 0xFE80)"

definition lets_in :: "hls_access \<Rightarrow> ip option \<Rightarrow> bool" where
  "lets_in a peer =
    (case a of Keyed \<Rightarrow> False | OpenPublic \<Rightarrow> True | Open \<Rightarrow> (case peer of Some i \<Rightarrow> is_local i | None \<Rightarrow> False))"

subsection \<open>Lengths (\<open>params.rs\<close>)\<close>

text \<open>\<open>f as i64\<close> of a number already rounded, and what a range of \<open>u32\<close> takes of it.\<close>

definition parse_whole :: "string \<Rightarrow> int option" where
  "parse_whole s =
    (let neg = (s \<noteq> [] \<and> hd s = CHR ''-''); ds = (if s \<noteq> [] \<and> (neg \<or> hd s = CHR ''+'') then tl s else s)
     in if ds = [] then None else map_option (\<lambda>n. if neg then - n else n) (parse_digits 0 ds))"

definition param_number :: "toml_table \<Rightarrow> string \<Rightarrow> params_refusal + u32 option" where
  "param_number t k =
    (case t k of
       None \<Rightarrow> Inr None
     | Some v \<Rightarrow>
         (case (case v of TInt n \<Rightarrow> Some n | TFloat f \<Rightarrow> Some (f_round f) | TText s \<Rightarrow> parse_whole (trim s) | _ \<Rightarrow> None) of
            Some n \<Rightarrow> if 0 \<le> n \<and> n < 2 ^ 32 then Inr (Some (word_of_int n)) else Inl (NotWhole k v)
          | None \<Rightarrow> Inl (NotWhole k v)))"

definition least_window :: "hls_params \<Rightarrow> u32" where
  "least_window p = div_up (hp_segment_ms p * 3) 1000"

definition hls_check :: "hls_params \<Rightarrow> params_refusal + unit" where
  "hls_check p =
    (if \<not> (500 \<le> hp_segment_ms p \<and> hp_segment_ms p \<le> 10000) then Inl (SegmentRange (hp_segment_ms p))
     else if hp_part_ms p \<noteq> 0 \<and> \<not> (100 \<le> hp_part_ms p \<and> hp_part_ms p \<le> hp_segment_ms p div 2)
       then Inl (PartRange (hp_segment_ms p div 2) (hp_part_ms p))
     else if hp_window_s p < least_window p \<or> 600 < hp_window_s p then Inl (WindowRange (least_window p) (hp_window_s p))
     else Inr ())"

definition hls_from_params :: "toml_table \<Rightarrow> params_refusal + hls_params" where
  "hls_from_params t =
     and_then (param_flag t ''low_latency'') (\<lambda>low.
     and_then (param_number t ''segment_ms'') (\<lambda>segment.
     and_then (param_number t ''part_ms'') (\<lambda>part.
     and_then (param_number t ''window'') (\<lambda>window.
     and_then (access_from_params t) (\<lambda>(segments, access).
       let base = hls_params_default;
           base = (case low of Some on \<Rightarrow> base\<lparr>hp_part_ms := (if on then PART_MS else 0)\<rparr> | None \<Rightarrow> base);
           base = (case segment of Some v \<Rightarrow> base\<lparr>hp_segment_ms := v\<rparr> | None \<Rightarrow> base);
           base = (case part of Some v \<Rightarrow> base\<lparr>hp_part_ms := v\<rparr> | None \<Rightarrow> base);
           base = (case window of Some v \<Rightarrow> base\<lparr>hp_window_s := v\<rparr> | None \<Rightarrow> base);
           p = base\<lparr>hp_segments := segments, hp_access := access\<rparr>
       in and_then (hls_check p) (\<lambda>u. Inr p))))))"

definition low_latency :: "hls_params \<Rightarrow> bool" where
  "low_latency p \<longleftrightarrow> 0 < hp_part_ms p"

definition segments_listed :: "hls_params \<Rightarrow> nat" where
  "segments_listed p =
    (let ms = uint (hp_window_s p) * 1000; s = uint (hp_segment_ms p) in nat (ms div s + (if ms mod s = 0 then 0 else 1)))"

definition ring_capacity :: "hls_params \<Rightarrow> nat" where
  "ring_capacity p = segments_listed p + 2"

definition segment_ns :: "hls_params \<Rightarrow> u64" where
  "segment_ns p = ucast (hp_segment_ms p) * 1000000"

definition mux_durations :: "hls_params \<Rightarrow> u64 \<times> u64 option" where
  "mux_durations p =
    (if \<not> low_latency p then (segment_ns p, None)
     else let parts = max (ucast ((hp_segment_ms p + hp_part_ms p div 2) div hp_part_ms p)) 1;
              chunk = segment_ns p div parts
          in (chunk * parts, Some chunk))"

subsection \<open>What a check that passes gives\<close>

lemma hls_check_ok:
  "hls_check p = Inr () \<longleftrightarrow> 500 \<le> hp_segment_ms p \<and> hp_segment_ms p \<le> 10000 \<and>
     (hp_part_ms p \<noteq> 0 \<longrightarrow> 100 \<le> hp_part_ms p \<and> hp_part_ms p \<le> hp_segment_ms p div 2) \<and>
     least_window p \<le> hp_window_s p \<and> hp_window_s p \<le> 600"
  by (auto simp: hls_check_def)

lemma hls_from_params_ok: "hls_from_params t = Inr p \<Longrightarrow> hls_check p = Inr ()"
  by (auto simp: hls_from_params_def and_then_Inr_iff Let_def)

end
