(* ===== verification/Hls_Ring.thy ===== *)
theory Hls_Ring
  imports Prelude
begin

text \<open>
  The segments one rung keeps in memory (\<open>crates/godwinmix-core/src/hls/ring.rs\<close>, \<open>view.rs\<close>,
  \<open>ring_align.rs\<close>, \<open>ring_cut.rs\<close>). Numbers and times keep their 64 or 32 bits; a wall clock in
  milliseconds is an integer, and a count of segments, parts or bytes a natural number. Bytes shared
  between viewers are the bytes themselves.
\<close>

type_synonym bytes = "u8 list"

record hls_part =
  pt_bytes :: bytes
  pt_duration :: u64
  pt_independent :: bool

record hls_segment =
  sg_msn :: u64
  sg_start :: u64
  sg_disc :: u32
  sg_pdt :: int
  sg_init :: u32
  sg_decode :: "u64 option"
  sg_parts :: "hls_part list"
  sg_complete :: bool

definition seg_duration :: "hls_segment \<Rightarrow> u64" where
  "seg_duration s = sum_list (map pt_duration (sg_parts s))"

definition seg_bytes :: "hls_segment \<Rightarrow> nat" where
  "seg_bytes s = sum_list (map (\<lambda>p. length (pt_bytes p)) (sg_parts s))"

record ring =
  rg_capacity :: nat
  rg_inits :: "(u32 \<times> bytes) list"
  rg_segments :: "hls_segment list"
  rg_version :: u64
  rg_longest :: u64
  rg_disc :: u32
  rg_resume :: "u64 option"

definition ring_new :: "nat \<Rightarrow> ring" where
  "ring_new capacity = \<lparr>rg_capacity = max capacity 3, rg_inits = [], rg_segments = [], rg_version = 0, rg_longest = 0,
     rg_disc = 0, rg_resume = None\<rparr>"

abbreviation last_of :: "'a list \<Rightarrow> 'a option" where
  "last_of xs \<equiv> (if xs = [] then None else Some (last xs))"

definition bump :: "ring \<Rightarrow> ring" where
  "bump r = r\<lparr>rg_version := rg_version r + 1\<rparr>"

definition set_init :: "bytes \<Rightarrow> ring \<Rightarrow> u32 \<times> ring" where
  "set_init b r =
    (case last_of (rg_inits r) of
       Some (g, current) \<Rightarrow>
         if current = b then (g, r) else (g + 1, bump (r\<lparr>rg_inits := rg_inits r @ [(g + 1, b)]\<rparr>))
     | None \<Rightarrow> (0, bump (r\<lparr>rg_inits := rg_inits r @ [(0, b)]\<rparr>)))"

definition ring_init :: "ring \<Rightarrow> u32 \<Rightarrow> bytes option" where
  "ring_init r g = map_option snd (List.find (\<lambda>i. fst i = g) (rg_inits r))"

definition current_init :: "ring \<Rightarrow> u32 option" where
  "current_init r = map_option fst (last_of (rg_inits r))"

text \<open>The newest segment, if it is open, put through \<open>f\<close>.\<close>

definition on_open :: "(hls_segment \<Rightarrow> hls_segment) \<Rightarrow> hls_segment list \<Rightarrow> hls_segment list" where
  "on_open f ss = (if ss = [] \<or> sg_complete (last ss) then ss else butlast ss @ [f (last ss)])"

definition open_segment :: "ring \<Rightarrow> hls_segment option" where
  "open_segment r = (case last_of (rg_segments r) of Some s \<Rightarrow> if sg_complete s then None else Some s | None \<Rightarrow> None)"

definition ring_close :: "ring \<Rightarrow> ring" where
  "ring_close r =
    (case open_segment r of
       Some s \<Rightarrow> bump (r\<lparr>rg_segments := on_open (sg_complete_update (\<lambda>_. True)) (rg_segments r),
                       rg_longest := max (rg_longest r) (seg_duration s)\<rparr>)
     | None \<Rightarrow> r)"

definition ring_stamp :: "u64 option \<Rightarrow> ring \<Rightarrow> ring" where
  "ring_stamp d r = r\<lparr>rg_segments := on_open (sg_decode_update (\<lambda>_. d)) (rg_segments r)\<rparr>"

definition push_part :: "hls_part \<Rightarrow> ring \<Rightarrow> bool \<times> ring" where
  "push_part p r =
    (case open_segment r of
       Some s \<Rightarrow> (True, bump (r\<lparr>rg_segments := on_open (sg_parts_update (\<lambda>ps. ps @ [p])) (rg_segments r)\<rparr>))
     | None \<Rightarrow> (False, r))"

definition next_msn :: "u64 \<Rightarrow> u64 \<Rightarrow> ring \<Rightarrow> u64 \<times> ring" where
  "next_msn start segment r =
    ((case (rg_resume r, last_of (rg_segments r)) of
        (Some msn, _) \<Rightarrow> msn
      | (None, Some s) \<Rightarrow> sg_msn s + 1
      | (None, None) \<Rightarrow> (start + segment div 2) div max segment 1), r\<lparr>rg_resume := None\<rparr>)"

definition forget_unused_inits :: "ring \<Rightarrow> ring" where
  "forget_unused_inits r =
    (case (rg_segments r, current_init r) of
       (s # ss, Some newest) \<Rightarrow> r\<lparr>rg_inits := filter (\<lambda>i. sg_init s \<le> fst i \<or> fst i = newest) (rg_inits r)\<rparr>
     | _ \<Rightarrow> r)"

definition ring_begin :: "u64 \<Rightarrow> u64 \<Rightarrow> int \<Rightarrow> ring \<Rightarrow> u64 option \<times> ring" where
  "ring_begin start segment pdt r =
    (case current_init r of
       None \<Rightarrow> (None, r)
     | Some i \<Rightarrow>
        (case next_msn start segment (ring_close r) of
           (msn, r) \<Rightarrow>
             let ss = rg_segments r @ [\<lparr>sg_msn = msn, sg_start = start, sg_disc = rg_disc r, sg_pdt = pdt, sg_init = i,
                        sg_decode = None, sg_parts = [], sg_complete = False\<rparr>]
             in (Some msn, bump (forget_unused_inits (r\<lparr>rg_segments := drop (length ss - rg_capacity r) ss\<rparr>)))))"

subsection \<open>What the server reads (\<open>view.rs\<close>)\<close>

record hls_position =
  po_complete :: "u64 option"
  po_open :: "(u64 \<times> nat) option"

definition position_default :: hls_position where
  "position_default = \<lparr>po_complete = None, po_open = None\<rparr>"

text \<open>The walk from the newest segment back to the first that is whole.\<close>

fun position_from :: "hls_segment list \<Rightarrow> hls_position \<Rightarrow> hls_position" where
  "position_from [] pos = pos"
| "position_from (s # older) pos =
    (if sg_complete s then pos\<lparr>po_complete := Some (sg_msn s)\<rparr>
     else position_from older (pos\<lparr>po_open := (case po_open pos of Some o' \<Rightarrow> Some o' | None \<Rightarrow> Some (sg_msn s, length (sg_parts s)))\<rparr>))"

definition ring_position :: "ring \<Rightarrow> hls_position" where
  "ring_position r = position_from (rev (rg_segments r)) position_default"

definition reached :: "hls_position \<Rightarrow> u64 \<Rightarrow> nat option \<Rightarrow> bool" where
  "reached pos msn part \<longleftrightarrow>
     (case po_complete pos of Some c \<Rightarrow> msn \<le> c | None \<Rightarrow> False) \<or>
     (case (part, po_open pos) of (Some p, Some (n, parts)) \<Rightarrow> msn < n \<or> (n = msn \<and> p < parts) | _ \<Rightarrow> False)"

definition position_newest :: "hls_position \<Rightarrow> u64 option" where
  "position_newest pos = (case po_open pos of Some (m, _) \<Rightarrow> Some m | None \<Rightarrow> po_complete pos)"

definition find_msn :: "u64 \<Rightarrow> ring \<Rightarrow> hls_segment option" where
  "find_msn msn r = List.find (\<lambda>s. sg_msn s = msn) (rg_segments r)"

definition ring_segment :: "u64 \<Rightarrow> ring \<Rightarrow> bytes list option" where
  "ring_segment msn r =
     Option.bind (find_msn msn r) (\<lambda>s. if sg_complete s then Some (map pt_bytes (sg_parts s)) else None)"

definition ring_part :: "u64 \<Rightarrow> nat \<Rightarrow> ring \<Rightarrow> bytes option" where
  "ring_part msn i r =
     Option.bind (find_msn msn r) (\<lambda>s. if i < length (sg_parts s) then Some (pt_bytes (sg_parts s ! i)) else None)"

record segment_view =
  sv_msn :: u64
  sv_start :: u64
  sv_disc :: u32
  sv_pdt :: int
  sv_init :: u32
  sv_decode :: "u64 option"
  sv_complete :: bool
  sv_duration :: u64
  sv_bytes :: nat
  sv_parts :: "(u64 \<times> bool) list"

record hls_view =
  vw_segments :: "segment_view list"
  vw_longest :: u64

definition segment_view_of :: "hls_segment \<Rightarrow> segment_view" where
  "segment_view_of s = \<lparr>sv_msn = sg_msn s, sv_start = sg_start s, sv_disc = sg_disc s, sv_pdt = sg_pdt s, sv_init = sg_init s,
     sv_decode = sg_decode s, sv_complete = sg_complete s, sv_duration = seg_duration s, sv_bytes = seg_bytes s,
     sv_parts = map (\<lambda>p. (pt_duration p, pt_independent p)) (sg_parts s)\<rparr>"

definition ring_view :: "ring \<Rightarrow> hls_view" where
  "ring_view r = \<lparr>vw_segments = map segment_view_of (rg_segments r), vw_longest = rg_longest r\<rparr>"

definition ring_memory :: "ring \<Rightarrow> nat" where
  "ring_memory r = sum_list (map seg_bytes (rg_segments r)) + sum_list (map (\<lambda>i. length (snd i)) (rg_inits r))"

subsection \<open>Keeping tracks in step (\<open>ring_align.rs\<close>)\<close>

datatype place = In u64 | Drop | Wait

definition mark_break :: "u32 \<Rightarrow> u64 \<Rightarrow> ring \<Rightarrow> ring" where
  "mark_break disc l r =
    bump ((ring_close (r\<lparr>rg_segments := rev (dropWhile (\<lambda>s. l < sg_msn s) (rev (rg_segments r)))\<rparr>))
      \<lparr>rg_disc := disc, rg_resume := Some (l + 1)\<rparr>)"

definition ring_join :: "u32 \<Rightarrow> ring \<Rightarrow> ring" where
  "ring_join disc r = r\<lparr>rg_disc := disc\<rparr>"

definition ring_newest :: "ring \<Rightarrow> u64 option" where
  "ring_newest r = map_option sg_msn (last_of (rg_segments r))"

definition cut_since_break :: "ring \<Rightarrow> bool" where
  "cut_since_break r \<longleftrightarrow> rg_segments r \<noteq> [] \<and> sg_disc (last (rg_segments r)) = rg_disc r"

definition begin_at :: "u64 \<Rightarrow> u64 \<Rightarrow> int \<Rightarrow> ring \<Rightarrow> u64 option \<times> ring" where
  "begin_at msn start pdt r =
    (if rg_segments r \<noteq> [] \<and> msn \<le> sg_msn (last (rg_segments r)) then (None, r)
     else ring_begin start 1 pdt (if rg_segments r = [] \<and> rg_resume r = None then r\<lparr>rg_resume := Some msn\<rparr> else r))"

text \<open>The segments begun since the last break.\<close>

definition since_break :: "ring \<Rightarrow> hls_segment list" where
  "since_break r = filter (\<lambda>s. sg_disc s = rg_disc r) (rg_segments r)"

definition ring_place :: "u64 \<Rightarrow> u64 \<Rightarrow> ring \<Rightarrow> place" where
  "ring_place at_ns min_ns r =
    (let ss = since_break r in
     if ss = [] then Wait
     else if at_ns < sg_start (hd ss) then Drop
     else case List.find (\<lambda>s. sg_start s \<le> at_ns) (rev ss) of
       None \<Rightarrow> Drop
     | Some s \<Rightarrow>
        if sg_msn s \<noteq> sg_msn (last ss) then In (sg_msn s)
        else if \<not> sg_complete s then (if at_ns < sg_start s + min_ns then In (sg_msn s) else Wait)
        else let end_ns = sg_start s + seg_duration s in
          if at_ns < end_ns then In (sg_msn s)
          else if at_ns < end_ns + min_ns then In (sg_msn s + 1)
          else Wait)"

subsection \<open>Where another muxer's segments are cut (\<open>ring_cut.rs\<close>)\<close>

datatype hls_cut = Starts u64 u32 int | Inside | DropCut | WaitCut

definition after_pdt :: "hls_segment \<Rightarrow> int" where
  "after_pdt s = sg_pdt s + uint (seg_duration s div 1000000)"

definition apart :: "u64 \<Rightarrow> u64 \<Rightarrow> u64" where
  "apart a b = (if a < b then b - a else a - b)"

definition cut_at :: "u64 \<Rightarrow> u64 \<Rightarrow> u64 \<Rightarrow> ring \<Rightarrow> hls_cut" where
  "cut_at at_ns min_ns tol r =
    (let ss = since_break r in
     if ss = [] then WaitCut
     else if at_ns + tol < sg_start (hd ss) then DropCut
     else case List.find (\<lambda>s. apart (sg_start s) at_ns \<le> tol) ss of
       Some s \<Rightarrow> Starts (sg_msn s) (sg_disc s) (sg_pdt s)
     | None \<Rightarrow>
        let newest = last ss; end_ns = sg_start newest + seg_duration newest in
        if sg_complete newest \<and> apart end_ns at_ns \<le> tol then Starts (sg_msn newest + 1) (sg_disc newest) (after_pdt newest)
        else case List.find (\<lambda>s. sg_start s < at_ns) (rev ss) of
          None \<Rightarrow> DropCut
        | Some s \<Rightarrow>
           if sg_msn s \<noteq> sg_msn newest then Inside
           else if sg_complete s \<and> at_ns < end_ns then Inside
           else if \<not> sg_complete s \<and> at_ns + tol < sg_start s + min_ns then Inside
           else WaitCut)"

definition segment_meta :: "u64 \<Rightarrow> ring \<Rightarrow> (u32 \<times> int) option" where
  "segment_meta msn r =
    (case find_msn msn r of
       Some s \<Rightarrow> Some (sg_disc s, sg_pdt s)
     | None \<Rightarrow>
        (case last_of (rg_segments r) of
           Some s \<Rightarrow> if sg_complete s \<and> sg_msn s + 1 = msn then Some (sg_disc s, after_pdt s) else None
         | None \<Rightarrow> None))"

end
