(* ===== verification/Hls_Playlist.thy ===== *)
theory Hls_Playlist
  imports Hls_Params Hls_Ring
begin

text \<open>
  The media playlist of one rung (\<open>crates/godwinmix-core/src/hls/playlist.rs\<close>) as the list of its tags, in
  the order they are written; each is one line of the text. How many digits a number of seconds is written
  with and how a wall clock is spelled are not modelled.
\<close>

record report =
  rp_id :: string
  rp_msn :: u64
  rp_part :: "nat option"

datatype tag =
    TagVersion nat
  | TargetDuration u64
  | ServerControl f64
  | PartInf f64
  | MediaSequence u64
  | DiscontinuitySequence u32
  | Discontinuity
  | InitMap string
  | DateTime int
  | PartTag f64 string bool
  | Inf f64 string
  | PreloadHint string
  | RenditionReport string u64 "nat option"

definition init_uri :: "u32 \<Rightarrow> string" where
  "init_uri g = (if g = 0 then ''init.mp4'' else ''init'' @ show_word g @ ''.mp4'')"

definition segment_uri :: "u64 \<Rightarrow> string" where
  "segment_uri msn = show_word msn @ ''.m4s''"

definition part_uri :: "u64 \<Rightarrow> nat \<Rightarrow> string" where
  "part_uri msn i = show_word msn @ ''.'' @ show_int (int i) @ ''.m4s''"

definition ns_secs :: "u64 \<Rightarrow> f64" where
  "ns_secs ns = f_div (rnd (of_int (uint ns))) 1000000000"

definition target_duration :: "hls_view \<Rightarrow> hls_params \<Rightarrow> u64" where
  "target_duration v p =
    max (word_of_int (f_round (ns_secs (vw_longest v)))) (div_up (ucast (hp_segment_ms p)) 1000)"

definition longest_part :: "hls_view \<Rightarrow> u64" where
  "longest_part v = fold max (map fst (concat (map sv_parts (vw_segments v)))) 0"

definition part_target :: "hls_view \<Rightarrow> hls_params \<Rightarrow> f64" where
  "part_target v p = f_div (rnd (of_int (uint (max (div_up (longest_part v) 1000000) (ucast (hp_part_ms p)))))) 1000"

definition listed :: "hls_view \<Rightarrow> hls_params \<Rightarrow> segment_view list" where
  "listed v p =
    (let whole = filter sv_complete (vw_segments v)
     in drop (length whole - segments_listed p) whole @
        (if low_latency p then take 1 (filter (\<lambda>s. \<not> sv_complete s \<and> sv_parts s \<noteq> []) (vw_segments v)) else []))"

definition segment_full :: "segment_view list \<Rightarrow> hls_params \<Rightarrow> segment_view \<Rightarrow> bool" where
  "segment_full ls p s \<longleftrightarrow>
    (let last_whole = (case List.find sv_complete (rev ls) of Some w \<Rightarrow> sv_duration w | None \<Rightarrow> 0);
         chunk = (case snd (mux_durations p) of Some c \<Rightarrow> c | None \<Rightarrow> 0)
     in max (fst (mux_durations p)) last_whole \<le> sum_list (map fst (sv_parts s)) + chunk div 2)"

definition next_part :: "segment_view list \<Rightarrow> hls_params \<Rightarrow> u64 \<times> nat" where
  "next_part ls p =
    (case last_of ls of
       Some s \<Rightarrow> if \<not> sv_complete s \<and> \<not> segment_full ls p s then (sv_msn s, length (sv_parts s)) else (sv_msn s + 1, 0)
     | None \<Rightarrow> (0, 0))"

definition segment_tags :: "bool \<Rightarrow> segment_view \<Rightarrow> tag list" where
  "segment_tags with_parts s =
    DateTime (max 0 (sv_pdt s)) #
    (if with_parts then map (\<lambda>(i, d, independent). PartTag (ns_secs d) (part_uri (sv_msn s) i) independent)
                            (List.enumerate 0 (sv_parts s)) else []) @
    (if sv_complete s then [Inf (ns_secs (sv_duration s)) (segment_uri (sv_msn s))] else [])"

text \<open>The loop over the listed segments: \<open>init\<close> and \<open>disc\<close> are the map and the discontinuity in force.\<close>

fun listing :: "bool \<Rightarrow> nat \<Rightarrow> nat \<Rightarrow> u32 option \<Rightarrow> u32 option \<Rightarrow> segment_view list \<Rightarrow> tag list" where
  "listing ll parts_from i init disc [] = []"
| "listing ll parts_from i init disc (s # ss) =
    (let broke = (disc \<noteq> Some (sv_disc s)); init = (if broke then None else init)
     in (if broke then [Discontinuity] else []) @
        (if init \<noteq> Some (sv_init s) then [InitMap (init_uri (sv_init s))] else []) @
        segment_tags (ll \<and> parts_from \<le> i) s @
        listing ll parts_from (Suc i) (Some (sv_init s)) (Some (sv_disc s)) ss)"

definition parts_kept :: "u64 \<Rightarrow> hls_params \<Rightarrow> nat" where
  "parts_kept target p = unat (div_up (3 * target * 1000) (ucast (hp_segment_ms p)))"

definition media :: "hls_view \<Rightarrow> hls_params \<Rightarrow> report list \<Rightarrow> tag list" where
  "media v p reports =
    (let target = target_duration v p; ll = low_latency p; ls = listed v p;
         first = (case ls of s # _ \<Rightarrow> Some s | [] \<Rightarrow> None);
         pt = part_target v p
     in [TagVersion (if ll then 9 else 7), TargetDuration target] @
        (if ll then [ServerControl (f_mul pt 3), PartInf pt] else []) @
        [MediaSequence (case first of Some s \<Rightarrow> sv_msn s | None \<Rightarrow> 0)] @
        (case first of Some s \<Rightarrow> if 0 < sv_disc s then [DiscontinuitySequence (sv_disc s)] else [] | None \<Rightarrow> []) @
        listing ll (length ls - parts_kept target p) 0 None (map_option sv_disc first) ls @
        (if ll then PreloadHint (case next_part ls p of (msn, part) \<Rightarrow> part_uri msn part) #
                    map (\<lambda>r. RenditionReport (''../'' @ rp_id r @ ''/index.m3u8'') (rp_msn r) (rp_part r)) reports
         else []))"

subsection \<open>How a player reads it\<close>

text \<open>
  RFC 8216: segments are numbered one apart from \<open>EXT-X-MEDIA-SEQUENCE\<close>, discontinuities counted from
  \<open>EXT-X-DISCONTINUITY-SEQUENCE\<close>, zero where it is left out, by the tags met, and a map holds until the
  next.
\<close>

record heard =
  he_msn :: u64
  he_disc :: u32
  he_map :: "string option"
  he_uri :: string

fun read_tags :: "u64 \<Rightarrow> u32 \<Rightarrow> string option \<Rightarrow> tag list \<Rightarrow> heard list" where
  "read_tags m d u [] = []"
| "read_tags m d u (MediaSequence n # ts) = read_tags n d u ts"
| "read_tags m d u (DiscontinuitySequence n # ts) = read_tags m n u ts"
| "read_tags m d u (Discontinuity # ts) = read_tags m (d + 1) u ts"
| "read_tags m d u (InitMap s # ts) = read_tags m d (Some s) ts"
| "read_tags m d u (Inf x s # ts) = \<lparr>he_msn = m, he_disc = d, he_map = u, he_uri = s\<rparr> # read_tags (m + 1) d u ts"
| "read_tags m d u (t # ts) = read_tags m d u ts"

definition read_playlist :: "tag list \<Rightarrow> heard list" where
  "read_playlist = read_tags 0 0 None"

definition heard_of :: "segment_view \<Rightarrow> heard" where
  "heard_of s = \<lparr>he_msn = sv_msn s, he_disc = sv_disc s, he_map = Some (init_uri (sv_init s)), he_uri = segment_uri (sv_msn s)\<rparr>"

text \<open>Tags that say nothing of the segments.\<close>

definition silent :: "tag \<Rightarrow> bool" where
  "silent t \<longleftrightarrow> (\<forall>m d u ts. read_tags m d u (t # ts) = read_tags m d u ts)"

lemma silent_simps [simp]: "silent (TagVersion n)" "silent (TargetDuration x)" "silent (ServerControl f)" "silent (PartInf f)"
  "silent (DateTime i)" "silent (PartTag f s b)" "silent (PreloadHint s)" "silent (RenditionReport s x p)"
  by (simp_all add: silent_def)

lemma read_silent: "list_all silent ss \<Longrightarrow> read_tags m d u (ss @ ts) = read_tags m d u ts"
  by (induction ss) (auto simp: silent_def)

lemma read_all_silent: "list_all silent ss \<Longrightarrow> read_tags m d u ss = []"
  using read_silent [of ss m d u "[]"] by simp

lemma read_segment:
  "read_tags m d u (segment_tags w s @ ts) =
    (if sv_complete s then \<lparr>he_msn = m, he_disc = d, he_map = u, he_uri = segment_uri (sv_msn s)\<rparr> # read_tags (m + 1) d u ts
     else read_tags m d u ts)"
proof -
  have "list_all silent (DateTime (max 0 (sv_pdt s)) # (if w then map (\<lambda>(i, d, independent).
      PartTag (ns_secs d) (part_uri (sv_msn s) i) independent) (List.enumerate 0 (sv_parts s)) else []))" (is "list_all silent ?a")
    by (auto simp: list_all_iff)
  from read_silent [OF this] show ?thesis by (simp add: segment_tags_def)
qed

text \<open>One listed segment after another: numbers one apart, discontinuities at most one.\<close>

definition plays_on :: "segment_view \<Rightarrow> segment_view \<Rightarrow> bool" where
  "plays_on s t \<longleftrightarrow> sv_msn t = sv_msn s + 1 \<and> (sv_disc t = sv_disc s \<or> sv_disc t = sv_disc s + 1)"

lemma read_listing:
  assumes "list_all sv_complete ss" "list_all (\<lambda>s. \<not> sv_complete s) os"
    "ss \<noteq> [] \<Longrightarrow> m = sv_msn (hd ss) \<and> (sv_disc (hd ss) = d \<or> sv_disc (hd ss) = d + 1)" "successively plays_on ss"
    "init = None \<or> u = map_option init_uri init" "list_all silent end"
  shows "read_tags m d u (listing ll k i init (Some d) (ss @ os) @ end) = map heard_of ss"
  using assms
proof (induction ss arbitrary: m d u i init)
  case Nil
  have "read_tags m d u (listing ll k i init disc os @ end) = []" for m d u i init disc
    using Nil.prems(2,6)
    by (induction os arbitrary: m d u i init disc) (simp_all add: read_segment Let_def read_all_silent)
  then show ?case by simp
next
  case (Cons s ss)
  define d' where "d' = sv_disc s"
  have after: "read_tags (m + 1) d' (Some (init_uri (sv_init s)))
      (listing ll k (Suc i) (Some (sv_init s)) (Some d') (ss @ os) @ end) = map heard_of ss" for i
    using Cons.prems by (intro Cons.IH) (auto simp: successively_Cons plays_on_def d'_def)
  have m: "m = sv_msn s" and d: "sv_disc s = d \<or> sv_disc s = d + 1" using Cons.prems(3) by auto
  show ?case
  proof (cases "sv_disc s = d")
    case True
    then show ?thesis using after [of i] Cons.prems(1,5) m
      by (auto simp: read_segment Let_def d'_def heard_of_def)
  next
    case False
    then have "sv_disc s = d + 1" using d by blast
    then show ?thesis using after [of i] Cons.prems(1) m False
      by (simp add: read_segment Let_def d'_def heard_of_def)
  qed
qed

end
