(* ===== verification/Hls_Boxes.thy ===== *)
theory Hls_Boxes
  imports Hls_Ring
begin

text \<open>
  The two numbers read from MP4 boxes (\<open>crates/godwinmix-core/src/hls/boxes.rs\<close>): the timescale of an init
  segment and the decode time of a fragment. A box is a size, a four letter type and a body.
\<close>

text \<open>\<open>from_be_bytes\<close>, of as many bytes as the integer has, and \<open>get(i..i + n)\<close>.\<close>

definition be_nat :: "bytes \<Rightarrow> nat" where
  "be_nat bs = foldl (\<lambda>n b. n * 256 + unat b) 0 bs"

definition get_range :: "nat \<Rightarrow> nat \<Rightarrow> bytes \<Rightarrow> bytes option" where
  "get_range i j bs = (if i \<le> j \<and> j \<le> length bs then Some (take (j - i) (drop i bs)) else None)"

definition letters :: "string \<Rightarrow> bytes" where
  "letters s = map (\<lambda>c. of_nat (of_char c)) s"

text \<open>The header's length and the whole size of the box at the front of \<open>data\<close>.\<close>

definition box_size :: "bytes \<Rightarrow> (nat \<times> nat) option" where
  "box_size data =
    (let size = be_nat (take 4 data) in
     if size = 1 then map_option (\<lambda>b. (16, be_nat b)) (get_range 8 16 data)
     else if size = 0 then Some (8, length data)
     else Some (8, size))"

function find_box :: "string \<Rightarrow> bytes \<Rightarrow> bytes option" where
  "find_box kind data =
    (if length data < 8 then None
     else case box_size data of
       None \<Rightarrow> None
     | Some (header, n) \<Rightarrow>
        if n < header \<or> length data < n then None
        else if take 4 (drop 4 data) = letters kind then Some (take (n - header) (drop header data))
        else find_box kind (drop n data))"
  by pat_completeness auto
termination
proof (relation "measure (\<lambda>(kind, data). length data)")
  fix kind :: string and data x header n
  assume "\<not> length data < 8" "box_size data = Some x" "(header, n) = x" "\<not> (n < header \<or> length data < n)"
  moreover from this have "8 \<le> header"
    by (auto simp: box_size_def Let_def split: if_split_asm)
  ultimately have "0 < n" "n \<le> length data" by auto
  then show "((kind, drop n data), (kind, data)) \<in> measure (\<lambda>(kind, data). length data)" by simp
qed simp

declare find_box.simps [simp del]

definition box_path :: "bytes \<Rightarrow> string list \<Rightarrow> bytes option" where
  "box_path data kinds = fold (\<lambda>k d. Option.bind d (find_box k)) kinds (Some data)"

definition sized_field :: "bytes \<Rightarrow> nat \<Rightarrow> nat \<Rightarrow> u64 option" where
  "sized_field body o0 o1 =
    (case body of
       [] \<Rightarrow> None
     | v # _ \<Rightarrow>
        if v = 0 then map_option (\<lambda>b. of_nat (be_nat b)) (get_range (4 + o0) (8 + o0) body)
        else if v = 1 then map_option (\<lambda>b. of_nat (be_nat b)) (get_range (4 + o1) (12 + o1) body)
        else None)"

definition timescale :: "bytes \<Rightarrow> u32 option" where
  "timescale init =
     Option.bind (box_path init [''moov'', ''trak'', ''mdia'', ''mdhd'']) (\<lambda>mdhd.
       case mdhd of
         [] \<Rightarrow> None
       | v # _ \<Rightarrow>
          if v = 0 then map_option (\<lambda>b. of_nat (be_nat b)) (get_range 12 16 mdhd)
          else if v = 1 then map_option (\<lambda>b. of_nat (be_nat b)) (get_range 20 24 mdhd)
          else None)"

definition decode_time :: "bytes \<Rightarrow> u64 option" where
  "decode_time moof = Option.bind (box_path moof [''moof'', ''traf'', ''tfdt'']) (\<lambda>tfdt. sized_field tfdt 0 0)"

subsection \<open>Boxes as they are written\<close>

definition be_bytes :: "nat \<Rightarrow> nat \<Rightarrow> bytes" where
  "be_bytes n x = map (\<lambda>i. of_nat (x div 256 ^ (n - 1 - i))) [0..<n]"

definition boxed :: "string \<Rightarrow> bytes \<Rightarrow> bytes" where
  "boxed kind body = be_bytes 4 (length body + 8) @ letters kind @ body"

lemma be_bytes_length [simp]: "length (be_bytes n x) = n"
  by (simp add: be_bytes_def)

lemma be_bytes_Suc: "be_bytes (Suc n) x = be_bytes n (x div 256) @ [of_nat x]"
proof -
  have "be_bytes n (x div 256) = map (\<lambda>i. of_nat (x div 256 ^ (Suc n - 1 - i))) [0..<n]"
    unfolding be_bytes_def
  proof (rule map_cong [OF refl])
    fix i assume "i \<in> set [0..<n]"
    then have "Suc n - 1 - i = Suc (n - 1 - i)" by auto
    then show "(of_nat (x div 256 div 256 ^ (n - 1 - i)) :: u8) = of_nat (x div 256 ^ (Suc n - 1 - i))"
      by (simp add: div_mult2_eq)
  qed
  then show ?thesis by (simp add: be_bytes_def)
qed

lemma be_nat_snoc: "be_nat (bs @ [b]) = be_nat bs * 256 + unat b"
  by (simp add: be_nat_def)

lemma be_nat_bytes [simp]: "x < 256 ^ n \<Longrightarrow> be_nat (be_bytes n x) = x"
proof (induction n arbitrary: x)
  case 0
  then show ?case by (simp add: be_nat_def be_bytes_def)
next
  case (Suc n)
  have "x < 256 ^ n * 256" using Suc.prems by (simp only: power_Suc2)
  then have "x div 256 < 256 ^ n" by (rule less_mult_imp_div_less)
  then have "be_nat (be_bytes n (x div 256)) = x div 256" by (rule Suc.IH)
  moreover have "unat (of_nat x :: u8) = x mod 256" by (simp add: unat_of_nat)
  ultimately show ?case by (simp only: be_bytes_Suc be_nat_snoc div_mult_mod_eq)
qed

lemma letters_length [simp]: "length (letters s) = length s"
  by (simp add: letters_def)

lemma letters_inj: "letters s = letters t \<longleftrightarrow> s = t"
proof -
  have "inj (\<lambda>c. of_nat (of_char c) :: u8)"
  proof (rule injI)
    fix c d assume "(of_nat (of_char c) :: u8) = of_nat (of_char d)"
    then have "unat (of_nat (of_char c) :: u8) = unat (of_nat (of_char d) :: u8)" by simp
    then have "(of_char c :: nat) mod 256 = of_char d mod 256" by (simp only: unat_of_nat) simp
    then show "c = d" by (simp add: of_char_mod_256)
  qed
  then show ?thesis by (simp add: letters_def inj_map_eq_map)
qed

lemma boxed_length [simp]: "length kind = 4 \<Longrightarrow> length (boxed kind body) = 8 + length body"
  by (simp add: boxed_def)

lemma find_boxed:
  assumes "length k = 4" "length body + 8 < 256 ^ 4"
  shows "find_box kind (boxed k body @ rest) = (if k = kind then Some body else find_box kind rest)"
proof -
  have size: "box_size (boxed k body @ rest) = Some (8, length body + 8)"
    using assms by (simp add: box_size_def boxed_def Let_def)
  have kind: "take 4 (drop 4 (boxed k body @ rest)) = letters k" using assms(1) by (simp add: boxed_def)
  have body: "take (length body) (drop 8 (boxed k body @ rest)) = body" using assms(1) by (simp add: boxed_def)
  have rest: "drop (length body + 8) (boxed k body @ rest) = rest" using assms(1) by (simp add: boxed_def)
  show ?thesis
    by (subst find_box.simps) (simp only: size kind letters_inj,
        use body in \<open>auto simp: assms(1) rest simp del: take_append drop_append\<close>)
qed

text \<open>What was written at the end of a run of other boxes is found and read back.\<close>

definition run_of :: "(string \<times> bytes) list \<Rightarrow> bytes" where
  "run_of bs = concat (map (\<lambda>(k, b). boxed k b) bs)"

definition writable :: "string \<times> bytes \<Rightarrow> bool" where
  "writable b \<longleftrightarrow> length (fst b) = 4 \<and> length (snd b) + 8 < 256 ^ 4"

lemma find_in_run:
  assumes "list_all writable before" "list_all (\<lambda>b. fst b \<noteq> kind) before" "writable (kind, body)"
  shows "find_box kind (run_of before @ boxed kind body @ rest) = Some body"
  using assms
proof (induction before)
  case Nil
  then show ?case by (simp add: run_of_def find_boxed writable_def)
next
  case (Cons b bs)
  then show ?case by (cases b) (simp add: run_of_def find_boxed writable_def)
qed

end
