(* ===== verification/Hls_Stream.thy ===== *)
theory Hls_Stream
  imports Hls_Playlist Hls_Boxes
begin

text \<open>
  A rung with its ring and what is rendered of it (\<open>crates/godwinmix-core/src/hls/track.rs\<close>,
  \<open>track_align.rs\<close>), and an output as the server sees it, the list of its tracks (\<open>stream.rs\<close>,
  \<open>stream_align.rs\<close>). The position a request waits on is a field; waking the requests that wait on it is
  not modelled. MPEG-TS renditions, viewers and the text of the multivariant playlist are left out.
\<close>

datatype track_kind = VideoTrack | AudioTrack

record track_info =
  ti_codecs :: string
  ti_width :: u32
  ti_height :: u32
  ti_fps :: "(int \<times> int) option"
  ti_channels :: u32
  ti_timescale :: u32
  ti_declared_kbps :: u32
  ti_sound :: u8
  ti_lang :: string
  ti_name :: string

definition track_info_default :: track_info where
  "track_info_default = \<lparr>ti_codecs = [], ti_width = 0, ti_height = 0, ti_fps = None, ti_channels = 0, ti_timescale = 0,
     ti_declared_kbps = 0, ti_sound = 0, ti_lang = [], ti_name = []\<rparr>"

record hls_track =
  ht_id :: string
  ht_kind :: track_kind
  ht_params :: hls_params
  ht_info :: track_info
  ht_ring :: ring
  ht_pos :: hls_position
  ht_rendered :: "((u64 \<times> u64) \<times> tag list) option"

definition track_new :: "string \<Rightarrow> track_kind \<Rightarrow> hls_params \<Rightarrow> u32 \<Rightarrow> hls_track" where
  "track_new i kind p kbps = \<lparr>ht_id = i, ht_kind = kind, ht_params = p,
     ht_info = track_info_default\<lparr>ti_declared_kbps := kbps\<rparr>, ht_ring = ring_new (ring_capacity p),
     ht_pos = position_default, ht_rendered = None\<rparr>"

definition update_info :: "(track_info \<Rightarrow> track_info) \<Rightarrow> hls_track \<Rightarrow> hls_track" where
  "update_info f t = t\<lparr>ht_info := f (ht_info t)\<rparr>"

definition track_change :: "(ring \<Rightarrow> 'a \<times> ring) \<Rightarrow> hls_track \<Rightarrow> 'a \<times> hls_track" where
  "track_change f t =
    (case f (ht_ring t) of (out, r) \<Rightarrow> (out, t\<lparr>ht_ring := r, ht_pos := ring_position r\<rparr>))"

lemma track_change_sel: "ht_ring (snd (track_change f t)) = snd (f (ht_ring t))" "ht_params (snd (track_change f t)) = ht_params t"
  "ht_rendered (snd (track_change f t)) = ht_rendered t"
  by (simp_all add: track_change_def split: prod.split)

definition track_set_init :: "bytes \<Rightarrow> hls_track \<Rightarrow> hls_track" where
  "track_set_init b t =
    (let t = (case timescale b of Some ts \<Rightarrow> update_info (\<lambda>i. i\<lparr>ti_timescale := ts\<rparr>) t | None \<Rightarrow> t)
     in t\<lparr>ht_ring := snd (set_init b (ht_ring t))\<rparr>)"

definition track_begin :: "u64 \<Rightarrow> int \<Rightarrow> u64 option \<Rightarrow> hls_track \<Rightarrow> u64 option \<times> hls_track" where
  "track_begin start pdt d t =
     track_change (\<lambda>r. case ring_begin start (segment_ns (ht_params t)) pdt r of (msn, r) \<Rightarrow> (msn, ring_stamp d r)) t"

definition track_push_part :: "hls_part \<Rightarrow> hls_track \<Rightarrow> bool \<times> hls_track" where
  "track_push_part p = track_change (push_part p)"

definition track_close :: "hls_track \<Rightarrow> hls_track" where
  "track_close t = snd (track_change (\<lambda>r. ((), ring_close r)) t)"

definition track_mark_break :: "u32 \<Rightarrow> u64 \<Rightarrow> hls_track \<Rightarrow> hls_track" where
  "track_mark_break disc l t = snd (track_change (\<lambda>r. ((), mark_break disc l r)) t)"

definition track_join :: "u32 \<Rightarrow> hls_track \<Rightarrow> hls_track" where
  "track_join disc t = t\<lparr>ht_ring := ring_join disc (ht_ring t)\<rparr>"

definition track_begin_at :: "u64 \<Rightarrow> u64 \<Rightarrow> int \<Rightarrow> u64 option \<Rightarrow> hls_track \<Rightarrow> u64 option \<times> hls_track" where
  "track_begin_at msn start pdt d =
     track_change (\<lambda>r. case begin_at msn start pdt r of (begun, r) \<Rightarrow> (begun, if begun \<noteq> None then ring_stamp d r else r))"

text \<open>How far every other rung has got, folded into one number.\<close>

definition reports_seen :: "report list \<Rightarrow> u64" where
  "reports_seen reports =
     fold (\<lambda>r h. h * 31 + (rp_msn r * 64 + (case rp_part r of Some p \<Rightarrow> of_nat p | None \<Rightarrow> 0))) reports 0"

definition track_playlist :: "report list \<Rightarrow> hls_track \<Rightarrow> tag list \<times> hls_track" where
  "track_playlist reports t =
    (let key = (rg_version (ht_ring t), reports_seen reports);
         fresh = media (ring_view (ht_ring t)) (ht_params t) reports
     in case ht_rendered t of
          Some (k, text) \<Rightarrow> if k = key then (text, t) else (fresh, t\<lparr>ht_rendered := Some (key, fresh)\<rparr>)
        | None \<Rightarrow> (fresh, t\<lparr>ht_rendered := Some (key, fresh)\<rparr>))"

definition measured_bps :: "hls_view \<Rightarrow> (u64 \<times> u64) option" where
  "measured_bps v =
    (let whole = filter (\<lambda>s. sv_complete s \<and> 0 < sv_duration s) (vw_segments v);
         peak = fold (\<lambda>s peak. max peak (of_nat (sv_bytes s) * 8000000000 div sv_duration s)) whole 0;
         bytes = (\<Sum>s \<leftarrow> whole. of_nat (sv_bytes s)); ns = (\<Sum>s \<leftarrow> whole. sv_duration s)
     in if 0 < ns then Some (peak, bytes * 8000000000 div ns) else None)"

subsection \<open>The stream\<close>

record hls_stream =
  sm_id :: string
  sm_params :: hls_params
  sm_viewer_key :: string
  sm_tracks :: "hls_track list"

definition stream_new :: "string \<Rightarrow> hls_params \<Rightarrow> string \<Rightarrow> hls_stream" where
  "stream_new i p key = \<lparr>sm_id = i, sm_params = p, sm_viewer_key = key, sm_tracks = []\<rparr>"

definition admits_key :: "hls_stream \<Rightarrow> string \<Rightarrow> bool" where
  "admits_key s key \<longleftrightarrow> sm_viewer_key s \<noteq> [] \<and> length (sm_viewer_key s) = length key \<and>
     fold (\<lambda>(x, y) d. or d (xor x y)) (zip (map of_char (sm_viewer_key s)) (map of_char key)) (0 :: u8) = 0"

definition current_disc :: "hls_track list \<Rightarrow> u32" where
  "current_disc ts = fold (\<lambda>t d. max d (rg_disc (ht_ring t))) ts 0"

text \<open>
  A track is shared, and one of its id is all there is in the list: what its writer does to it, it does to
  the one of that id.
\<close>

definition on_track :: "string \<Rightarrow> (hls_track \<Rightarrow> hls_track) \<Rightarrow> hls_stream \<Rightarrow> hls_stream" where
  "on_track i f s = s\<lparr>sm_tracks := map (\<lambda>t. if ht_id t = i then f t else t) (sm_tracks s)\<rparr>"

definition add_track :: "string \<Rightarrow> track_kind \<Rightarrow> u32 \<Rightarrow> hls_stream \<Rightarrow> hls_stream" where
  "add_track i kind kbps s =
    (case List.find (\<lambda>t. ht_id t = i \<and> ht_kind t = kind) (sm_tracks s) of
       Some t \<Rightarrow> on_track i (update_info (\<lambda>f. f\<lparr>ti_declared_kbps := kbps\<rparr>)) s
     | None \<Rightarrow>
        (let ts = filter (\<lambda>t. ht_id t \<noteq> i) (sm_tracks s)
         in s\<lparr>sm_tracks := ts @ [track_join (current_disc ts) (track_new i kind (sm_params s) kbps)]\<rparr>))"

definition remove_track :: "string \<Rightarrow> hls_stream \<Rightarrow> hls_stream" where
  "remove_track i s = s\<lparr>sm_tracks := filter (\<lambda>t. ht_id t \<noteq> i) (sm_tracks s)\<rparr>"

definition track_of :: "string \<Rightarrow> hls_stream \<Rightarrow> hls_track option" where
  "track_of i s = List.find (\<lambda>t. ht_id t = i) (sm_tracks s)"

fun least_of :: "u64 list \<Rightarrow> u64 option" where
  "least_of [] = None"
| "least_of (x # xs) = Some (fold min xs x)"

definition restart :: "hls_stream \<Rightarrow> hls_stream" where
  "restart s =
    (case least_of (List.map_filter (\<lambda>t. ring_newest (ht_ring t)) (sm_tracks s)) of
       None \<Rightarrow> s
     | Some l \<Rightarrow>
        (let cut = (\<exists>t \<in> set (sm_tracks s). cut_since_break (ht_ring t));
             disc = current_disc (sm_tracks s) + (if cut then 1 else 0)
         in s\<lparr>sm_tracks := map (track_mark_break disc l) (sm_tracks s)\<rparr>))"

definition leader :: "hls_stream \<Rightarrow> hls_track option" where
  "leader s = List.find (\<lambda>t. ht_kind t = VideoTrack) (sm_tracks s)"

definition reports_for :: "string \<Rightarrow> hls_stream \<Rightarrow> report list" where
  "reports_for i s =
     List.map_filter (\<lambda>t. map_option (\<lambda>(m, p). \<lparr>rp_id = ht_id t, rp_msn = m, rp_part = p\<rparr>)
         (case po_open (ht_pos t) of
            Some (m, n) \<Rightarrow> if 0 < n then Some (m, Some (n - 1)) else map_option (\<lambda>c. (c, None)) (po_complete (ht_pos t))
          | None \<Rightarrow> map_option (\<lambda>c. (c, None)) (po_complete (ht_pos t))))
       (filter (\<lambda>t. ht_id t \<noteq> i \<and> ht_kind t = VideoTrack) (sm_tracks s))"

definition stream_ready :: "hls_stream \<Rightarrow> bool" where
  "stream_ready s \<longleftrightarrow> sm_tracks s \<noteq> [] \<and> (\<forall>t \<in> set (sm_tracks s). po_complete (ht_pos t) \<noteq> None \<and> ti_codecs (ht_info t) \<noteq> [])"

record variant =
  va_id :: string
  va_info :: track_info
  va_bandwidth :: u64
  va_average :: "u64 option"

definition track_variant :: "hls_track \<Rightarrow> variant" where
  "track_variant t =
    (let declared = ucast (ti_declared_kbps (ht_info t)) * 1000;
         (peak, average) = (case measured_bps (ring_view (ht_ring t)) of Some (p, a) \<Rightarrow> (p, Some a) | None \<Rightarrow> (0, None))
     in \<lparr>va_id = ht_id t, va_info = ht_info t, va_bandwidth = max (max peak declared) 1, va_average = average\<rparr>)"

definition stream_sounds :: "hls_stream \<Rightarrow> variant list" where
  "stream_sounds s =
     sort_key (\<lambda>v. ti_sound (va_info v)) (map track_variant (filter (\<lambda>t. ht_kind t = AudioTrack) (sm_tracks s)))"

definition stream_memory :: "hls_stream \<Rightarrow> nat" where
  "stream_memory s = (\<Sum>t \<leftarrow> sm_tracks s. ring_memory (ht_ring t))"

end
