(* ===== verification/Hls_Ring_Run.thy ===== *)
theory Hls_Ring_Run
  imports Hls_Ring
begin

text \<open>
  What holds of a ring whatever is done to it (\<open>ring_ok\<close>), as long as its numbers last: the segments it
  holds are numbered one apart, only the newest may be open, every header one of them needs is kept, and
  the longest whole segment is known.
\<close>

text \<open>One segment directly after another.\<close>

definition follows :: "hls_segment \<Rightarrow> hls_segment \<Rightarrow> bool" where
  "follows s t \<longleftrightarrow> sg_complete s \<and> unat (sg_msn t) = Suc (unat (sg_msn s)) \<and> sg_disc s \<le> sg_disc t \<and> sg_init s \<le> sg_init t"

definition keeps :: "ring \<Rightarrow> hls_segment \<Rightarrow> bool" where
  "keeps r s \<longleftrightarrow> sg_disc s \<le> rg_disc r \<and> sg_init s \<in> set (map fst (rg_inits r)) \<and>
     (sg_complete s \<longrightarrow> seg_duration s \<le> rg_longest r)"

definition ring_ok :: "ring \<Rightarrow> bool" where
  "ring_ok r \<longleftrightarrow> 3 \<le> rg_capacity r \<and> length (rg_segments r) \<le> rg_capacity r \<and> successively follows (rg_segments r) \<and>
     list_all (keeps r) (rg_segments r) \<and> sorted_wrt (<) (map fst (rg_inits r)) \<and>
     (\<forall>m. rg_resume r = Some m \<and> rg_segments r \<noteq> [] \<longrightarrow> unat m = Suc (unat (sg_msn (last (rg_segments r)))))"

text \<open>The numbers of a ring last for one more segment, or header.\<close>

definition msn_left :: "ring \<Rightarrow> bool" where
  "msn_left r \<longleftrightarrow> rg_segments r = [] \<or> sg_msn (last (rg_segments r)) \<noteq> - 1"

definition init_left :: "ring \<Rightarrow> bool" where
  "init_left r \<longleftrightarrow> rg_inits r = [] \<or> fst (last (rg_inits r)) \<noteq> - 1"

lemma unat_suc: "(w :: 'a::len word) \<noteq> - 1 \<Longrightarrow> unat (w + 1) = Suc (unat w)"
proof -
  assume w: "w \<noteq> - 1"
  have "unat (- 1 :: 'a word) = 2 ^ LENGTH('a) - 1" by (simp add: unsigned_minus_1_eq_mask mask_eq_exp_minus_1)
  then have "unat w \<noteq> 2 ^ LENGTH('a) - 1" using w by (metis word_unat_eq_iff)
  moreover have "unat w < 2 ^ LENGTH('a)" by (rule unsigned_less)
  ultimately have "unat w + unat (1 :: 'a word) < 2 ^ LENGTH('a)" by (simp; linarith)
  then show ?thesis using unat_add_no_wrap by fastforce
qed

lemma follows_msn: "follows s t \<Longrightarrow> sg_msn t = sg_msn s + 1"
proof -
  assume "follows s t"
  then have "(of_nat (unat (sg_msn t)) :: u64) = of_nat (Suc (unat (sg_msn s)))" by (simp add: follows_def)
  then show ?thesis by (simp add: add.commute)
qed

subsection \<open>What each operation does to the parts of a ring\<close>

lemma bump_sel [simp]: "rg_capacity (bump r) = rg_capacity r" "rg_inits (bump r) = rg_inits r"
  "rg_segments (bump r) = rg_segments r" "rg_longest (bump r) = rg_longest r" "rg_disc (bump r) = rg_disc r"
  "rg_resume (bump r) = rg_resume r" "rg_version (bump r) = rg_version r + 1"
  by (simp_all add: bump_def)

lemma ring_ok_bump [simp]: "ring_ok (bump r) = ring_ok r"
  by (simp add: ring_ok_def keeps_def [abs_def])

lemma on_open_length [simp]: "length (on_open f ss) = length ss"
  by (auto simp: on_open_def)

lemma on_open_Nil [simp]: "on_open f ss = [] \<longleftrightarrow> ss = []"
  by (metis length_0_conv on_open_length)

lemma open_segment_Some: "open_segment r = Some s \<longleftrightarrow> rg_segments r \<noteq> [] \<and> s = last (rg_segments r) \<and> \<not> sg_complete s"
  by (auto simp: open_segment_def)

lemma on_open_sel:
  assumes "\<And>s. sg_msn (f s) = sg_msn s"
  shows "map sg_msn (on_open f ss) = map sg_msn ss"
  using assms by (cases ss rule: rev_cases) (auto simp: on_open_def)

lemma on_open_last: "ss \<noteq> [] \<Longrightarrow> sg_msn (f (last ss)) = sg_msn (last ss) \<Longrightarrow> sg_msn (last (on_open f ss)) = sg_msn (last ss)"
  by (auto simp: on_open_def)

text \<open>Changing the open segment's parts, stamp or state keeps the chain.\<close>

lemma on_open_follows:
  assumes "successively follows ss" "\<And>s. sg_msn (f s) = sg_msn s \<and> sg_disc (f s) = sg_disc s \<and> sg_init (f s) = sg_init s"
  shows "successively follows (on_open f ss)"
  using assms by (cases ss rule: rev_cases) (auto simp: on_open_def successively_append_iff follows_def)

lemma on_open_all:
  assumes "list_all P ss" "ss \<noteq> [] \<Longrightarrow> \<not> sg_complete (last ss) \<Longrightarrow> P (last ss) \<Longrightarrow> Q (f (last ss))" "\<And>s. P s \<Longrightarrow> Q s"
  shows "list_all Q (on_open f ss)"
  using assms by (cases ss rule: rev_cases) (auto simp: on_open_def list_all_iff)

lemma ring_close_sel [simp]: "rg_capacity (ring_close r) = rg_capacity r" "rg_inits (ring_close r) = rg_inits r"
  "rg_disc (ring_close r) = rg_disc r" "rg_resume (ring_close r) = rg_resume r"
  "rg_segments (ring_close r) = on_open (sg_complete_update (\<lambda>_. True)) (rg_segments r)"
  by (auto simp: ring_close_def on_open_def open_segment_def)

lemma current_init_close [simp]: "current_init (ring_close r) = current_init r"
  by (simp add: current_init_def)

lemma older_complete: "successively follows ss \<Longrightarrow> s \<in> set (butlast ss) \<Longrightarrow> sg_complete s"
  by (induction ss rule: induct_list012) (auto simp: follows_def)

lemma all_closed: "successively follows ss \<Longrightarrow> s \<in> set (on_open (sg_complete_update (\<lambda>_. True)) ss) \<Longrightarrow> sg_complete s"
  by (cases ss rule: rev_cases) (auto simp: on_open_def dest: older_complete split: if_split_asm)

subsection \<open>Every operation keeps a ring well formed\<close>

lemma ring_ok_new: "ring_ok (ring_new c)"
  by (simp add: ring_ok_def ring_new_def)

lemma ring_ok_on_open:
  assumes "ring_ok r" "\<And>s. sg_msn (f s) = sg_msn s \<and> sg_disc (f s) = sg_disc s \<and> sg_init (f s) = sg_init s"
    "\<And>s. \<not> sg_complete s \<Longrightarrow> open_segment r = Some s \<Longrightarrow> sg_complete (f s) \<Longrightarrow> seg_duration (f s) \<le> l" "rg_longest r \<le> l"
  shows "ring_ok (r\<lparr>rg_segments := on_open f (rg_segments r), rg_longest := l\<rparr>)"
proof -
  have "list_all (keeps (r\<lparr>rg_segments := on_open f (rg_segments r), rg_longest := l\<rparr>)) (on_open f (rg_segments r))"
    by (rule on_open_all [where P = "keeps r"])
      (use assms in \<open>auto simp: ring_ok_def keeps_def open_segment_Some\<close>)
  moreover have "sg_msn (last (on_open f (rg_segments r))) = sg_msn (last (rg_segments r))" if "rg_segments r \<noteq> []"
    using that assms(2) by (intro on_open_last) auto
  ultimately show ?thesis using assms(1) on_open_follows [of "rg_segments r" f] assms(2) by (auto simp: ring_ok_def)
qed

lemma ring_ok_close: "ring_ok r \<Longrightarrow> ring_ok (ring_close r)"
  using ring_ok_on_open [of r "sg_complete_update (\<lambda>_. True)" "max (rg_longest r) (seg_duration (last (rg_segments r)))"]
  by (auto simp: ring_close_def open_segment_Some seg_duration_def max_def split: option.split)

lemma ring_ok_stamp: "ring_ok r \<Longrightarrow> ring_ok (ring_stamp d r)"
  using ring_ok_on_open [of r "sg_decode_update (\<lambda>_. d)" "rg_longest r"] by (simp add: ring_stamp_def)

lemma ring_ok_push: "ring_ok r \<Longrightarrow> ring_ok (snd (push_part p r))"
  using ring_ok_on_open [of r "sg_parts_update (\<lambda>ps. ps @ [p])" "rg_longest r"] by (simp add: push_part_def split: option.split)

lemma keeps_more: "keeps r s \<Longrightarrow> rg_disc r \<le> rg_disc q \<Longrightarrow> set (map fst (rg_inits r)) \<subseteq> set (map fst (rg_inits q)) \<Longrightarrow>
  rg_longest r \<le> rg_longest q \<Longrightarrow> keeps q s"
  unfolding keeps_def by (meson order_trans subsetD)

lemma set_init_sel [simp]: "rg_capacity (snd (set_init b r)) = rg_capacity r" "rg_segments (snd (set_init b r)) = rg_segments r"
  "rg_longest (snd (set_init b r)) = rg_longest r" "rg_disc (snd (set_init b r)) = rg_disc r"
  "rg_resume (snd (set_init b r)) = rg_resume r"
  by (auto simp: set_init_def split: option.split prod.split)

lemma ring_ok_set_init:
  assumes "ring_ok r" "init_left r"
  shows "ring_ok (snd (set_init b r))"
proof -
  let ?q = "snd (set_init b r)"
  have "g < fst (last (rg_inits r)) + 1" if "g \<in> set (map fst (rg_inits r))" for g
  proof -
    have ne: "rg_inits r \<noteq> []" using that by auto
    have "sorted (map fst (rg_inits r))" using assms(1) strict_sorted_imp_sorted by (auto simp: ring_ok_def)
    then have "g \<le> last (map fst (rg_inits r))" using that by (cases "rg_inits r" rule: rev_cases) (auto simp: sorted_append)
    then have "unat g \<le> unat (fst (last (rg_inits r)))" using ne by (simp add: last_map word_le_nat_alt)
    moreover have "unat (fst (last (rg_inits r)) + 1) = Suc (unat (fst (last (rg_inits r))))"
      using assms(2) ne by (intro unat_suc) (simp add: init_left_def)
    ultimately show ?thesis by (simp add: word_less_nat_alt)
  qed
  then have "sorted_wrt (<) (map fst (rg_inits ?q))"
    using assms(1) by (force simp: ring_ok_def set_init_def sorted_wrt_append split: prod.splits)
  moreover have "list_all (keeps ?q) (rg_segments r)"
  proof -
    have "set (map fst (rg_inits r)) \<subseteq> set (map fst (rg_inits ?q))" by (auto simp: set_init_def split: prod.splits)
    then show ?thesis using assms(1) keeps_more [of r _ ?q] by (simp add: ring_ok_def list_all_iff)
  qed
  ultimately show ?thesis using assms(1) by (simp add: ring_ok_def)
qed


lemma current_init_max:
  assumes "ring_ok r" "current_init r = Some g"
  shows "g \<in> set (map fst (rg_inits r))" "\<And>h. h \<in> set (map fst (rg_inits r)) \<Longrightarrow> h \<le> g"
proof -
  have ne: "rg_inits r \<noteq> []" and g: "g = last (map fst (rg_inits r))"
    using assms(2) by (auto simp: current_init_def last_map split: if_split_asm)
  then show "g \<in> set (map fst (rg_inits r))" using last_in_set [of "map fst (rg_inits r)"] by (simp del: set_map)
  show "h \<le> g" if "h \<in> set (map fst (rg_inits r))" for h
    using that assms(1) unfolding g ring_ok_def
    by (cases "rg_inits r" rule: rev_cases) (auto simp: sorted_wrt_append less_imp_le)
qed

text \<open>The segment a ring begins, closed before it.\<close>

definition next_segment :: "u64 \<Rightarrow> u64 \<Rightarrow> int \<Rightarrow> ring \<Rightarrow> hls_segment" where
  "next_segment start segment pdt r = \<lparr>sg_msn = fst (next_msn start segment r), sg_start = start, sg_disc = rg_disc r,
     sg_pdt = pdt, sg_init = the (current_init r), sg_decode = None, sg_parts = [], sg_complete = False\<rparr>"

lemma next_msn_cong: "rg_resume q = rg_resume r \<Longrightarrow> map sg_msn (rg_segments q) = map sg_msn (rg_segments r) \<Longrightarrow>
  fst (next_msn start segment q) = fst (next_msn start segment r)"
proof -
  assume same: "rg_resume q = rg_resume r" "map sg_msn (rg_segments q) = map sg_msn (rg_segments r)"
  have "sg_msn (last (rg_segments q)) = sg_msn (last (rg_segments r))" if "rg_segments r \<noteq> []"
    using same(2) that by (metis last_map map_is_Nil_conv)
  moreover have "rg_segments q = [] \<longleftrightarrow> rg_segments r = []" using same(2) by (metis map_is_Nil_conv)
  ultimately show ?thesis using same(1) by (simp add: next_msn_def split: option.split)
qed

lemma next_segment_close [simp]: "next_segment start segment pdt (ring_close r) = next_segment start segment pdt r"
  by (simp add: next_segment_def next_msn_cong [of "ring_close r" r] on_open_sel)

definition newest_of :: "nat \<Rightarrow> 'a list \<Rightarrow> 'a list" where
  "newest_of c ss = drop (length ss - c) ss"

lemma newest_of_sub: "set (newest_of c ss) \<subseteq> set ss"
  by (simp add: newest_of_def set_drop_subset)

lemma newest_of_split: "\<exists>old. ss = old @ newest_of c ss"
  unfolding newest_of_def by (metis append_take_drop_id)

lemma newest_of_snoc: "0 < c \<Longrightarrow> \<exists>ws. newest_of c (ss @ [s]) = ws @ [s]"
  by (auto simp: newest_of_def Suc_diff_le)

lemma ring_begin_segments:
  "current_init r = None \<Longrightarrow> ring_begin start segment pdt r = (None, r)"
  "current_init r \<noteq> None \<Longrightarrow> fst (ring_begin start segment pdt r) = Some (fst (next_msn start segment r))"
  "current_init r \<noteq> None \<Longrightarrow> rg_segments (snd (ring_begin start segment pdt r)) =
     newest_of (rg_capacity r) (on_open (sg_complete_update (\<lambda>_. True)) (rg_segments r) @ [next_segment start segment pdt r])"
  "rg_capacity (snd (ring_begin start segment pdt r)) = rg_capacity r"
  "rg_disc (snd (ring_begin start segment pdt r)) = rg_disc r"
  "current_init r \<noteq> None \<Longrightarrow> rg_resume (snd (ring_begin start segment pdt r)) = None"
  "current_init r \<noteq> None \<Longrightarrow> rg_longest (snd (ring_begin start segment pdt r)) = rg_longest (ring_close r)"
  by (auto simp: ring_begin_def next_msn_def next_segment_def forget_unused_inits_def newest_of_def Let_def
      on_open_last split: option.split list.split)


lemma next_msn_after:
  assumes "ring_ok r" "msn_left r" "rg_segments r \<noteq> []"
  shows "unat (fst (next_msn start segment r)) = Suc (unat (sg_msn (last (rg_segments r))))"
  using assms unat_suc [of "sg_msn (last (rg_segments r))"]
  by (auto simp: next_msn_def ring_ok_def msn_left_def split: option.split)

lemma begun_follows:
  assumes "ring_ok r" "msn_left r" "current_init r \<noteq> None"
  shows "successively follows (on_open (sg_complete_update (\<lambda>_. True)) (rg_segments r) @ [next_segment start segment pdt r])"
proof -
  let ?ss = "on_open (sg_complete_update (\<lambda>_. True)) (rg_segments r)"
  have chain: "successively follows ?ss"
    using ring_ok_close [OF assms(1)] by (simp add: ring_ok_def)
  have "follows (last ?ss) (next_segment start segment pdt r)" if ne: "?ss \<noteq> []"
  proof -
    have closed: "sg_complete (last ?ss)" using ne assms(1) by (intro all_closed [of "rg_segments r"]) (auto simp: ring_ok_def)
    have "keeps (ring_close r) (last ?ss)"
      using ring_ok_close [OF assms(1)] last_in_set [OF ne] by (auto simp: ring_ok_def list_all_iff)
    then have "sg_disc (last ?ss) \<le> rg_disc r" "sg_init (last ?ss) \<in> set (map fst (rg_inits r))"
      by (simp_all add: keeps_def)
    moreover obtain g where g: "current_init r = Some g" using assms(3) by auto
    ultimately have "sg_init (last ?ss) \<le> g" using current_init_max(2) [OF assms(1) g] by blast
    moreover have "sg_msn (last ?ss) = sg_msn (last (rg_segments r))" using ne by (intro on_open_last) auto
    ultimately show ?thesis
      using closed \<open>sg_disc (last ?ss) \<le> rg_disc r\<close> g next_msn_after [OF assms(1,2)] ne
      by (simp add: follows_def next_segment_def)
  qed
  then show ?thesis using chain by (auto simp: successively_append_iff)
qed

lemma forget_sel [simp]: "rg_segments (forget_unused_inits r) = rg_segments r" "rg_capacity (forget_unused_inits r) = rg_capacity r"
  "rg_longest (forget_unused_inits r) = rg_longest r" "rg_disc (forget_unused_inits r) = rg_disc r"
  "rg_resume (forget_unused_inits r) = rg_resume r"
  by (simp_all add: forget_unused_inits_def split: list.split option.split)

text \<open>Letting go of the headers no segment needs.\<close>

lemma inits_ascend: "successively follows (s # ss) \<Longrightarrow> t \<in> set ss \<Longrightarrow> sg_init s \<le> sg_init t"
proof (induction ss arbitrary: s)
  case (Cons u us)
  then show ?case by (auto simp: follows_def intro: order_trans)
qed simp

lemma ring_ok_forget: "ring_ok r \<Longrightarrow> ring_ok (forget_unused_inits r)"
proof (cases "rg_segments r")
  case Nil
  then show "ring_ok r \<Longrightarrow> ?thesis" by (simp add: forget_unused_inits_def)
next
  case (Cons s ss)
  assume ok: "ring_ok r"
  show ?thesis
  proof (cases "current_init r")
    case None
    then show ?thesis using ok Cons by (simp add: forget_unused_inits_def)
  next
    case (Some g)
    let ?q = "forget_unused_inits r"
    have inits: "rg_inits ?q = filter (\<lambda>i. sg_init s \<le> fst i \<or> fst i = g) (rg_inits r)"
      using Cons Some by (simp add: forget_unused_inits_def)
    have "keeps ?q t" if "t \<in> set (s # ss)" for t
    proof -
      have "sg_init s \<le> sg_init t" using that ok Cons inits_ascend [of s ss t] by (auto simp: ring_ok_def)
      moreover have "keeps r t" using that ok Cons by (auto simp: ring_ok_def list_all_iff)
      ultimately show ?thesis by (auto simp: keeps_def inits image_iff)
    qed
    moreover have "sorted_wrt (<) (map fst (rg_inits ?q))"
      using ok by (simp add: inits ring_ok_def sorted_wrt_map sorted_wrt_filter)
    ultimately show ?thesis using ok Cons by (simp add: ring_ok_def list_all_iff)
  qed
qed

lemma newest_of_chain: "successively P ss \<Longrightarrow> successively P (newest_of c ss)"
  using newest_of_split [of ss c] by (metis successively_append_iff)

lemma ring_ok_begin:
  assumes "ring_ok r" "msn_left r"
  shows "ring_ok (snd (ring_begin start segment pdt r))"
proof (cases "current_init r")
  case None
  then show ?thesis using assms(1) by (simp add: ring_begin_segments)
next
  case (Some g)
  let ?ss = "on_open (sg_complete_update (\<lambda>_. True)) (rg_segments r) @ [next_segment start segment pdt r]"
  let ?q = "(ring_close r)\<lparr>rg_resume := None, rg_segments := newest_of (rg_capacity r) ?ss\<rparr>"
  have cap: "3 \<le> rg_capacity r" using assms(1) by (simp add: ring_ok_def)
  have "keeps ?q s" if "s \<in> set ?ss" for s
  proof (cases "s = next_segment start segment pdt r")
    case True
    then show ?thesis using current_init_max(1) [OF assms(1) Some] Some by (simp add: keeps_def next_segment_def)
  next
    case False
    then have "keeps (ring_close r) s" using that ring_ok_close [OF assms(1)] by (simp add: ring_ok_def list_all_iff)
    then show ?thesis by (simp add: keeps_def)
  qed
  then have "list_all (keeps ?q) (newest_of (rg_capacity r) ?ss)" using newest_of_sub [of "rg_capacity r" ?ss] by (auto simp: list_all_iff)
  moreover have "successively follows (newest_of (rg_capacity r) ?ss)"
    using begun_follows [OF assms] Some by (intro newest_of_chain) simp
  moreover have "length (newest_of (rg_capacity r) ?ss) \<le> rg_capacity r" by (simp add: newest_of_def)
  ultimately have "ring_ok ?q" using assms(1) cap by (simp add: ring_ok_def)
  moreover have "snd (ring_begin start segment pdt r) = bump (forget_unused_inits ?q)"
    using Some by (simp add: ring_begin_def next_msn_def next_segment_def newest_of_def Let_def on_open_last split: option.split)
  ultimately show ?thesis by (simp add: ring_ok_forget)
qed

lemma ring_ok_begin_at:
  assumes "ring_ok r" "msn_left r"
  shows "ring_ok (snd (begin_at msn start pdt r))"
proof -
  have "ring_ok (r\<lparr>rg_resume := Some msn\<rparr>)" "msn_left (r\<lparr>rg_resume := Some msn\<rparr>)" if "rg_segments r = []"
    using assms(1) that by (simp_all add: ring_ok_def msn_left_def keeps_def [abs_def])
  then show ?thesis using assms ring_ok_begin by (simp add: begin_at_def)
qed

lemma ring_ok_join: "ring_ok r \<Longrightarrow> rg_disc r \<le> d \<Longrightarrow> ring_ok (ring_join d r)"
proof -
  assume ok: "ring_ok r" "rg_disc r \<le> d"
  then have "list_all (keeps (ring_join d r)) (rg_segments r)"
    by (auto simp: ring_ok_def list_all_iff ring_join_def keeps_def intro: order_trans)
  then show ?thesis using ok by (simp add: ring_ok_def ring_join_def)
qed

text \<open>The oldest segments up to a number.\<close>

definition upto_msn :: "u64 \<Rightarrow> hls_segment list \<Rightarrow> hls_segment list" where
  "upto_msn l ss = rev (dropWhile (\<lambda>s. l < sg_msn s) (rev ss))"

lemma upto_msn_split: "\<exists>new. ss = upto_msn l ss @ new"
  unfolding upto_msn_def by (metis rev_append rev_rev_ident takeWhile_dropWhile_id)

lemma upto_msn_sub: "set (upto_msn l ss) \<subseteq> set ss"
  using upto_msn_split [of ss l] by (metis Un_upper1 set_append)

lemma upto_msn_last:
  assumes "successively follows ss" "upto_msn l ss \<noteq> []" "ss \<noteq> [] \<Longrightarrow> l \<le> sg_msn (last ss)"
  shows "sg_msn (last (upto_msn l ss)) = l"
  using assms
proof (induction ss rule: rev_induct)
  case (snoc x xs)
  show ?case
  proof (cases "l < sg_msn x")
    case False
    then show ?thesis using snoc.prems(3) by (simp add: upto_msn_def)
  next
    case True
    then have same: "upto_msn l (xs @ [x]) = upto_msn l xs" by (simp add: upto_msn_def)
    have "l \<le> sg_msn (last xs)" if "xs \<noteq> []"
      using snoc.prems(1) that True by (simp add: successively_append_iff follows_def word_less_nat_alt word_le_nat_alt)
    moreover have "successively follows xs" using snoc.prems(1) by (simp add: successively_append_iff)
    ultimately show ?thesis using snoc.IH snoc.prems(2) unfolding same by blast
  qed
qed (simp add: upto_msn_def)

lemma mark_break_sel: "rg_segments (mark_break d l r) = on_open (sg_complete_update (\<lambda>_. True)) (upto_msn l (rg_segments r))"
  "rg_disc (mark_break d l r) = d" "rg_resume (mark_break d l r) = Some (l + 1)" "rg_capacity (mark_break d l r) = rg_capacity r"
  "rg_inits (mark_break d l r) = rg_inits r"
  by (simp_all add: mark_break_def upto_msn_def)

lemma ring_ok_break:
  assumes "ring_ok r" "rg_disc r \<le> d" "l \<noteq> - 1" "rg_segments r \<noteq> [] \<Longrightarrow> l \<le> sg_msn (last (rg_segments r))"
  shows "ring_ok (mark_break d l r)"
proof -
  let ?q = "r\<lparr>rg_segments := upto_msn l (rg_segments r), rg_resume := None\<rparr>"
  have chain: "successively follows (upto_msn l (rg_segments r))"
    using assms(1) upto_msn_split [of "rg_segments r" l] unfolding ring_ok_def by (metis successively_append_iff)
  have "length (upto_msn l (rg_segments r)) \<le> length (rg_segments r)"
    using upto_msn_split [of "rg_segments r" l] by (metis le_add1 length_append)
  then have "ring_ok ?q"
    using assms(1) chain upto_msn_sub [of l "rg_segments r"] by (auto simp: ring_ok_def list_all_iff keeps_def)
  then have "ring_ok (ring_join d (ring_close ?q))" using assms(2) by (simp add: ring_ok_close ring_ok_join)
  moreover have "unat (l + 1) = Suc (unat (sg_msn (last (rg_segments (ring_close ?q)))))" if "rg_segments (ring_close ?q) \<noteq> []"
    using that upto_msn_last [of "rg_segments r" l] assms unat_suc [of l]
    by (simp add: on_open_last ring_ok_def)
  ultimately have "ring_ok ((ring_join d (ring_close ?q))\<lparr>rg_resume := Some (l + 1)\<rparr>)"
    by (auto simp: ring_ok_def ring_join_def keeps_def [abs_def])
  moreover have "mark_break d l r = bump ((ring_join d (ring_close ?q))\<lparr>rg_resume := Some (l + 1)\<rparr>)"
    by (simp add: mark_break_def ring_join_def upto_msn_def ring_close_def open_segment_def bump_def split: option.split)
  ultimately show ?thesis by simp
qed

end
