(* ===== verification/Hls_Run.thy ===== *)
theory Hls_Run
  imports Hls_Stream Hls_Ring_Run
begin

text \<open>
  A stream over all that is done to it (\<open>stream_run\<close>): tracks come and go, their writers begin, fill and
  close segments, and breaks are marked on all of them. The invariant says that the tracks stay in step:
  one discontinuity is current on all of them, and what was begun in it is numbered from one number on.
  The numbers, 64 or 32 bits wide, are taken to last. A run has two flags, each a restriction of what is
  done where it is set. The first says that every break found the tracks even: all of them cut since the
  last one, or none. The second says that no track is placed by its own time after a break: one that
  joins then follows another. Without the flags a run is all that can be done to a stream, and each ring
  is still well formed (\<open>stream_run_rings\<close>).
\<close>

definition even_cut :: "hls_stream \<Rightarrow> bool" where
  "even_cut s \<longleftrightarrow>
     (\<forall>t \<in> set (sm_tracks s). rg_segments (ht_ring t) \<noteq> [] \<longrightarrow> cut_since_break (ht_ring t)) \<or>
     (\<forall>t \<in> set (sm_tracks s). \<not> cut_since_break (ht_ring t))"

text \<open>A ring whose next segment has no number yet but the one its start time gives it.\<close>

definition unplaced :: "ring \<Rightarrow> bool" where
  "unplaced r \<longleftrightarrow> rg_segments r = [] \<and> rg_resume r = None"

text \<open>
  What a writer may do: give a header, begin a segment by time, begin the segment a leader placed it in,
  begin the one its own time gives, add a part, close. With the flag, a ring that is \<open>unplaced\<close> is begun
  by its own time only where there was no break, since the time of a new feed says nothing of the numbers
  in use.
\<close>

inductive writes :: "bool \<Rightarrow> hls_stream \<Rightarrow> hls_track \<Rightarrow> hls_track \<Rightarrow> bool" for pl s where
  header: "init_left (ht_ring t) \<Longrightarrow> writes pl s t (track_set_init b t)"
| begun: "msn_left (ht_ring t) \<Longrightarrow> pl \<and> unplaced (ht_ring t) \<longrightarrow> current_disc (sm_tracks s) = 0 \<Longrightarrow>
    writes pl s t (snd (track_begin start pdt d t))"
| led: "leader s = Some l \<Longrightarrow> ring_place at_ns min_ns (ht_ring l) = In msn \<Longrightarrow> msn_left (ht_ring l) \<Longrightarrow> msn_left (ht_ring t) \<Longrightarrow>
    writes pl s t (snd (track_begin_at msn start pdt d t))"
| alone: "msn_left (ht_ring t) \<Longrightarrow> pl \<and> unplaced (ht_ring t) \<longrightarrow> current_disc (sm_tracks s) = 0 \<Longrightarrow>
    writes pl s t (snd (track_begin_at msn start pdt d t))"
| part: "writes pl s t (snd (track_push_part p t))"
| closed: "writes pl s t (track_close t)"
| told: "writes pl s t (update_info f t)"
| rendered: "writes pl s t (snd (track_playlist reports t))"

inductive stream_run :: "bool \<Rightarrow> bool \<Rightarrow> hls_stream \<Rightarrow> bool" for ev pl where
  fresh: "stream_run ev pl (stream_new i p key)"
| added: "stream_run ev pl s \<Longrightarrow> stream_run ev pl (add_track i kind kbps s)"
| removed: "stream_run ev pl s \<Longrightarrow> stream_run ev pl (remove_track i s)"
| written: "stream_run ev pl s \<Longrightarrow> t \<in> set (sm_tracks s) \<Longrightarrow> writes pl s t t' \<Longrightarrow> stream_run ev pl (on_track (ht_id t) (\<lambda>_. t') s)"
| restarted: "stream_run ev pl s \<Longrightarrow> current_disc (sm_tracks s) \<noteq> - 1 \<Longrightarrow>
    (\<And>t. t \<in> set (sm_tracks s) \<Longrightarrow> msn_left (ht_ring t)) \<Longrightarrow> ev \<longrightarrow> even_cut s \<Longrightarrow> stream_run ev pl (restart s)"

text \<open>The numbers and discontinuities of a ring's segments.\<close>

definition outline :: "ring \<Rightarrow> (u64 \<times> u32) list" where
  "outline r = map (\<lambda>s. (sg_msn s, sg_disc s)) (rg_segments r)"

text \<open>One track in discontinuity \<open>d\<close>, which is numbered from \<open>l\<close> on.\<close>

definition track_in_step :: "bool \<Rightarrow> u32 \<Rightarrow> nat \<Rightarrow> ring \<Rightarrow> bool" where
  "track_in_step ev d l r \<longleftrightarrow> ring_ok r \<and> rg_disc r = d \<and>
     (\<forall>x \<in> set (outline r). snd x = d \<longleftrightarrow> l \<le> unat (fst x)) \<and>
     (\<forall>m. rg_resume r = Some m \<longrightarrow> l \<le> unat m \<and> (outline r \<noteq> [] \<longrightarrow> unat m = l) \<and> d \<notin> snd ` set (outline r)) \<and>
     (rg_resume r = None \<and> outline r \<noteq> [] \<longrightarrow> snd (last (outline r)) = d) \<and>
     (ev \<longrightarrow> successively (\<lambda>x y. snd y = snd x \<or> snd y = snd x + 1) (outline r) \<and>
        (outline r \<noteq> [] \<and> snd (last (outline r)) \<noteq> d \<longrightarrow> snd (last (outline r)) + 1 = d))"

text \<open>Two rings that both hold a number hold it in the same discontinuity.\<close>

definition agree :: "ring \<Rightarrow> ring \<Rightarrow> bool" where
  "agree q r \<longleftrightarrow> (\<forall>x \<in> set (outline q). \<forall>y \<in> set (outline r). fst x = fst y \<longrightarrow> snd x = snd y)"

definition stream_ok :: "bool \<Rightarrow> u32 \<Rightarrow> nat \<Rightarrow> hls_stream \<Rightarrow> bool" where
  "stream_ok ev d l s \<longleftrightarrow> distinct (map ht_id (sm_tracks s)) \<and> (d = 0 \<longrightarrow> l = 0) \<and>
     (\<forall>t \<in> set (sm_tracks s). track_in_step ev d l (ht_ring t) \<and> ht_pos t = ring_position (ht_ring t)) \<and>
     (\<forall>t \<in> set (sm_tracks s). \<forall>u \<in> set (sm_tracks s). agree (ht_ring t) (ht_ring u))"

subsection \<open>The discontinuity of a stream\<close>

lemma fold_max_least: "(d :: 'a::linorder) \<le> fold (\<lambda>x d. max d (f x)) xs d"
  by (induction xs arbitrary: d) (auto intro: order_trans [OF max.cobounded1])

lemma fold_max_same: "\<forall>x \<in> set xs. f x = c \<Longrightarrow> xs \<noteq> [] \<Longrightarrow> (d :: 'a::linorder) \<le> c \<Longrightarrow> fold (\<lambda>x d. max d (f x)) xs d = c"
proof (induction xs arbitrary: d)
  case (Cons x xs)
  then show ?case by (cases "xs = []") (auto simp: max_def)
qed simp

lemma current_disc_same:
  assumes "\<forall>t \<in> set ts. rg_disc (ht_ring t) = d" "ts \<noteq> []"
  shows "current_disc ts = d"
proof -
  have "(0 :: u32) \<le> d" by simp
  then show ?thesis using fold_max_same [OF assms, of 0] by (simp add: current_disc_def)
qed

lemma current_disc_Nil [simp]: "current_disc [] = 0"
  by (simp add: current_disc_def)

lemma stream_disc: "stream_ok ev d l s \<Longrightarrow> sm_tracks s \<noteq> [] \<Longrightarrow> current_disc (sm_tracks s) = d"
  by (rule current_disc_same) (auto simp: stream_ok_def track_in_step_def)

lemma stream_ok_empty: "sm_tracks s = [] \<Longrightarrow> stream_ok ev 0 0 s"
  by (simp add: stream_ok_def)

subsection \<open>Outlines\<close>

lemma agree_sym: "agree q r \<longleftrightarrow> agree r q"
  by (auto simp: agree_def)

lemma outline_Nil [simp]: "outline r = [] \<longleftrightarrow> rg_segments r = []"
  by (simp add: outline_def)

lemma outline_last: "rg_segments r \<noteq> [] \<Longrightarrow> last (outline r) = (sg_msn (last (rg_segments r)), sg_disc (last (rg_segments r)))"
  by (simp add: outline_def last_map)

lemma outline_bump [simp]: "outline (bump r) = outline r"
  by (simp add: outline_def)

lemma outline_on_open:
  assumes "\<And>s. sg_msn (f s) = sg_msn s \<and> sg_disc (f s) = sg_disc s"
  shows "map (\<lambda>s. (sg_msn s, sg_disc s)) (on_open f ss) = map (\<lambda>s. (sg_msn s, sg_disc s)) ss"
  using assms by (cases ss rule: rev_cases) (auto simp: on_open_def)

lemma outline_close [simp]: "outline (ring_close r) = outline r"
  by (simp add: outline_def outline_on_open)

lemma outline_stamp [simp]: "outline (ring_stamp d r) = outline r"
  by (simp add: outline_def ring_stamp_def outline_on_open)

lemma outline_push [simp]: "outline (snd (push_part p r)) = outline r"
  by (simp add: outline_def push_part_def outline_on_open split: option.split)

lemma push_part_sel [simp]: "rg_disc (snd (push_part p r)) = rg_disc r" "rg_resume (snd (push_part p r)) = rg_resume r"
  by (simp_all add: push_part_def split: option.split)

lemma outline_set_init [simp]: "outline (snd (set_init b r)) = outline r"
  by (simp add: outline_def)

lemma newest_of_map: "map f (newest_of c ss) = newest_of c (map f ss)"
  by (simp add: newest_of_def drop_map)

lemma outline_begin: "current_init r \<noteq> None \<Longrightarrow> outline (snd (ring_begin start segment pdt r)) =
    newest_of (rg_capacity r) (outline r @ [(fst (next_msn start segment r), rg_disc r)])"
  by (simp add: outline_def ring_begin_segments newest_of_map outline_on_open next_segment_def)

lemma outline_chain: "ring_ok r \<Longrightarrow> successively (\<lambda>x y. unat (fst y) = Suc (unat (fst x)) \<and> snd x \<le> snd y) (outline r)"
  by (auto simp: ring_ok_def outline_def successively_map follows_def elim: successively_mono)

text \<open>What changes no outline keeps a ring in step.\<close>

lemma track_in_step_same: "track_in_step ev d l q \<Longrightarrow> ring_ok r \<Longrightarrow> outline r = outline q \<Longrightarrow> rg_disc r = rg_disc q \<Longrightarrow>
  rg_resume r = rg_resume q \<Longrightarrow> track_in_step ev d l r"
  by (simp add: track_in_step_def)

text \<open>All that is new in a ring is in the current discontinuity.\<close>

definition grown :: "u32 \<Rightarrow> ring \<Rightarrow> ring \<Rightarrow> bool" where
  "grown d q r \<longleftrightarrow> (\<forall>x \<in> set (outline r). x \<in> set (outline q) \<or> snd x = d)"

lemma grown_same: "outline r = outline q \<Longrightarrow> grown d q r"
  by (simp add: grown_def)

lemma agree_grown:
  assumes "agree q u" "grown d q r" "track_in_step ev d l r" "track_in_step ev d l u"
  shows "agree r u"
  unfolding agree_def
proof (intro ballI impI)
  fix x y
  assume x: "x \<in> set (outline r)" and y: "y \<in> set (outline u)" and same: "fst x = fst y"
  show "snd x = snd y"
  proof (cases "x \<in> set (outline q)")
    case True
    then show ?thesis using assms(1) y same by (simp add: agree_def)
  next
    case False
    then have "snd x = d" using assms(2) x by (auto simp: grown_def)
    then have "l \<le> unat (fst x)" using assms(3) x by (simp add: track_in_step_def)
    then show ?thesis using assms(4) y same \<open>snd x = d\<close> by (auto simp: track_in_step_def)
  qed
qed

subsection \<open>What a writer keeps\<close>

lemma begun_in_step:
  assumes q: "track_in_step ev d l q" and left: "msn_left q"
    and placed: "unplaced q \<Longrightarrow> l \<le> unat (fst (next_msn start segment q))"
  shows "track_in_step ev d l (snd (ring_begin start segment pdt q)) \<and> grown d q (snd (ring_begin start segment pdt q))"
proof (cases "current_init q")
  case None
  then show ?thesis using q by (simp add: ring_begin_segments grown_def)
next
  case (Some g)
  let ?r = "snd (ring_begin start segment pdt q)" and ?m = "fst (next_msn start segment q)"
  have ok: "ring_ok q" and disc: "rg_disc q = d" using q by (simp_all add: track_in_step_def)
  have out: "outline ?r = newest_of (rg_capacity q) (outline q @ [(?m, d)])" using Some disc by (simp add: outline_begin)
  have cap: "0 < rg_capacity q" using ok by (simp add: ring_ok_def)
  have sub: "set (outline ?r) \<subseteq> set (outline q) \<union> {(?m, d)}" unfolding out using newest_of_sub [of "rg_capacity q" "outline q @ [(?m, d)]"] by auto
  have new: "l \<le> unat ?m"
  proof (cases "rg_resume q")
    case (Some m)
    then show ?thesis using q by (simp add: next_msn_def track_in_step_def)
  next
    case None
    show ?thesis
    proof (cases "rg_segments q = []")
      case True
      then show ?thesis using placed None by (simp add: unplaced_def)
    next
      case False
      have "snd (last (outline q)) = d" using q None False by (simp add: track_in_step_def)
      moreover have "last (outline q) \<in> set (outline q)" using False by simp
      ultimately have "l \<le> unat (fst (last (outline q)))" using q by (simp add: track_in_step_def)
      then show ?thesis using next_msn_after [OF ok left False] False by (simp add: outline_last)
    qed
  qed
  obtain ws where ws: "outline ?r = ws @ [(?m, d)]" using newest_of_snoc [OF cap] out by metis
  have chain: "successively (\<lambda>x y. snd y = snd x \<or> snd y = snd x + 1) (outline ?r)" if ev
  proof -
    have "successively (\<lambda>x y. snd y = snd x \<or> snd y = snd x + 1) (outline q @ [(?m, d)])"
      using q that by (auto simp: successively_append_iff track_in_step_def)
    then show ?thesis unfolding out by (rule newest_of_chain)
  qed
  have "track_in_step ev d l ?r"
    unfolding track_in_step_def
  proof (intro conjI impI allI ballI)
    show "ring_ok ?r" using ok left by (rule ring_ok_begin)
    show "rg_disc ?r = d" by (simp add: ring_begin_segments disc)
    show "snd x = d \<longleftrightarrow> l \<le> unat (fst x)" if "x \<in> set (outline ?r)" for x
      using that sub q new by (auto simp: track_in_step_def)
  qed (use Some ws chain in \<open>auto simp: ring_begin_segments\<close>)
  moreover have "grown d q ?r" using sub by (auto simp: grown_def)
  ultimately show ?thesis by blast
qed

lemma begin_at_in_step:
  assumes "track_in_step ev d l q" "msn_left q" "unplaced q \<Longrightarrow> l \<le> unat msn"
  shows "track_in_step ev d l (snd (begin_at msn start pdt q)) \<and> grown d q (snd (begin_at msn start pdt q))"
proof -
  consider (past) "rg_segments q \<noteq> []" "msn \<le> sg_msn (last (rg_segments q))" | (first) "unplaced q"
    | (next') "\<not> unplaced q" "rg_segments q \<noteq> [] \<longrightarrow> \<not> msn \<le> sg_msn (last (rg_segments q))" by blast
  then show ?thesis
  proof cases
    case past
    then show ?thesis using assms(1) by (simp add: begin_at_def grown_def)
  next
    case first
    let ?q = "q\<lparr>rg_resume := Some msn\<rparr>"
    have eq: "snd (begin_at msn start pdt q) = snd (ring_begin start 1 pdt ?q)" using first by (simp add: begin_at_def unplaced_def)
    have "track_in_step ev d l ?q" using assms(1) assms(3) [OF first] first
      by (auto simp: track_in_step_def ring_ok_def unplaced_def outline_def)
    moreover have "msn_left ?q" "\<not> unplaced ?q" using assms(2) by (simp_all add: msn_left_def unplaced_def)
    moreover have "grown d ?q r = grown d q r" for r by (simp add: grown_def outline_def)
    ultimately show ?thesis using begun_in_step [of ev d l ?q] unfolding eq by blast
  next
    case next'
    then have "snd (begin_at msn start pdt q) = snd (ring_begin start 1 pdt q)" by (auto simp: begin_at_def unplaced_def)
    then show ?thesis using begun_in_step [OF assms(1,2)] next' by metis
  qed
qed

lemma msn_upto_last: "successively follows ss \<Longrightarrow> s \<in> set ss \<Longrightarrow> sg_msn s \<le> sg_msn (last ss)"
proof (induction ss arbitrary: s)
  case (Cons x xs)
  have "sg_msn x \<le> sg_msn (hd xs)" if "xs \<noteq> []"
    using Cons.prems(1) that by (simp add: successively_Cons follows_def word_le_nat_alt)
  moreover have "sg_msn (hd xs) \<le> sg_msn (last xs)" if "xs \<noteq> []" using Cons that by (auto simp: successively_Cons)
  ultimately show ?case using Cons by (cases "xs = []") (auto simp: successively_Cons intro: order_trans)
qed simp

lemma place_since_break:
  assumes "ring_place at_ns min_ns r = In msn"
  obtains s where "s \<in> set (rg_segments r)" "sg_disc s = rg_disc r" "msn = sg_msn s \<or> msn = sg_msn s + 1"
proof -
  have "\<exists>s \<in> set (since_break r). msn = sg_msn s \<or> msn = sg_msn s + 1"
    using assms by (auto simp: ring_place_def Let_def split: if_split_asm option.split_asm dest!: find_Some_iff_first)
  then show thesis using that by (auto simp: since_break_def)
qed

lemma placed_after:
  assumes "track_in_step ev d l r" "msn_left r" "ring_place at_ns min_ns r = In msn"
  shows "l \<le> unat msn"
proof -
  obtain s where s: "s \<in> set (rg_segments r)" "sg_disc s = rg_disc r" "msn = sg_msn s \<or> msn = sg_msn s + 1"
    using place_since_break [OF assms(3)] .
  have "rg_disc r = d" and numbered: "\<forall>x \<in> set (outline r). snd x = d \<longleftrightarrow> l \<le> unat (fst x)" and ok: "ring_ok r"
    using assms(1) by (simp_all add: track_in_step_def)
  moreover have "(sg_msn s, sg_disc s) \<in> set (outline r)" using s(1) by (simp add: outline_def)
  ultimately have "l \<le> unat (sg_msn s)" using s(2) by fastforce
  moreover have "sg_msn s \<noteq> - 1"
  proof
    assume "sg_msn s = - 1"
    moreover have "sg_msn s \<le> sg_msn (last (rg_segments r))"
      using ok s(1) by (intro msn_upto_last) (simp_all add: ring_ok_def)
    ultimately have "sg_msn (last (rg_segments r)) = - 1" using word_order.extremum_uniqueI by metis
    then show False using assms(2) s(1) by (auto simp: msn_left_def)
  qed
  ultimately show ?thesis using s(3) unat_suc [of "sg_msn s"] by auto
qed

lemma position_same: "rg_segments r = rg_segments q \<Longrightarrow> ring_position r = ring_position q"
  by (simp add: ring_position_def)

lemma track_in_step_stamp: "track_in_step ev d l r \<Longrightarrow> track_in_step ev d l (ring_stamp x r)"
proof -
  assume r: "track_in_step ev d l r"
  then have "ring_ok (ring_stamp x r)" using ring_ok_stamp by (simp add: track_in_step_def)
  then show ?thesis by (intro track_in_step_same [OF r]) (simp_all add: ring_stamp_def outline_stamp [unfolded ring_stamp_def])
qed

lemma grown_stamp [simp]: "grown d q (ring_stamp x r) = grown d q r"
  by (simp add: grown_def)

definition writes_ok :: "bool \<Rightarrow> u32 \<Rightarrow> nat \<Rightarrow> hls_track \<Rightarrow> hls_track \<Rightarrow> bool" where
  "writes_ok ev d l t t' \<longleftrightarrow> track_in_step ev d l (ht_ring t') \<and> grown d (ht_ring t) (ht_ring t') \<and> ht_id t' = ht_id t \<and>
     ht_pos t' = ring_position (ht_ring t')"

lemma track_change_ok:
  assumes "track_in_step ev d l (snd (f (ht_ring t))) \<and> grown d (ht_ring t) (snd (f (ht_ring t)))"
  shows "writes_ok ev d l t (snd (track_change f t))"
  using assms by (auto simp: writes_ok_def track_change_def split: prod.split)

lemma unplaced_number: "True \<and> unplaced r \<longrightarrow> current_disc (sm_tracks s) = 0 \<Longrightarrow> stream_ok ev d l s \<Longrightarrow> t \<in> set (sm_tracks s) \<Longrightarrow>
  unplaced r \<Longrightarrow> l \<le> n"
proof -
  assume "True \<and> unplaced r \<longrightarrow> current_disc (sm_tracks s) = 0" "stream_ok ev d l s" "t \<in> set (sm_tracks s)" "unplaced r"
  moreover from this have "d = 0" using stream_disc [of ev d l s] by (metis empty_iff list.set(1))
  ultimately show "l \<le> n" by (simp add: stream_ok_def)
qed

lemma writes_keep:
  assumes "writes True s t t'" "stream_ok ev d l s" "t \<in> set (sm_tracks s)"
  shows "writes_ok ev d l t t'"
proof -
  have t: "track_in_step ev d l (ht_ring t)" "ht_pos t = ring_position (ht_ring t)" using assms(2,3) by (auto simp: stream_ok_def)
  then have ok: "ring_ok (ht_ring t)" by (simp add: track_in_step_def)
  from assms(1) show ?thesis
  proof cases
    case (header b)
    have "track_in_step ev d l (snd (set_init b (ht_ring t)))"
      by (rule track_in_step_same [OF t(1)]) (use ok header(2) in \<open>simp_all add: ring_ok_set_init\<close>)
    moreover have "ht_ring (track_set_init b t) = snd (set_init b (ht_ring t))" "ht_id (track_set_init b t) = ht_id t"
      "ht_pos (track_set_init b t) = ht_pos t"
      by (auto simp: track_set_init_def update_info_def Let_def split: option.split)
    ultimately show ?thesis using t(2) position_same [of "snd (set_init b (ht_ring t))" "ht_ring t"] header(1)
      by (simp add: writes_ok_def grown_same)
  next
    case (begun start pdt x)
    then show ?thesis unfolding begun(1) track_begin_def
      using begun_in_step [OF t(1) begun(2) unplaced_number [OF begun(3) assms(2,3)],
        where start = start and segment = "segment_ns (ht_params t)" and pdt = pdt]
      by (intro track_change_ok) (auto simp: track_in_step_stamp split: prod.split)
  next
    case (led le at_ns min_ns msn start pdt x)
    have "le \<in> set (sm_tracks s)" using led(2) find_Some_iff_first by (force simp: leader_def)
    then have "track_in_step ev d l (ht_ring le)" using assms(2) by (simp add: stream_ok_def)
    then have "l \<le> unat msn" using placed_after led(3,4) by blast
    then show ?thesis unfolding led(1) track_begin_at_def
      using begin_at_in_step [OF t(1) led(5), where msn = msn and start = start and pdt = pdt]
      by (intro track_change_ok) (auto simp: track_in_step_stamp split: prod.split)
  next
    case (alone msn start pdt x)
    then show ?thesis unfolding alone(1) track_begin_at_def
      using begin_at_in_step [OF t(1) alone(2) unplaced_number [OF alone(3) assms(2,3)], where msn = msn and start = start and pdt = pdt]
      by (intro track_change_ok) (auto simp: track_in_step_stamp split: prod.split)
  next
    case (part p)
    have "track_in_step ev d l (snd (push_part p (ht_ring t)))"
      by (rule track_in_step_same [OF t(1)]) (use ok in \<open>simp_all add: ring_ok_push\<close>)
    then show ?thesis unfolding part(1) track_push_part_def by (intro track_change_ok) (simp add: grown_same)
  next
    case closed
    have "track_in_step ev d l (ring_close (ht_ring t))"
      by (rule track_in_step_same [OF t(1)]) (use ok in \<open>simp_all add: ring_ok_close\<close>)
    then show ?thesis unfolding closed track_close_def by (intro track_change_ok) (simp add: grown_same)
  next
    case (told f)
    then show ?thesis using t by (simp add: writes_ok_def update_info_def grown_same)
  next
    case (rendered reports)
    then show ?thesis using t by (auto simp: writes_ok_def track_playlist_def Let_def grown_same split: option.split)
  qed
qed

subsection \<open>Steps of a stream\<close>

lemma on_track_sel [simp]: "sm_tracks (on_track i f s) = map (\<lambda>t. if ht_id t = i then f t else t) (sm_tracks s)"
  by (simp add: on_track_def)

lemma stream_ok_written:
  assumes ok: "stream_ok ev d l s" and t: "t \<in> set (sm_tracks s)" and w: "writes True s t t'"
  shows "stream_ok ev d l (on_track (ht_id t) (\<lambda>_. t') s)"
proof -
  let ?ts = "map (\<lambda>u. if ht_id u = ht_id t then t' else u) (sm_tracks s)"
  have keep: "writes_ok ev d l t t'" using w ok t by (rule writes_keep)
  have only: "u = t" if "u \<in> set (sm_tracks s)" "ht_id u = ht_id t" for u
    using that t ok by (auto simp: stream_ok_def distinct_map inj_on_def)
  have step: "track_in_step ev d l (ht_ring u)" if "u \<in> set (sm_tracks s)" for u using that ok by (simp add: stream_ok_def)
  have new: "track_in_step ev d l (ht_ring t')" using keep by (simp add: writes_ok_def)
  have agrees: "agree (ht_ring t') (ht_ring u)" if "track_in_step ev d l (ht_ring u)" "agree (ht_ring t) (ht_ring u)" for u
    using that(2) keep new that(1) by (auto simp: writes_ok_def intro: agree_grown)
  have old: "agree (ht_ring t) (ht_ring u)" if "u \<in> set (sm_tracks s)" for u using that t ok by (simp add: stream_ok_def)
  have self: "agree (ht_ring t) (ht_ring t')" using agrees [OF step [OF t] old [OF t]] agree_sym by blast
  have "agree (ht_ring u) (ht_ring v)" if "u \<in> set ?ts" "v \<in> set ?ts" for u v
  proof -
    have "u = t' \<or> u \<in> set (sm_tracks s)" "v = t' \<or> v \<in> set (sm_tracks s)" using that by auto
    then show ?thesis
      using agrees [OF new self] agrees [OF step old, of u] agrees [OF step old, of v] agree_sym ok
      unfolding stream_ok_def by blast
  qed
  moreover have "map ht_id ?ts = map ht_id (sm_tracks s)" using keep by (auto simp: writes_ok_def)
  then have "distinct (map ht_id ?ts)" using ok by (simp only: stream_ok_def)
  moreover have "track_in_step ev d l (ht_ring u) \<and> ht_pos u = ring_position (ht_ring u)" if "u \<in> set ?ts" for u
    using that keep ok by (auto simp: writes_ok_def stream_ok_def)
  ultimately show ?thesis using ok unfolding stream_ok_def on_track_sel by blast
qed

lemma stream_ok_cong: "sm_tracks q = sm_tracks s \<Longrightarrow> stream_ok ev d l q = stream_ok ev d l s"
  by (simp only: stream_ok_def)

lemma stream_ok_filter: "stream_ok ev d l s \<Longrightarrow> sm_tracks q = filter P (sm_tracks s) \<Longrightarrow> stream_ok ev d l q"
  by (auto simp: stream_ok_def distinct_map_filter)

lemma track_in_step_new: "d = 0 \<longrightarrow> l = 0 \<Longrightarrow> track_in_step ev d l (ring_join d (ring_new c))"
  using ring_ok_join [OF ring_ok_new [of c], of d]
  by (simp add: track_in_step_def outline_def) (simp add: ring_join_def ring_new_def)

lemma stream_ok_added:
  assumes ok: "stream_ok ev d l s"
  shows "\<exists>d l. stream_ok ev d l (add_track i kind kbps s)"
proof (cases "List.find (\<lambda>t. ht_id t = i \<and> ht_kind t = kind) (sm_tracks s)")
  case (Some t)
  then have t: "t \<in> set (sm_tracks s)" "ht_id t = i" using find_Some_iff_first by force+
  let ?f = "update_info (\<lambda>f. f\<lparr>ti_declared_kbps := kbps\<rparr>)"
  have "u = t" if "u \<in> set (sm_tracks s)" "ht_id u = ht_id t" for u
    using that t ok by (auto simp: stream_ok_def distinct_map inj_on_def)
  then have "sm_tracks (on_track (ht_id t) (\<lambda>_. ?f t) s) = sm_tracks (on_track i ?f s)" using t(2) by auto
  moreover have "stream_ok ev d l (on_track (ht_id t) (\<lambda>_. ?f t) s)" using ok t(1) writes.told by (rule stream_ok_written)
  ultimately have "stream_ok ev d l (on_track i ?f s)" using stream_ok_cong by blast
  then show ?thesis using Some by (auto simp: add_track_def)
next
  case None
  define ts where "ts = filter (\<lambda>t. ht_id t \<noteq> i) (sm_tracks s)"
  define n where "n = track_join (current_disc ts) (track_new i kind (sm_params s) kbps)"
  have new: "add_track i kind kbps s = s\<lparr>sm_tracks := ts @ [n]\<rparr>" using None by (simp add: add_track_def ts_def n_def Let_def)
  have "\<exists>d l. stream_ok ev d l (s\<lparr>sm_tracks := ts\<rparr>) \<and> d = current_disc ts"
  proof (cases "ts = []")
    case True
    then show ?thesis using stream_ok_empty [of "s\<lparr>sm_tracks := ts\<rparr>" ev] by auto
  next
    case False
    have "stream_ok ev d l (s\<lparr>sm_tracks := ts\<rparr>)" by (rule stream_ok_filter [OF ok]) (simp add: ts_def)
    then show ?thesis using stream_disc [of ev d l "s\<lparr>sm_tracks := ts\<rparr>"] False by auto
  qed
  then obtain e k where e: "stream_ok ev e k (s\<lparr>sm_tracks := ts\<rparr>)" "e = current_disc ts" by blast
  have ring: "ht_ring n = ring_join e (ring_new (ring_capacity (sm_params s)))" "ht_id n = i"
    by (simp_all add: n_def track_join_def track_new_def e(2))
  then have none: "rg_segments (ht_ring n) = []" by (simp add: ring_join_def ring_new_def)
  then have "ht_pos n = ring_position (ht_ring n)"
    by (simp add: n_def track_join_def track_new_def ring_position_def ring_join_def ring_new_def)
  moreover have "track_in_step ev e k (ht_ring n)" using e(1) unfolding ring by (intro track_in_step_new) (simp add: stream_ok_def)
  moreover have "agree (ht_ring n) r" "agree r (ht_ring n)" for r using none by (simp_all add: agree_def outline_def)
  ultimately have "stream_ok ev e k (s\<lparr>sm_tracks := ts @ [n]\<rparr>)"
    using e(1) ring(2) by (auto simp: stream_ok_def ts_def)
  then show ?thesis unfolding new by blast
qed

text \<open>A break: what is left is numbered below where the next segments start.\<close>

lemma least_of_le: "least_of xs = Some m \<Longrightarrow> x \<in> set xs \<Longrightarrow> m \<le> x"
proof -
  have fold_min: "fold min ys z \<le> z \<and> (\<forall>y \<in> set ys. fold min ys z \<le> y)" for ys and z :: u64
  proof (induction ys arbitrary: z)
    case (Cons y ys)
    have "fold min ys (min y z) \<le> min y z" using Cons.IH [of "min y z"] by blast
    then show ?case using Cons.IH [of "min y z"] by auto
  qed simp
  then show "least_of xs = Some m \<Longrightarrow> x \<in> set xs \<Longrightarrow> m \<le> x" by (cases xs) auto
qed

lemma least_of_in: "least_of xs = Some m \<Longrightarrow> m \<in> set xs"
proof -
  have "fold min ys z \<in> insert z (set ys)" for ys and z :: u64
    by (induction ys arbitrary: z) (auto simp: min_def)
  then show "least_of xs = Some m \<Longrightarrow> m \<in> set xs" by (cases xs) fastforce+
qed

lemma restart_last:
  assumes "least_of (List.map_filter (\<lambda>t. ring_newest (ht_ring t)) ts) = Some l"
  shows "t \<in> set ts \<Longrightarrow> rg_segments (ht_ring t) \<noteq> [] \<Longrightarrow> l \<le> sg_msn (last (rg_segments (ht_ring t)))"
    "\<exists>t \<in> set ts. rg_segments (ht_ring t) \<noteq> [] \<and> l = sg_msn (last (rg_segments (ht_ring t)))"
proof -
  show "l \<le> sg_msn (last (rg_segments (ht_ring t)))" if "t \<in> set ts" "rg_segments (ht_ring t) \<noteq> []"
    using that by (intro least_of_le [OF assms]) (auto simp: List.map_filter_def ring_newest_def)
  show "\<exists>t \<in> set ts. rg_segments (ht_ring t) \<noteq> [] \<and> l = sg_msn (last (rg_segments (ht_ring t)))"
    using least_of_in [OF assms] by (auto simp: List.map_filter_def ring_newest_def split: if_split_asm)
qed

lemma outline_break: "outline (mark_break d l r) = map (\<lambda>s. (sg_msn s, sg_disc s)) (upto_msn l (rg_segments r))"
  by (simp add: outline_def mark_break_sel outline_on_open)

lemma outline_break_sub: "set (outline (mark_break d l r)) \<subseteq> set (outline r)"
  using upto_msn_sub [of l "rg_segments r"] unfolding outline_break by (auto simp: outline_def)

lemma upto_msn_le: "successively follows ss \<Longrightarrow> s \<in> set (upto_msn l ss) \<Longrightarrow> sg_msn s \<le> l"
proof -
  assume ss: "successively follows ss" "s \<in> set (upto_msn l ss)"
  have "successively follows (upto_msn l ss)"
    using ss(1) upto_msn_split [of ss l] by (metis successively_append_iff)
  then have "sg_msn s \<le> sg_msn (last (upto_msn l ss))" using ss(2) by (rule msn_upto_last)
  moreover have "\<not> l < sg_msn (last (upto_msn l ss))"
  proof -
    have "upto_msn l ss \<noteq> []" using ss(2) by auto
    then have "dropWhile (\<lambda>s. l < sg_msn s) (rev ss) \<noteq> []" by (simp add: upto_msn_def del: dropWhile_eq_Nil_conv)
    then show ?thesis using hd_dropWhile [of "\<lambda>s. l < sg_msn s" "rev ss"] by (simp add: upto_msn_def last_rev)
  qed
  ultimately show ?thesis by simp
qed

lemma track_in_step_cut: "track_in_step ev d l r \<Longrightarrow> cut_since_break r \<longleftrightarrow> (\<exists>x \<in> set (outline r). snd x = d)"
proof
  assume r: "track_in_step ev d l r"
  { assume "cut_since_break r"
    then have "outline r \<noteq> []" "snd (last (outline r)) = d" using r by (simp_all add: cut_since_break_def outline_last track_in_step_def)
    moreover from this(1) have "last (outline r) \<in> set (outline r)" by (rule last_in_set)
    ultimately show "\<exists>x \<in> set (outline r). snd x = d" by blast }
  { assume "\<exists>x \<in> set (outline r). snd x = d"
    then have "d \<in> snd ` set (outline r)" "outline r \<noteq> []" by (auto simp del: outline_Nil)
    moreover from this(1) have "rg_resume r = None" using r by (cases "rg_resume r") (auto simp: track_in_step_def)
    ultimately have "snd (last (outline r)) = d" using r unfolding track_in_step_def by blast
    then show "cut_since_break r" using \<open>outline r \<noteq> []\<close> r by (simp add: cut_since_break_def outline_last track_in_step_def) }
qed

lemma outline_disc_le: "track_in_step ev d l r \<Longrightarrow> x \<in> set (outline r) \<Longrightarrow> snd x \<le> d"
  by (auto simp: track_in_step_def ring_ok_def outline_def list_all_iff keeps_def)

lemma break_in_step:
  assumes r: "track_in_step ev d l r" and lw: "lw \<noteq> - 1" "rg_segments r \<noteq> [] \<Longrightarrow> lw \<le> sg_msn (last (rg_segments r))"
    and disc: "d' = d + (if any_cut then 1 else 0)" "any_cut \<Longrightarrow> d \<noteq> - 1" "\<not> any_cut \<Longrightarrow> \<not> cut_since_break r"
    and ev: "ev \<Longrightarrow> any_cut \<Longrightarrow> l \<le> unat lw" "\<not> any_cut \<Longrightarrow> rg_segments r \<noteq> [] \<Longrightarrow> lw = sg_msn (last (rg_segments r))"
  shows "track_in_step ev d' (Suc (unat lw)) (mark_break d' lw r)"
proof -
  let ?q = "mark_break d' lw r"
  have ok: "ring_ok r" "rg_disc r = d" using r by (simp_all add: track_in_step_def)
  then have chain: "successively follows (rg_segments r)" by (simp add: ring_ok_def)
  have later: "any_cut \<Longrightarrow> d < d'" "d \<le> d'"
    using disc(1,2) unat_suc [of d] by (auto simp: word_less_nat_alt word_le_nat_alt)
  have sub: "x \<in> set (outline r)" if "x \<in> set (outline ?q)" for x using that outline_break_sub by blast
  have low: "\<not> Suc (unat lw) \<le> unat (fst x)" if "x \<in> set (outline ?q)" for x
    using that upto_msn_le [OF chain] unfolding outline_break by (auto simp: word_le_nat_alt not_less_eq_eq [symmetric])
  have old: "snd x \<noteq> d'" if "x \<in> set (outline ?q)" for x
  proof (cases any_cut)
    case True
    then show ?thesis using outline_disc_le [OF r sub [OF that]] later(1) by auto
  next
    case False
    then show ?thesis using disc(1,3) track_in_step_cut [OF r] sub [OF that] by auto
  qed
  have parts: "\<exists>new. outline r = outline ?q @ new"
  proof -
    obtain new where "rg_segments r = upto_msn lw (rg_segments r) @ new" using upto_msn_split by blast
    then have "outline r = map (\<lambda>s. (sg_msn s, sg_disc s)) (upto_msn lw (rg_segments r) @ new)" unfolding outline_def by (rule arg_cong)
    then show ?thesis unfolding outline_break map_append by blast
  qed
  have before: "snd (last (outline ?q)) + 1 = d'" if ev: ev and ne: "outline ?q \<noteq> []"
  proof -
    have last: "fst (last (outline ?q)) = lw"
      using upto_msn_last [OF chain, of lw] lw(2) ne unfolding outline_break by (simp add: last_map)
    have "rg_segments r \<noteq> []" using ne parts by (auto simp: outline_def)
    have mem: "last (outline ?q) \<in> set (outline r)" using sub last_in_set [OF ne] by blast
    show ?thesis
    proof (cases any_cut)
      case True
      then have "snd (last (outline ?q)) = d" using r mem assms(7) [OF ev True] last unfolding track_in_step_def by metis
      then show ?thesis using disc(1) True by simp
    next
      case False
      then have "lw = sg_msn (last (rg_segments r))" using assms(8) \<open>rg_segments r \<noteq> []\<close> by blast
      then have "upto_msn lw (rg_segments r) = rg_segments r"
        using \<open>rg_segments r \<noteq> []\<close> by (cases "rg_segments r" rule: rev_cases) (auto simp: upto_msn_def)
      then have "outline ?q = outline r" by (simp add: outline_break) (simp add: outline_def)
      moreover have "snd (last (outline r)) \<noteq> d" using track_in_step_cut [OF r] disc(3) [OF False] mem unfolding calculation by blast
      moreover have "outline r \<noteq> []" using ne calculation(1) by simp
      ultimately have "snd (last (outline ?q)) + 1 = d" using r ev unfolding track_in_step_def by simp
      then show ?thesis using disc(1) False by simp
    qed
  qed
  show ?thesis
    unfolding track_in_step_def
  proof (intro conjI impI allI ballI)
    show "ring_ok ?q" using ok lw later(2) by (intro ring_ok_break) auto
    show "rg_disc ?q = d'" by (simp add: mark_break_sel)
    show "snd x = d' \<longleftrightarrow> Suc (unat lw) \<le> unat (fst x)" if "x \<in> set (outline ?q)" for x using that low old by blast
    fix m assume "rg_resume ?q = Some m"
    then have "unat m = Suc (unat lw)" using unat_suc [OF lw(1)] by (auto simp: mark_break_sel)
    then show "Suc (unat lw) \<le> unat m" "unat m = Suc (unat lw)" by simp_all
    show "d' \<notin> snd ` set (outline ?q)" using old by auto
  next
    assume "rg_resume ?q = None \<and> outline ?q \<noteq> []"
    then show "snd (last (outline ?q)) = d'" by (simp add: mark_break_sel)
  next
    assume ev
    then have "successively (\<lambda>x y. snd y = snd x \<or> snd y = snd x + 1) (outline r)" using r by (simp add: track_in_step_def)
    moreover obtain new where "outline r = outline ?q @ new" using parts by blast
    ultimately show "successively (\<lambda>x y. snd y = snd x \<or> snd y = snd x + 1) (outline ?q)" by (simp only: successively_append_iff)
  next
    assume ev "outline ?q \<noteq> [] \<and> snd (last (outline ?q)) \<noteq> d'"
    then show "snd (last (outline ?q)) + 1 = d'" using before by blast
  qed
qed

lemma stream_ok_restarted:
  assumes ok: "stream_ok ev d l s" and left: "current_disc (sm_tracks s) \<noteq> - 1" "\<And>t. t \<in> set (sm_tracks s) \<Longrightarrow> msn_left (ht_ring t)"
    and ev: "ev \<longrightarrow> even_cut s"
  shows "\<exists>d l. stream_ok ev d l (restart s)"
proof (cases "least_of (List.map_filter (\<lambda>t. ring_newest (ht_ring t)) (sm_tracks s))")
  case None
  then show ?thesis using ok by (auto simp: restart_def)
next
  case (Some lw)
  note last = restart_last [OF Some]
  define any_cut where "any_cut \<longleftrightarrow> (\<exists>t \<in> set (sm_tracks s). cut_since_break (ht_ring t))"
  define d' where "d' = d + (if any_cut then 1 else 0)"
  have step: "track_in_step ev d l (ht_ring t)" if "t \<in> set (sm_tracks s)" for t using that ok by (simp add: stream_ok_def)
  obtain t0 where t0: "t0 \<in> set (sm_tracks s)" "rg_segments (ht_ring t0) \<noteq> []" "lw = sg_msn (last (rg_segments (ht_ring t0)))"
    using last(2) by blast
  have disc: "current_disc (sm_tracks s) = d" using stream_disc [OF ok] t0(1) by (metis empty_iff list.set(1))
  have new: "sm_tracks (restart s) = map (track_mark_break d' lw) (sm_tracks s)"
    using Some by (simp add: restart_def Let_def disc d'_def any_cut_def)
  have lw: "lw \<noteq> - 1" using left(2) [OF t0(1)] t0 by (auto simp: msn_left_def)
  have none: "lw = sg_msn (last (rg_segments (ht_ring t)))"
    if "\<not> any_cut" "t \<in> set (sm_tracks s)" "rg_segments (ht_ring t) \<noteq> []" for t
  proof -
    have "unat (sg_msn (last (rg_segments (ht_ring u)))) = l - 1" if u: "u \<in> set (sm_tracks s)" "rg_segments (ht_ring u) \<noteq> []" for u
    proof -
      have "\<not> cut_since_break (ht_ring u)" using \<open>\<not> any_cut\<close> u(1) by (auto simp: any_cut_def)
      then have "snd (last (outline (ht_ring u))) \<noteq> d" using u(2) step [OF u(1)] by (simp add: cut_since_break_def outline_last track_in_step_def)
      then obtain m where "rg_resume (ht_ring u) = Some m" using step [OF u(1)] u(2) by (auto simp: track_in_step_def)
      then show ?thesis using step [OF u(1)] u(2) by (auto simp: track_in_step_def ring_ok_def)
    qed
    from this [OF that(2,3)] this [OF t0(1,2)] t0(3) show ?thesis by (simp add: word_unat_eq_iff)
  qed
  have all: "l \<le> unat lw" if "ev" "any_cut"
  proof -
    have "cut_since_break (ht_ring t0)" using ev that t0(1,2) by (auto simp: even_cut_def any_cut_def)
    then have "snd (last (outline (ht_ring t0))) = d" using t0(2) step [OF t0(1)] by (simp add: cut_since_break_def outline_last track_in_step_def)
    moreover have "last (outline (ht_ring t0)) \<in> set (outline (ht_ring t0))" using t0(2) by (intro last_in_set) simp
    ultimately have "l \<le> unat (fst (last (outline (ht_ring t0))))" using step [OF t0(1)] unfolding track_in_step_def by blast
    then show ?thesis using t0(2,3) by (simp add: outline_last)
  qed
  have broke: "track_in_step ev d' (Suc (unat lw)) (mark_break d' lw (ht_ring t))" if t: "t \<in> set (sm_tracks s)" for t
    using step [OF t] lw last(1) [OF t] d'_def left(1) disc all none [OF _ t] t
    by (intro break_in_step [where any_cut = any_cut]) (auto simp: any_cut_def)
  have zero: "d' \<noteq> 0"
  proof (cases any_cut)
    case True
    then show ?thesis using left(1) unat_suc [of d] by (auto simp: d'_def disc word_unat_eq_iff)
  next
    case False
    then have "\<not> cut_since_break (ht_ring t0)" using t0(1) by (auto simp: any_cut_def)
    then have "snd (last (outline (ht_ring t0))) \<noteq> d" using t0(2) step [OF t0(1)] by (simp add: cut_since_break_def outline_last track_in_step_def)
    moreover have "snd (last (outline (ht_ring t0))) \<le> d" using t0(2) by (intro outline_disc_le [OF step [OF t0(1)]] last_in_set) simp
    ultimately show ?thesis using False by (auto simp: d'_def)
  qed
  have sel: "ht_ring (track_mark_break d' lw t) = mark_break d' lw (ht_ring t)" "ht_id (track_mark_break d' lw t) = ht_id t"
    "ht_pos (track_mark_break d' lw t) = ring_position (mark_break d' lw (ht_ring t))" for t
    by (simp_all add: track_mark_break_def track_change_def)
  have "agree (mark_break d' lw q) (mark_break d' lw r)" if "agree q r" for q r
    using that outline_break_sub [of d' lw] unfolding agree_def by blast
  then have "stream_ok ev d' (Suc (unat lw)) (restart s)"
    using ok broke zero by (simp add: stream_ok_def new sel comp_def)
  then show ?thesis by blast
qed

subsection \<open>Every ring, whatever is done\<close>

definition ring_kept :: "hls_track \<Rightarrow> bool" where
  "ring_kept t \<longleftrightarrow> ring_ok (ht_ring t) \<and> ht_pos t = ring_position (ht_ring t)"

lemma ring_kept_change: "ring_ok (snd (f (ht_ring t))) \<Longrightarrow> ring_kept (snd (track_change f t))"
  by (auto simp: ring_kept_def track_change_def split: prod.split)

lemma writes_ring:
  assumes "writes pl s t t'" "ring_kept t"
  shows "ring_kept t'"
proof -
  have ok: "ring_ok (ht_ring t)" using assms(2) by (simp add: ring_kept_def)
  from assms(1) show ?thesis
  proof cases
    case (header b)
    have "ht_ring (track_set_init b t) = snd (set_init b (ht_ring t))" "ht_pos (track_set_init b t) = ht_pos t"
      by (auto simp: track_set_init_def update_info_def Let_def split: option.split)
    then show ?thesis
      using assms(2) ring_ok_set_init [OF ok header(2)] position_same [of "snd (set_init b (ht_ring t))" "ht_ring t"] header(1)
      by (simp add: ring_kept_def)
  next
    case (begun start pdt d)
    show ?thesis unfolding begun(1) track_begin_def
      using ring_ok_stamp [OF ring_ok_begin [OF ok begun(2), of start "segment_ns (ht_params t)" pdt], of d]
      by (intro ring_kept_change) (auto split: prod.split)
  next
    case (led l at_ns min_ns msn start pdt d)
    show ?thesis unfolding led(1) track_begin_at_def
      using ring_ok_begin_at [OF ok led(5), of msn start pdt] ring_ok_stamp by (intro ring_kept_change) (auto split: prod.split)
  next
    case (alone msn start pdt d)
    show ?thesis unfolding alone(1) track_begin_at_def
      using ring_ok_begin_at [OF ok alone(2), of msn start pdt] ring_ok_stamp by (intro ring_kept_change) (auto split: prod.split)
  next
    case (part p)
    show ?thesis unfolding part(1) track_push_part_def using ring_ok_push [OF ok] by (intro ring_kept_change)
  next
    case closed
    show ?thesis unfolding closed track_close_def using ring_ok_close [OF ok] by (intro ring_kept_change) simp
  next
    case (told f)
    then show ?thesis using assms(2) by (simp add: ring_kept_def update_info_def)
  next
    case (rendered reports)
    then show ?thesis using assms(2) by (auto simp: ring_kept_def track_playlist_def Let_def split: option.split)
  qed
qed

lemma disc_le_current: "t \<in> set ts \<Longrightarrow> rg_disc (ht_ring t) \<le> current_disc ts"
proof -
  have "rg_disc (ht_ring t) \<le> fold (\<lambda>t d. max d (rg_disc (ht_ring t))) ts d" if "t \<in> set ts" for d
    using that by (induction ts arbitrary: d) (auto intro: order_trans [OF max.cobounded2 fold_max_least])
  then show "t \<in> set ts \<Longrightarrow> rg_disc (ht_ring t) \<le> current_disc ts" by (simp add: current_disc_def)
qed

lemma break_ring:
  assumes "least_of (List.map_filter (\<lambda>t. ring_newest (ht_ring t)) ts) = Some l" "t \<in> set ts" "ring_kept t"
    "\<And>t. t \<in> set ts \<Longrightarrow> msn_left (ht_ring t)" "current_disc ts \<le> d"
  shows "ring_kept (track_mark_break d l t)"
proof -
  obtain u where u: "u \<in> set ts" "rg_segments (ht_ring u) \<noteq> []" "l = sg_msn (last (rg_segments (ht_ring u)))"
    using restart_last(2) [OF assms(1)] by blast
  then have "l \<noteq> - 1" using assms(4) [OF u(1)] by (simp add: msn_left_def)
  moreover have "rg_disc (ht_ring t) \<le> d" using disc_le_current [OF assms(2)] assms(5) by (rule order_trans)
  ultimately have "ring_ok (mark_break d l (ht_ring t))"
    using assms(3) restart_last(1) [OF assms(1,2)] by (intro ring_ok_break) (simp_all add: ring_kept_def)
  then show ?thesis unfolding track_mark_break_def by (intro ring_kept_change) simp
qed

theorem stream_run_rings: "stream_run ev pl s \<Longrightarrow> \<forall>t \<in> set (sm_tracks s). ring_kept t"
proof (induction rule: stream_run.induct)
  case (fresh i p key)
  then show ?case by (simp add: stream_new_def)
next
  case (added s i kind kbps)
  have "ring_kept (track_join d (track_new i kind p kbps))" for d p
    using ring_ok_join [OF ring_ok_new, of _ d]
    by (simp add: ring_kept_def track_join_def track_new_def ring_position_def) (simp add: ring_join_def ring_new_def)
  moreover have "ring_kept (update_info f t) = ring_kept t" for f t by (simp add: ring_kept_def update_info_def)
  ultimately show ?case using added.IH by (auto simp: add_track_def Let_def split: option.split)
next
  case (removed s i)
  then show ?case by (simp add: remove_track_def)
next
  case (written s t t')
  then show ?case using writes_ring by auto
next
  case (restarted s)
  show ?case
  proof (cases "least_of (List.map_filter (\<lambda>t. ring_newest (ht_ring t)) (sm_tracks s))")
    case (Some l)
    have "current_disc (sm_tracks s) \<le> current_disc (sm_tracks s) + 1"
      using unat_suc [OF restarted.hyps(2)] by (simp add: word_le_nat_alt)
    then show ?thesis using restarted Some break_ring [OF Some] by (auto simp: restart_def Let_def)
  qed (use restarted in \<open>simp add: restart_def\<close>)
qed

theorem stream_run_ok: "stream_run ev pl s \<Longrightarrow> pl \<Longrightarrow> \<exists>d l. stream_ok ev d l s"
proof (induction rule: stream_run.induct)
  case (fresh i p key)
  then show ?case using stream_ok_empty [of "stream_new i p key" ev] by (auto simp: stream_new_def)
next
  case (added s i kind kbps)
  then show ?case using stream_ok_added by blast
next
  case (removed s i)
  have "sm_tracks (remove_track i s) = filter (\<lambda>t. ht_id t \<noteq> i) (sm_tracks s)" by (simp add: remove_track_def)
  then show ?case using removed.IH removed.prems stream_ok_filter by blast
next
  case (written s t t')
  then have "writes True s t t'" by simp
  then show ?case using written stream_ok_written by blast
next
  case (restarted s)
  then show ?case using stream_ok_restarted by blast
qed

end
