(* ===== verification/Hls_Follow.thy ===== *)
theory Hls_Follow
  imports Hls_Stream
begin

text \<open>
  The sound's cutter beside a picture (\<open>crates/godwinmix-core/src/hls/follow.rs\<close>), and what turns a muxer's
  buffers into parts (\<open>cutter.rs\<close>). Both write to a track of a stream, named by its id; the stream is there
  for as long as they write.
\<close>

record fragment =
  fr_bytes :: bytes
  fr_start :: u64
  fr_duration :: u64
  fr_wall :: int
  fr_decode :: "u64 option"

record follow =
  fo_track :: string
  fo_min_ns :: u64
  fo_hold_ns :: u64
  fo_next :: "u64 \<times> int \<times> u64 option"
  fo_queue :: "fragment list"

definition follow_new :: "hls_params \<Rightarrow> string \<Rightarrow> follow" where
  "follow_new p i =
    (let min_ns = fst (mux_durations p) in
     \<lparr>fo_track = i, fo_min_ns = min_ns, fo_hold_ns = max (ucast (hp_window_s p) * 1000000000) (4 * min_ns),
      fo_next = (0, 0, None), fo_queue = []\<rparr>)"

definition follow_start :: "u64 \<Rightarrow> int \<Rightarrow> u64 option \<Rightarrow> follow \<Rightarrow> follow" where
  "follow_start start wall d f = f\<lparr>fo_next := (start, wall, d)\<rparr>"

definition held_ns :: "fragment list \<Rightarrow> u64" where
  "held_ns q = sum_list (map fr_duration q)"

text \<open>With no picture in the stream, the sound is cut on its own clock.\<close>

definition own_place :: "u64 \<Rightarrow> u64 \<Rightarrow> hls_track \<Rightarrow> place" where
  "own_place middle min_ns t =
    (let segment = max min_ns 1 in
     case ring_place middle segment (ht_ring t) of
       In msn \<Rightarrow> In msn
     | _ \<Rightarrow> In (case ring_newest (ht_ring t) of Some n \<Rightarrow> n + 1 | None \<Rightarrow> (middle + segment div 2) div segment))"

definition fragment_place :: "follow \<Rightarrow> hls_stream \<Rightarrow> fragment \<Rightarrow> place" where
  "fragment_place f s x =
    (let middle = fr_start x + fr_duration x div 2 in
     case leader s of
       Some picture \<Rightarrow> ring_place middle (fo_min_ns f) (ht_ring picture)
     | None \<Rightarrow> (case track_of (fo_track f) s of Some t \<Rightarrow> own_place middle (fo_min_ns f) t | None \<Rightarrow> Wait))"

definition place_fragment :: "string \<Rightarrow> u64 \<Rightarrow> fragment \<Rightarrow> hls_stream \<Rightarrow> hls_stream" where
  "place_fragment i msn x s =
     on_track i (\<lambda>t. snd (track_push_part \<lparr>pt_bytes = fr_bytes x, pt_duration = fr_duration x, pt_independent = True\<rparr>
       (snd (track_begin_at msn (fr_start x) (fr_wall x) (fr_decode x) t)))) s"

fun drain :: "follow \<Rightarrow> fragment list \<Rightarrow> hls_stream \<Rightarrow> fragment list \<times> hls_stream" where
  "drain f [] s = ([], s)"
| "drain f (x # q) s =
    (case fragment_place f s x of
       Wait \<Rightarrow> if held_ns (x # q) \<le> fo_hold_ns f then (x # q, s) else drain f q s
     | Drop \<Rightarrow> drain f q s
     | In msn \<Rightarrow> drain f q (place_fragment (fo_track f) msn x s))"

definition follow_drain :: "follow \<times> hls_stream \<Rightarrow> follow \<times> hls_stream" where
  "follow_drain = (\<lambda>(f, s). case drain f (fo_queue f) s of (q, s) \<Rightarrow> (f\<lparr>fo_queue := q\<rparr>, s))"

definition follow_push :: "bytes \<Rightarrow> u64 \<Rightarrow> follow \<times> hls_stream \<Rightarrow> follow \<times> hls_stream" where
  "follow_push b duration = (\<lambda>(f, s).
     case fo_next f of (start, wall, d) \<Rightarrow>
       follow_drain (f\<lparr>fo_queue := fo_queue f @ [\<lparr>fr_bytes = b, fr_start = start, fr_duration = duration, fr_wall = wall,
         fr_decode = d\<rparr>]\<rparr>, s))"

definition follow_eos :: "follow \<times> hls_stream \<Rightarrow> follow \<times> hls_stream" where
  "follow_eos x = (case follow_drain x of (f, s) \<Rightarrow> (f, on_track (fo_track f) track_close s))"

subsection \<open>Buffers into parts (\<open>cutter.rs\<close>)\<close>

record piece =
  pc_header :: bool
  pc_delta :: bool
  pc_marker :: bool
  pc_running :: "u64 option"
  pc_duration :: "u64 option"
  pc_wall :: int

text \<open>\<open>(now as i64 - at as i64) / 1_000_000\<close> rounds towards zero.\<close>

definition wall_ms :: "int \<Rightarrow> u64 option \<Rightarrow> u64 option \<Rightarrow> int" where
  "wall_ms now clock at_ns =
    (case (clock, at_ns) of
       (Some c, Some a) \<Rightarrow>
         (let d = sint (word_of_int (sint c - sint a) :: u64) in now - (if 0 \<le> d then d div 1000000 else - ((- d) div 1000000)))
     | _ \<Rightarrow> now)"

record cutter =
  cu_track :: string
  cu_all_independent :: bool
  cu_whole_fragments :: bool
  cu_pending :: "(bytes \<times> u64 \<times> bool) option"
  cu_follow :: "follow option"

definition cutter_new :: "string \<Rightarrow> bool \<Rightarrow> bool \<Rightarrow> cutter" where
  "cutter_new i indep whole = \<lparr>cu_track = i, cu_all_independent = indep, cu_whole_fragments = whole,
     cu_pending = None, cu_follow = None\<rparr>"

definition cutter_follower :: "follow \<Rightarrow> string \<Rightarrow> cutter" where
  "cutter_follower f i = \<lparr>cu_track = i, cu_all_independent = True, cu_whole_fragments = False, cu_pending = None,
     cu_follow = Some f\<rparr>"

definition box_type :: "bytes \<Rightarrow> bytes option" where
  "box_type = get_range 4 8"

definition finish_part :: "cutter \<times> hls_stream \<Rightarrow> cutter \<times> hls_stream" where
  "finish_part = (\<lambda>(c, s).
     case cu_pending c of
       None \<Rightarrow> (c, s)
     | Some (b, duration, indep) \<Rightarrow>
        (let c = c\<lparr>cu_pending := None\<rparr> in
         case cu_follow c of
           Some f \<Rightarrow> (case follow_push b duration (f, s) of (f, s) \<Rightarrow> (c\<lparr>cu_follow := Some f\<rparr>, s))
         | None \<Rightarrow> (c, on_track (cu_track c) (\<lambda>t. snd (track_push_part
               \<lparr>pt_bytes = b, pt_duration = duration, pt_independent = indep\<rparr> t)) s)))"

definition or_zero :: "u64 option \<Rightarrow> u64" where
  "or_zero x = (case x of Some v \<Rightarrow> v | None \<Rightarrow> 0)"

text \<open>A chunk starts: the part before it is whole, and a new segment where it starts one.\<close>

definition start_chunk :: "bytes \<Rightarrow> piece \<Rightarrow> cutter \<times> hls_stream \<Rightarrow> cutter \<times> hls_stream" where
  "start_chunk data p cs =
    (case finish_part cs of
       (c, s) \<Rightarrow>
         let d = (if pc_delta p then None else decode_time data);
             (c, s) =
               (case cu_follow c of
                  Some f \<Rightarrow> (c\<lparr>cu_follow := Some (follow_start (or_zero (pc_running p)) (pc_wall p) d f)\<rparr>, s)
                | None \<Rightarrow>
                   (c, if \<not> pc_delta p then on_track (cu_track c) (\<lambda>t. snd (track_begin (or_zero (pc_running p)) (pc_wall p) d t)) s else s))
         in (c\<lparr>cu_pending := Some (data, or_zero (pc_duration p), \<not> pc_delta p \<or> cu_all_independent c)\<rparr>, s))"

definition cutter_push :: "bytes \<Rightarrow> piece \<Rightarrow> cutter \<times> hls_stream \<Rightarrow> cutter \<times> hls_stream" where
  "cutter_push data p cs =
    (let (c, s) =
       (if pc_header p \<and> box_type data = Some (letters ''ftyp'') then (fst cs, on_track (cu_track (fst cs)) (track_set_init data) (snd cs))
        else if pc_header p \<and> box_type data \<in> {Some (letters ''moof''), Some (letters ''styp'')} then start_chunk data p cs
        else ((fst cs)\<lparr>cu_pending := map_option (\<lambda>(b, rest). (b @ data, rest)) (cu_pending (fst cs))\<rparr>, snd cs))
     in if pc_marker p
        then (case finish_part (c, s) of
                (c, s) \<Rightarrow> (c, if cu_whole_fragments c then on_track (cu_track c) track_close s else s))
        else (c, s))"

definition cutter_eos :: "cutter \<times> hls_stream \<Rightarrow> cutter \<times> hls_stream" where
  "cutter_eos cs =
    (case finish_part cs of
       (c, s) \<Rightarrow>
         (case cu_follow c of
            Some f \<Rightarrow> (case follow_eos (f, s) of (f, s) \<Rightarrow> (c\<lparr>cu_follow := Some f\<rparr>, s))
          | None \<Rightarrow> (c, on_track (cu_track c) track_close s)))"

subsection \<open>What waits\<close>

lemma drain_waits:
  "drain f q s = (q', s') \<Longrightarrow> (\<exists>gone. q = gone @ q') \<and> held_ns q' \<le> fo_hold_ns f \<and>
     (q' \<noteq> [] \<longrightarrow> fragment_place f s' (hd q') = Wait)"
proof (induction f q s arbitrary: q' s' rule: drain.induct)
  case (1 f s)
  then show ?case by (simp add: held_ns_def)
next
  case (2 f x q s)
  show ?case
  proof (cases "fragment_place f s x = Wait \<and> held_ns (x # q) \<le> fo_hold_ns f")
    case True
    then show ?thesis using "2.prems" by auto
  next
    case False
    then have "\<exists>gone. q = gone @ q'" "held_ns q' \<le> fo_hold_ns f" "q' \<noteq> [] \<longrightarrow> fragment_place f s' (hd q') = Wait"
      using 2 by (auto split: place.split_asm if_split_asm)
    then show ?thesis by (metis append_Cons)
  qed
qed

end
