(* ===== verification/Hls_Properties.thy ===== *)
theory Hls_Properties
  imports Hls_Run Hls_Follow
begin

text \<open>
  What an HLS output promises: rings stay well formed, tracks stay in step and a playlist is understood as
  it is meant; and a stream for the witnesses, built step by step.
\<close>

subsection \<open>A stream for the witnesses\<close>

text \<open>
  A picture and a sound: each begins a segment, the feed starts again, and each begins two more. The steps
  are those of \<open>stream_run\<close>, each with what it asks checked on the stream it is made on.
\<close>

definition write_track :: "string \<Rightarrow> (hls_track \<Rightarrow> hls_track) \<Rightarrow> hls_stream \<Rightarrow> hls_stream" where
  "write_track i f s = (case track_of i s of Some t \<Rightarrow> on_track i (\<lambda>_. f t) s | None \<Rightarrow> s)"

lemma run_write:
  assumes "stream_run ev pl s" "\<And>t. t \<in> set (sm_tracks s) \<Longrightarrow> writes pl s t (f t)"
  shows "stream_run ev pl (write_track i f s)"
proof (cases "track_of i s")
  case None
  then show ?thesis using assms(1) by (simp add: write_track_def)
next
  case (Some t)
  then have "t \<in> set (sm_tracks s)" "ht_id t = i" using find_Some_iff_first by (force simp: track_of_def)+
  then show ?thesis using stream_run.written [OF assms(1) _ assms(2)] Some by (auto simp: write_track_def)
qed

definition may_begin :: "hls_stream \<Rightarrow> bool" where
  "may_begin s \<longleftrightarrow> list_all (\<lambda>t. msn_left (ht_ring t) \<and> (unplaced (ht_ring t) \<longrightarrow> current_disc (sm_tracks s) = 0)) (sm_tracks s)"

definition may_number :: "hls_stream \<Rightarrow> bool" where
  "may_number s \<longleftrightarrow> list_all (\<lambda>t. msn_left (ht_ring t)) (sm_tracks s)"

definition may_init :: "hls_stream \<Rightarrow> bool" where
  "may_init s \<longleftrightarrow> list_all (\<lambda>t. init_left (ht_ring t)) (sm_tracks s)"

lemma run_begin: "stream_run ev pl s \<Longrightarrow> may_begin s \<Longrightarrow> stream_run ev pl (write_track i (\<lambda>t. snd (track_begin start pdt d t)) s)"
  by (rule run_write) (auto simp: may_begin_def list_all_iff intro: writes.begun)

lemma run_begin_late: "stream_run ev False s \<Longrightarrow> may_number s \<Longrightarrow> stream_run ev False (write_track i (\<lambda>t. snd (track_begin start pdt d t)) s)"
  by (rule run_write) (auto simp: may_number_def list_all_iff intro: writes.begun)

lemma run_init: "stream_run ev pl s \<Longrightarrow> may_init s \<Longrightarrow> stream_run ev pl (write_track i (track_set_init b) s)"
  by (rule run_write) (auto simp: may_init_def list_all_iff intro: writes.header)

lemma run_push: "stream_run ev pl s \<Longrightarrow> stream_run ev pl (write_track i (\<lambda>t. snd (track_push_part p t)) s)"
  by (rule run_write) (auto intro: writes.part)

lemma run_restart: "stream_run ev pl s \<Longrightarrow> may_begin s \<Longrightarrow> current_disc (sm_tracks s) \<noteq> - 1 \<Longrightarrow> ev \<longrightarrow> even_cut s \<Longrightarrow> stream_run ev pl (restart s)"
  by (rule stream_run.restarted) (auto simp: may_begin_def list_all_iff)

definition ex_part :: hls_part where
  "ex_part = \<lparr>pt_bytes = [1], pt_duration = 2000000000, pt_independent = True\<rparr>"

definition ex_begin :: "string \<Rightarrow> u64 \<Rightarrow> int \<Rightarrow> hls_stream \<Rightarrow> hls_stream" where
  "ex_begin i start pdt s = write_track i (\<lambda>t. snd (track_push_part ex_part t)) (write_track i (\<lambda>t. snd (track_begin start pdt None t)) s)"

lemma run_ex_begin: "stream_run ev pl s \<Longrightarrow> may_begin s \<Longrightarrow> stream_run ev pl (ex_begin i start pdt s)"
  unfolding ex_begin_def by (intro run_push run_begin)

definition ex_tracks :: hls_stream where
  "ex_tracks = write_track ''audio'' (track_set_init [7]) (write_track ''720p'' (track_set_init [7])
     (add_track ''audio'' AudioTrack 128 (add_track ''720p'' VideoTrack 2000 (stream_new ''out'' hls_params_default ''key''))))"

definition ex_first :: hls_stream where
  "ex_first = ex_begin ''audio'' 0 0 (ex_begin ''720p'' 0 0 ex_tracks)"

definition ex_broken :: hls_stream where
  "ex_broken = restart ex_first"

definition ex_second :: hls_stream where
  "ex_second = ex_begin ''audio'' 0 9000 (ex_begin ''720p'' 0 9000 ex_broken)"

definition ex_stream :: hls_stream where
  "ex_stream = ex_begin ''audio'' 2000000000 11000 (ex_begin ''720p'' 2000000000 11000 ex_second)"

lemma ex_tracks_run: "stream_run ev pl ex_tracks"
  unfolding ex_tracks_def by (intro run_init stream_run.added stream_run.fresh; code_simp)

lemma ex_first_run: "stream_run ev pl ex_first"
  unfolding ex_first_def by (intro run_ex_begin ex_tracks_run; code_simp)

lemma ex_broken_run: "stream_run ev pl ex_broken"
  unfolding ex_broken_def
proof (rule run_restart [OF ex_first_run])
  have "even_cut ex_first" by code_simp
  then show "ev \<longrightarrow> even_cut ex_first" by simp
qed code_simp+

lemma ex_second_run: "stream_run ev pl ex_second"
  unfolding ex_second_def by (intro run_ex_begin ex_broken_run; code_simp)

lemma ex_stream_run: "stream_run ev pl ex_stream"
  unfolding ex_stream_def by (intro run_ex_begin ex_second_run; code_simp)

definition ex_picture :: hls_track where
  "ex_picture = hd (sm_tracks ex_stream)"

definition ex_audio :: hls_track where
  "ex_audio = last (sm_tracks ex_stream)"

lemma ex_in_stream: "ex_picture \<in> set (sm_tracks ex_stream)" "ex_audio \<in> set (sm_tracks ex_stream)"
proof -
  have "sm_tracks ex_stream \<noteq> []" by code_simp
  then show "ex_picture \<in> set (sm_tracks ex_stream)" "ex_audio \<in> set (sm_tracks ex_stream)"
    by (simp_all add: ex_picture_def ex_audio_def)
qed

subsection \<open>Rings\<close>

lemma successively_prefix: "ss = xs @ ys \<Longrightarrow> successively P ss \<Longrightarrow> successively P xs"
  by (simp add: successively_append_iff)

lemma successively_both:
  "successively P xs \<Longrightarrow> successively Q xs \<Longrightarrow> (\<And>x y. P x y \<Longrightarrow> Q x y \<Longrightarrow> R x y) \<Longrightarrow> successively R xs"
  by (induction xs rule: induct_list012) auto

lemma run_track:
  assumes "stream_run ev pl s" "t \<in> set (sm_tracks s)"
  shows "ring_ok (ht_ring t)" "ht_pos t = ring_position (ht_ring t)" "pl \<Longrightarrow> \<exists>d l. track_in_step ev d l (ht_ring t)"
proof -
  show "ring_ok (ht_ring t)" "ht_pos t = ring_position (ht_ring t)"
    using stream_run_rings [OF assms(1)] assms(2) by (auto simp: ring_kept_def)
  show "\<exists>d l. track_in_step ev d l (ht_ring t)" if pl
    using stream_run_ok [OF assms(1) that] assms(2) by (auto simp: stream_ok_def)
qed

lemma ring_init_kept: "g \<in> set (map fst (rg_inits r)) \<Longrightarrow> ring_init r g \<noteq> None"
  by (auto simp: ring_init_def find_None_iff)

text \<open>C32: whatever is done to a stream, late tracks and uneven breaks included, as long as its 64-bit segment
  numbers and 32-bit header and discontinuity numbers last, the ring of every track is well formed: it
  holds at most its capacity, its segments are numbered one apart, every one but the newest is whole, the header that decodes each
  is served, a discontinuity number never falls, and the longest whole segment it has seen is known.\<close>

theorem rings_stay_well_formed:
  assumes "stream_run ev pl s" "t \<in> set (sm_tracks s)"
  shows "length (rg_segments (ht_ring t)) \<le> rg_capacity (ht_ring t)
    \<and> successively (\<lambda>x y. sg_complete x \<and> sg_msn y = sg_msn x + 1 \<and> sg_disc x \<le> sg_disc y) (rg_segments (ht_ring t))
    \<and> list_all (\<lambda>x. ring_init (ht_ring t) (sg_init x) \<noteq> None) (rg_segments (ht_ring t))
    \<and> list_all (\<lambda>x. sg_complete x \<longrightarrow> seg_duration x \<le> rg_longest (ht_ring t)) (rg_segments (ht_ring t))"
proof -
  have ok: "ring_ok (ht_ring t)" using assms by (rule run_track)
  then have chain: "successively follows (rg_segments (ht_ring t))" by (simp add: ring_ok_def)
  from chain chain have "successively (\<lambda>x y. sg_complete x \<and> sg_msn y = sg_msn x + 1 \<and> sg_disc x \<le> sg_disc y) (rg_segments (ht_ring t))"
    by (rule successively_both) (simp add: follows_msn, simp add: follows_def)
  moreover have "ring_init (ht_ring t) (sg_init x) \<noteq> None" "sg_complete x \<longrightarrow> seg_duration x \<le> rg_longest (ht_ring t)"
    if "x \<in> set (rg_segments (ht_ring t))" for x
  proof -
    have "keeps (ht_ring t) x" using that ok by (simp add: ring_ok_def list_all_iff)
    then show "ring_init (ht_ring t) (sg_init x) \<noteq> None" "sg_complete x \<longrightarrow> seg_duration x \<le> rg_longest (ht_ring t)"
      using ring_init_kept by (simp_all add: keeps_def del: set_map)
  qed
  ultimately show ?thesis using ok by (auto simp: ring_ok_def list_all_iff)
qed

lemma rings_stay_well_formed_witness: "length (rg_segments (ht_ring ex_picture)) \<le> 17"
proof -
  have "rg_capacity (ht_ring ex_picture) = 17" by code_simp
  then show ?thesis using rings_stay_well_formed [OF ex_stream_run ex_in_stream(1)] by simp
qed

text \<open>C30: the tracks of a stream stay in step: two of them never hold the same segment number in different
  discontinuities, whatever their muxers write, however often the feed starts again and whenever tracks
  come and go, as long as no track with nothing in it takes its first number from its own time once there
  was a break, but has it from the picture it follows or from the break itself.\<close>

theorem tracks_agree:
  assumes "stream_run ev True s" "t \<in> set (sm_tracks s)" "u \<in> set (sm_tracks s)"
    "x \<in> set (rg_segments (ht_ring t))" "y \<in> set (rg_segments (ht_ring u))" "sg_msn x = sg_msn y"
  shows "sg_disc x = sg_disc y"
proof -
  have "agree (ht_ring t) (ht_ring u)" using stream_run_ok [OF assms(1)] assms(2,3) by (auto simp: stream_ok_def)
  then show ?thesis using assms(4,5,6) by (auto simp: agree_def outline_def)
qed

lemma ex_numbers: "map sg_msn (rg_segments (ht_ring ex_picture)) = [0, 1, 2]" "map sg_msn (rg_segments (ht_ring ex_audio)) = [0, 1, 2]"
  by code_simp+

lemma tracks_agree_witness: "sg_disc (rg_segments (ht_ring ex_picture) ! 1) = sg_disc (rg_segments (ht_ring ex_audio) ! 1)"
proof (rule tracks_agree [OF ex_stream_run ex_in_stream])
  have len: "length (rg_segments (ht_ring ex_picture)) = 3" "length (rg_segments (ht_ring ex_audio)) = 3"
    using arg_cong [OF ex_numbers(1), of length] arg_cong [OF ex_numbers(2), of length] by simp_all
  then show "rg_segments (ht_ring ex_picture) ! 1 \<in> set (rg_segments (ht_ring ex_picture))"
    "rg_segments (ht_ring ex_audio) ! 1 \<in> set (rg_segments (ht_ring ex_audio))" by simp_all
  show "sg_msn (rg_segments (ht_ring ex_picture) ! 1) = sg_msn (rg_segments (ht_ring ex_audio) ! 1)"
    using ex_numbers len by (metis nth_map numeral_nat(7) one_less_numeral_iff semiring_norm(77))
qed

subsection \<open>Playlists\<close>

lemma whole_segments:
  assumes "successively follows ss"
  shows "\<exists>open'. ss = filter sg_complete ss @ open' \<and> length open' \<le> 1"
proof (cases ss rule: rev_cases)
  case (snoc xs x)
  have "filter sg_complete xs = xs" using older_complete [OF assms] snoc by (simp add: filter_id_conv)
  then show ?thesis using snoc by (cases "sg_complete x") auto
qed simp

lemma view_filter: "filter sv_complete (map segment_view_of ss) = map segment_view_of (filter sg_complete ss)"
  by (induction ss) (simp_all add: segment_view_of_def)

lemma whole_plays_on:
  assumes "track_in_step True d l r"
  shows "successively plays_on (filter sv_complete (vw_segments (ring_view r)))"
proof -
  have chain: "successively follows (rg_segments r)" using assms by (simp add: track_in_step_def ring_ok_def)
  obtain o' where o': "rg_segments r = filter sg_complete (rg_segments r) @ o'" using whole_segments [OF chain] by blast
  have "successively (\<lambda>s t. sg_disc t = sg_disc s \<or> sg_disc t = sg_disc s + 1) (rg_segments r)"
    using assms by (simp add: track_in_step_def outline_def successively_map)
  then have "successively (\<lambda>s t. sg_disc t = sg_disc s \<or> sg_disc t = sg_disc s + 1) (filter sg_complete (rg_segments r))"
    "successively follows (filter sg_complete (rg_segments r))"
    using chain successively_prefix [OF o'] by blast+
  then have "successively (\<lambda>s t. plays_on (segment_view_of s) (segment_view_of t)) (filter sg_complete (rg_segments r))"
    by (rule successively_both) (simp add: plays_on_def segment_view_of_def follows_msn)
  then show ?thesis by (simp add: ring_view_def view_filter successively_map)
qed

lemma listed_split:
  "\<exists>os. listed v p = newest_of (segments_listed p) (filter sv_complete (vw_segments v)) @ os \<and> list_all (\<lambda>s. \<not> sv_complete s) os"
  by (auto simp: listed_def Let_def newest_of_def list_all_iff dest!: in_set_takeD)

lemma read_media:
  assumes "successively plays_on (filter sv_complete (vw_segments v))"
  shows "read_playlist (media v p reports) = map heard_of (newest_of (segments_listed p) (filter sv_complete (vw_segments v)))"
proof -
  define ss where "ss = newest_of (segments_listed p) (filter sv_complete (vw_segments v))"
  obtain os where ls: "listed v p = ss @ os" "list_all (\<lambda>s. \<not> sv_complete s) os" using listed_split ss_def by blast
  have whole: "list_all sv_complete ss" using newest_of_sub [of "segments_listed p" "filter sv_complete (vw_segments v)"]
    by (auto simp: ss_def list_all_iff)
  have chain: "successively plays_on ss" unfolding ss_def using assms by (rule newest_of_chain)
  define first where "first = (case listed v p of s # _ \<Rightarrow> Some s | [] \<Rightarrow> None)"
  define tail where "tail = (if low_latency p then PreloadHint (case next_part (listed v p) p of (msn, part) \<Rightarrow> part_uri msn part) #
      map (\<lambda>r. RenditionReport (''../'' @ rp_id r @ ''/index.m3u8'') (rp_msn r) (rp_part r)) reports else [])"
  have silent: "list_all silent tail" by (auto simp: tail_def list_all_iff)
  define d where "d = (case first of Some s \<Rightarrow> sv_disc s | None \<Rightarrow> 0)"
  define m where "m = (case first of Some s \<Rightarrow> sv_msn s | None \<Rightarrow> 0)"
  have head: "read_playlist (media v p reports) =
      read_tags m d None (listing (low_latency p) (length (listed v p) - parts_kept (target_duration v p) p) 0 None
        (map_option sv_disc first) (listed v p) @ tail)"
    by (auto simp: read_playlist_def media_def Let_def first_def [symmetric] tail_def [symmetric] m_def d_def
        word_gt_0 split: option.split)
  show ?thesis
  proof (cases "listed v p")
    case Nil
    then show ?thesis using ls silent head by (simp add: first_def ss_def [symmetric] read_all_silent)
  next
    case (Cons s rest)
    then have first: "first = Some s" by (simp add: first_def)
    have start: "ss \<noteq> [] \<Longrightarrow> m = sv_msn (hd ss) \<and> (sv_disc (hd ss) = d \<or> sv_disc (hd ss) = d + 1)"
      using Cons ls(1) by (cases ss) (auto simp: m_def d_def first)
    have "map_option sv_disc first = Some d" by (simp add: first d_def)
    with head have "read_playlist (media v p reports) =
        read_tags m d None (listing (low_latency p) (length (listed v p) - parts_kept (target_duration v p) p) 0 None (Some d) (ss @ os) @ tail)"
      by (simp add: ls(1))
    also have "\<dots> = map heard_of ss" using whole ls(2) start chain silent by (intro read_listing) auto
    finally show ?thesis by (simp add: ss_def)
  qed
qed

text \<open>C31: a playlist is understood as it is meant: a player that numbers segments from
  \<open>EXT-X-MEDIA-SEQUENCE\<close> on and counts the discontinuities it meets from \<open>EXT-X-DISCONTINUITY-SEQUENCE\<close> on
  gives every whole segment in the window the number, the discontinuity and the header it has, as long as
  every break of the feed found the tracks of the stream even, all of them cut since the last break or
  none, and no track with nothing in it was numbered by its own time after a break.\<close>

theorem playlist_is_understood:
  assumes "stream_run True True s" "t \<in> set (sm_tracks s)"
  shows "read_playlist (media (ring_view (ht_ring t)) p reports) =
    map (\<lambda>x. \<lparr>he_msn = sg_msn x, he_disc = sg_disc x, he_map = Some (init_uri (sg_init x)), he_uri = segment_uri (sg_msn x)\<rparr>)
      (drop (length (filter sg_complete (rg_segments (ht_ring t))) - segments_listed p) (filter sg_complete (rg_segments (ht_ring t))))"
proof -
  obtain d l where "track_in_step True d l (ht_ring t)" using run_track(3) [OF assms] by blast
  then show ?thesis
    by (simp add: read_media [OF whole_plays_on])
      (simp add: ring_view_def view_filter newest_of_def drop_map comp_def heard_of_def segment_view_of_def)
qed

lemma playlist_is_understood_witness:
  "map he_disc (read_playlist (media (ring_view (ht_ring ex_picture)) hls_params_default [])) = [0, 1]"
proof -
  have "map sg_disc (drop (length (filter sg_complete (rg_segments (ht_ring ex_picture))) - segments_listed hls_params_default)
      (filter sg_complete (rg_segments (ht_ring ex_picture)))) = [0, 1]" by code_simp
  then show ?thesis using playlist_is_understood [OF ex_stream_run ex_in_stream(1)] by (simp add: comp_def)
qed

end
