(* ===== verification/Hls_Serving.thy ===== *)
theory Hls_Serving
  imports Hls_Properties
begin

text \<open>
  What is served of an HLS output: a request that waited finds what it waited for, and the length a playlist
  promises holds.
\<close>

subsection \<open>Waiting requests\<close>

lemma position_closed: "list_all sg_complete ss \<Longrightarrow> ss \<noteq> [] \<Longrightarrow>
  position_from (rev ss) pos = pos\<lparr>po_complete := Some (sg_msn (last ss))\<rparr>"
  by (cases ss rule: rev_cases) auto

lemma ring_position_cases:
  assumes "ring_ok r"
  obtains (empty) "rg_segments r = []" "ring_position r = position_default"
    | (closed) "rg_segments r \<noteq> []" "list_all sg_complete (rg_segments r)"
        "ring_position r = \<lparr>po_complete = Some (sg_msn (last (rg_segments r))), po_open = None\<rparr>"
    | (first) s where "rg_segments r = [s]" "\<not> sg_complete s"
        "ring_position r = \<lparr>po_complete = None, po_open = Some (sg_msn s, length (sg_parts s))\<rparr>"
    | (open') ss s where "rg_segments r = ss @ [s]" "ss \<noteq> []" "list_all sg_complete ss" "\<not> sg_complete s"
        "ring_position r = \<lparr>po_complete = Some (sg_msn (last ss)), po_open = Some (sg_msn s, length (sg_parts s))\<rparr>"
proof (cases "rg_segments r" rule: rev_cases)
  case Nil
  then show thesis by (intro empty) (simp_all add: ring_position_def)
next
  case (snoc ss s)
  have chain: "successively follows (rg_segments r)" using assms by (simp add: ring_ok_def)
  have whole: "list_all sg_complete ss" using older_complete [OF chain] snoc by (simp add: list_all_iff)
  show thesis
  proof (cases "sg_complete s")
    case True
    then show thesis using snoc whole by (intro closed) (simp_all add: ring_position_def position_default_def)
  next
    case False
    then show thesis using snoc whole first [of s] open' [of ss s]
      by (cases "ss = []") (simp_all add: ring_position_def position_default_def position_closed)
  qed
qed

lemma chain_covers: "successively follows ss \<Longrightarrow> ss \<noteq> [] \<Longrightarrow> sg_msn (hd ss) \<le> m \<Longrightarrow> m \<le> sg_msn (last ss) \<Longrightarrow>
  \<exists>s \<in> set ss. sg_msn s = m"
proof (induction ss rule: induct_list012)
  case (3 x y zs)
  show ?case
  proof (cases "sg_msn x = m")
    case False
    then have "sg_msn y \<le> m" using 3(3,5) by (auto simp: follows_def word_le_nat_alt word_unat_eq_iff)
    then show ?thesis using 3 by auto
  qed simp
qed auto

lemma find_msn_in: "find_msn m r = Some s \<Longrightarrow> s \<in> set (rg_segments r) \<and> sg_msn s = m"
  using find_Some_iff_first by (force simp: find_msn_def)

lemma find_msn_held: "s \<in> set (rg_segments r) \<Longrightarrow> sg_msn s = m \<Longrightarrow> find_msn m r \<noteq> None"
  by (auto simp: find_msn_def find_None_iff)

lemma held_upto_whole:
  assumes "ring_ok r" "sg_msn (hd (rg_segments r)) \<le> msn" "po_complete (ring_position r) = Some c" "msn \<le> c"
  shows "ring_segment msn r \<noteq> None"
proof -
  have chain: "successively follows (rg_segments r)" using assms(1) by (simp add: ring_ok_def)
  from assms(1) show ?thesis
  proof (cases rule: ring_position_cases)
    case closed
    then obtain s where s: "s \<in> set (rg_segments r)" "sg_msn s = msn"
      using chain_covers [OF chain closed(1) assms(2)] assms(3,4) by auto
    then obtain t where "find_msn msn r = Some t" using find_msn_held by blast
    then show ?thesis using closed(2) find_msn_in by (fastforce simp: ring_segment_def list_all_iff)
  next
    case (open' ss s)
    have c: "c = sg_msn (last ss)" using assms(3) open'(5) by simp
    have "successively follows ss" "follows (last ss) s" using chain open'(1,2) by (simp_all add: successively_append_iff)
    moreover have "sg_msn (hd ss) \<le> msn" using assms(2) open'(1,2) by simp
    ultimately obtain t where t: "t \<in> set ss" "sg_msn t = msn" using chain_covers [OF _ open'(2)] assms(4) c by blast
    then obtain u where u: "find_msn msn r = Some u" using find_msn_held [of t r msn] open'(1) by auto
    moreover have "u \<noteq> s"
    proof
      assume "u = s"
      then have "sg_msn s \<le> sg_msn (last ss)" using find_msn_in [OF u] assms(4) c by simp
      then show False using \<open>follows (last ss) s\<close> by (simp add: follows_def word_le_nat_alt)
    qed
    ultimately have "sg_complete u" using find_msn_in [OF u] open'(1,3) by (auto simp: list_all_iff)
    then show ?thesis using u by (simp add: ring_segment_def)
  qed (use assms(3) in \<open>simp_all add: position_default_def\<close>)
qed

lemma reached_there:
  assumes "stream_run ev pl s" "t \<in> set (sm_tracks s)" "reached (ht_pos t) msn part"
    "sg_msn (hd (rg_segments (ht_ring t))) \<le> msn"
  shows "ring_segment msn (ht_ring t) \<noteq> None \<or> (\<exists>p. part = Some p \<and> ring_part msn p (ht_ring t) \<noteq> None)"
proof -
  let ?r = "ht_ring t"
  have ok: "ring_ok ?r" and pos: "ht_pos t = ring_position ?r" using run_track [OF assms(1,2)] by simp_all
  from assms(3) consider (whole) c where "po_complete (ring_position ?r) = Some c" "msn \<le> c"
    | (part) p n parts where "part = Some p" "po_open (ring_position ?r) = Some (n, parts)" "msn < n \<or> n = msn \<and> p < parts"
    by (auto simp: reached_def pos split: option.split_asm)
  then show ?thesis
  proof cases
    case whole
    then show ?thesis using held_upto_whole [OF ok assms(4)] by blast
  next
    case (part p n parts)
    from ok show ?thesis
    proof (cases rule: ring_position_cases)
      case (first x)
      then have "n = msn" "p < length (sg_parts x)" "sg_msn x = msn" using part assms(4) by auto
      then show ?thesis using first(1) part(1) by (simp add: ring_part_def find_msn_def)
    next
      case (open' ss x)
      have chain: "successively follows ss" "follows (last ss) x"
        using ok open'(1,2) by (auto simp: ring_ok_def successively_append_iff)
      show ?thesis
      proof (cases "msn < n")
        case True
        then have "msn \<le> sg_msn (last ss)" using chain(2) part(2) open'(5)
          by (simp add: follows_def word_le_nat_alt word_less_nat_alt)
        then show ?thesis using held_upto_whole [OF ok assms(4)] open'(5) by simp
      next
        case False
        then have n: "sg_msn x = msn" "p < length (sg_parts x)" using part(2,3) open'(5) by auto
        obtain u where u: "find_msn msn ?r = Some u" using find_msn_held [of x ?r msn] open'(1) n(1) by auto
        have "u = x"
        proof (rule ccontr)
          assume "u \<noteq> x"
          then have "u \<in> set ss" using find_msn_in [OF u] open'(1) by simp
          then have "sg_msn u \<le> sg_msn (last ss)" using chain(1) by (intro msn_upto_last)
          then show False using find_msn_in [OF u] n(1) chain(2) by (simp add: follows_def word_le_nat_alt)
        qed
        then show ?thesis using u n(2) part(1) by (simp add: ring_part_def)
      qed
    qed (use part(2) in \<open>simp_all add: position_default_def\<close>)
  qed
qed

lemma ring_segment_parts: "ring_segment msn r = Some bs \<Longrightarrow> ring_part msn p r = None \<longleftrightarrow> length bs \<le> p"
  by (cases "find_msn msn r") (auto simp: ring_segment_def ring_part_def split: if_split_asm)

text \<open>C33: a request that waited finds what it waited for, whatever was done to the stream: once the position of
  a track has reached a segment and the ring has not let go of it, the whole segment is there; once it
  has reached a part, the part is there, unless the segment was closed with fewer parts than that.\<close>

theorem reached_is_served:
  assumes "stream_run ev pl s" "t \<in> set (sm_tracks s)" "reached (ht_pos t) msn part"
    "sg_msn (hd (rg_segments (ht_ring t))) \<le> msn"
  shows "case part of None \<Rightarrow> ring_segment msn (ht_ring t) \<noteq> None
    | Some p \<Rightarrow> ring_part msn p (ht_ring t) \<noteq> None \<or> (\<exists>bs. ring_segment msn (ht_ring t) = Some bs \<and> length bs \<le> p)"
proof (cases part)
  case None
  then show ?thesis using reached_there [OF assms] by simp
next
  case (Some p)
  show ?thesis
  proof (cases "ring_segment msn (ht_ring t)")
    case None
    then show ?thesis using reached_there [OF assms] Some by simp
  next
    case segment: (Some bs)
    then show ?thesis using ring_segment_parts [OF segment, of p] Some by (cases "p < length bs") auto
  qed
qed

lemma reached_is_served_witness: "ring_segment 1 (ht_ring ex_picture) \<noteq> None"
proof -
  have "reached (ht_pos ex_picture) 1 None" "sg_msn (hd (rg_segments (ht_ring ex_picture))) \<le> 1" by code_simp+
  from reached_is_served [OF ex_stream_run [where ev = True and pl = False] ex_in_stream(1) this] show ?thesis by simp
qed

subsection \<open>The length a playlist promises\<close>

lemma ns_secs_mono: "a \<le> b \<Longrightarrow> ns_secs a \<le> ns_secs b"
proof -
  assume "a \<le> b"
  then have "(of_int (uint a) :: rat) \<le> of_int (uint b)" by (simp only: of_int_le_iff word_le_def)
  then show ?thesis unfolding ns_secs_def f_div_def by (intro rnd_mono divide_right_mono) simp_all
qed

lemma ns_secs_bounds: "0 \<le> ns_secs a" "ns_secs a \<le> 2 ^ 35"
proof -
  have "(0 :: rat) \<le> of_int (uint a)" by (simp only: of_int_0_le_iff uint_ge_0)
  then show "0 \<le> ns_secs a" unfolding ns_secs_def f_div_def by (intro rnd_nonneg divide_nonneg_nonneg) simp_all
  have "uint a \<le> 2 ^ 64" using uint_bounded [of a] by simp
  then have "(of_int (uint a) :: rat) \<le> of_int (2 ^ 64)" by (simp only: of_int_le_iff)
  then have "rnd (of_int (uint a)) \<le> rnd (of_int 1 * 2 powi 64)" by (intro rnd_mono) simp
  also have "\<dots> = of_int 1 * 2 powi 64" by (rule rnd_dyadic) simp
  finally have "rnd (of_int (uint a)) / 1000000000 \<le> of_int 1 * 2 powi 35" by simp
  from rnd_mono [OF this] have "ns_secs a \<le> rnd (of_int 1 * 2 powi 35)" by (simp only: ns_secs_def f_div_def)
  also have "\<dots> = of_int 1 * 2 powi 35" by (rule rnd_dyadic) simp
  finally show "ns_secs a \<le> 2 ^ 35" by simp
qed

lemma rounded_secs: "0 \<le> f_round (ns_secs a)" "f_round (ns_secs a) \<le> 2 ^ 35"
proof -
  show "0 \<le> f_round (ns_secs a)" using ns_secs_bounds(1) [of a] by (simp add: f_round_def)
  have "f_round (ns_secs a) \<le> f_round (2 ^ 35)" using ns_secs_bounds by (intro f_round_mono)
  also have "\<dots> = 2 ^ 35" by (simp add: f_round_def floor_eq_iff)
  finally show "f_round (ns_secs a) \<le> 2 ^ 35" .
qed

lemma target_at_least:
  assumes "a \<le> vw_longest v"
  shows "f_round (ns_secs a) \<le> uint (target_duration v p)"
proof -
  have "f_round (ns_secs a) \<le> f_round (ns_secs (vw_longest v))" using ns_secs_mono [OF assms] ns_secs_bounds by (intro f_round_mono)
  also have "\<dots> = uint (word_of_int (f_round (ns_secs (vw_longest v))) :: u64)"
    using rounded_secs [of "vw_longest v"] by (simp add: uint_word_of_int)
  also have "\<dots> \<le> uint (target_duration v p)" by (simp add: target_duration_def word_le_def [symmetric])
  finally show ?thesis .
qed

lemma target_grows: "vw_longest v \<le> vw_longest w \<Longrightarrow> target_duration v p \<le> target_duration w p"
proof -
  assume le: "vw_longest v \<le> vw_longest w"
  have "word_of_int (f_round (ns_secs (vw_longest v))) \<le> (word_of_int (f_round (ns_secs (vw_longest w))) :: u64)"
    using rounded_secs [of "vw_longest v"] rounded_secs [of "vw_longest w"] f_round_mono [OF ns_secs_bounds(1) ns_secs_mono [OF le]]
    by (simp add: word_le_def uint_word_of_int)
  then show ?thesis unfolding target_duration_def by (intro max.mono) simp_all
qed

lemma longest_grows:
  "rg_longest r \<le> rg_longest (ring_close r)" "rg_longest (ring_stamp d r) = rg_longest r"
  "rg_longest (snd (push_part p r)) = rg_longest r" "rg_longest r \<le> rg_longest (snd (ring_begin start segment pdt r))"
  "rg_longest r \<le> rg_longest (snd (begin_at msn start pdt r))"
proof -
  show close: "rg_longest r \<le> rg_longest (ring_close r)" for r by (simp add: ring_close_def split: option.split)
  show "rg_longest (ring_stamp d r) = rg_longest r" by (simp add: ring_stamp_def)
  show "rg_longest (snd (push_part p r)) = rg_longest r" by (simp add: push_part_def split: option.split)
  show begun: "rg_longest r \<le> rg_longest (snd (ring_begin start segment pdt r))" for r start segment pdt
    using close [of r] by (cases "current_init r") (simp_all add: ring_begin_segments)
  show "rg_longest r \<le> rg_longest (snd (begin_at msn start pdt r))"
    using begun [of r start 1 pdt] begun [of "r\<lparr>rg_resume := Some msn\<rparr>" start 1 pdt] by (simp add: begin_at_def)
qed

lemma writes_longest: "writes pl s t t' \<Longrightarrow> rg_longest (ht_ring t) \<le> rg_longest (ht_ring t')"
proof (induction rule: writes.induct)
  case (header t b)
  then show ?case by (auto simp: track_set_init_def update_info_def set_init_def bump_def Let_def split: option.split prod.split)
next
  case (rendered t reports)
  then show ?case by (auto simp: track_playlist_def Let_def split: option.split)
next
  case (begun t start pdt d)
  then show ?case using longest_grows(4) [of "ht_ring t" start "segment_ns (ht_params t)" pdt]
    by (auto simp: track_begin_def track_change_sel(1) longest_grows(2) split: prod.split)
next
  case (led l at_ns min_ns msn t start pdt d)
  then show ?case using longest_grows(5) [of "ht_ring t" msn start pdt]
    by (auto simp: track_begin_at_def track_change_sel(1) longest_grows(2) split: prod.split)
next
  case (alone t msn start pdt d)
  then show ?case using longest_grows(5) [of "ht_ring t" msn start pdt]
    by (auto simp: track_begin_at_def track_change_sel(1) longest_grows(2) split: prod.split)
qed (simp_all add: track_push_part_def track_close_def update_info_def track_change_sel(1) longest_grows)

text \<open>C34: a media playlist never promises less than it has: every whole segment a ring holds, rounded to whole
  seconds as RFC 8216 has it, is at most the target duration the playlist states, and what is written to a
  track later never makes the target smaller.\<close>

theorem target_duration_holds:
  assumes "stream_run ev pl s" "t \<in> set (sm_tracks s)" "x \<in> set (rg_segments (ht_ring t))" "sg_complete x" "writes pl s t t'"
  shows "f_round (ns_secs (seg_duration x)) \<le> uint (target_duration (ring_view (ht_ring t)) p)
    \<and> target_duration (ring_view (ht_ring t)) p \<le> target_duration (ring_view (ht_ring t')) p"
proof
  have "keeps (ht_ring t) x" using run_track(1) [OF assms(1,2)] assms(3) by (simp add: ring_ok_def list_all_iff)
  then have "seg_duration x \<le> vw_longest (ring_view (ht_ring t))" using assms(4) by (simp add: keeps_def ring_view_def)
  then show "f_round (ns_secs (seg_duration x)) \<le> uint (target_duration (ring_view (ht_ring t)) p)" by (rule target_at_least)
  show "target_duration (ring_view (ht_ring t)) p \<le> target_duration (ring_view (ht_ring t')) p"
    using writes_longest [OF assms(5)] by (intro target_grows) (simp add: ring_view_def)
qed

lemma target_duration_holds_witness:
  "f_round (ns_secs (seg_duration (hd (rg_segments (ht_ring ex_picture))))) \<le> uint (target_duration (ring_view (ht_ring ex_picture)) hls_params_default)"
proof -
  have "rg_segments (ht_ring ex_picture) \<noteq> []" "sg_complete (hd (rg_segments (ht_ring ex_picture)))" by code_simp+
  then show ?thesis
    using target_duration_holds [OF ex_stream_run ex_in_stream(1) list.set_sel(1) _ writes.closed] by blast
qed

end
