(* ===== verification/Hls_Cache.thy ===== *)
theory Hls_Cache
  imports Hls_Properties
begin

text \<open>
  A playlist is rendered once for each version of its ring and shared until the next
  (\<open>Track::playlist\<close>, \<open>crates/godwinmix-core/src/hls/track.rs\<close>): the shared text is what would be rendered
  again. Every write that changes what a playlist shows gives the ring a version it never had.
\<close>

text \<open>Two more versions are left: a ring that closes a segment to begin one uses both.\<close>

definition version_left :: "ring \<Rightarrow> bool" where
  "version_left r \<longleftrightarrow> unat (rg_version r) + 2 < 2 ^ 64"

text \<open>What a ring shows is the same, or its version is a later one.\<close>

definition shows_or_later :: "ring \<Rightarrow> ring \<Rightarrow> bool" where
  "shows_or_later r q \<longleftrightarrow> (rg_version q = rg_version r \<and> ring_view q = ring_view r) \<or> rg_version r < rg_version q"

definition init_first :: "ring \<Rightarrow> bool" where
  "init_first r \<longleftrightarrow> (rg_inits r = [] \<longrightarrow> rg_segments r = [])"

lemma version_next: "version_left r \<Longrightarrow> rg_version r < rg_version r + 1" "version_left r \<Longrightarrow> rg_version r < rg_version r + 1 + 1"
proof -
  assume left: "version_left r"
  have "rg_version r \<noteq> - 1" using left by (auto simp: version_left_def unsigned_minus_1_eq_mask mask_eq_exp_minus_1)
  then have one: "unat (rg_version r + 1) = Suc (unat (rg_version r))" by (rule unat_suc)
  have "unat (- 1 :: u64) = 2 ^ 64 - 1" by (simp add: unsigned_minus_1_eq_mask mask_eq_exp_minus_1)
  then have "unat (rg_version r + 1) \<noteq> unat (- 1 :: u64)" using left one by (simp only: version_left_def)
  then have "rg_version r + 1 \<noteq> - 1" by (metis word_unat_eq_iff)
  then have "unat (rg_version r + 1 + 1) = Suc (unat (rg_version r + 1))" by (rule unat_suc)
  then show "rg_version r < rg_version r + 1" "rg_version r < rg_version r + 1 + 1" using one by (simp_all only: word_less_nat_alt)
qed

lemma close_version: "rg_version (ring_close r) = rg_version r \<and> ring_close r = r \<or> rg_version (ring_close r) = rg_version r + 1"
  by (simp add: ring_close_def split: option.split)

lemma begin_version:
  "current_init r \<noteq> None \<Longrightarrow> rg_version (snd (ring_begin start segment pdt r)) = rg_version (ring_close r) + 1"
  by (auto simp: ring_begin_def next_msn_def forget_unused_inits_def Let_def split: option.split list.split)

lemma stamp_version [simp]: "rg_version (ring_stamp d r) = rg_version r" "rg_inits (ring_stamp d r) = rg_inits r"
  "rg_segments (ring_stamp d r) = [] \<longleftrightarrow> rg_segments r = []"
  by (simp_all add: ring_stamp_def)

lemma stamp_none [simp]: "rg_segments r = [] \<Longrightarrow> ring_stamp d r = r"
  by (simp add: ring_stamp_def on_open_def)

lemma later_begin:
  assumes "version_left r" "init_first r"
  shows "shows_or_later r (ring_stamp d (snd (ring_begin start segment pdt r)))"
proof (cases "current_init r")
  case None
  then have "rg_segments r = []" using assms(2) by (simp add: init_first_def current_init_def split: if_split_asm)
  then show ?thesis using None by (simp add: ring_begin_segments shows_or_later_def)
next
  case (Some i)
  then have "rg_version (snd (ring_begin start segment pdt r)) = rg_version (ring_close r) + 1" by (intro begin_version) simp
  then have "rg_version r < rg_version (snd (ring_begin start segment pdt r))"
    using close_version [of r] version_next [OF assms(1)] by auto
  then show ?thesis by (simp add: shows_or_later_def)
qed

lemma later_ring_ops:
  assumes "version_left r" "init_first r"
  shows "shows_or_later r (snd (set_init b r))" "shows_or_later r (ring_close r)" "shows_or_later r (snd (push_part p r))"
    "shows_or_later r (mark_break disc l r)"
    "shows_or_later r (if fst (begin_at msn start pdt r) \<noteq> None then ring_stamp d (snd (begin_at msn start pdt r)) else snd (begin_at msn start pdt r))"
proof -
  note next' = version_next [OF assms(1)]
  show "shows_or_later r (snd (set_init b r))"
    using next' by (cases "last (rg_inits r)") (simp add: set_init_def shows_or_later_def ring_view_def)
  show "shows_or_later r (ring_close r)" using close_version [of r] next' by (auto simp: shows_or_later_def)
  show "shows_or_later r (snd (push_part p r))"
    using next' by (auto simp: push_part_def shows_or_later_def split: option.split)
  show "shows_or_later r (mark_break disc l r)"
  proof -
    let ?q = "ring_close (r\<lparr>rg_segments := rev (dropWhile (\<lambda>s. l < sg_msn s) (rev (rg_segments r)))\<rparr>)"
    have "rg_version ?q = rg_version r \<or> rg_version ?q = rg_version r + 1"
      using close_version [of "r\<lparr>rg_segments := rev (dropWhile (\<lambda>s. l < sg_msn s) (rev (rg_segments r)))\<rparr>"] by auto
    moreover have "rg_version (mark_break disc l r) = rg_version ?q + 1" by (simp add: mark_break_def)
    ultimately have "rg_version r < rg_version (mark_break disc l r)" using next' by metis
    then show ?thesis by (simp add: shows_or_later_def)
  qed
  show "shows_or_later r (if fst (begin_at msn start pdt r) \<noteq> None then ring_stamp d (snd (begin_at msn start pdt r))
      else snd (begin_at msn start pdt r))"
  proof -
    define q where "q = (if rg_segments r = [] \<and> rg_resume r = None then r\<lparr>rg_resume := Some msn\<rparr> else r)"
    have q: "version_left q" "init_first q" "rg_version q = rg_version r" "ring_view q = ring_view r"
      using assms by (simp_all add: q_def version_left_def init_first_def ring_view_def)
    then have stamped: "shows_or_later r (ring_stamp d (snd (ring_begin start 1 pdt q)))" for d
      using later_begin [OF q(1,2), of d start 1 pdt] by (simp add: shows_or_later_def)
    have plain: "shows_or_later r (snd (ring_begin start 1 pdt q))" if "fst (ring_begin start 1 pdt q) = None"
    proof (cases "current_init q")
      case None
      then show ?thesis using q by (simp add: ring_begin_segments shows_or_later_def)
    qed (use that in \<open>simp add: ring_begin_segments\<close>)
    show ?thesis
      using stamped plain unfolding begin_at_def q_def [symmetric] by (auto simp: shows_or_later_def)
  qed
qed

lemma forget_init: "rg_inits r \<noteq> [] \<Longrightarrow> rg_inits (forget_unused_inits r) \<noteq> []"
proof -
  assume ne: "rg_inits r \<noteq> []"
  have "filter (\<lambda>i. g \<le> fst i \<or> fst i = fst (last (rg_inits r))) (rg_inits r) \<noteq> []" for g
    using last_in_set [OF ne] by (auto simp: filter_empty_conv)
  then show ?thesis using ne by (cases "rg_segments r") (simp_all add: forget_unused_inits_def current_init_def)
qed

lemma init_first_begin: "init_first r \<Longrightarrow> init_first (snd (ring_begin start segment pdt r))"
proof (cases "current_init r")
  case (Some i)
  then have "rg_inits (ring_close r) \<noteq> []" by (auto simp: current_init_def)
  then have "rg_inits (snd (ring_begin start segment pdt r)) \<noteq> []"
    using Some by (simp add: ring_begin_def next_msn_def Let_def forget_init split: option.split)
  then show ?thesis by (simp add: init_first_def)
qed (simp add: ring_begin_segments)

lemma init_first_ops:
  assumes "init_first r"
  shows "init_first (snd (set_init b r))" "init_first (ring_close r)" "init_first (snd (push_part p r))"
    "init_first (mark_break disc l r)" "init_first (ring_stamp d r)" "init_first (snd (begin_at msn start pdt r))"
proof -
  show "init_first (snd (set_init b r))" by (auto simp: set_init_def init_first_def split: option.split prod.split)
  show "init_first (ring_close r)" "init_first (ring_stamp d r)" using assms by (simp_all add: init_first_def)
  show "init_first (snd (push_part p r))" using assms by (simp add: init_first_def push_part_def split: option.split)
  show "init_first (mark_break disc l r)" using assms by (simp add: init_first_def mark_break_sel upto_msn_def)
  have "init_first (r\<lparr>rg_resume := m\<rparr>)" for m using assms by (simp add: init_first_def)
  then show "init_first (snd (begin_at msn start pdt r))" using assms by (simp add: begin_at_def init_first_begin)
qed

subsection \<open>A track over its life\<close>

inductive track_life :: "hls_track \<Rightarrow> bool" where
  born: "track_life (track_join disc (track_new i kind p kbps))"
| wrote: "track_life t \<Longrightarrow> version_left (ht_ring t) \<Longrightarrow> writes pl s t t' \<Longrightarrow> track_life t'"
| broke: "track_life t \<Longrightarrow> version_left (ht_ring t) \<Longrightarrow> track_life (track_mark_break disc l t)"

definition fresh_text :: "hls_track \<Rightarrow> u64 \<Rightarrow> tag list \<Rightarrow> bool" where
  "fresh_text t h shown \<longleftrightarrow> (\<exists>reports. reports_seen reports = h \<and> shown = media (ring_view (ht_ring t)) (ht_params t) reports)"

definition cache_ok :: "hls_track \<Rightarrow> bool" where
  "cache_ok t \<longleftrightarrow> init_first (ht_ring t) \<and>
     (\<forall>v h shown. ht_rendered t = Some ((v, h), shown) \<longrightarrow>
        v \<le> rg_version (ht_ring t) \<and> (v = rg_version (ht_ring t) \<longrightarrow> fresh_text t h shown))"

lemma cache_ok_moved:
  assumes "cache_ok t" "ht_params u = ht_params t" "ht_rendered u = ht_rendered t"
    "shows_or_later (ht_ring t) (ht_ring u)" "init_first (ht_ring u)"
  shows "cache_ok u"
  unfolding cache_ok_def
proof (intro conjI allI impI)
  fix v h shown assume "ht_rendered u = Some ((v, h), shown)"
  then have t: "v \<le> rg_version (ht_ring t)" "v = rg_version (ht_ring t) \<longrightarrow> fresh_text t h shown"
    using assms(1,3) by (auto simp: cache_ok_def)
  then show "v \<le> rg_version (ht_ring u)" using assms(4) by (auto simp: shows_or_later_def)
  assume v: "v = rg_version (ht_ring u)"
  then have "\<not> rg_version (ht_ring t) < rg_version (ht_ring u)" using t(1) by simp
  then have "rg_version (ht_ring u) = rg_version (ht_ring t)" "ring_view (ht_ring u) = ring_view (ht_ring t)"
    using assms(4) by (auto simp: shows_or_later_def)
  then show "fresh_text u h shown" using t(2) v assms(2) by (simp add: fresh_text_def)
qed (rule assms(5))

lemma cache_ok_change:
  assumes "cache_ok t" "shows_or_later (ht_ring t) (snd (f (ht_ring t)))" "init_first (snd (f (ht_ring t)))"
  shows "cache_ok (snd (track_change f t))"
  using assms by (intro cache_ok_moved [OF assms(1)]) (simp_all add: track_change_sel)

lemma playlist_ok:
  assumes "cache_ok t"
  shows "cache_ok (snd (track_playlist reports t)) \<and> fresh_text t (reports_seen reports) (fst (track_playlist reports t))"
proof -
  have new: "fresh_text t (reports_seen reports) (media (ring_view (ht_ring t)) (ht_params t) reports)" by (auto simp: fresh_text_def)
  show ?thesis
  proof (cases "\<exists>shown. ht_rendered t = Some ((rg_version (ht_ring t), reports_seen reports), shown)")
    case True
    then show ?thesis using assms by (auto simp: track_playlist_def Let_def cache_ok_def)
  next
    case False
    then have "track_playlist reports t = (media (ring_view (ht_ring t)) (ht_params t) reports,
        t\<lparr>ht_rendered := Some ((rg_version (ht_ring t), reports_seen reports), media (ring_view (ht_ring t)) (ht_params t) reports)\<rparr>)"
      by (auto simp: track_playlist_def Let_def split: option.split)
    then show ?thesis using assms new by (simp add: cache_ok_def fresh_text_def)
  qed
qed

lemma cache_ok_written:
  assumes "writes pl s t t'" "cache_ok t" "version_left (ht_ring t)"
  shows "cache_ok t'"
proof -
  have first: "init_first (ht_ring t)" using assms(2) by (simp add: cache_ok_def)
  note later = later_ring_ops [OF assms(3) first] and keeps = init_first_ops [OF first]
  have begun_at: "cache_ok (snd (track_begin_at msn start pdt d t))" for msn start pdt d
    unfolding track_begin_at_def
    using later(5) [of msn start pdt d] keeps(6) [of msn start pdt] init_first_ops(5)
    by (intro cache_ok_change [OF assms(2)]) (auto split: prod.split)
  from assms(1) show ?thesis
  proof cases
    case (header b)
    have "ht_ring (track_set_init b t) = snd (set_init b (ht_ring t))" "ht_params (track_set_init b t) = ht_params t"
      "ht_rendered (track_set_init b t) = ht_rendered t"
      by (auto simp: track_set_init_def update_info_def Let_def split: option.split)
    then show ?thesis unfolding header(1) using later(1) keeps(1) by (intro cache_ok_moved [OF assms(2)]) simp_all
  next
    case (begun start pdt d)
    show ?thesis unfolding begun(1) track_begin_def
      using later_begin [OF assms(3) first, of d start "segment_ns (ht_params t)" pdt]
        init_first_ops(5) [OF init_first_begin [OF first], of d start "segment_ns (ht_params t)" pdt]
      by (intro cache_ok_change [OF assms(2)]) (auto split: prod.split)
  next
    case (part p)
    show ?thesis unfolding part track_push_part_def using later(3) keeps(3) by (intro cache_ok_change [OF assms(2)])
  next
    case closed
    show ?thesis unfolding closed track_close_def using later(2) keeps(2) by (intro cache_ok_change [OF assms(2)]) simp_all
  next
    case (told f)
    then show ?thesis using assms(2) by (simp add: update_info_def cache_ok_def fresh_text_def)
  next
    case (rendered reports)
    then show ?thesis using playlist_ok [OF assms(2)] by simp
  qed (simp_all add: begun_at)
qed

lemma track_life_ok: "track_life t \<Longrightarrow> cache_ok t"
proof (induction rule: track_life.induct)
  case (born disc i kind p kbps)
  then show ?case by (simp add: cache_ok_def track_join_def track_new_def init_first_def ring_join_def ring_new_def)
next
  case (wrote t s t')
  from cache_ok_written [OF wrote(3) wrote.IH wrote(2)] show ?case .
next
  case (broke t disc l)
  then have "init_first (ht_ring t)" by (simp add: cache_ok_def)
  then show ?case unfolding track_mark_break_def
    using broke later_ring_ops(4) init_first_ops(4) by (intro cache_ok_change) simp_all
qed

text \<open>Reports are the last tags of a low latency playlist, and no other has any.\<close>

fun tells_rendition :: "tag \<Rightarrow> bool" where
  "tells_rendition (RenditionReport uri msn part) = True"
| "tells_rendition _ = False"

lemma media_reports:
  "\<not> low_latency p \<Longrightarrow> media v p others = media v p reports"
  "filter (\<lambda>x. \<not> tells_rendition x) (media v p others) = filter (\<lambda>x. \<not> tells_rendition x) (media v p reports)"
proof -
  show "\<not> low_latency p \<Longrightarrow> media v p others = media v p reports" by (simp add: media_def Let_def)
  have "filter (\<lambda>x. \<not> tells_rendition x) (map (\<lambda>r. RenditionReport (u r) (m r) (n r)) rs) = []" for u m n and rs :: "report list"
    by (induction rs) simp_all
  then show "filter (\<lambda>x. \<not> tells_rendition x) (media v p others) = filter (\<lambda>x. \<not> tells_rendition x) (media v p reports)"
    by (simp add: media_def Let_def)
qed

text \<open>C35: the text of a playlist that requests share is current in all but the rendition reports: whatever was
  written to a track since, while its 64-bit versions last, the text handed out is that of the ring as it
  is now, without low latency the very text that would be rendered for the request, and with it the same
  but for the reports of other rungs, which fold to the number the request's own fold to.\<close>

theorem shared_playlist_is_current:
  assumes "track_life t"
  shows "\<exists>others. reports_seen others = reports_seen reports
    \<and> fst (track_playlist reports t) = media (ring_view (ht_ring t)) (ht_params t) others
    \<and> filter (\<lambda>x. \<not> tells_rendition x) (fst (track_playlist reports t)) =
        filter (\<lambda>x. \<not> tells_rendition x) (media (ring_view (ht_ring t)) (ht_params t) reports)
    \<and> (\<not> low_latency (ht_params t) \<longrightarrow> fst (track_playlist reports t) = media (ring_view (ht_ring t)) (ht_params t) reports)"
proof -
  obtain others where "reports_seen others = reports_seen reports"
    "fst (track_playlist reports t) = media (ring_view (ht_ring t)) (ht_params t) others"
    using playlist_ok [OF track_life_ok [OF assms]] by (auto simp: fresh_text_def)
  then show ?thesis using media_reports [where p = "ht_params t" and v = "ring_view (ht_ring t)" and others = others and reports = reports] by auto
qed

lemma ex_sound_life: "track_life (snd (track_playlist reports (track_join 0 (track_new ''audio'' AudioTrack hls_params_default 128))))"
  by (rule track_life.wrote [OF track_life.born _ writes.rendered]) (simp add: version_left_def track_join_def track_new_def ring_join_def ring_new_def)

lemma shared_playlist_is_current_witness:
  "\<exists>t others. ht_rendered t \<noteq> None \<and> reports_seen others = 0
    \<and> fst (track_playlist [] t) = media (ring_view (ht_ring t)) (ht_params t) others"
proof -
  let ?t = "snd (track_playlist [] (track_join 0 (track_new ''audio'' AudioTrack hls_params_default 128)))"
  obtain others where "reports_seen others = reports_seen []"
    "fst (track_playlist [] ?t) = media (ring_view (ht_ring ?t)) (ht_params ?t) others"
    using shared_playlist_is_current [OF ex_sound_life [of "[]"], of "[]"] by blast
  moreover have "ht_rendered ?t \<noteq> None" by (simp add: track_playlist_def track_join_def track_new_def Let_def)
  ultimately show ?thesis by (intro exI [of _ ?t] exI [of _ others]) (simp add: reports_seen_def)
qed

text \<open>Two answers that fold to the same number, as a rung's last segment goes from its only part to whole.\<close>

lemma reports_fold_together:
  "reports_seen [\<lparr>rp_id = ''720p'', rp_msn = 4, rp_part = Some 0\<rparr>] = reports_seen [\<lparr>rp_id = ''720p'', rp_msn = 4, rp_part = None\<rparr>]"
  by (simp add: reports_seen_def)

end
