(* ===== verification/Hls_Numbers.thy ===== *)
theory Hls_Numbers
  imports Hls_Properties
begin

text \<open>
  The numbers of an HLS output: what its settings allow, what is read from the boxes of a muxer, how much
  sound waits for the picture, and where the numbers of two tracks part.
\<close>

subsection \<open>Settings\<close>

lemma uint_div_up:
  assumes "0 < uint b" "uint a div uint b + 1 < 2 ^ LENGTH('a)"
  shows "uint (div_up a (b :: 'a::len word)) = uint a div uint b + (if uint a mod uint b = 0 then 0 else 1)"
proof -
  have "a mod b = 0 \<longleftrightarrow> uint a mod uint b = 0" by (simp add: word_uint_eq_iff uint_mod)
  moreover have "uint (a div b + 1) = uint a div uint b + 1"
    using assms pos_imp_zdiv_nonneg_iff [OF assms(1), of "uint a"]
    by (simp add: uint_plus_if' uint_div)
  ultimately show ?thesis by (simp add: div_up_def uint_div)
qed

lemma ceil_up: "(x :: int) \<le> (x div 1000 + (if x mod 1000 = 0 then 0 else 1)) * 1000"
  using mult_div_mod_eq [of 1000 x] pos_mod_bound [of 1000 x] by (simp add: distrib_right split: if_split; linarith)

text \<open>What passed the check, as integers: \<open>s\<close> a segment, \<open>q\<close> a part and \<open>w\<close> the window.\<close>

lemma checked_params:
  assumes "hls_from_params t = Inr p"
  shows "500 \<le> uint (hp_segment_ms p)" "uint (hp_segment_ms p) \<le> 10000" "uint (hp_window_s p) \<le> 600"
    "uint (hp_segment_ms p) * 3 \<le> uint (hp_window_s p) * 1000"
    "low_latency p \<Longrightarrow> 100 \<le> uint (hp_part_ms p) \<and> uint (hp_part_ms p) * 2 \<le> uint (hp_segment_ms p)"
proof -
  have check: "500 \<le> hp_segment_ms p" "hp_segment_ms p \<le> 10000" "least_window p \<le> hp_window_s p" "hp_window_s p \<le> 600"
    "hp_part_ms p \<noteq> 0 \<Longrightarrow> 100 \<le> hp_part_ms p \<and> hp_part_ms p \<le> hp_segment_ms p div 2"
    using hls_from_params_ok [OF assms] by (auto simp: hls_check_ok)
  show seg: "500 \<le> uint (hp_segment_ms p)" "uint (hp_segment_ms p) \<le> 10000" "uint (hp_window_s p) \<le> 600"
    using check(1,2,4) by (simp_all add: word_le_def)
  have three: "uint (hp_segment_ms p * 3) = uint (hp_segment_ms p) * 3" using seg by (simp add: uint_mult_lem [THEN iffD1])
  have "uint (least_window p) = uint (hp_segment_ms p * 3) div 1000 + (if uint (hp_segment_ms p * 3) mod 1000 = 0 then 0 else 1)"
  proof -
    have "uint (hp_segment_ms p) * 3 div 1000 + 1 < 4294967296" using seg(2) by linarith
    then show ?thesis unfolding least_window_def using uint_div_up [of "1000 :: u32" "hp_segment_ms p * 3"] by (simp add: three)
  qed
  then have "uint (hp_segment_ms p) * 3 \<le> uint (least_window p) * 1000" 
    using ceil_up [of "uint (hp_segment_ms p) * 3"] by (simp only: three)
  also have "\<dots> \<le> uint (hp_window_s p) * 1000" using check(3) by (simp add: word_le_def)
  finally show "uint (hp_segment_ms p) * 3 \<le> uint (hp_window_s p) * 1000" .
  assume "low_latency p"
  then have "hp_part_ms p \<noteq> 0" by (auto simp: low_latency_def)
  then have "100 \<le> uint (hp_part_ms p)" "uint (hp_part_ms p) \<le> uint (hp_segment_ms p) div 2"
    using check(5) by (simp_all add: word_le_def uint_div)
  then show "100 \<le> uint (hp_part_ms p) \<and> uint (hp_part_ms p) * 2 \<le> uint (hp_segment_ms p)" by linarith
qed

lemma ceil_bounds: "0 < (s :: int) \<Longrightarrow> s * 3 \<le> w \<Longrightarrow> w \<le> s * 1200 \<Longrightarrow>
  3 \<le> w div s + (if w mod s = 0 then 0 else 1) \<and> w div s + (if w mod s = 0 then 0 else 1) \<le> 1200"
proof -
  assume s: "0 < s" "s * 3 \<le> w" "w \<le> s * 1200"
  have w: "w = s * (w div s) + w mod s" "0 \<le> w mod s" "w mod s < s" using s(1) by simp_all
  have "3 \<le> w div s" using s(1,2) by (metis zdiv_mono1 nonzero_mult_div_cancel_left less_irrefl)
  moreover have "w div s + (if w mod s = 0 then 0 else 1) \<le> 1200"
  proof (cases "w mod s = 0")
    case True
    then show ?thesis using w(1) s by (metis mult_le_cancel_left_pos add.right_neutral)
  next
    case False
    then have "s * (w div s) < s * 1200" using w s by linarith
    then show ?thesis using s(1) False by simp
  qed
  ultimately show ?thesis by simp
qed

lemma parts_bounds: "100 \<le> (q :: int) \<Longrightarrow> q * 2 \<le> s \<Longrightarrow> s \<le> 10000 \<Longrightarrow> 2 \<le> (s + q div 2) div q \<and> (s + q div 2) div q \<le> 100"
proof -
  assume q: "100 \<le> q" "q * 2 \<le> s" "s \<le> 10000"
  have "2 = (q * 2) div q" using q(1) by simp
  also have "\<dots> \<le> (s + q div 2) div q" using q by (intro zdiv_mono1) simp_all
  finally have low: "2 \<le> (s + q div 2) div q" .
  have "s + q div 2 < q * 101" using q by linarith
  then have "q * ((s + q div 2) div q) < q * 101"
    using q(1) pos_mod_sign [of q "s + q div 2"] mult_div_mod_eq [of q "s + q div 2"] by linarith
  then have "(s + q div 2) div q < 101" using q(1) by simp
  then show ?thesis using low by simp
qed

text \<open>C36: settings that are accepted are settings that work: a playlist lists between three and 1200 segments, a
  segment's length in nanoseconds does not wrap, the muxer is asked for no more than a segment, and where
  parts are served a segment is two to a hundred of them, each of the same length, and not empty.\<close>

theorem accepted_params_fit:
  assumes "hls_from_params t = Inr p"
  shows "3 \<le> segments_listed p \<and> segments_listed p \<le> 1200 \<and> uint (segment_ns p) = uint (hp_segment_ms p) * 1000000
    \<and> fst (mux_durations p) \<le> segment_ns p
    \<and> (case snd (mux_durations p) of
         None \<Rightarrow> \<not> low_latency p
       | Some c \<Rightarrow> 0 < c \<and> (\<exists>n. 2 \<le> n \<and> n \<le> 100 \<and> uint (fst (mux_durations p)) = n * uint c))"
proof (intro conjI)
  note ok = checked_params [OF assms]
  let ?s = "uint (hp_segment_ms p)" and ?q = "uint (hp_part_ms p)"
  have "3 \<le> uint (hp_window_s p) * 1000 div ?s + (if uint (hp_window_s p) * 1000 mod ?s = 0 then 0 else 1) \<and>
      uint (hp_window_s p) * 1000 div ?s + (if uint (hp_window_s p) * 1000 mod ?s = 0 then 0 else 1) \<le> 1200"
    using ok by (intro ceil_bounds) linarith+
  then show "3 \<le> segments_listed p" "segments_listed p \<le> 1200" by (simp_all add: segments_listed_def Let_def le_nat_iff nat_le_iff)
  have "uint (ucast (hp_segment_ms p) :: u64) = ?s" by (simp add: uint_up_ucast is_up)
  then show ns: "uint (segment_ns p) = ?s * 1000000"
    using ok unfolding segment_ns_def by (subst uint_mult_lem [THEN iffD1]) simp_all
  show "fst (mux_durations p) \<le> segment_ns p" "case snd (mux_durations p) of None \<Rightarrow> \<not> low_latency p
       | Some c \<Rightarrow> 0 < c \<and> (\<exists>n. 2 \<le> n \<and> n \<le> 100 \<and> uint (fst (mux_durations p)) = n * uint c)"
  proof (atomize (full), cases "low_latency p")
    case True
    let ?n = "(?s + ?q div 2) div ?q"
    let ?w = "(hp_segment_ms p + hp_part_ms p div 2) div hp_part_ms p"
    define c where "c = segment_ns p div max (ucast ?w) 1"
    have n: "2 \<le> ?n" "?n \<le> 100" using parts_bounds ok(2) ok(5) [OF True] by auto
    have "uint (hp_segment_ms p + hp_part_ms p div 2) = ?s + ?q div 2"
    proof -
      have "?q div 2 \<le> ?q" "?q \<le> ?s" using ok(5) [OF True] by linarith+
      then have "?s + ?q div 2 < 2 ^ 32" using ok(2) by simp
      then show ?thesis by (simp add: uint_plus_if' uint_div)
    qed
    then have "uint ?w = ?n" by (simp add: uint_div)
    then have parts: "uint (max (ucast ?w) 1 :: u64) = ?n"
      using n(1) by (simp add: max_def word_le_def uint_up_ucast is_up)
    then have c: "uint c = ?s * 1000000 div ?n" by (simp add: c_def uint_div ns)
    have le: "?n * (?s * 1000000 div ?n) \<le> ?s * 1000000" 
      using n(1) pos_mod_sign [of ?n "?s * 1000000"] mult_div_mod_eq [of ?n "?s * 1000000"] by linarith
    have "uint (c * max (ucast ?w) 1) = uint c * ?n"
      using le ok(2) by (subst uint_mult_lem [THEN iffD1]) (simp_all add: parts c mult.commute)
    moreover have "mux_durations p = (c * max (ucast ?w) 1, Some c)" using True by (simp add: mux_durations_def Let_def c_def)
    moreover have "1 \<le> ?s * 1000000 div ?n"
    proof -
      have "?n div ?n \<le> ?s * 1000000 div ?n" using n ok(1) by (intro zdiv_mono1) linarith+
      then show ?thesis using n(1) by simp
    qed
    then have "0 < c" using c by (simp add: word_less_def)
    ultimately show "fst (mux_durations p) \<le> segment_ns p \<and> (case snd (mux_durations p) of None \<Rightarrow> \<not> low_latency p
       | Some c \<Rightarrow> 0 < c \<and> (\<exists>n. 2 \<le> n \<and> n \<le> 100 \<and> uint (fst (mux_durations p)) = n * uint c))"
      using n le c ns by (auto simp: word_le_def mult.commute)
  qed (simp add: mux_durations_def)
qed

lemma accepted_params_fit_witness: "segments_listed (hls_params_default\<lparr>hp_part_ms := 333\<rparr>) \<le> 1200"
proof -
  have "hls_from_params [''low_latency'' \<mapsto> TBool True] = Inr (hls_params_default\<lparr>hp_part_ms := 333\<rparr>)"
    by (simp add: hls_from_params_def param_flag_def param_number_def access_from_params_def param_word_def
        segments_of_def access_of_def hls_check_def least_window_def div_up_def hls_params_default_def PART_MS_def)
  from accepted_params_fit [OF this] show ?thesis by simp
qed

subsection \<open>Boxes\<close>

text \<open>A box of one kind in another, each after boxes of other kinds.\<close>

record layer =
  la_before :: "(string \<times> bytes) list"
  la_kind :: string
  la_after :: bytes

fun nest :: "layer list \<Rightarrow> bytes \<Rightarrow> bytes" where
  "nest [] body = body"
| "nest (l # ls) body = run_of (la_before l) @ boxed (la_kind l) (nest ls body) @ la_after l"

fun nests :: "layer list \<Rightarrow> bytes \<Rightarrow> bool" where
  "nests [] body = True"
| "nests (l # ls) body = (list_all writable (la_before l) \<and> list_all (\<lambda>b. fst b \<noteq> la_kind l) (la_before l) \<and>
     writable (la_kind l, nest ls body) \<and> nests ls body)"

lemma path_nest: "nests ls body \<Longrightarrow> box_path (nest ls body) (map la_kind ls) = Some body"
  by (induction ls) (simp_all add: box_path_def find_in_run)

text \<open>C37: the decode time a muxer wrote in a fragment, and the timescale it wrote in a header, are the ones read
  back, in either version of their boxes, however deep and behind whatever other boxes they stand.\<close>

theorem boxes_roundtrip:
  assumes "v = 0 \<or> v = 1" "length flags = 3" "nests ls body"
  shows "(map la_kind ls = [''moof'', ''traf'', ''tfdt''] \<and> x < 256 ^ (if v = 0 then 4 else 8) \<and>
      body = v # flags @ be_bytes (if v = 0 then 4 else 8) x @ rest \<longrightarrow> decode_time (nest ls body) = Some (of_nat x)) \<and>
    (map la_kind ls = [''moov'', ''trak'', ''mdia'', ''mdhd''] \<and> x < 256 ^ 4 \<and> length stamps = (if v = 0 then 8 else 16) \<and>
      body = v # flags @ stamps @ be_bytes 4 x @ rest \<longrightarrow> timescale (nest ls body) = Some (of_nat x))"
proof (intro conjI impI; elim conjE)
  note path = path_nest [OF assms(3)]
  show "decode_time (nest ls body) = Some (of_nat x)" if "map la_kind ls = [''moof'', ''traf'', ''tfdt'']"
    "x < 256 ^ (if v = 0 then 4 else 8)" "body = v # flags @ be_bytes (if v = 0 then 4 else 8) x @ rest"
    using path that assms(1,2) by (auto simp: decode_time_def sized_field_def get_range_def)
  show "timescale (nest ls body) = Some (of_nat x)" if "map la_kind ls = [''moov'', ''trak'', ''mdia'', ''mdhd'']"
    "x < 256 ^ 4" "length stamps = (if v = 0 then 8 else 16)" "body = v # flags @ stamps @ be_bytes 4 x @ rest"
    using path that assms(1,2) by (auto simp: timescale_def get_range_def)
qed

lemma boxes_roundtrip_witness:
  "\<exists>moof. 8 < length moof \<and> decode_time moof = Some (2 ^ 40)"
proof -
  define ls where "ls = [\<lparr>la_before = [(''styp'', [1])], la_kind = ''moof'', la_after = [9]\<rparr>,
    \<lparr>la_before = [(''mfhd'', replicate 8 0)], la_kind = ''traf'', la_after = []\<rparr>,
    \<lparr>la_before = [(''tfhd'', replicate 8 0)], la_kind = ''tfdt'', la_after = []\<rparr>]"
  define body where "body = 1 # replicate 3 0 @ be_bytes 8 (2 ^ 40) @ []"
  have "nests ls body" by (simp add: ls_def body_def writable_def run_of_def)
  from boxes_roundtrip [OF disjI2 _ this, of 1 "replicate 3 0" "2 ^ 40" "[]" "[]"]
  have "decode_time (nest ls body) = Some (of_nat (2 ^ 40))" by (simp add: ls_def body_def)
  moreover have "8 < length (nest ls body)" by (simp add: ls_def body_def run_of_def)
  ultimately show ?thesis by (intro exI [of _ "nest ls body"]) simp
qed

subsection \<open>Sound that waits\<close>

lemma place_same: "fragment_place (f\<lparr>fo_queue := q\<rparr>) = fragment_place f"
  by (intro ext) (simp add: fragment_place_def Let_def split: option.split)

text \<open>C38: what waits for the picture is bounded, and keeps its order: after a fragment of sound is pushed, what
  waits is an end of what waited with it, no longer than the time a cutter holds, and if anything waits
  it is because the picture was not yet cut far enough to place the first of it.\<close>

theorem sound_waits_in_order:
  assumes "follow_push b duration (f, s) = (f', s')"
  shows "held_ns (fo_queue f') \<le> fo_hold_ns f \<and> fo_hold_ns f' = fo_hold_ns f
    \<and> (\<exists>gone x. fr_bytes x = b \<and> fr_duration x = duration \<and> fo_queue f @ [x] = gone @ fo_queue f')
    \<and> (fo_queue f' = [] \<or> fragment_place f' s' (hd (fo_queue f')) = Wait)"
proof -
  obtain start wall d where next': "fo_next f = (start, wall, d)" by (metis prod_cases3)
  define x where "x = \<lparr>fr_bytes = b, fr_start = start, fr_duration = duration, fr_wall = wall, fr_decode = d\<rparr>"
  define g where "g = f\<lparr>fo_queue := fo_queue f @ [x]\<rparr>"
  obtain q where q: "drain g (fo_queue f @ [x]) s = (q, s')" "f' = g\<lparr>fo_queue := q\<rparr>"
    using assms by (auto simp: follow_push_def follow_drain_def next' x_def g_def split: prod.split_asm)
  from drain_waits [OF q(1)]
  have "\<exists>gone. fo_queue f @ [x] = gone @ q" "held_ns q \<le> fo_hold_ns f" "q = [] \<or> fragment_place f s' (hd q) = Wait"
    by (auto simp: g_def place_same)
  moreover have "fr_bytes x = b" "fr_duration x = duration" by (simp_all add: x_def)
  moreover have "fo_queue f' = q" "fo_hold_ns f' = fo_hold_ns f" "fragment_place f' = fragment_place f"
    by (simp_all add: q(2) g_def place_same)
  ultimately show ?thesis by metis
qed

lemma sound_waits_in_order_witness:
  "held_ns (fo_queue (fst (follow_push [1] 250000000 (follow_new hls_params_default ''audio'', ex_tracks)))) \<le> 30000000000"
proof -
  have "fo_hold_ns (follow_new hls_params_default ''audio'') = 30000000000" by code_simp
  then show ?thesis
    using sound_waits_in_order [OF surjective_pairing, of "[1]" 250000000 "follow_new hls_params_default ''audio''" ex_tracks] by simp
qed

subsection \<open>Where numbers part\<close>

text \<open>
  The picture was cut since a break and the sound was not; the feed starts again. What the picture had cut
  is given up, its discontinuity is counted all the same, and one tag stands for two.
\<close>

definition ex_uneven :: hls_stream where
  "ex_uneven = ex_begin ''audio'' 0 18000 (ex_begin ''720p'' 0 18000 (restart (ex_begin ''720p'' 0 9000 ex_broken)))"

lemma ex_uneven_run: "stream_run False True ex_uneven"
  unfolding ex_uneven_def by (intro run_ex_begin run_restart ex_broken_run; code_simp)

lemma uneven_break_skips:
  "map sg_disc (rg_segments (ht_ring (hd (sm_tracks ex_uneven)))) = [0, 2] \<and>
   length (filter (\<lambda>t. t = Discontinuity) (listing False 0 0 None (Some 0) (vw_segments (ring_view (ht_ring (hd (sm_tracks ex_uneven))))))) = 1"
  by (intro conjI; code_simp)

text \<open>
  A rung that joins after a break, its first segment numbered by a running time that began again: it has
  the number of a segment the picture still holds from before the break.
\<close>

definition ex_late :: hls_stream where
  "ex_late = ex_begin ''480p'' 0 9000 (write_track ''480p'' (track_set_init [7]) (add_track ''480p'' VideoTrack 900 ex_second))"

lemma ex_late_run: "stream_run True False ex_late"
proof -
  have "stream_run True False (write_track ''480p'' (track_set_init [7]) (add_track ''480p'' VideoTrack 900 ex_second))"
    by (intro run_init stream_run.added ex_second_run) code_simp
  moreover have "may_number (write_track ''480p'' (track_set_init [7]) (add_track ''480p'' VideoTrack 900 ex_second))" by code_simp
  ultimately show ?thesis unfolding ex_late_def ex_begin_def by (intro run_push run_begin_late)
qed

lemma late_track_numbers_collide:
  "map (\<lambda>t. map (\<lambda>s. (sg_msn s, sg_disc s)) (rg_segments (ht_ring t))) (sm_tracks ex_late) =
    [[(0, 0), (1, 1)], [(0, 0), (1, 1)], [(0, 1)]]"
  by code_simp

text \<open>Three gigabytes in a window of twenty-four seconds: a thousand megabits a second, and the average says less than a half of it.\<close>

definition ex_heavy :: segment_view where
  "ex_heavy = \<lparr>sv_msn = 0, sv_start = 0, sv_disc = 0, sv_pdt = 0, sv_init = 0, sv_decode = None, sv_complete = True,
     sv_duration = 8000000000, sv_bytes = 1000000000, sv_parts = []\<rparr>"

lemma average_wraps:
  "measured_bps \<lparr>vw_segments = [ex_heavy, ex_heavy\<lparr>sv_msn := 1\<rparr>, ex_heavy\<lparr>sv_msn := 2\<rparr>], vw_longest = 8000000000\<rparr> = Some (1000000000, 231385663)"
  by (simp add: measured_bps_def ex_heavy_def)

end
