(* ===== verification/Spec2Isabelle.thy ===== *)
theory Spec2Isabelle
  imports Planner_Properties Resolve_Properties Diff_Properties Preset_Properties
    Governor_Properties Shed_Properties Measure_Properties Catalogue_Properties
    Renditions_Properties Engine_Status Safety_Properties Failover_Properties
    Hls_Serving Hls_Cache Hls_Numbers
begin

text \<open>
  GodwinMix is a live video mixer. The development models the part of it that decides what to encode,
  on what and whether there is room for it, two guards of the programme itself, the safety rules in
  front of a take and the backups of sources, and the HLS output: the segments it keeps, the playlists it
  writes and how the picture and the sound stay in step. It is translated from the Rust sources named below.

  \<^bold>\<open>Parts and how they interact.\<close> An output asks for renditions of a source. The planner
  (\<open>crates/godwinmix-render\<close>) resolves every request to a copy or an encode, settles one keyframe
  interval per source, chooses encoders and builds one graph of shared nodes; the difference of two
  plans says what to start, restart and stop. The planner prices work through a cost model. The
  governor (\<open>crates/godwinmix-govern\<close>) measures the machine, keeps the book of what was promised,
  grants or refuses work and says what to give up when the machine runs short. The codec catalogue
  (\<open>crates/godwinmix-core/src/catalogue\<close>) says which encoders there are and picks among them. The engine
  (\<open>crates/godwinmix-core/src/render\<close>) plans a change of outputs, has each new node admitted, runs the
  graph under the tickets it was given, and stops and brings back what the governor sheds.

  \<^bold>\<open>Shared theories.\<close> Prelude holds the integers, results, text and list scans; Float64 the binary64
  arithmetic of the code as rationals with its rounding; Text what the code does to strings and Clock its
  instants and durations; Store the contracts of the keyed stores as
  locales, interpreted on the builder (Pool), the governor's book (Governor\_Run) and the two map types
  (Maps); Rendition the types every part speaks (\<open>godwinmix-protocol/src/rendition\<close>).

  \<^bold>\<open>Planner.\<close> Machine (\<open>model.rs\<close>, \<open>static_model.rs\<close>), Containers (\<open>container.rs\<close>), Sizing
  (\<open>sizing.rs\<close>), PlanErrors (\<open>error.rs\<close>), Resolve (\<open>resolve.rs\<close>, \<open>audio.rs\<close>), Plan\_Graph (\<open>graph.rs\<close>),
  Ids (\<open>ids.rs\<close>), Choose (\<open>choose.rs\<close>, \<open>nearest.rs\<close>), Builder (\<open>build.rs\<close>), Planner (\<open>chain.rs\<close>,
  \<open>plan.rs\<close>), Diff (\<open>diff.rs\<close>) and Presets (\<open>presets.rs\<close>). A trait object is the record of its methods,
  a \<open>Result\<close> a sum, a \<open>\&mut\<close> argument the state returned. Pool and Growth hold the invariants every
  step of a build keeps, Plans lifts them to whole plans, Example\_Plan is the plan the witnesses use.
  Planner\_Properties, Resolve\_Properties, Diff\_Properties and Preset\_Properties hold what is shown:
  plans fit the machine, are acyclic, share work, serve each request once and keep one keyframe
  interval; a diff takes the old graph to the new one, starting nodes inputs first and stopping them
  readers first, though a node that is restarted can read one already stopped until its own turn comes
  (\<open>restarted_reader_of_stopped_node\<close>); what is copied is what was asked for.

  \<^bold>\<open>Governor.\<close> Load\_Window (\<open>load/\<close>), Headroom (\<open>headroom.rs\<close>), Calibration (\<open>calibration.rs\<close>,
  \<open>fit.rs\<close>, \<open>config.rs\<close>), Profile (\<open>profile/\<close>), Shed (\<open>shed.rs\<close>), Advice (\<open>advice.rs\<close>) and Governor
  (\<open>governor/\<close>, \<open>ticket.rs\<close>, \<open>remote.rs\<close>). A method that takes the lock is one step of the state, and
  Governor\_Run is the relation of all such steps with its invariant. A profile may come at any time and may
  lower what a device is said to take below what is held on it (\<open>gstep_free\<close>): what holds all the same is
  that sessions are only given within the limit of the moment, and over runs in which no profile shows a
  new or lower limit (\<open>gstep\<close>) that devices stay within theirs. A ticket is taken to be lowered only to a
  smaller cost, as its callers do; \<open>ticket.rs\<close> does not ask. Governor\_Properties,
  Shed\_Properties and Measure\_Properties show that the tickets held never promise more than there is,
  that numbers are never reused, that a refusal's advice can be taken, what shedding spares and frees,
  and that load, reserve and cost estimates are bounded and monotone. The sums of the book are shown
  not to wrap for a machine whose cores, in thousandths, and memory, in MiB, fit 32 bits.

  \<^bold>\<open>Catalogue.\<close> Catalogue (\<open>catalogue/model.rs\<close>, \<open>mod.rs\<close>), Catalogue\_Check (\<open>apply.rs\<close> and validation)
  and Catalogue\_Select (\<open>select.rs\<close> and \<open>render/candidates.rs\<close>); Catalogue\_Properties shows that
  selection is the best of what can be selected, that the planner's list starts with the same entry,
  how layers override and that units convert exactly.

  \<^bold>\<open>Running renditions.\<close> \<open>crates/godwinmix-core/src/render\<close> applies the plans. Engine\_Model (\<open>model.rs\<close>)
  is the governor as a cost model; Engine\_Admit (\<open>admit.rs\<close>, \<open>refusal.rs\<close>) asks for one node and words a
  refusal; Render\_Elements (\<open>elements.rs\<close>) says what each node is made of, Render\_Graph (\<open>graph.rs\<close>,
  \<open>wiring.rs\<close>) is the running graph and Keyframes (\<open>keyframes.rs\<close>) the probe on each encoder; Renditions
  (\<open>renditions.rs\<close>, \<open>apply.rs\<close>, \<open>shed.rs\<close>, \<open>book.rs\<close>, \<open>view.rs\<close>, \<open>tap.rs\<close>) is the state and its
  operations, and Engine\_Status (\<open>status.rs\<close>) what is reported of the governor. The governor is part of
  the state, since a ticket dropped changes its book. Whether GStreamer makes, adds or links an element
  is the record \<open>gst_env\<close>, free in every claim but the one about liveness.

  Graph\_Run holds what one operation does to outlets and bodies. Ledger states what the engine needs of
  a governor as the locale \<open>ledger\<close>: a relation between the tickets in hand and the governor, kept by
  every answer and every dropped ticket. Renditions\_Run has the steps of the engine and proves, in the
  locale, that each keeps such a relation; Renditions\_Books interprets it twice on the model of the
  governor, as the line it keeps (\<open>line\<close>) and as the exact book (\<open>books\<close>). Renditions\_State is the
  invariant of the state, Renditions\_Live what holds where everything can be made. Renditions\_Properties
  shows that the graph, the tickets and what is shed stay in step over any run with other users of the
  governor in between, that a refusal leaves no trace, that a shutdown gives everything back and that
  what is planned runs. Some of it asks that the numbers of the governor, 64 bits wide, last for the
  nodes of one change (\<open>numbers_left\<close>, \<open>change_fits\<close>).

  \<^bold>\<open>Safety rules.\<close> Safety is \<open>crates/godwinmix-core/src/safety.rs\<close>: the limits of a token and the guard
  with every method that changes it, the clock an argument of each. Safety\_Run is the relation of all
  calls of the guard with the history of takes and flashes as a ghost, and its invariant, and the relation
  of those in which each take is recorded before the next is checked (\<open>in_turn\<close>). Safety\_Properties
  shows that a check that passes rations takes over any history, what an agent is held to where takes come
  one at a time, that waiting is enough and that a refusal says truly how long.

  \<^bold>\<open>Backups.\<close> Backup (\<open>godwinmix-protocol/src/backup.rs\<close>, \<open>backup/check.rs\<close>) holds the rules and their
  check; Failover (\<open>failover.rs\<close>, \<open>failover/\<close>) the clock of each source, the board and the choice of a
  backup; Stand\_Ins (\<open>mixer/failover.rs\<close> and below) what the mixer answers about a source, when it draws
  and what a caller can do. What the board needs of those answers is the locale \<open>live_view\<close> of
  Failover\_Run, interpreted on \<open>seen\<close>. Backup\_Loops relates the bounded walk of the check to
  reachability. Failover\_Properties shows that accepted rules never loop and commands keep it so, when each
  command is accepted and what it then does, that
  what stands in delivers and drawing settles, and that the clock does what its history says.

  \<^bold>\<open>HLS.\<close> \<open>crates/godwinmix-core/src/hls\<close>. Hls\_Params (\<open>params.rs\<close>, \<open>access.rs\<close>) holds the settings of an
  output; Hls\_Ring (\<open>ring.rs\<close>, \<open>view.rs\<close>, \<open>ring_align.rs\<close>, \<open>ring_cut.rs\<close>) the segments of one rung with
  every operation on them; Hls\_Playlist (\<open>playlist.rs\<close>) the media playlist as the list of its tags, and how
  a player reads one; Hls\_Boxes (\<open>boxes.rs\<close>) the numbers read from MP4 boxes; Hls\_Stream (\<open>track.rs\<close>,
  \<open>track_align.rs\<close>, \<open>stream.rs\<close>, \<open>stream_align.rs\<close>) a rung with its rendered playlist and the output as the
  list of its rungs; Hls\_Follow (\<open>follow.rs\<close>, \<open>cutter.rs\<close>) the cutters. Hls\_Ring\_Run is the invariant of a ring,
  kept by every operation; Hls\_Run the relation of all that is done to a stream, which keeps every ring well
  formed, with the invariant that its tracks are in step. Hls\_Properties, Hls\_Serving, Hls\_Cache and Hls\_Numbers show that rings stay well formed,
  that two tracks never give one number to two discontinuities, that a player hears the segments a playlist
  lists, that who waited is served, that the target duration holds, that a shared text is current but for the reports of other rungs, what
  settings allow, that boxes are read back and that what waits for the picture is bounded. The numbers, 64
  and 32 bits wide, are taken to last (\<open>msn_left\<close>, \<open>init_left\<close>, \<open>version_left\<close>). Two flags of a run
  restrict it for two claims: tracks are shown to agree where no empty track is numbered by its own time
  after a break, and a playlist to be understood where besides every break found all tracks cut or none
  (\<open>even_cut\<close>). Both can happen otherwise; Hls\_Numbers evaluates what then becomes of the numbers, and the
  other claims are about every run.

  \<^bold>\<open>Termination.\<close> Every definition is total. The loops whose end is not structural are the walk of a
  plan's chain (Plan\_Graph), the chain of a source's backups (Failover, by the backups named and not yet
  visited), the bounded walk of the check for loops (Backup) and the walk over boxes (Hls\_Boxes, by the
  bytes left), each with its measure; no fuel is used.

  \<^bold>\<open>Not modelled.\<close> What a GStreamer element does, pads and their offsets, the threads that take elements
  down, operating system counters, files, TOML and JSON text are outside the model: a reading, a
  calibration record, what is installed, the answer of a station, what GStreamer can make and the numbers
  of a cost model are parameters. Of the renditions, attaching a consumer to a tap, the calibration
  thread of \<open>station.rs\<close> and logging are left out, and a hash map is walked in the order of insertion.
  Of a take, the cut between its check and its record is left out: a run of the guard is a sequence of its
  calls, in any order. Waits are finite numbers, and an instant is an
  integer, so that one before the start of the clock can be named where the code falls back to now.
  Of HLS, MPEG-TS renditions, viewers, signed links, the multivariant playlist and the DASH manifest as
  text, the digits of a number of seconds and the waking of requests are left out; a writer holds its track
  for as long as the track is in the stream, and a part is kept whole rather than shared.
  The rest of the mixer thread, inputs and outputs, scenes, plugins, the servers and the clients are not
  modelled: they drive GStreamer, processes, sockets and files.
\<close>

end
